(* ===== verification/Prelude.thy ===== *)
theory Prelude
  imports Main "HOL-Library.Product_Lexorder" "HOL-Library.List_Lexorder" "HOL-Library.Char_ord"
begin

text \<open>
  What every component shares: time, the exceptions of the program, the error monad, loops
  over fetched rows, and SQL tables.

  \<^item> Time. A \<open>datetime\<close> is an integer number of microseconds since the epoch, in UTC. The program
    stores \<open>isoformat()\<close> texts of UTC datetimes and compares them as texts in SQL; that order is
    the order of the integers. A NULL column is \<open>None\<close>.
  \<^item> Exceptions. A function that may raise returns \<open>exn + 'a\<close>. The services open a transaction
    with BEGIN IMMEDIATE and roll it back on every exception, so \<open>Inl e\<close> carries no state.
  \<^item> Tables. A table is its rows in rowid order and the AUTOINCREMENT counter.
\<close>

named_theorems sql \<open>rewrite rules for table statements\<close>
named_theorems keeps \<open>what an operation leaves unchanged\<close>

declare if_image_distrib [simp del]

subsection \<open>Time\<close>

type_synonym time = int

definition seconds :: "int \<Rightarrow> time" where
  "seconds n = n * 1000000"

definition minutes :: "int \<Rightarrow> time" where
  "minutes n = seconds (n * 60)"

definition hours :: "int \<Rightarrow> time" where
  "hours n = minutes (n * 60)"

text \<open>Python's \<open>int(delta.total_seconds())\<close>: truncation towards zero.\<close>

definition whole_seconds :: "time \<Rightarrow> int" where
  "whole_seconds d = (if 0 \<le> d then d div 1000000 else - ((- d) div 1000000))"

lemma whole_seconds_nonneg [simp]: "0 \<le> d \<Longrightarrow> 0 \<le> whole_seconds d"
  by (simp add: whole_seconds_def)

lemma whole_seconds_zero [simp]: "whole_seconds 0 = 0"
  by (simp add: whole_seconds_def)

lemma whole_seconds_le: "0 \<le> d \<Longrightarrow> whole_seconds d * 1000000 \<le> d"
  by (simp add: whole_seconds_def)

lemma whole_seconds_neg: "d \<le> 0 \<Longrightarrow> whole_seconds d \<le> 0"
  by (cases "d = 0") (simp_all add: whole_seconds_def pos_imp_zdiv_nonneg_iff)

lemma whole_seconds_mono:
  assumes "a \<le> b"
  shows "whole_seconds a \<le> whole_seconds b"
proof (cases "0 \<le> b")
  case True
  show ?thesis
  proof (cases "0 \<le> a")
    case True
    with assms show ?thesis by (simp add: whole_seconds_def zdiv_mono1)
  next
    case False
    then have "whole_seconds a \<le> 0" by (simp add: whole_seconds_neg)
    also have "0 \<le> whole_seconds b" using True by simp
    finally show ?thesis .
  qed
next
  case False
  with assms show ?thesis by (simp add: whole_seconds_def zdiv_mono1)
qed

text \<open>Python's \<open>max(lo, min(hi, v))\<close>, the bound put on every setting.\<close>

definition clamp :: "int \<Rightarrow> int \<Rightarrow> int \<Rightarrow> int" where
  "clamp lo hi v = max lo (min hi v)"

lemma clamp_bounds: "lo \<le> hi \<Longrightarrow> lo \<le> clamp lo hi v \<and> clamp lo hi v \<le> hi"
  by (simp add: clamp_def)

lemma clamp_ge [simp]: "lo \<le> clamp lo hi v"
  by (simp add: clamp_def)

lemma clamp_le: "lo \<le> hi \<Longrightarrow> clamp lo hi v \<le> hi"
  by (simp add: clamp_def)

subsection \<open>Exceptions and the error monad\<close>

datatype exn =
    ValueError string
  | LookupError string
  | RuntimeError string
  | TypeError string
  | IntegrityError string
  | WalletInUse string
  | WalletLocked
  | PayoutQuotaExceeded int
  | DuplicateCredential
  | ProxyQuotaExceeded int
  | ProxyImportLimitExceeded
  | ProxyParseError string
  | UnsafeProxyTarget string
  | SwapReconciliationPending string
  | ProxiwareAPIError string
  | SyncAlreadyRunning
  | SyncCancelled
  | SyncLeaseLost

type_synonym 'a result = "exn + 'a"

fun bindR :: "'e + 'a \<Rightarrow> ('a \<Rightarrow> 'e + 'b) \<Rightarrow> 'e + 'b" where
  "bindR (Inl e) f = Inl e"
| "bindR (Inr a) f = f a"

lemma bindR_Inr_iff: "bindR m f = Inr b \<longleftrightarrow> (\<exists>a. m = Inr a \<and> f a = Inr b)"
  by (cases m) auto

lemma bindR_Inl_iff: "bindR m f = Inl e \<longleftrightarrow> m = Inl e \<or> (\<exists>a. m = Inr a \<and> f a = Inl e)"
  by (cases m) auto

lemma bindR_cong [fundef_cong]:
  "m = m' \<Longrightarrow> (\<And>a. m' = Inr a \<Longrightarrow> f a = g a) \<Longrightarrow> bindR m f = bindR m' g"
  by (cases m') auto

text \<open>The early exit \<open>if c: raise e\<close>.\<close>

definition guardR :: "bool \<Rightarrow> 'e \<Rightarrow> 'e + unit" where
  "guardR ok e = (if ok then Inr () else Inl e)"

lemma guardR_simps [simp]: "guardR True e = Inr ()" "guardR False e = Inl e"
  by (simp_all add: guardR_def)

lemma guardR_Inr_iff: "guardR c e = Inr u \<longleftrightarrow> c"
  by (simp add: guardR_def)

lemma bindR_guardR: "bindR (guardR c e) f = (if c then f () else Inl e)"
  by (simp add: guardR_def)

text \<open>A loop over rows that were fetched before it starts, stopping at the first exception.\<close>

fun foldR :: "('s \<Rightarrow> 'x \<Rightarrow> 'e + 's) \<Rightarrow> 's \<Rightarrow> 'x list \<Rightarrow> 'e + 's" where
  "foldR f s [] = Inr s"
| "foldR f s (x # xs) = bindR (f s x) (\<lambda>s'. foldR f s' xs)"

lemma foldR_invariant:
  assumes "foldR f s xs = Inr s'" and "I s"
    and "\<And>s x s'. x \<in> set xs \<Longrightarrow> I s \<Longrightarrow> f s x = Inr s' \<Longrightarrow> I s'"
  shows "I s'"
  using assms
proof (induction xs arbitrary: s)
  case Nil
  then show ?case by simp
next
  case (Cons x xs)
  from Cons.prems(1) obtain s1 where s1: "f s x = Inr s1" "foldR f s1 xs = Inr s'"
    by (auto simp: bindR_Inr_iff)
  have "I s1" using Cons.prems(2,3) s1(1) by (meson list.set_intros(1))
  then show ?case
    using Cons.IH [OF s1(2)] Cons.prems(3) by (meson list.set_intros(2))
qed

lemma foldR_invariant_rest:
  assumes "foldR f s xs = Inr s'" and "I s xs"
    and "\<And>s x ys s'. I s (x # ys) \<Longrightarrow> f s x = Inr s' \<Longrightarrow> I s' ys"
  shows "I s' []"
  using assms by (induction xs arbitrary: s) (auto simp: bindR_Inr_iff)

lemma foldR_total_rest:
  assumes "I s xs"
    and "\<And>s x ys. I s (x # ys) \<Longrightarrow> \<exists>s'. f s x = Inr s' \<and> I s' ys"
  shows "\<exists>s'. foldR f s xs = Inr s'"
  using assms(1)
proof (induction xs arbitrary: s)
  case Nil
  then show ?case by simp
next
  case (Cons x xs)
  then obtain s1 where "f s x = Inr s1" "I s1 xs" using assms(2) by blast
  with Cons.IH [of s1] show ?case by simp
qed

lemma foldR_relation:
  assumes "foldR f s xs = Inr s'" and "\<And>s. R s s"
    and "\<And>a b c. R a b \<Longrightarrow> R b c \<Longrightarrow> R a c"
    and "\<And>s x s'. x \<in> set xs \<Longrightarrow> f s x = Inr s' \<Longrightarrow> R s s'"
  shows "R s s'"
  by (rule foldR_invariant [where I = "R s" and f = f and s = s and xs = xs])
    (use assms in \<open>blast+\<close>)

lemma foldR_append: "foldR f s (xs @ ys) = bindR (foldR f s xs) (\<lambda>s'. foldR f s' ys)"
proof (induction xs arbitrary: s)
  case Nil
  then show ?case by simp
next
  case (Cons x xs)
  then show ?case by (cases "f s x") auto
qed

subsection \<open>Tables\<close>

record 'r table =
  rows :: "'r list"
  seq :: int

definition empty_table :: "'r table" where
  "empty_table = \<lparr>rows = [], seq = 0\<rparr>"

definition update_where :: "('r \<Rightarrow> bool) \<Rightarrow> ('r \<Rightarrow> 'r) \<Rightarrow> 'r table \<Rightarrow> 'r table" where
  "update_where P f t = t\<lparr>rows := map (\<lambda>r. if P r then f r else r) (rows t)\<rparr>"

definition delete_where :: "('r \<Rightarrow> bool) \<Rightarrow> 'r table \<Rightarrow> 'r table" where
  "delete_where P t = t\<lparr>rows := filter (\<lambda>r. \<not> P r) (rows t)\<rparr>"

definition select_where :: "('r \<Rightarrow> bool) \<Rightarrow> 'r table \<Rightarrow> 'r list" where
  "select_where P t = filter P (rows t)"

text \<open>\<open>fetchone()\<close> of an unordered SELECT: the first matching row in rowid order.\<close>

definition select_one :: "('r \<Rightarrow> bool) \<Rightarrow> 'r table \<Rightarrow> 'r option" where
  "select_one P t = List.find P (rows t)"

definition count_where :: "('r \<Rightarrow> bool) \<Rightarrow> 'r table \<Rightarrow> int" where
  "count_where P t = int (length (filter P (rows t)))"

definition exists_where :: "('r \<Rightarrow> bool) \<Rightarrow> 'r table \<Rightarrow> bool" where
  "exists_where P t = list_ex P (rows t)"

definition sum_where :: "('r \<Rightarrow> bool) \<Rightarrow> ('r \<Rightarrow> int) \<Rightarrow> 'r table \<Rightarrow> int" where
  "sum_where P g t = sum_list (map g (filter P (rows t)))"

text \<open>INSERT: the new row gets the next AUTOINCREMENT id.\<close>

definition insert_row :: "(int \<Rightarrow> 'r) \<Rightarrow> 'r table \<Rightarrow> 'r table" where
  "insert_row mk t = \<lparr>rows = rows t @ [mk (seq t + 1)], seq = seq t + 1\<rparr>"

text \<open>Primary keys are distinct and never exceed the counter.\<close>

definition wf_table :: "('r \<Rightarrow> int) \<Rightarrow> 'r table \<Rightarrow> bool" where
  "wf_table rid t \<longleftrightarrow> distinct (map rid (rows t)) \<and> (\<forall>r \<in> set (rows t). rid r \<le> seq t)"

lemma rows_update_where [sql, simp]:
  "rows (update_where P f t) = map (\<lambda>r. if P r then f r else r) (rows t)"
  by (simp add: update_where_def)

lemma seq_update_where [sql, simp]: "seq (update_where P f t) = seq t"
  by (simp add: update_where_def)

lemma rows_delete_where [sql, simp]: "rows (delete_where P t) = filter (\<lambda>r. \<not> P r) (rows t)"
  by (simp add: delete_where_def)

lemma seq_delete_where [sql, simp]: "seq (delete_where P t) = seq t"
  by (simp add: delete_where_def)

lemma rows_insert_row [sql, simp]: "rows (insert_row mk t) = rows t @ [mk (seq t + 1)]"
  by (simp add: insert_row_def)

lemma seq_insert_row [sql, simp]: "seq (insert_row mk t) = seq t + 1"
  by (simp add: insert_row_def)

lemma rows_empty_table [simp]: "rows empty_table = []" "seq empty_table = 0"
  by (simp_all add: empty_table_def)

lemma set_select_where [simp]: "set (select_where P t) = {r \<in> set (rows t). P r}"
  by (simp add: select_where_def)

lemma exists_where_iff: "exists_where P t \<longleftrightarrow> (\<exists>r \<in> set (rows t). P r)"
  by (simp add: exists_where_def list_ex_iff)

lemma select_one_SomeD: "select_one P t = Some r \<Longrightarrow> r \<in> set (rows t) \<and> P r"
  unfolding select_one_def by (auto simp: find_Some_iff)

lemma select_one_None_iff: "select_one P t = None \<longleftrightarrow> (\<forall>r \<in> set (rows t). \<not> P r)"
  unfolding select_one_def by (auto simp: find_None_iff)

lemma wf_table_empty [simp]: "wf_table rid empty_table"
  by (simp add: wf_table_def)

lemma map_if_key:
  "(\<And>r. rid (f r) = rid r) \<Longrightarrow> map (rid \<circ> (\<lambda>r. if P r then f r else r)) xs = map rid xs"
  by (induction xs) auto

lemma wf_table_update:
  "wf_table rid t \<Longrightarrow> (\<And>r. rid (f r) = rid r) \<Longrightarrow> wf_table rid (update_where P f t)"
  by (auto simp: wf_table_def map_if_key)

lemma wf_table_delete: "wf_table rid t \<Longrightarrow> wf_table rid (delete_where P t)"
  by (auto simp: wf_table_def distinct_map_filter)

lemma wf_table_insert:
  "wf_table rid t \<Longrightarrow> rid (mk (seq t + 1)) = seq t + 1 \<Longrightarrow> wf_table rid (insert_row mk t)"
  by (fastforce simp: wf_table_def)

lemma wf_table_unique:
  "wf_table rid t \<Longrightarrow> a \<in> set (rows t) \<Longrightarrow> b \<in> set (rows t) \<Longrightarrow> rid a = rid b \<Longrightarrow> a = b"
  unfolding wf_table_def by (meson distinct_map inj_onD)

lemma wf_table_find:
  assumes "wf_table rid t" and "r \<in> set (rows t)"
  shows "select_one (\<lambda>x. rid x = rid r) t = Some r"
proof (cases "select_one (\<lambda>x. rid x = rid r) t")
  case None
  then show ?thesis using assms(2) by (auto simp: select_one_None_iff)
next
  case (Some x)
  then have "x \<in> set (rows t)" and "rid x = rid r"
    using select_one_SomeD [OF Some] by auto
  then show ?thesis
    using Some wf_table_unique [OF assms(1) _ assms(2), of x] by simp
qed

lemma sum_list_map_if_le:
  fixes g :: "'r \<Rightarrow> int"
  assumes "\<And>r. r \<in> set xs \<Longrightarrow> h r \<le> g r"
  shows "sum_list (map h xs) \<le> sum_list (map g xs)"
  using assms by (simp add: sum_list_mono)

lemma sum_where_as_sum_list:
  "sum_where P g t = sum_list (map (\<lambda>r. if P r then g r else 0) (rows t))"
  unfolding sum_where_def by (induction "rows t" arbitrary: t) (simp_all add: sum_list_map_filter')

lemma sum_where_mono:
  assumes "\<And>r. r \<in> set (rows t) \<Longrightarrow> P r \<Longrightarrow> Q r" and "\<And>r. r \<in> set (rows t) \<Longrightarrow> 0 \<le> g r"
  shows "sum_where P g t \<le> sum_where Q g t"
  unfolding sum_where_as_sum_list by (rule sum_list_map_if_le) (use assms in auto)

lemma sum_where_update:
  "sum_where P g (update_where Q f t)
    = sum_list (map (\<lambda>r. if P (if Q r then f r else r) then g (if Q r then f r else r) else 0) (rows t))"
  unfolding sum_where_as_sum_list by (simp add: comp_def)

lemma sum_where_insert:
  "sum_where P g (insert_row mk t)
    = sum_where P g t + (if P (mk (seq t + 1)) then g (mk (seq t + 1)) else 0)"
  by (simp add: sum_where_def)

lemma sum_where_cong_rows:
  "(\<And>r. r \<in> set (rows t) \<Longrightarrow> P r = Q r) \<Longrightarrow> sum_where P g t = sum_where Q g t"
  unfolding sum_where_def by (metis (no_types, lifting) filter_cong)

lemma count_where_nonneg [simp]: "0 \<le> count_where P t"
  by (simp add: count_where_def)

lemma count_where_insert:
  "count_where P (insert_row mk t) = count_where P t + (if P (mk (seq t + 1)) then 1 else 0)"
  by (simp add: count_where_def)

text \<open>A key picks at most one row.\<close>

lemma filter_key:
  assumes "distinct (map rid xs)" and "p \<in> set xs"
  shows "filter (\<lambda>x. rid x = rid p \<and> C x) xs = (if C p then [p] else [])"
  using assms
proof (induction xs)
  case Nil
  then show ?case by simp
next
  case (Cons x xs)
  show ?case
  proof (cases "x = p")
    case True
    then have "\<forall>y \<in> set xs. rid y \<noteq> rid p" using Cons.prems(1) by (auto simp: image_iff)
    then have "filter (\<lambda>y. rid y = rid p \<and> C y) xs = []" by (auto simp: filter_empty_conv)
    then show ?thesis using True by simp
  next
    case False
    then have "p \<in> set xs" using Cons.prems(2) by simp
    moreover from this have "rid x \<noteq> rid p" using Cons.prems(1) by (auto simp: image_iff)
    ultimately show ?thesis using Cons by simp
  qed
qed

lemma count_key:
  assumes "wf_table rid t" and "p \<in> set (rows t)"
  shows "count_where (\<lambda>x. rid x = rid p \<and> C x) t = (if C p then 1 else 0)"
  using assms filter_key [of rid "rows t" p C] by (simp add: wf_table_def count_where_def)

text \<open>One row of a sum.\<close>

lemma sum_list_split_row:
  fixes g :: "'r \<Rightarrow> int"
  assumes "distinct (map rid xs)" and "p \<in> set xs"
  shows "sum_list (map g xs) = sum_list (map (\<lambda>r. if rid r = rid p then 0 else g r) xs) + g p"
  using assms
proof (induction xs)
  case Nil
  then show ?case by simp
next
  case (Cons x xs)
  show ?case
  proof (cases "rid x = rid p")
    case True
    then have "x = p" and o: "\<forall>y \<in> set xs. rid y \<noteq> rid p"
      using Cons.prems by (auto simp: image_iff)
    moreover have "sum_list (map (\<lambda>r. if rid r = rid p then 0 else g r) xs) = sum_list (map g xs)"
      by (rule arg_cong [where f = sum_list], rule map_cong) (use o in auto)
    ultimately show ?thesis using True by simp
  next
    case False
    then show ?thesis using Cons by auto
  qed
qed

end
