(* ===== verification/Py_Text.thy ===== *)
theory Py_Text
  imports Prelude
begin

text \<open>
  The text operations of the Python standard library that the sources use, on strings whose
  characters are the code points below 256: \<open>strip\<close>, \<open>lower\<close>, \<open>upper\<close>, \<open>isdigit\<close>, \<open>isalpha\<close>,
  \<open>split\<close>, the integer parser \<open>int(text)\<close> and \<open>int(text, 16)\<close>, and SQL's \<open>trim\<close>.
  (\<open>upper\<close> maps sharp s to SS; the micro sign and y with diaeresis, whose capitals lie outside
  this range, stay as they are.)
\<close>

definition code :: "char \<Rightarrow> nat" where
  "code c = of_char c"

definition is_space :: "char \<Rightarrow> bool" where
  "is_space c = (let n = code c in (9 \<le> n \<and> n \<le> 13) \<or> (28 \<le> n \<and> n \<le> 32) \<or> n = 133 \<or> n = 160)"

definition is_control :: "char \<Rightarrow> bool" where
  "is_control c = (let n = code c in n < 32 \<or> n = 127)"

definition is_digit :: "char \<Rightarrow> bool" where
  "is_digit c = (let n = code c in 48 \<le> n \<and> n \<le> 57)"

definition is_hex :: "char \<Rightarrow> bool" where
  "is_hex c = (let n = code c in (48 \<le> n \<and> n \<le> 57) \<or> (97 \<le> n \<and> n \<le> 102))"

definition is_alpha :: "char \<Rightarrow> bool" where
  "is_alpha c = (let n = code c in (65 \<le> n \<and> n \<le> 90) \<or> (97 \<le> n \<and> n \<le> 122)
     \<or> n = 170 \<or> n = 181 \<or> n = 186 \<or> (192 \<le> n \<and> n \<noteq> 215 \<and> n \<noteq> 247))"

definition lower_char :: "char \<Rightarrow> char" where
  "lower_char c = (let n = code c in
     if (65 \<le> n \<and> n \<le> 90) \<or> (192 \<le> n \<and> n \<le> 222 \<and> n \<noteq> 215) then char_of (n + 32) else c)"

definition upper_char :: "char \<Rightarrow> string" where
  "upper_char c = (let n = code c in
     if (97 \<le> n \<and> n \<le> 122) \<or> (224 \<le> n \<and> n \<le> 254 \<and> n \<noteq> 247) then [char_of (n - 32)]
     else if n = 223 then ''SS'' else [c])"

definition lower :: "string \<Rightarrow> string" where
  "lower s = map lower_char s"

definition upper :: "string \<Rightarrow> string" where
  "upper s = concat (map upper_char s)"

definition rstrip_by :: "(char \<Rightarrow> bool) \<Rightarrow> string \<Rightarrow> string" where
  "rstrip_by P s = rev (dropWhile P (rev s))"

definition strip_by :: "(char \<Rightarrow> bool) \<Rightarrow> string \<Rightarrow> string" where
  "strip_by P s = rstrip_by P (dropWhile P s)"

definition strip :: "string \<Rightarrow> string" where
  "strip s = strip_by is_space s"

definition sql_trim :: "string \<Rightarrow> string" where
  "sql_trim s = strip_by (\<lambda>c. c = CHR '' '') s"

definition or_empty :: "string option \<Rightarrow> string" where
  "or_empty s = (case s of None \<Rightarrow> '''' | Some x \<Rightarrow> x)"

text \<open>\<open>s.split(sep)\<close> for a one-character separator; the result is never empty.\<close>

fun split_on :: "char \<Rightarrow> string \<Rightarrow> string list" where
  "split_on c [] = [[]]"
| "split_on c (x # xs) =
     (if x = c then [] # split_on c xs
      else case split_on c xs of [] \<Rightarrow> [[x]] | w # ws \<Rightarrow> (x # w) # ws)"

fun join_with :: "string \<Rightarrow> string list \<Rightarrow> string" where
  "join_with sep [] = ''''"
| "join_with sep [w] = w"
| "join_with sep (w # v # ws) = w @ sep @ join_with sep (v # ws)"

text \<open>\<open>s.split(c, 1)\<close> and \<open>s.rsplit(c, 1)\<close> where \<open>c\<close> occurs: what precedes and follows it.\<close>

definition split_first :: "char \<Rightarrow> string \<Rightarrow> string \<times> string" where
  "split_first c s = (takeWhile (\<lambda>x. x \<noteq> c) s, drop 1 (dropWhile (\<lambda>x. x \<noteq> c) s))"

definition split_last :: "char \<Rightarrow> string \<Rightarrow> string \<times> string" where
  "split_last c s = (let (a, b) = split_first c (rev s) in (rev b, rev a))"

definition starts_with :: "string \<Rightarrow> string \<Rightarrow> bool" where
  "starts_with p s \<longleftrightarrow> take (length p) s = p"

subsection \<open>Integers\<close>

definition digit_value :: "char \<Rightarrow> int" where
  "digit_value c = int (code c) - 48"

definition digits_value :: "string \<Rightarrow> int" where
  "digits_value s = foldl (\<lambda>v c. 10 * v + digit_value c) 0 s"

definition hex_value :: "char \<Rightarrow> int" where
  "hex_value c = (if is_digit c then int (code c) - 48 else int (code c) - 87)"

definition hexs_value :: "string \<Rightarrow> int" where
  "hexs_value s = foldl (\<lambda>v c. 16 * v + hex_value c) 0 s"

text \<open>Single underscores between digits are accepted, at the ends they are not.\<close>

fun underscores_ok :: "(char \<Rightarrow> bool) \<Rightarrow> string \<Rightarrow> bool" where
  "underscores_ok D [] = False"
| "underscores_ok D [c] = D c"
| "underscores_ok D (c # d # s) = (if D c then underscores_ok D (d # s) \<or> (d = CHR ''_'' \<and> underscores_ok D s) else False)"

definition drop_underscores :: "string \<Rightarrow> string" where
  "drop_underscores s = filter (\<lambda>c. c \<noteq> CHR ''_'') s"

text \<open>\<open>int(text)\<close>: blanks stripped, an optional sign, digits; at most 4300 digits.\<close>

definition py_int :: "string \<Rightarrow> int option" where
  "py_int s =
     (let t = strip s;
          (neg, body) = (case t of [] \<Rightarrow> (False, [])
             | c # r \<Rightarrow> if c = CHR ''-'' then (True, r) else if c = CHR ''+'' then (False, r) else (False, t));
          ds = drop_underscores body
      in if underscores_ok is_digit body \<and> length ds \<le> 4300
         then Some (if neg then - digits_value ds else digits_value ds) else None)"

text \<open>\<open>int(text, 16)\<close> for a text that starts with 0x.\<close>

definition py_int16 :: "string \<Rightarrow> int option" where
  "py_int16 s =
     (let body = drop 2 (rstrip_by is_space (lower s));
          ds = (case body of [] \<Rightarrow> [] | c # r \<Rightarrow> if c = CHR ''_'' then r else body)
      in if underscores_ok is_hex ds then Some (hexs_value (drop_underscores ds)) else None)"

text \<open>\<open>str(n)\<close>.\<close>

fun show_nat :: "nat \<Rightarrow> string" where
  "show_nat n = (if n < 10 then [char_of (48 + n)] else show_nat (n div 10) @ [char_of (48 + n mod 10)])"

declare show_nat.simps [simp del]

definition show_int :: "int \<Rightarrow> string" where
  "show_int i = (if i < 0 then CHR ''-'' # show_nat (nat (- i)) else show_nat (nat i))"

subsection \<open>Facts\<close>

lemma lower_idem_char: "lower_char (lower_char c) = lower_char c"
proof -
  have "\<forall>n < 256. (let m = if (65 \<le> n \<and> n \<le> 90) \<or> (192 \<le> n \<and> n \<le> 222 \<and> n \<noteq> 215) then n + 32 else (n::nat)
      in \<not> ((65 \<le> m \<and> m \<le> 90) \<or> (192 \<le> m \<and> m \<le> 222 \<and> m \<noteq> 215)) \<and> m < 256)"
    by (auto simp: Let_def)
  moreover have "of_char c < (256::nat)" by simp
  ultimately show ?thesis
    by (auto simp: lower_char_def code_def Let_def of_char_of)
qed

lemma lower_idem [simp]: "lower (lower s) = lower s"
  by (simp add: lower_def lower_idem_char)

lemma length_lower [simp]: "length (lower s) = length s"
  by (simp add: lower_def)

lemma strip_Nil [simp]: "strip [] = []"
  by (simp add: strip_def strip_by_def rstrip_by_def)

lemma or_empty_simps [simp]: "or_empty None = ''''" "or_empty (Some s) = s"
  by (simp_all add: or_empty_def)

lemma split_on_nonempty [simp]: "split_on c s \<noteq> []"
  by (induction c s rule: split_on.induct) (auto split: list.splits)

lemma rstrip_by_last: "rstrip_by P s \<noteq> [] \<Longrightarrow> \<not> P (last (rstrip_by P s))"
  unfolding rstrip_by_def by (metis hd_dropWhile last_rev rev_is_Nil_conv)

lemma dropWhile_idle: "s = [] \<or> \<not> P (hd s) \<Longrightarrow> dropWhile P s = s"
  by (cases s) auto

lemma rstrip_by_prefix: "\<exists>t. s = rstrip_by P s @ t \<and> (\<forall>c \<in> set t. P c)"
proof -
  have "rev s = takeWhile P (rev s) @ dropWhile P (rev s)" by simp
  then have "s = rev (dropWhile P (rev s)) @ rev (takeWhile P (rev s))"
    by (metis rev_append rev_rev_ident)
  then show ?thesis
    unfolding rstrip_by_def by (metis set_rev set_takeWhileD)
qed

lemma strip_by_idem: "strip_by P (strip_by P s) = strip_by P s"
proof -
  let ?u = "dropWhile P s"
  let ?v = "rstrip_by P ?u"
  have "?v = [] \<or> \<not> P (hd ?v)"
    using rstrip_by_prefix [of ?u P] hd_dropWhile [of P s]
    by (metis append_is_Nil_conv hd_append2)
  then have "dropWhile P ?v = ?v" by (rule dropWhile_idle)
  moreover have "rstrip_by P ?v = ?v"
  proof (cases "?v = []")
    case True
    then show ?thesis by (simp add: rstrip_by_def)
  next
    case False
    then have "\<not> P (hd (rev ?v))" using rstrip_by_last [of P ?u] by (simp add: hd_rev)
    then have "dropWhile P (rev ?v) = rev ?v" by (simp add: dropWhile_idle)
    then show ?thesis by (simp add: rstrip_by_def [of P ?v])
  qed
  ultimately show ?thesis by (simp add: strip_by_def)
qed

lemma strip_idem [simp]: "strip (strip s) = strip s"
  by (simp add: strip_def strip_by_idem)

lemma dropWhile_none: "(\<forall>c \<in> set s. \<not> P c) \<Longrightarrow> dropWhile P s = s"
  by (cases s) auto

lemma strip_no_space: "(\<forall>c \<in> set s. \<not> is_space c) \<Longrightarrow> strip s = s"
  by (simp add: strip_def strip_by_def rstrip_by_def dropWhile_none)

end
