(* ===== verification/Schema.thy ===== *)
theory Schema
  imports Py_Text
begin

text \<open>
  The SQLite schema of \<open>app/db.py\<close> and of \<open>app/services/proxiware_swap.py\<close> as records: one record
  per table row, one table per field of \<open>store\<close>. Columns with a closed vocabulary are datatypes with
  the values the code writes; a nullable column is an option; the \<open>provider\<close> column is always
  'proxiware' and is left out.
\<close>

subsection \<open>Vocabularies\<close>

datatype user_status = User_pending | User_active | User_blocked | User_deleted
datatype user_role = Role_user | Role_admin
datatype px_status = Px_pending | Px_online | Px_suspect | Px_offline | Px_blocked | Px_archived
datatype eligibility = El_pending | El_allow | El_risk
datatype attestation = At_none | At_https_quorum | At_earnapp_tls
datatype health_mode = Hm_strong | Hm_fast
datatype bucket = Bk_pending | Bk_available | Bk_expired
datatype payout_status = Po_requested | Po_approved | Po_verifying | Po_confirmed | Po_failed | Po_sent
datatype run_status = Rn_queued | Rn_running | Rn_success | Rn_failed | Rn_canceled

text \<open>A value of a JSON object; fractions and nested values do not occur in the payloads that are read.\<close>

datatype json = J_null | J_bool bool | J_int int | J_str string

datatype swap_state =
  Sw_pending | Sw_running | Sw_mutating | Sw_provider_applied | Sw_reconciliation_required
| Sw_success | Sw_blocked | Sw_failed | Sw_canceled

subsection \<open>Core rows\<close>

record user_row =
  u_id :: int
  u_email :: string
  u_password_hash :: string
  u_role :: user_role
  u_status :: user_status
  u_earn_paused :: bool
  u_session_version :: int
  u_created :: time

record proxy_row =
  p_id :: int
  p_user :: int
  p_host :: string
  p_port :: int
  p_protocol_hint :: string
  p_detected_protocol :: string
  p_username :: string
  p_password :: string
  p_fingerprint :: string
  p_generation :: int
  p_cred_started :: time
  p_status :: px_status
  p_eligibility :: eligibility
  p_verdict :: string
  p_reason :: string
  p_earn_checked :: "time option"
  p_earn_next :: "time option"
  p_earn_claimed_until :: "time option"
  p_earn_token :: "string option"
  p_egress_verified :: "time option"
  p_attestation :: attestation
  p_exit_ip :: "string option"
  p_country :: string
  p_duplicate_of :: "int option"
  p_failures :: int
  p_online_since :: "time option"
  p_offline_since :: "time option"
  p_last_checked :: "time option"
  p_last_success :: "time option"
  p_next_check :: "time option"
  p_check_claimed_until :: "time option"
  p_check_token :: "string option"
  p_health_mode :: health_mode
  p_next_probe :: int
  p_last_endpoint :: string
  p_latency :: "int option"
  p_failure_kind :: string
  p_cursor :: "time option"
  p_probation :: "time option"
  p_online_secs :: int
  p_offline_secs :: int
  p_dead_since :: "time option"
  p_archived :: "time option"
  p_last_error :: string
  p_created :: time
  p_updated :: time

record ledger_row =
  l_id :: int
  l_user :: int
  l_proxy :: int
  l_start :: time
  l_end :: time
  l_micro :: int
  l_bucket :: bucket
  l_created :: time

record wallet_row =
  w_id :: int
  w_user :: int
  w_address :: string
  w_locked_until :: time
  w_updated :: time

record payout_row =
  po_id :: int
  po_user :: int
  po_wallet :: int
  po_address :: string
  po_amount :: int
  po_fee_bps :: int
  po_fee :: int
  po_net :: int
  po_due :: time
  po_status :: payout_status
  po_tx :: string
  po_error :: string
  po_attempts :: int
  po_next :: "time option"
  po_verified :: "time option"
  po_confirmations :: int
  po_block :: "int option"
  po_claimed_until :: "time option"
  po_token :: "string option"
  po_created :: time
  po_updated :: time

subsection \<open>Provider rows\<close>

record sub_row =
  s_id :: int
  s_external :: string
  s_network :: string
  s_location :: string
  s_quantity :: int
  s_expires :: "time option"
  s_auto_renew :: bool
  s_status :: string
  s_eligible_count :: "int option"
  s_connections :: "int option"
  s_metadata :: "(string \<times> json) list"
  s_quota :: int
  s_used :: int
  s_reason :: string
  s_checked :: "time option"
  s_success :: "time option"
  s_first_seen :: "time option"
  s_last_seen :: "time option"
  s_missing :: "time option"
  s_next_observe :: "time option"
  s_created :: time
  s_updated :: time

record asg_row =
  a_id :: int
  a_sub :: int
  a_external :: string
  a_host :: string
  a_port :: int
  a_username :: string
  a_password :: string
  a_country :: string
  a_protocol :: string
  a_status :: string
  a_qualification :: string
  a_provider_eligible :: bool
  a_live :: string
  a_exit_ip :: "string option"
  a_dash_id :: "string option"
  a_dash_eligible :: "bool option"
  a_dash_connections :: "int option"
  a_dash_observed :: "time option"
  a_dash_source :: string
  a_dash_error :: string
  a_last_seen :: "time option"
  a_missing :: "time option"
  a_ready :: "time option"
  a_last_checked :: "time option"
  a_egress_verified :: "time option"
  a_last_error :: string
  a_duplicate :: bool
  a_distribution :: bool
  a_q_next :: "time option"
  a_q_claimed_until :: "time option"
  a_q_token :: "string option"
  a_q_attempts :: int
  a_identity_fp :: string
  a_identity_gen :: int
  a_created :: time
  a_updated :: time

record job_row =
  j_id :: int
  j_sub :: int
  j_old :: "int option"
  j_new :: "int option"
  j_state :: swap_state
  j_reason :: string
  j_error :: string
  j_attempts :: int
  j_token :: "string option"
  j_claimed_until :: "time option"
  j_blocked :: "time option"
  j_mutation_started :: "time option"
  j_applied :: "time option"
  j_reconcile_at :: "time option"
  j_mut_old_external :: "string option"
  j_mut_old_address :: "string option"
  j_mut_dash_id :: "string option"
  j_mut_sub_external :: "string option"
  j_mut_new_external :: "string option"
  j_mut_new_address :: "string option"
  j_created :: time
  j_updated :: time

record mapping_row =
  m_id :: int
  m_job :: int
  m_old_external :: string
  m_new_external :: string
  m_success :: time

text \<open>Runs of the inventory sync, without the columns \<open>provider\<close> and \<open>duration_ms\<close>.\<close>

record run_row =
  rn_id :: int
  rn_started :: time
  rn_finished :: "time option"
  rn_added :: int
  rn_updated :: int
  rn_missing :: int
  rn_errors :: int
  rn_status :: run_status
  rn_error :: string
  rn_message :: string
  rn_token :: "string option"
  rn_claimed_until :: "time option"
  rn_cancel :: bool
  rn_total :: int
  rn_processed :: int

subsection \<open>The database\<close>

record store =
  settings :: "string \<Rightarrow> string option"
  users :: "user_row table"
  proxies :: "proxy_row table"
  ledger :: "ledger_row table"
  wallets :: "wallet_row table"
  payouts :: "payout_row table"
  subs :: "sub_row table"
  asgs :: "asg_row table"
  jobs :: "job_row table"
  mappings :: "mapping_row table"
  runs :: "run_row table"

definition empty_store :: store where
  "empty_store = \<lparr>settings = (\<lambda>_. None), users = empty_table, proxies = empty_table,
     ledger = empty_table, wallets = empty_table, payouts = empty_table, subs = empty_table,
     asgs = empty_table, jobs = empty_table, mappings = empty_table, runs = empty_table\<rparr>"

definition find_user :: "store \<Rightarrow> int \<Rightarrow> user_row option" where
  "find_user s i = select_one (\<lambda>u. u_id u = i) (users s)"

definition find_proxy :: "store \<Rightarrow> int \<Rightarrow> proxy_row option" where
  "find_proxy s i = select_one (\<lambda>p. p_id p = i) (proxies s)"

definition find_payout :: "store \<Rightarrow> int \<Rightarrow> payout_row option" where
  "find_payout s i = select_one (\<lambda>p. po_id p = i) (payouts s)"

definition find_asg :: "store \<Rightarrow> int \<Rightarrow> asg_row option" where
  "find_asg s i = select_one (\<lambda>a. a_id a = i) (asgs s)"

definition find_job :: "store \<Rightarrow> int \<Rightarrow> job_row option" where
  "find_job s i = select_one (\<lambda>j. j_id j = i) (jobs s)"

definition find_sub :: "store \<Rightarrow> int \<Rightarrow> sub_row option" where
  "find_sub s i = select_one (\<lambda>x. s_id x = i) (subs s)"

text \<open>\<open>UPDATE t SET ... WHERE id = i\<close>.\<close>

definition update_proxy :: "int \<Rightarrow> (proxy_row \<Rightarrow> proxy_row) \<Rightarrow> store \<Rightarrow> store" where
  "update_proxy i f s = s\<lparr>proxies := update_where (\<lambda>p. p_id p = i) f (proxies s)\<rparr>"

definition trusted :: "proxy_row \<Rightarrow> bool" where
  "trusted p \<longleftrightarrow> p_attestation p = At_https_quorum \<or> p_attestation p = At_earnapp_tls"

definition has_exit_ip :: "proxy_row \<Rightarrow> bool" where
  "has_exit_ip p \<longleftrightarrow> (case p_exit_ip p of None \<Rightarrow> False | Some ip \<Rightarrow> sql_trim ip \<noteq> '''')"

lemma update_proxy_frame [simp]:
  "ledger (update_proxy i f s) = ledger s" "users (update_proxy i f s) = users s"
  "settings (update_proxy i f s) = settings s" "wallets (update_proxy i f s) = wallets s"
  "payouts (update_proxy i f s) = payouts s" "subs (update_proxy i f s) = subs s"
  "asgs (update_proxy i f s) = asgs s" "jobs (update_proxy i f s) = jobs s"
  "mappings (update_proxy i f s) = mappings s"
  by (simp_all add: update_proxy_def)

lemma proxies_update_proxy [simp]:
  "proxies (update_proxy i f s) = update_where (\<lambda>p. p_id p = i) f (proxies s)"
  by (simp add: update_proxy_def)

end
