(* ===== verification/Settings.thy ===== *)
theory Settings
  imports Schema
begin

text \<open>
  \<open>app/services/settings.py\<close>, the bounded readers of \<open>app/services/checks.py\<close> and
  \<open>app/services/earnings.py\<close>, and the checker form of \<open>app/routes/admin.py\<close>. A setting is a text;
  a reader parses it, falls back to its default and clamps the value.
\<close>

definition get_setting :: "store \<Rightarrow> string \<Rightarrow> string \<Rightarrow> string" where
  "get_setting s key dflt = (case settings s key of None \<Rightarrow> dflt | Some v \<Rightarrow> v)"

definition set_setting :: "string \<Rightarrow> string \<Rightarrow> store \<Rightarrow> store" where
  "set_setting key v s = s\<lparr>settings := (settings s)(key \<mapsto> v)\<rparr>"

definition bounded_int :: "store \<Rightarrow> string \<Rightarrow> int \<Rightarrow> int \<Rightarrow> int \<Rightarrow> int" where
  "bounded_int s key dflt lo hi =
     clamp lo hi (case py_int (get_setting s key (show_int dflt)) of None \<Rightarrow> dflt | Some v \<Rightarrow> v)"

record checker_config =
  health_interval_minutes :: int
  health_concurrency :: int
  health_per_host_concurrency :: int
  health_retry_first_minutes :: int
  health_retry_second_minutes :: int
  health_stale_minutes :: int
  earnapp_refresh_hours :: int

definition checker_settings :: "store \<Rightarrow> checker_config" where
  "checker_settings s = \<lparr>
     health_interval_minutes = bounded_int s ''health_interval_minutes'' 60 15 1440,
     health_concurrency = bounded_int s ''health_concurrency'' 5 1 20,
     health_per_host_concurrency = bounded_int s ''health_per_host_concurrency'' 2 1 3,
     health_retry_first_minutes = bounded_int s ''health_retry_first_minutes'' 5 1 30,
     health_retry_second_minutes = bounded_int s ''health_retry_second_minutes'' 15 2 60,
     health_stale_minutes = bounded_int s ''health_stale_minutes'' 120 60 1440,
     earnapp_refresh_hours = bounded_int s ''earnapp_refresh_hours'' 168 24 720\<rparr>"

text \<open>\<open>earnings._health_stale_minutes\<close> reads the same setting with the same bounds.\<close>

definition earnings_stale_minutes :: "store \<Rightarrow> int" where
  "earnings_stale_minutes s = bounded_int s ''health_stale_minutes'' 120 60 1440"

definition batch_spacing_seconds :: "int \<Rightarrow> int" where
  "batch_spacing_seconds due_count = (if 0 < due_count then 0 else 1)"

text \<open>
  \<open>admin.update_settings\<close>: \<open>None\<close> is the error answer of the form, with nothing written. The
  fields of the form are texts; an absent checkbox is \<open>None\<close>.
\<close>

definition form_int :: "(string \<Rightarrow> string option) \<Rightarrow> string \<Rightarrow> string \<Rightarrow> int option" where
  "form_int form key dflt = py_int (case form key of None \<Rightarrow> dflt | Some v \<Rightarrow> v)"

definition flag_text :: "string option \<Rightarrow> string" where
  "flag_text v = (if or_empty v \<noteq> '''' then ''1'' else ''0'')"

definition update_settings :: "(string \<Rightarrow> string option) \<Rightarrow> store \<Rightarrow> store option" where
  "update_settings form s =
     (case (form_int form ''health_interval_minutes'' ''60'',
            form_int form ''health_concurrency'' ''5'',
            form_int form ''health_per_host_concurrency'' ''2'',
            form_int form ''health_retry_first_minutes'' ''5'',
            form_int form ''health_retry_second_minutes'' ''15'',
            form_int form ''health_stale_minutes'' ''120'') of
       (Some interval, Some concurrency, Some per_host, Some first, Some second, Some stale) \<Rightarrow>
         (let retry_first = max 1 (min 30 first);
              retry_second = max (retry_first + 1) (min 60 second)
          in Some (set_setting ''api_include_risk'' (flag_text (form ''api_include_risk''))
                  (set_setting ''api_include_allow'' (flag_text (form ''api_include_allow''))
                  (set_setting ''health_stale_minutes'' (show_int (clamp 60 1440 stale))
                  (set_setting ''health_retry_second_minutes'' (show_int retry_second)
                  (set_setting ''health_retry_first_minutes'' (show_int retry_first)
                  (set_setting ''health_per_host_concurrency'' (show_int (clamp 1 3 per_host))
                  (set_setting ''health_concurrency'' (show_int (clamp 1 20 concurrency))
                  (set_setting ''health_interval_minutes'' (show_int (clamp 15 1440 interval)) s)))))))))
     | _ \<Rightarrow> None)"

subsection \<open>Facts\<close>

lemma set_setting_frame [simp]:
  "users (set_setting k v s) = users s" "proxies (set_setting k v s) = proxies s"
  "ledger (set_setting k v s) = ledger s" "wallets (set_setting k v s) = wallets s"
  "payouts (set_setting k v s) = payouts s" "subs (set_setting k v s) = subs s"
  "asgs (set_setting k v s) = asgs s" "jobs (set_setting k v s) = jobs s"
  "mappings (set_setting k v s) = mappings s"
  by (simp_all add: set_setting_def)

lemma get_set_setting [simp]:
  "get_setting (set_setting k v s) k' d = (if k' = k then v else get_setting s k' d)"
  by (simp add: get_setting_def set_setting_def)

lemma bounded_int_range: "lo \<le> hi \<Longrightarrow> lo \<le> bounded_int s k d lo hi \<and> bounded_int s k d lo hi \<le> hi"
  by (simp add: bounded_int_def clamp_bounds)

lemma stale_minutes_pos: "60 \<le> earnings_stale_minutes s" "60 \<le> health_stale_minutes (checker_settings s)"
  using bounded_int_range [of 60 1440 s] by (simp_all add: earnings_stale_minutes_def checker_settings_def)

lemma stale_minutes_agree: "health_stale_minutes (checker_settings s) = earnings_stale_minutes s"
  by (simp add: earnings_stale_minutes_def checker_settings_def)

text \<open>Reading a written number back.\<close>

lemma code_char_of: "n < 256 \<Longrightarrow> code (char_of n) = n"
  by (simp add: code_def)

lemma digits_value_snoc: "digits_value (s @ [c]) = 10 * digits_value s + digit_value c"
  by (simp add: digits_value_def)

lemma digits_value_show_nat: "digits_value (show_nat n) = int n"
proof (induction n rule: show_nat.induct)
  case (1 n)
  show ?case
  proof (cases "n < 10")
    case True
    then show ?thesis
      by (subst show_nat.simps) (simp add: digits_value_def digit_value_def code_char_of)
  next
    case False
    have "digits_value (show_nat n) = 10 * int (n div 10) + int (n mod 10)"
      using 1 False by (subst show_nat.simps) (simp add: digits_value_snoc digit_value_def code_char_of)
    also have "\<dots> = int (10 * (n div 10) + n mod 10)" by (simp only: of_nat_add of_nat_mult of_nat_numeral)
    finally show ?thesis by simp
  qed
qed

lemma show_nat_digits: "\<forall>c \<in> set (show_nat n). is_digit c"
proof (induction n rule: show_nat.induct)
  case (1 n)
  show ?case
    using 1 by (subst show_nat.simps) (auto simp: is_digit_def Let_def code_char_of)
qed

lemma show_nat_nonempty [simp]: "show_nat n \<noteq> []"
  by (subst show_nat.simps) simp

lemma length_show_nat: "length (show_nat n) \<le> Suc n"
proof (induction n rule: show_nat.induct)
  case (1 n)
  show ?case
  proof (cases "n < 10")
    case True
    then show ?thesis by (subst show_nat.simps) simp
  next
    case False
    with 1 have "length (show_nat (n div 10)) \<le> Suc (n div 10)" by simp
    then have "length (show_nat n) \<le> Suc (Suc (n div 10))"
      using False by (subst show_nat.simps) simp
    then show ?thesis using False by linarith
  qed
qed

lemma is_digit_not_space: "is_digit c \<Longrightarrow> \<not> is_space c"
  by (auto simp: is_digit_def is_space_def Let_def)

lemma is_digit_not_sign: "is_digit c \<Longrightarrow> c \<noteq> CHR ''-'' \<and> c \<noteq> CHR ''+'' \<and> c \<noteq> CHR ''_''"
  by (auto simp: is_digit_def Let_def code_def)

lemma underscores_ok_all: "s \<noteq> [] \<Longrightarrow> \<forall>c \<in> set s. D c \<Longrightarrow> underscores_ok D s"
  by (induction D s rule: underscores_ok.induct) auto

lemma drop_underscores_digits: "\<forall>c \<in> set s. is_digit c \<Longrightarrow> drop_underscores s = s"
  unfolding drop_underscores_def by (rule filter_True) (use is_digit_not_sign in blast)

lemma py_int_digits:
  assumes "s \<noteq> []" "\<forall>c \<in> set s. is_digit c" "length s \<le> 4300"
  shows "py_int s = Some (digits_value s)"
proof -
  have "strip s = s" using assms(2) is_digit_not_space by (blast intro: strip_no_space)
  moreover obtain c r where "s = c # r" using assms(1) by (cases s) auto
  moreover from this have "c \<noteq> CHR ''-''" "c \<noteq> CHR ''+''"
    using assms(2) is_digit_not_sign [of c] by auto
  ultimately show ?thesis
    using assms underscores_ok_all [OF assms(1,2)] drop_underscores_digits [OF assms(2)]
    by (simp add: py_int_def)
qed

lemma py_int_show_int: "0 \<le> n \<Longrightarrow> n < 4300 \<Longrightarrow> py_int (show_int n) = Some n"
  using py_int_digits [of "show_nat (nat n)"] show_nat_digits [of "nat n"] length_show_nat [of "nat n"]
  by (simp add: show_int_def digits_value_show_nat)

end
