(* ===== verification/Earnings.thy ===== *)
theory Earnings
  imports Settings
begin

text \<open>
  \<open>app/services/earnings.py\<close>: the accrual of confirmed online time into the ledger, the probation
  cycle, and the balances read from it. The invariant \<open>ledger_ok\<close> says that a proxy's ledger
  intervals are nonempty, never overlap, and end before its accrual cursor; it is what keeps an
  interval from being paid twice.
\<close>

subsection \<open>Rates and ledger statements\<close>

definition monthly_rate_for :: "eligibility \<Rightarrow> string \<Rightarrow> int" where
  "monthly_rate_for el country =
     (case el of
        El_allow \<Rightarrow> if upper (strip country) = ''US'' then 1000000 else 500000
      | El_risk \<Rightarrow> 500000
      | El_pending \<Rightarrow> 0)"

definition earning_eligible :: "eligibility \<Rightarrow> bool" where
  "earning_eligible el \<longleftrightarrow> el = El_allow \<or> el = El_risk"

definition same_span :: "ledger_row \<Rightarrow> ledger_row \<Rightarrow> bool" where
  "same_span k l \<longleftrightarrow> l_proxy k = l_proxy l \<and> l_start k = l_start l \<and> l_end k = l_end l"

text \<open>
  \<open>UPDATE earnings_ledger SET bucket = b WHERE P\<close>, under
  \<open>UNIQUE(proxy_id, started_at, ended_at, bucket)\<close>.
\<close>

definition rebucket_conflict :: "(ledger_row \<Rightarrow> bool) \<Rightarrow> bucket \<Rightarrow> store \<Rightarrow> bool" where
  "rebucket_conflict P b s \<longleftrightarrow>
     exists_where (\<lambda>l. P l \<and> exists_where (\<lambda>k. \<not> P k \<and> l_bucket k = b \<and> same_span k l) (ledger s)) (ledger s)"

definition rebucket :: "(ledger_row \<Rightarrow> bool) \<Rightarrow> bucket \<Rightarrow> store \<Rightarrow> store result" where
  "rebucket P b s =
     (if rebucket_conflict P b s then Inl (IntegrityError ''earnings_ledger'')
      else Inr (s\<lparr>ledger := update_where P (\<lambda>l. l\<lparr>l_bucket := b\<rparr>) (ledger s)\<rparr>))"

definition expire_pending_cycle :: "int \<Rightarrow> store \<Rightarrow> store result" where
  "expire_pending_cycle pid s = rebucket (\<lambda>l. l_proxy l = pid \<and> l_bucket l = Bk_pending) Bk_expired s"

definition reset_probation :: "int \<Rightarrow> time \<Rightarrow> store \<Rightarrow> store result" where
  "reset_probation pid at s =
     bindR (expire_pending_cycle pid s) (\<lambda>s1.
       Inr (update_proxy pid (\<lambda>p. p\<lparr>p_probation := Some at, p_cursor := Some at\<rparr>) s1))"

text \<open>INSERT OR IGNORE of one interval; an interval shorter than a second is dropped.\<close>

definition add_ledger_entry ::
  "int \<Rightarrow> int \<Rightarrow> time \<Rightarrow> time \<Rightarrow> int \<Rightarrow> bucket \<Rightarrow> time \<Rightarrow> store \<Rightarrow> store" where
  "add_ledger_entry uid pid started ended rate bk created s =
     (let duration = max 0 (whole_seconds (ended - started));
          amount = (rate * duration) div (720 * 3600)
      in if duration = 0 then s
         else if exists_where (\<lambda>k. l_proxy k = pid \<and> l_start k = started \<and> l_end k = ended
                                   \<and> l_bucket k = bk) (ledger s) then s
         else s\<lparr>ledger := insert_row (\<lambda>i. \<lparr>l_id = i, l_user = uid, l_proxy = pid, l_start = started,
                  l_end = ended, l_micro = amount, l_bucket = bk, l_created = created\<rparr>) (ledger s)\<rparr>)"

definition set_cursor :: "int \<Rightarrow> time \<Rightarrow> store \<Rightarrow> store" where
  "set_cursor pid at s = update_proxy pid (\<lambda>p. p\<lparr>p_cursor := Some at\<rparr>) s"

subsection \<open>Accrual\<close>

text \<open>The rows of the accrual query: the proxy and its user.\<close>

definition accrual_rows :: "store \<Rightarrow> bool \<Rightarrow> int option \<Rightarrow> (proxy_row \<times> user_row) list" where
  "accrual_rows s include_suspect only =
     [(p, u). p \<leftarrow> rows (proxies s), u \<leftarrow> rows (users s),
        u_id u = p_user p \<and> p_archived p = None
        \<and> (p_status p = Px_online \<or> (include_suspect \<and> p_status p = Px_suspect))
        \<and> earning_eligible (p_eligibility p) \<and> p_duplicate_of p = None
        \<and> has_exit_ip p \<and> trusted p
        \<and> (case only of None \<Rightarrow> True | Some i \<Rightarrow> p_id p = i)]"

definition unlock_cycle :: "int \<Rightarrow> time \<Rightarrow> store \<Rightarrow> store result" where
  "unlock_cycle pid probation s =
     rebucket (\<lambda>l. l_proxy l = pid \<and> l_bucket l = Bk_pending \<and> probation \<le> l_start l) Bk_available s"

definition accrue_row :: "time \<Rightarrow> int \<Rightarrow> store \<Rightarrow> proxy_row \<times> user_row \<Rightarrow> store result" where
  "accrue_row current stale s pu = (case pu of (p, u) \<Rightarrow>
     (let cursor = (case p_cursor p of None \<Rightarrow> current | Some c \<Rightarrow> c) in
      case p_last_success p of
        None \<Rightarrow> Inr s
      | Some last_success \<Rightarrow>
          (let end = min current (last_success + minutes stale) in
           if end \<le> cursor then Inr s
           else if u_status u \<noteq> User_active \<or> u_earn_paused u then Inr (set_cursor (p_id p) end s)
           else
             (let rate = monthly_rate_for (p_eligibility p) (p_country p) in
              if rate \<le> 0 then Inr s
              else if max 0 (whole_seconds (end - cursor)) = 0 then Inr s
              else
                (let probation = (case p_probation p of None \<Rightarrow> cursor | Some t \<Rightarrow> t);
                     unlock_at = probation + hours 168;
                     add = (\<lambda>st en bk. add_ledger_entry (p_user p) (p_id p) st en rate bk current)
                 in bindR
                   (if unlock_at \<le> end then
                      bindR (unlock_cycle (p_id p) probation s) (\<lambda>s1.
                        if cursor < unlock_at
                        then Inr (add unlock_at end Bk_available (add cursor unlock_at Bk_available s1))
                        else Inr (add cursor end Bk_available s1))
                    else Inr (add cursor end (if end \<le> unlock_at then Bk_pending else Bk_available) s))
                   (\<lambda>s2. Inr (set_cursor (p_id p) end s2)))))))"

definition accrue_locked :: "time \<Rightarrow> int option \<Rightarrow> bool \<Rightarrow> store \<Rightarrow> store result" where
  "accrue_locked current only include_suspect s =
     foldR (accrue_row current (earnings_stale_minutes s)) s (accrual_rows s include_suspect only)"

definition accrue_eligible_time :: "time \<Rightarrow> store \<Rightarrow> store result" where
  "accrue_eligible_time current s = accrue_locked current None False s"

definition accrue_proxy_time :: "int \<Rightarrow> time \<Rightarrow> store \<Rightarrow> store result" where
  "accrue_proxy_time pid current s = accrue_locked current (Some pid) True s"

subsection \<open>Balances\<close>

record balances =
  pending_micro_usd :: int
  available_micro_usd :: int

definition bucket_sum :: "(ledger_row \<Rightarrow> bool) \<Rightarrow> bucket \<Rightarrow> store \<Rightarrow> int" where
  "bucket_sum P b s = sum_where (\<lambda>l. P l \<and> l_bucket l = b) l_micro (ledger s)"

definition balances_for_user :: "store \<Rightarrow> int \<Rightarrow> balances" where
  "balances_for_user s uid = \<lparr>
     pending_micro_usd = bucket_sum (\<lambda>l. l_user l = uid) Bk_pending s,
     available_micro_usd = bucket_sum (\<lambda>l. l_user l = uid) Bk_available s\<rparr>"

definition earnings_for_proxies :: "store \<Rightarrow> int list \<Rightarrow> (int \<times> balances) list" where
  "earnings_for_proxies s ids = map (\<lambda>i. (i, \<lparr>
     pending_micro_usd = bucket_sum (\<lambda>l. l_proxy l = i) Bk_pending s,
     available_micro_usd = bucket_sum (\<lambda>l. l_proxy l = i) Bk_available s\<rparr>)) (remdups ids)"

definition total_micro_usd :: "balances \<Rightarrow> int" where
  "total_micro_usd b = pending_micro_usd b + available_micro_usd b"

subsection \<open>What the statements leave alone\<close>

lemma rebucket_frame [keeps]:
  assumes "rebucket P b s = Inr s'"
  shows "proxies s' = proxies s" "users s' = users s" "settings s' = settings s"
    "payouts s' = payouts s" "wallets s' = wallets s" "asgs s' = asgs s" "subs s' = subs s"
    "jobs s' = jobs s" "mappings s' = mappings s"
  using assms by (auto simp: rebucket_def split: if_splits)

lemma add_ledger_entry_frame [simp]:
  "proxies (add_ledger_entry u p st en r b c s) = proxies s"
  "users (add_ledger_entry u p st en r b c s) = users s"
  "settings (add_ledger_entry u p st en r b c s) = settings s"
  "payouts (add_ledger_entry u p st en r b c s) = payouts s"
  "wallets (add_ledger_entry u p st en r b c s) = wallets s"
  "asgs (add_ledger_entry u p st en r b c s) = asgs s"
  "subs (add_ledger_entry u p st en r b c s) = subs s"
  "jobs (add_ledger_entry u p st en r b c s) = jobs s"
  "mappings (add_ledger_entry u p st en r b c s) = mappings s"
  by (simp_all add: add_ledger_entry_def Let_def)

subsection \<open>The ledger invariant\<close>

definition entry_ok :: "time \<Rightarrow> ledger_row \<Rightarrow> bool" where
  "entry_ok now l \<longleftrightarrow> l_start l < l_end l \<and> l_end l \<le> now \<and> 0 \<le> l_micro l
     \<and> l_micro l * 2592000 \<le> l_end l - l_start l"

definition apart :: "ledger_row \<Rightarrow> ledger_row \<Rightarrow> bool" where
  "apart k l \<longleftrightarrow> l_id k = l_id l \<or> l_proxy k \<noteq> l_proxy l \<or> l_end k \<le> l_start l \<or> l_end l \<le> l_start k"

definition spans_ok :: "time \<Rightarrow> store \<Rightarrow> bool" where
  "spans_ok now s \<longleftrightarrow> wf_table l_id (ledger s)
     \<and> (\<forall>l \<in> set (rows (ledger s)). entry_ok now l)
     \<and> (\<forall>k \<in> set (rows (ledger s)). \<forall>l \<in> set (rows (ledger s)). apart k l)"

definition spans_end :: "int \<Rightarrow> time \<Rightarrow> store \<Rightarrow> bool" where
  "spans_end pid b s \<longleftrightarrow> (\<forall>l \<in> set (rows (ledger s)). l_proxy l = pid \<longrightarrow> l_end l \<le> b)"

definition cursor_ok :: "store \<Rightarrow> bool" where
  "cursor_ok s \<longleftrightarrow> (\<forall>p \<in> set (rows (proxies s)). \<forall>c. p_cursor p = Some c \<longrightarrow> spans_end (p_id p) c s)"

definition ledger_ok :: "time \<Rightarrow> store \<Rightarrow> bool" where
  "ledger_ok now s \<longleftrightarrow> wf_table u_id (users s) \<and> wf_table p_id (proxies s) \<and> spans_ok now s \<and> cursor_ok s"

lemma ledger_okD:
  assumes "ledger_ok now s"
  shows "wf_table p_id (proxies s)" "spans_ok now s" "cursor_ok s" "wf_table u_id (users s)"
  using assms by (simp_all add: ledger_ok_def)

lemma spans_ok_later: "spans_ok now s \<Longrightarrow> now \<le> now' \<Longrightarrow> spans_ok now' s"
  unfolding spans_ok_def entry_ok_def by force

lemma ledger_ok_later: "ledger_ok now s \<Longrightarrow> now \<le> now' \<Longrightarrow> ledger_ok now' s"
  by (auto simp: ledger_ok_def spans_ok_later)

lemma spans_end_now: "spans_ok now s \<Longrightarrow> spans_end pid now s"
  by (auto simp: spans_ok_def spans_end_def entry_ok_def)

lemma spans_end_later: "spans_end pid b s \<Longrightarrow> b \<le> b' \<Longrightarrow> spans_end pid b' s"
  by (fastforce simp: spans_end_def)

lemma spans_ok_cong: "ledger s' = ledger s \<Longrightarrow> spans_ok now s' = spans_ok now s"
  by (simp add: spans_ok_def)

lemma spans_end_cong: "ledger s' = ledger s \<Longrightarrow> spans_end pid b s' = spans_end pid b s"
  by (simp add: spans_end_def)

text \<open>An operation that leaves the ledger, the proxy ids and the cursors alone keeps the invariant.\<close>

lemma ledger_ok_frame:
  assumes "ledger_ok now s" and "ledger s' = ledger s"
    and "map p_id (rows (proxies s')) = map p_id (rows (proxies s))"
    and "map p_cursor (rows (proxies s')) = map p_cursor (rows (proxies s))"
    and "seq (proxies s') = seq (proxies s)" and "wf_table u_id (users s')"
  shows "ledger_ok now s'"
proof -
  have zip: "map (\<lambda>p. (p_id p, p_cursor p)) (rows (proxies s'))
      = map (\<lambda>p. (p_id p, p_cursor p)) (rows (proxies s))"
    using arg_cong2 [where f = zip, OF assms(3,4)] by (simp add: zip_map_map zip_same_conv_map comp_def)
  have "cursor_ok s'"
    unfolding cursor_ok_def
  proof
    fix p assume "p \<in> set (rows (proxies s'))"
    then have "(p_id p, p_cursor p) \<in> set (map (\<lambda>p. (p_id p, p_cursor p)) (rows (proxies s)))"
      unfolding zip [symmetric] by force
    then obtain q where q: "q \<in> set (rows (proxies s))" "p_id q = p_id p" "p_cursor q = p_cursor p"
      by auto
    then have "\<forall>c. p_cursor q = Some c \<longrightarrow> spans_end (p_id q) c s"
      using assms(1) unfolding ledger_ok_def cursor_ok_def by blast
    then show "\<forall>c. p_cursor p = Some c \<longrightarrow> spans_end (p_id p) c s'"
      using q assms(2) by (simp add: spans_end_def)
  qed
  moreover have "wf_table p_id (proxies s')"
    using assms(1,3,5) unfolding ledger_ok_def wf_table_def by (metis (no_types, lifting) image_iff list.set_map)
  ultimately show ?thesis
    using assms(1,2,6) by (simp add: ledger_ok_def spans_ok_def)
qed

subsection \<open>Ledger statements keep it\<close>

lemma rebucket_ledger:
  "rebucket P b s = Inr s' \<Longrightarrow> ledger s' = update_where P (\<lambda>l. l\<lparr>l_bucket := b\<rparr>) (ledger s)"
  by (auto simp: rebucket_def split: if_splits)

lemma rebucket_spans_end: "rebucket P b s = Inr s' \<Longrightarrow> spans_end pid c s' = spans_end pid c s"
  by (drule rebucket_ledger) (auto simp: spans_end_def)

lemma rebucket_spans_ok:
  assumes "rebucket P b s = Inr s'" and "spans_ok now s"
  shows "spans_ok now s'"
  using assms(2) rebucket_ledger [OF assms(1)]
  by (auto simp: spans_ok_def entry_ok_def apart_def wf_table_update)

lemma rebucket_ledger_ok:
  assumes "rebucket P b s = Inr s'" and "ledger_ok now s"
  shows "ledger_ok now s'"
  using assms(2) rebucket_spans_ok [OF assms(1), of now] rebucket_spans_end [OF assms(1)]
  by (simp add: ledger_ok_def cursor_ok_def rebucket_frame(1,2) [OF assms(1)])

text \<open>Under the invariant no rebucketing can hit the UNIQUE constraint.\<close>

lemma rebucket_total:
  assumes "spans_ok now s"
  shows "\<exists>s'. rebucket P b s = Inr s'"
proof -
  have "\<not> rebucket_conflict P b s"
  proof
    assume "rebucket_conflict P b s"
    then obtain l k where l: "l \<in> set (rows (ledger s))" "P l"
      and k: "k \<in> set (rows (ledger s))" "\<not> P k" "same_span k l"
      by (auto simp: rebucket_conflict_def exists_where_iff)
    have "l_id k \<noteq> l_id l"
      using assms l k wf_table_unique [of l_id "ledger s" k l] by (auto simp: spans_ok_def)
    moreover have "apart k l" and "entry_ok now l"
      using assms l k by (auto simp: spans_ok_def)
    ultimately show False
      using k(3) by (auto simp: apart_def same_span_def entry_ok_def)
  qed
  then show ?thesis by (simp add: rebucket_def)
qed

lemma reset_probation_total: "spans_ok now s \<Longrightarrow> \<exists>s'. reset_probation pid at s = Inr s'"
  using rebucket_total by (fastforce simp: reset_probation_def expire_pending_cycle_def bindR_Inr_iff)

lemma expire_ledger_ok:
  "expire_pending_cycle pid s = Inr s' \<Longrightarrow> ledger_ok now s \<Longrightarrow> ledger_ok now s'"
  unfolding expire_pending_cycle_def by (rule rebucket_ledger_ok)

lemma set_cursor_ledger_ok:
  assumes "wf_table p_id (proxies s)" and "spans_ok now s" and "spans_end pid at s"
    and "wf_table u_id (users s)"
    and "\<forall>p \<in> set (rows (proxies s)). p_id p \<noteq> pid \<longrightarrow>
      (\<forall>c. p_cursor p = Some c \<longrightarrow> spans_end (p_id p) c s)"
    and f: "\<And>p. p_id (f p) = p_id p" "\<And>p. p_cursor (f p) = Some at"
  shows "ledger_ok now (update_proxy pid f s)"
proof -
  have "cursor_ok (update_proxy pid f s)"
    unfolding cursor_ok_def
  proof
    fix q assume "q \<in> set (rows (proxies (update_proxy pid f s)))"
    then obtain p where p: "p \<in> set (rows (proxies s))" "q = (if p_id p = pid then f p else p)"
      by auto
    show "\<forall>c. p_cursor q = Some c \<longrightarrow> spans_end (p_id q) c (update_proxy pid f s)"
    proof (cases "p_id p = pid")
      case True
      with p f assms(3) show ?thesis by (simp add: spans_end_def)
    next
      case False
      with p assms(5) show ?thesis by (simp add: spans_end_def)
    qed
  qed
  then show ?thesis
    using assms(1,2,4) f(1) by (simp add: ledger_ok_def wf_table_update spans_ok_cong [OF update_proxy_frame(1)])
qed

lemma ledger_ok_cursor_reset:
  assumes "ledger_ok now s" and "now \<le> at"
    and "\<And>p. p_id (f p) = p_id p" "\<And>p. p_cursor (f p) = Some at"
  shows "ledger_ok at (update_proxy pid f s)"
proof (rule set_cursor_ledger_ok)
  have ok: "ledger_ok at s" using assms(1,2) by (rule ledger_ok_later)
  show "wf_table p_id (proxies s)" "wf_table u_id (users s)" "spans_ok at s"
    using ok by (simp_all add: ledger_ok_def)
  then show "spans_end pid at s" by (simp add: spans_end_now)
  show "\<forall>p \<in> set (rows (proxies s)). p_id p \<noteq> pid \<longrightarrow>
      (\<forall>c. p_cursor p = Some c \<longrightarrow> spans_end (p_id p) c s)"
    using ok by (simp add: ledger_ok_def cursor_ok_def)
qed (use assms in auto)

lemma reset_ledger_ok:
  assumes "reset_probation pid at s = Inr s'" and "ledger_ok now s" and "now \<le> at"
  shows "ledger_ok at s'"
proof -
  from assms(1) obtain s1 where s1: "expire_pending_cycle pid s = Inr s1"
    and s': "s' = update_proxy pid (\<lambda>p. p\<lparr>p_probation := Some at, p_cursor := Some at\<rparr>) s1"
    by (auto simp: reset_probation_def bindR_Inr_iff)
  show ?thesis
    unfolding s' by (rule ledger_ok_cursor_reset [OF expire_ledger_ok [OF s1 assms(2)] assms(3)]) simp_all
qed

lemma add_ledger_entry_cases:
  obtains "add_ledger_entry u p st en r b c s = s"
  | "whole_seconds (en - st) > 0"
    "ledger (add_ledger_entry u p st en r b c s) = insert_row (\<lambda>i. \<lparr>l_id = i, l_user = u, l_proxy = p,
       l_start = st, l_end = en, l_micro = (r * whole_seconds (en - st)) div 2592000,
       l_bucket = b, l_created = c\<rparr>) (ledger s)"
proof (cases "whole_seconds (en - st) > 0")
  case True
  then show ?thesis
    using that by (cases "add_ledger_entry u p st en r b c s = s")
      (auto simp: add_ledger_entry_def Let_def max_def split: if_splits)
next
  case False
  then have "add_ledger_entry u p st en r b c s = s" by (simp add: add_ledger_entry_def Let_def max_def)
  then show ?thesis by (rule that)
qed

lemma amount_cap:
  assumes "0 \<le> r" "r \<le> 1000000" "0 \<le> d"
  shows "0 \<le> (r * whole_seconds d) div 2592000" "(r * whole_seconds d) div 2592000 * 2592000 \<le> d"
proof -
  have ws: "0 \<le> whole_seconds d" using assms by simp
  then show "0 \<le> (r * whole_seconds d) div 2592000"
    using assms by (simp add: pos_imp_zdiv_nonneg_iff)
  have "(r * whole_seconds d) div 2592000 * 2592000 \<le> r * whole_seconds d"
    using minus_mod_eq_div_mult [of "r * whole_seconds d" 2592000] by simp
  also have "\<dots> \<le> 1000000 * whole_seconds d" using assms ws by (simp add: mult_right_mono)
  also have "\<dots> \<le> d" using whole_seconds_le [OF assms(3)] by simp
  finally show "(r * whole_seconds d) div 2592000 * 2592000 \<le> d" .
qed

lemma add_ledger_entry_ok:
  assumes ok: "spans_ok now s" and pe: "spans_end pid st s" and en: "en \<le> now"
    and r: "0 \<le> r" "r \<le> 1000000"
  shows "spans_ok now (add_ledger_entry uid pid st en r b c s)"
    and "st \<le> en \<Longrightarrow> spans_end pid en (add_ledger_entry uid pid st en r b c s)"
    and "q \<noteq> pid \<Longrightarrow> spans_end q x (add_ledger_entry uid pid st en r b c s) = spans_end q x s"
proof -
  let ?s = "add_ledger_entry uid pid st en r b c s"
  consider "?s = s" | (new) "whole_seconds (en - st) > 0"
    "ledger ?s = insert_row (\<lambda>i. \<lparr>l_id = i, l_user = uid, l_proxy = pid, l_start = st, l_end = en,
       l_micro = (r * whole_seconds (en - st)) div 2592000, l_bucket = b, l_created = c\<rparr>) (ledger s)"
    by (rule add_ledger_entry_cases)
  then show "spans_ok now ?s"
  proof cases
    case 1
    then show ?thesis using ok by simp
  next
    case new
    then have d: "st < en" using whole_seconds_neg [of "en - st"] by linarith
    have "\<forall>l \<in> set (rows (ledger s)). l_id l \<le> seq (ledger s)"
      using ok by (simp add: spans_ok_def wf_table_def)
    then show ?thesis
      using ok pe en d amount_cap [OF r, of "en - st"] new(2)
      by (auto simp: spans_ok_def entry_ok_def apart_def spans_end_def wf_table_insert)
  qed
  show "st \<le> en \<Longrightarrow> spans_end pid en ?s"
    by (rule add_ledger_entry_cases [of uid pid st en r b c s]) (use pe in \<open>fastforce simp: spans_end_def\<close>)+
  show "q \<noteq> pid \<Longrightarrow> spans_end q x ?s = spans_end q x s"
    by (rule add_ledger_entry_cases [of uid pid st en r b c s]) (auto simp: spans_end_def)
qed

end
