(* ===== verification/Samples.thy ===== *)
theory Samples
  imports Schema
begin

text \<open>Small concrete rows, at which the properties of the other theories are instantiated.\<close>

definition sample_user :: "int \<Rightarrow> user_row" where
  "sample_user i = \<lparr>u_id = i, u_email = show_int i @ ''@x'',
     u_password_hash = '''', u_role = Role_user, u_status = User_active, u_earn_paused = False,
     u_session_version = 1, u_created = 0\<rparr>"

text \<open>A confirmed, attested proxy: online since the epoch, last seen alive \<open>t\<close> later.\<close>

definition sample_proxy :: "int \<Rightarrow> int \<Rightarrow> time \<Rightarrow> proxy_row" where
  "sample_proxy i u t = \<lparr>p_id = i, p_user = u, p_host = ''1.2.3.4'', p_port = 8080,
     p_protocol_hint = ''auto'', p_detected_protocol = ''http'', p_username = '''', p_password = '''',
     p_fingerprint = ''f'' @ replicate (nat i) (CHR ''x''), p_generation = 1, p_cred_started = 0,
     p_status = Px_online, p_eligibility = El_allow, p_verdict = ''residential'', p_reason = '''',
     p_earn_checked = Some 0, p_earn_next = None, p_earn_claimed_until = None, p_earn_token = None,
     p_egress_verified = Some 0, p_attestation = At_https_quorum,
     p_exit_ip = Some ''9.9.9.9'', p_country = ''us'', p_duplicate_of = None, p_failures = 0,
     p_online_since = Some 0, p_offline_since = None, p_last_checked = Some t,
     p_last_success = Some t, p_next_check = None, p_check_claimed_until = None,
     p_check_token = None, p_health_mode = Hm_strong, p_next_probe = 0, p_last_endpoint = '''',
     p_latency = None, p_failure_kind = '''', p_cursor = Some 0, p_probation = Some 0,
     p_online_secs = 0, p_offline_secs = 0, p_dead_since = None, p_archived = None,
     p_last_error = '''', p_created = 0, p_updated = 0\<rparr>"

definition sample_store :: "user_row list \<Rightarrow> proxy_row list \<Rightarrow> store" where
  "sample_store us ps = empty_store\<lparr>users := \<lparr>rows = us, seq = int (length us)\<rparr>,
     proxies := \<lparr>rows = ps, seq = int (length ps)\<rparr>\<rparr>"

lemmas sample_defs = sample_user_def sample_proxy_def sample_store_def empty_store_def empty_table_def

end
