(* ===== verification/Accrual.thy ===== *)
theory Accrual
  imports Earnings Samples
begin

text \<open>
  Correctness of the accrual of \<open>app/services/earnings.py\<close>: it keeps the ledger invariant, never
  raises under it, never lowers a balance, is idempotent, and pays nothing to paused or inactive
  users.
\<close>

subsection \<open>One row\<close>

text \<open>The point up to which the row is confirmed, and the reasons to leave a row alone.\<close>

definition row_cursor :: "time \<Rightarrow> proxy_row \<Rightarrow> time" where
  "row_cursor current p = (case p_cursor p of None \<Rightarrow> current | Some c \<Rightarrow> c)"

definition confirmed_until :: "time \<Rightarrow> int \<Rightarrow> proxy_row \<Rightarrow> time option" where
  "confirmed_until current stale p = map_option (\<lambda>t. min current (t + minutes stale)) (p_last_success p)"

definition earning_user :: "user_row \<Rightarrow> bool" where
  "earning_user u \<longleftrightarrow> u_status u = User_active \<and> \<not> u_earn_paused u"

definition settled :: "time \<Rightarrow> int \<Rightarrow> proxy_row \<Rightarrow> user_row \<Rightarrow> bool" where
  "settled current stale p u \<longleftrightarrow>
     (case confirmed_until current stale p of
        None \<Rightarrow> True
      | Some e \<Rightarrow> e \<le> row_cursor current p
          \<or> (earning_user u \<and> (monthly_rate_for (p_eligibility p) (p_country p) \<le> 0
               \<or> whole_seconds (e - row_cursor current p) = 0)))"

lemma monthly_rate_bounds: "0 \<le> monthly_rate_for el c" "monthly_rate_for el c \<le> 1000000"
  by (auto simp: monthly_rate_for_def split: eligibility.splits)

text \<open>The three outcomes of a row: nothing, the cursor alone, or a payment and the cursor.\<close>

definition pay_span :: "time \<Rightarrow> time \<Rightarrow> store \<Rightarrow> proxy_row \<Rightarrow> store result" where
  "pay_span current e s p =
     (let cursor = row_cursor current p;
          rate = monthly_rate_for (p_eligibility p) (p_country p);
          probation = (case p_probation p of None \<Rightarrow> cursor | Some t \<Rightarrow> t);
          unlock_at = probation + hours 168;
          add = (\<lambda>st en bk. add_ledger_entry (p_user p) (p_id p) st en rate bk current)
      in if unlock_at \<le> e then
           bindR (unlock_cycle (p_id p) probation s) (\<lambda>s1.
             if cursor < unlock_at
             then Inr (add unlock_at e Bk_available (add cursor unlock_at Bk_available s1))
             else Inr (add cursor e Bk_available s1))
         else Inr (add cursor e Bk_pending s))"

lemma accrue_row_eq:
  "accrue_row current stale s (p, u) =
     (if settled current stale p u then Inr s
      else case confirmed_until current stale p of
        None \<Rightarrow> Inr s
      | Some e \<Rightarrow>
          if earning_user u
          then bindR (pay_span current e s p) (\<lambda>s2. Inr (set_cursor (p_id p) e s2))
          else Inr (set_cursor (p_id p) e s))"
proof (cases "p_last_success p")
  case None
  then show ?thesis by (simp add: accrue_row_def settled_def confirmed_until_def)
next
  case (Some t)
  define e where "e = min current (t + minutes stale)"
  have pos: "max 0 (whole_seconds (e - row_cursor current p)) = whole_seconds (e - row_cursor current p)"
    if "\<not> e \<le> row_cursor current p"
    using whole_seconds_nonneg [of "e - row_cursor current p"] that by linarith
  show ?thesis
    using Some pos
    by (simp add: accrue_row_def settled_def confirmed_until_def pay_span_def earning_user_def Let_def
        row_cursor_def [symmetric] e_def [symmetric])
qed

lemma set_cursor_frame [simp]:
  "ledger (set_cursor i t s) = ledger s" "users (set_cursor i t s) = users s"
  "settings (set_cursor i t s) = settings s" "payouts (set_cursor i t s) = payouts s"
  "wallets (set_cursor i t s) = wallets s" "asgs (set_cursor i t s) = asgs s"
  "subs (set_cursor i t s) = subs s" "jobs (set_cursor i t s) = jobs s"
  "mappings (set_cursor i t s) = mappings s"
  by (simp_all add: set_cursor_def)

lemma proxies_set_cursor [simp]:
  "proxies (set_cursor i t s) = update_where (\<lambda>p. p_id p = i) (\<lambda>p. p\<lparr>p_cursor := Some t\<rparr>) (proxies s)"
  by (simp add: set_cursor_def)

text \<open>A payment touches the ledger only.\<close>

lemma pay_span_frame [keeps]:
  assumes "pay_span current e s p = Inr s'"
  shows "proxies s' = proxies s" "users s' = users s" "settings s' = settings s"
    "payouts s' = payouts s" "wallets s' = wallets s" "asgs s' = asgs s" "subs s' = subs s"
    "jobs s' = jobs s" "mappings s' = mappings s"
  using assms unfolding pay_span_def Let_def unlock_cycle_def
  by (auto simp: bindR_Inr_iff rebucket_frame split: if_splits)

lemma pay_span_ok:
  assumes pay: "pay_span current e s p = Inr s'"
    and ok: "spans_ok current s" and pe: "spans_end (p_id p) (row_cursor current p) s"
    and ce: "row_cursor current p \<le> e" and e: "e \<le> current"
  shows "spans_ok current s'" "spans_end (p_id p) e s'"
    "q \<noteq> p_id p \<Longrightarrow> spans_end q x s' = spans_end q x s"
proof -
  let ?c = "row_cursor current p"
  let ?r = "monthly_rate_for (p_eligibility p) (p_country p)"
  define pr where "pr = (case p_probation p of None \<Rightarrow> ?c | Some t \<Rightarrow> t)"
  define un where "un = pr + hours 168"
  note add = add_ledger_entry_ok [OF _ _ _ monthly_rate_bounds(1) monthly_rate_bounds(2)]
  consider
    (locked) "s' = add_ledger_entry (p_user p) (p_id p) ?c e ?r Bk_pending current s"
  | (split) s1 where "unlock_cycle (p_id p) pr s = Inr s1" "?c < un" "un \<le> e"
      "s' = add_ledger_entry (p_user p) (p_id p) un e ?r Bk_available current
             (add_ledger_entry (p_user p) (p_id p) ?c un ?r Bk_available current s1)"
  | (open1) s1 where "unlock_cycle (p_id p) pr s = Inr s1"
      "s' = add_ledger_entry (p_user p) (p_id p) ?c e ?r Bk_available current s1"
    using pay unfolding pay_span_def Let_def pr_def un_def
    by (auto simp: bindR_Inr_iff split: if_splits)
  then have "spans_ok current s' \<and> spans_end (p_id p) e s'
      \<and> (q \<noteq> p_id p \<longrightarrow> spans_end q x s' = spans_end q x s)"
  proof cases
    case locked
    then show ?thesis using add [OF ok pe e] ce by simp
  next
    case split
    have ok1: "spans_ok current s1" and pe1: "\<And>i b. spans_end i b s1 = spans_end i b s"
      using split(1) ok rebucket_spans_ok rebucket_spans_end unfolding unlock_cycle_def by blast+
    have un: "un \<le> current" using split(3) e by simp
    note a = add [OF ok1 _ un, of "p_id p" ?c]
    have pe1': "spans_end (p_id p) ?c s1" using pe pe1 by simp
    note b = add [OF a(1) _ e, of "p_id p" "un"]
    show ?thesis
      using a(2,3) [OF pe1'] b split pe1 pe1' by (simp add: less_imp_le)
  next
    case open1
    have ok1: "spans_ok current s1" and pe1: "\<And>i b. spans_end i b s1 = spans_end i b s"
      using open1(1) ok rebucket_spans_ok rebucket_spans_end unfolding unlock_cycle_def by blast+
    then show ?thesis using add [OF ok1 _ e, of "p_id p" ?c] pe ce open1(2) by simp
  qed
  then show "spans_ok current s'" "spans_end (p_id p) e s'"
    "q \<noteq> p_id p \<Longrightarrow> spans_end q x s' = spans_end q x s" by auto
qed

lemma pay_span_total:
  assumes "spans_ok current s"
  shows "\<exists>s'. pay_span current e s p = Inr s'"
proof -
  obtain s1 where "unlock_cycle (p_id p)
      (case p_probation p of None \<Rightarrow> row_cursor current p | Some t \<Rightarrow> t) s = Inr s1"
    using rebucket_total [OF assms] unfolding unlock_cycle_def by blast
  then show ?thesis by (simp add: pay_span_def Let_def)
qed

lemma accrue_row_ledger_ok:
  assumes run: "accrue_row current stale s (p, u) = Inr s'"
    and ok: "ledger_ok current s" and p: "p \<in> set (rows (proxies s))"
  shows "ledger_ok current s'"
proof (cases "settled current stale p u \<or> confirmed_until current stale p = None")
  case True
  then show ?thesis using run ok by (auto simp: accrue_row_eq split: if_splits)
next
  case False
  then obtain e where e: "confirmed_until current stale p = Some e" and ns: "\<not> settled current stale p u"
    by auto
  have ce: "row_cursor current p \<le> e" using e ns by (auto simp: settled_def)
  have ec: "e \<le> current" using e by (auto simp: confirmed_until_def)
  note okD = ledger_okD [OF ok]
  have pe: "spans_end (p_id p) (row_cursor current p) s"
    using okD p spans_end_now by (auto simp: row_cursor_def cursor_ok_def split: option.splits)
  have others: "\<forall>q \<in> set (rows (proxies s)). p_id q \<noteq> p_id p \<longrightarrow>
      (\<forall>c. p_cursor q = Some c \<longrightarrow> spans_end (p_id q) c s)"
    using okD(3) by (simp add: cursor_ok_def)
  show ?thesis
  proof (cases "earning_user u")
    case True
    with run ns e obtain s2 where s2: "pay_span current e s p = Inr s2"
      and s': "s' = set_cursor (p_id p) e s2"
      by (auto simp: accrue_row_eq bindR_Inr_iff)
    note pay = pay_span_ok [OF s2 okD(2) pe ce ec]
    show ?thesis
      unfolding s' set_cursor_def
      by (rule set_cursor_ledger_ok)
         (use pay okD(1,4) others in \<open>simp_all add: pay_span_frame [OF s2]\<close>)
  next
    case False
    with run ns e have s': "s' = set_cursor (p_id p) e s" by (simp add: accrue_row_eq)
    show ?thesis
      unfolding s' set_cursor_def
      by (rule set_cursor_ledger_ok) (use okD others spans_end_later [OF pe ce] in simp_all)
  qed
qed

lemma accrue_row_proxies:
  assumes "accrue_row current stale s (p, u) = Inr s'"
  shows "users s' = users s" "settings s' = settings s" "payouts s' = payouts s"
    "wallets s' = wallets s" "asgs s' = asgs s" "subs s' = subs s" "jobs s' = jobs s"
    "mappings s' = mappings s"
    "proxies s' = proxies s \<or> (\<exists>e. confirmed_until current stale p = Some e \<and>
       proxies s' = update_where (\<lambda>q. p_id q = p_id p) (\<lambda>q. q\<lparr>p_cursor := Some e\<rparr>) (proxies s))"
  using assms by (auto simp: accrue_row_eq bindR_Inr_iff pay_span_frame split: if_splits option.splits)

subsection \<open>The whole run\<close>

lemma join_one:
  assumes "distinct (map u_id us)"
  shows "concat (map (\<lambda>u. if u_id u = i \<and> C u then [(p, u)] else []) us) = []
    \<or> (\<exists>u. concat (map (\<lambda>u. if u_id u = i \<and> C u then [(p, u)] else []) us) = [(p, u)])"
    (is "?j us = [] \<or> _")
  using assms
proof (induction us)
  case Nil
  then show ?case by simp
next
  case (Cons u us)
  show ?case
  proof (cases "u_id u = i \<and> C u")
    case True
    then have "\<forall>v \<in> set us. u_id v \<noteq> i" using Cons.prems by (metis distinct.simps(2) image_eqI list.simps(9) list.set_map)
    then have "?j us = []" by (auto simp: concat_eq_Nil_conv)
    then have "?j (u # us) = [(p, u)]" using True by (simp del: concat_eq_Nil_conv)
    then show ?thesis by blast
  next
    case False
    then have "?j (u # us) = ?j us" by (simp del: concat_eq_Nil_conv)
    then show ?thesis using Cons by (simp del: concat_eq_Nil_conv)
  qed
qed

lemma join_distinct:
  assumes "distinct (map p_id ps)" and "distinct (map u_id us)"
  shows "distinct (map (p_id \<circ> fst)
    (concat (map (\<lambda>p. concat (map (\<lambda>u. if u_id u = p_user p \<and> C p u then [(p, u)] else []) us)) ps)))"
    (is "distinct (map _ (concat (map ?j ps)))")
  using assms(1)
proof (induction ps)
  case Nil
  then show ?case by simp
next
  case (Cons p ps)
  let ?rest = "concat (map ?j ps)"
  have ids: "p_id p \<notin> set (map (p_id \<circ> fst) ?rest)" using Cons.prems by fastforce
  have IH: "distinct (map (p_id \<circ> fst) ?rest)"
    by (rule Cons.IH) (use Cons.prems in simp)
  have split: "concat (map ?j (p # ps)) = ?j p @ ?rest" by simp
  from join_one [OF assms(2), of "p_user p" "C p" p] consider "?j p = []" | u where "?j p = [(p, u)]"
    by blast
  then show ?case
  proof cases
    case 1
    then show ?thesis using IH by (simp only: split append_Nil)
  next
    case 2
    show ?thesis unfolding split 2 using ids IH by (simp only: append_Cons append_Nil list.map distinct.simps) simp
  qed
qed

lemma accrual_rows_distinct:
  assumes "wf_table p_id (proxies s)" and "wf_table u_id (users s)"
  shows "distinct (map (p_id \<circ> fst) (accrual_rows s b only))"
  unfolding accrual_rows_def
  by (rule join_distinct) (use assms in \<open>simp_all add: wf_table_def\<close>)

lemma accrual_rowsD:
  "(p, u) \<in> set (accrual_rows s b only) \<Longrightarrow> p \<in> set (rows (proxies s)) \<and> u \<in> set (rows (users s))
     \<and> u_id u = p_user p \<and> p_archived p = None \<and> p_duplicate_of p = None \<and> trusted p
     \<and> earning_eligible (p_eligibility p) \<and> (case only of None \<Rightarrow> True | Some i \<Rightarrow> p_id p = i)"
  by (auto simp: accrual_rows_def)

text \<open>The loop invariant: the rows still to come are current.\<close>

definition rest_ok :: "time \<Rightarrow> store \<Rightarrow> (proxy_row \<times> user_row) list \<Rightarrow> bool" where
  "rest_ok current s rest \<longleftrightarrow> ledger_ok current s \<and> distinct (map (p_id \<circ> fst) rest)
     \<and> (\<forall>x \<in> set rest. fst x \<in> set (rows (proxies s)))"

lemma rest_ok_start:
  "ledger_ok current s \<Longrightarrow> rest_ok current s (accrual_rows s b only)"
  using accrual_rows_distinct [of s b only] accrual_rowsD [of _ _ s b only]
  by (fastforce simp: rest_ok_def ledger_ok_def)

lemma rest_ok_step:
  assumes "rest_ok current s (x # rest)" and "accrue_row current stale s x = Inr s'"
  shows "rest_ok current s' rest"
proof -
  obtain p u where x: "x = (p, u)" by (cases x)
  have p: "p \<in> set (rows (proxies s))" and ok: "ledger_ok current s"
    using assms(1) x by (auto simp: rest_ok_def)
  have "ledger_ok current s'" using accrue_row_ledger_ok assms(2) ok p x by blast
  moreover have "y \<in> set (rows (proxies s'))"
    if y: "y \<in> set (rows (proxies s))" "p_id y \<noteq> p_id p" for y
    using accrue_row_proxies(9) [OF assms(2) [unfolded x]] y by force
  moreover have "\<forall>y \<in> set rest. p_id (fst y) \<noteq> p_id p \<and> fst y \<in> set (rows (proxies s))"
    and "distinct (map (p_id \<circ> fst) rest)"
    using assms(1) unfolding rest_ok_def x by (auto simp: image_iff)
  ultimately show ?thesis unfolding rest_ok_def by blast
qed

lemma accrue_row_total: "ledger_ok current s \<Longrightarrow> \<exists>s'. accrue_row current stale s x = Inr s'"
  using pay_span_total [OF ledger_okD(2)] unfolding bindR_Inr_iff
  by (cases x) (auto simp: accrue_row_eq bindR_Inr_iff split: option.splits)

lemma accrue_locked_ledger_ok:
  assumes "accrue_locked current only b s = Inr s'" and "ledger_ok current s"
  shows "ledger_ok current s'"
proof -
  have "rest_ok current s' []"
    using assms(1) unfolding accrue_locked_def
    by (rule foldR_invariant_rest) (use rest_ok_start [OF assms(2)] rest_ok_step in blast)+
  then show ?thesis by (simp add: rest_ok_def)
qed

lemma accrue_locked_total:
  assumes "ledger_ok current s"
  shows "\<exists>s'. accrue_locked current only b s = Inr s'"
  unfolding accrue_locked_def
proof (rule foldR_total_rest)
  show "rest_ok current s (accrual_rows s b only)" using assms by (rule rest_ok_start)
  show "\<exists>s'. accrue_row current (earnings_stale_minutes s) t x = Inr s' \<and> rest_ok current s' ys"
    if "rest_ok current t (x # ys)" for t x ys
    using that accrue_row_total rest_ok_step by (metis rest_ok_def)
qed

text \<open>Only cursors change in the proxies.\<close>

definition without_cursor :: "proxy_row \<Rightarrow> proxy_row" where
  "without_cursor p = p\<lparr>p_cursor := None\<rparr>"

definition cursors_only :: "store \<Rightarrow> store \<Rightarrow> bool" where
  "cursors_only s s' \<longleftrightarrow> map without_cursor (rows (proxies s')) = map without_cursor (rows (proxies s))
     \<and> seq (proxies s') = seq (proxies s) \<and> users s' = users s \<and> settings s' = settings s
     \<and> payouts s' = payouts s \<and> wallets s' = wallets s \<and> asgs s' = asgs s \<and> subs s' = subs s
     \<and> jobs s' = jobs s \<and> mappings s' = mappings s"

lemma accrue_row_cursors_only: "accrue_row current stale s x = Inr s' \<Longrightarrow> cursors_only s s'"
proof (cases x)
  case (Pair p u)
  assume "accrue_row current stale s x = Inr s'"
  note f = accrue_row_proxies [OF this [unfolded Pair]]
  show ?thesis
    using f(9) f(1-8) by (auto simp: cursors_only_def without_cursor_def)
qed

lemma accrue_locked_cursors_only: "accrue_locked current only b s = Inr s' \<Longrightarrow> cursors_only s s'"
  unfolding accrue_locked_def
  by (erule foldR_relation) (use accrue_row_cursors_only in \<open>auto simp: cursors_only_def\<close>)

lemma cursors_onlyD:
  assumes "cursors_only s s'" and "p' \<in> set (rows (proxies s'))"
  shows "\<exists>p \<in> set (rows (proxies s)). p' = p\<lparr>p_cursor := p_cursor p'\<rparr>"
proof -
  have "without_cursor p' \<in> set (map without_cursor (rows (proxies s)))"
    using assms unfolding cursors_only_def by (metis image_eqI list.set_map)
  then obtain p where p: "p \<in> set (rows (proxies s))" "without_cursor p' = without_cursor p" by auto
  have "p' = (without_cursor p')\<lparr>p_cursor := p_cursor p'\<rparr>" by (simp add: without_cursor_def)
  also have "\<dots> = p\<lparr>p_cursor := p_cursor p'\<rparr>" using p(2) by (simp add: without_cursor_def)
  finally show ?thesis using p(1) by blast
qed

subsection \<open>What a run may do to the ledger\<close>

text \<open>
  Old rows stay in place, unchanged or unlocked, and the new rows are appended. \<open>U\<close> says which
  rows may be unlocked, \<open>J\<close> which rows may be added.
\<close>

definition unlocks :: "(ledger_row \<Rightarrow> bool) \<Rightarrow> ledger_row \<Rightarrow> ledger_row \<Rightarrow> bool" where
  "unlocks U l l' \<longleftrightarrow> l' = l \<or> (U l \<and> l_bucket l = Bk_pending \<and> l' = l\<lparr>l_bucket := Bk_available\<rparr>)"

definition ledger_step :: "(ledger_row \<Rightarrow> bool) \<Rightarrow> (ledger_row \<Rightarrow> bool) \<Rightarrow> store \<Rightarrow> store \<Rightarrow> bool" where
  "ledger_step J U s s' \<longleftrightarrow> (\<exists>old new. rows (ledger s') = old @ new
     \<and> list_all2 (unlocks U) (rows (ledger s)) old \<and> list_all J new)"

definition any_bucket :: "(ledger_row \<Rightarrow> bool) \<Rightarrow> bool" where
  "any_bucket J \<longleftrightarrow> (\<forall>l b. J (l\<lparr>l_bucket := b\<rparr>) = J l)"

lemma ledger_step_refl [simp]: "ledger_step J U s s"
  unfolding ledger_step_def by (intro exI [of _ "rows (ledger s)"] exI [of _ "[]"])
    (simp add: list.rel_refl unlocks_def)

lemma unlocks_trans: "unlocks U a b \<Longrightarrow> unlocks U b c \<Longrightarrow> unlocks U a c"
  by (auto simp: unlocks_def)

lemma ledger_step_trans:
  assumes J: "any_bucket J" and 1: "ledger_step J U a b" and 2: "ledger_step J U b c"
  shows "ledger_step J U a c"
proof -
  obtain old new where b: "rows (ledger b) = old @ new" "list_all2 (unlocks U) (rows (ledger a)) old"
    "list_all J new" using 1 by (auto simp: ledger_step_def)
  obtain o2 n2 where c: "rows (ledger c) = o2 @ n2" "list_all2 (unlocks U) (old @ new) o2"
    "list_all J n2" using 2 b(1) by (auto simp: ledger_step_def)
  obtain x y where xy: "o2 = x @ y" "list_all2 (unlocks U) old x" "list_all2 (unlocks U) new y"
    using c(2) by (auto simp: list_all2_append1)
  have "list_all2 (unlocks U) (rows (ledger a)) x"
    by (rule list_all2_trans [OF _ b(2) xy(2)]) (rule unlocks_trans)
  moreover have "list_all J y"
    using xy(3) b(3) J by (induction rule: list_all2_induct) (auto simp: unlocks_def any_bucket_def)
  ultimately show ?thesis
    unfolding ledger_step_def using c(1,3) xy(1) by (intro exI [of _ x] exI [of _ "y @ n2"]) simp
qed

lemma ledger_step_mono:
  assumes "ledger_step J U a b" and "\<And>l. J l \<Longrightarrow> J' l" and "\<And>l. U l \<Longrightarrow> U' l"
  shows "ledger_step J' U' a b"
proof -
  have "list_all2 (unlocks U') xs ys" if "list_all2 (unlocks U) xs ys" for xs ys
    using that by (rule list_all2_mono) (use assms(3) in \<open>auto simp: unlocks_def\<close>)
  moreover have "list_all J' xs" if "list_all J xs" for xs
    using that assms(2) by (simp add: list_all_iff)
  ultimately show ?thesis using assms(1) unfolding ledger_step_def by blast
qed

lemma rebucket_ledger_step:
  assumes "rebucket P Bk_available s = Inr s'" and "\<And>l. P l \<Longrightarrow> l_bucket l = Bk_pending \<and> U l"
  shows "ledger_step J U s s'"
  using rebucket_ledger [OF assms(1)] unfolding ledger_step_def
  by (intro exI [of _ "rows (ledger s')"] exI [of _ "[]"])
    (auto simp: list_all2_map2 unlocks_def assms(2) intro!: list.rel_refl_strong)

lemma add_ledger_step:
  assumes "0 < whole_seconds (en - st) \<Longrightarrow> \<forall>i. J \<lparr>l_id = i, l_user = u, l_proxy = p, l_start = st,
    l_end = en, l_micro = (r * whole_seconds (en - st)) div 2592000, l_bucket = b, l_created = c\<rparr>"
  shows "ledger_step J U s (add_ledger_entry u p st en r b c s)"
proof (rule add_ledger_entry_cases [of u p st en r b c s])
  assume "0 < whole_seconds (en - st)" and l: "ledger (add_ledger_entry u p st en r b c s)
    = insert_row (\<lambda>i. \<lparr>l_id = i, l_user = u, l_proxy = p, l_start = st, l_end = en,
        l_micro = (r * whole_seconds (en - st)) div 2592000, l_bucket = b, l_created = c\<rparr>) (ledger s)"
  with assms show ?thesis
    unfolding ledger_step_def l rows_insert_row
    by (intro exI conjI) (auto simp: unlocks_def intro: list.rel_refl)
qed simp

text \<open>A payment that row \<open>p\<close> of user \<open>u\<close> justifies, and a row that it may unlock.\<close>

definition probation_start :: "time \<Rightarrow> proxy_row \<Rightarrow> time" where
  "probation_start current p = (case p_probation p of None \<Rightarrow> row_cursor current p | Some t \<Rightarrow> t)"

definition payment_due :: "time \<Rightarrow> int \<Rightarrow> proxy_row \<Rightarrow> user_row \<Rightarrow> ledger_row \<Rightarrow> bool" where
  "payment_due current stale p u l \<longleftrightarrow> earning_user u \<and> l_user l = u_id u \<and> l_proxy l = p_id p
     \<and> row_cursor current p \<le> l_start l \<and> l_start l < l_end l
     \<and> (case confirmed_until current stale p of None \<Rightarrow> False | Some e \<Rightarrow> l_end l \<le> e)
     \<and> l_micro l = (monthly_rate_for (p_eligibility p) (p_country p)
          * whole_seconds (l_end l - l_start l)) div 2592000"

definition unlock_due :: "time \<Rightarrow> int \<Rightarrow> proxy_row \<Rightarrow> ledger_row \<Rightarrow> bool" where
  "unlock_due current stale p l \<longleftrightarrow> l_proxy l = p_id p \<and> probation_start current p \<le> l_start l
     \<and> (case confirmed_until current stale p of None \<Rightarrow> False
        | Some e \<Rightarrow> probation_start current p + hours 168 \<le> e)"

lemma payment_due_bucket [simp]:
  "payment_due current stale p u (l\<lparr>l_bucket := b\<rparr>) = payment_due current stale p u l"
  by (simp add: payment_due_def cong: option.case_cong)

lemma pay_span_step:
  assumes pay: "pay_span current e s p = Inr s'" and ce: "row_cursor current p \<le> e"
    and e: "confirmed_until current stale p = Some e" and u: "earning_user u" "u_id u = p_user p"
  shows "ledger_step (payment_due current stale p u) (unlock_due current stale p) s s'"
proof -
  let ?J = "payment_due current stale p u" and ?U = "unlock_due current stale p"
  let ?c = "row_cursor current p"
  let ?r = "monthly_rate_for (p_eligibility p) (p_country p)"
  let ?un = "probation_start current p + hours 168"
  have any: "any_bucket ?J" by (simp add: any_bucket_def)
  have add: "ledger_step ?J ?U t (add_ledger_entry (p_user p) (p_id p) st en ?r b current t)"
    if "?c \<le> st" "en \<le> e" for t st en b
    by (rule add_ledger_step)
      (use that u e whole_seconds_neg [of "en - st"] in \<open>auto simp: payment_due_def intro: ccontr\<close>)
  have unlock: "ledger_step ?J ?U s s1"
    if "unlock_cycle (p_id p) (probation_start current p) s = Inr s1" "?un \<le> e" for s1
    using that e unfolding unlock_cycle_def
    by (auto simp: unlock_due_def intro!: rebucket_ledger_step)
  consider
    (locked) b where "s' = add_ledger_entry (p_user p) (p_id p) ?c e ?r b current s"
  | (split) s1 where "unlock_cycle (p_id p) (probation_start current p) s = Inr s1" "?c < ?un" "?un \<le> e"
      "s' = add_ledger_entry (p_user p) (p_id p) ?un e ?r Bk_available current
             (add_ledger_entry (p_user p) (p_id p) ?c ?un ?r Bk_available current s1)"
  | (open1) s1 where "unlock_cycle (p_id p) (probation_start current p) s = Inr s1" "?un \<le> e"
      "s' = add_ledger_entry (p_user p) (p_id p) ?c e ?r Bk_available current s1"
    using pay unfolding pay_span_def Let_def probation_start_def [symmetric]
    by (auto simp: bindR_Inr_iff split: if_splits)
  then show ?thesis
  proof cases
    case locked
    then show ?thesis using add by simp
  next
    case split
    show ?thesis
      unfolding split(4)
      by (rule ledger_step_trans [OF any unlock [OF split(1,3)]], rule ledger_step_trans [OF any add add])
        (use split(2,3) in auto)
  next
    case open1
    show ?thesis
      unfolding open1(3) by (rule ledger_step_trans [OF any unlock [OF open1(1,2)] add]) simp_all
  qed
qed

lemma accrue_row_step:
  assumes "accrue_row current stale s (p, u) = Inr s'" and "u_id u = p_user p"
  shows "ledger_step (payment_due current stale p u) (unlock_due current stale p) s s'"
proof (cases "settled current stale p u \<or> confirmed_until current stale p = None \<or> \<not> earning_user u")
  case True
  then have "rows (ledger s') = rows (ledger s)"
    using assms(1) by (auto simp: accrue_row_eq split: if_splits option.splits)
  then show ?thesis using ledger_step_refl unfolding ledger_step_def by metis
next
  case False
  then obtain e where e: "confirmed_until current stale p = Some e" by auto
  with False assms(1) obtain s2 where s2: "pay_span current e s p = Inr s2"
    and s': "s' = set_cursor (p_id p) e s2"
    by (auto simp: accrue_row_eq bindR_Inr_iff)
  have "row_cursor current p \<le> e" using False e by (auto simp: settled_def)
  then have "ledger_step (payment_due current stale p u) (unlock_due current stale p) s s2"
    using pay_span_step s2 e False assms(2) by blast
  then show ?thesis unfolding s' ledger_step_def by simp
qed

text \<open>The whole run: some row of the query justifies each new payment and each unlocked row.\<close>

definition run_pays :: "time \<Rightarrow> int option \<Rightarrow> bool \<Rightarrow> store \<Rightarrow> ledger_row \<Rightarrow> bool" where
  "run_pays current only b s l \<longleftrightarrow> (\<exists>(p, u) \<in> set (accrual_rows s b only).
     payment_due current (earnings_stale_minutes s) p u l)"

definition run_unlocks :: "time \<Rightarrow> int option \<Rightarrow> bool \<Rightarrow> store \<Rightarrow> ledger_row \<Rightarrow> bool" where
  "run_unlocks current only b s l \<longleftrightarrow> (\<exists>(p, u) \<in> set (accrual_rows s b only).
     unlock_due current (earnings_stale_minutes s) p l)"

lemma accrue_locked_step:
  assumes "accrue_locked current only b s = Inr s'"
  shows "ledger_step (run_pays current only b s) (run_unlocks current only b s) s s'"
  using assms unfolding accrue_locked_def
proof (rule foldR_relation [where R = "ledger_step (run_pays current only b s) (run_unlocks current only b s)"])
  have "any_bucket (run_pays current only b s)"
    by (simp add: any_bucket_def run_pays_def)
  then show "ledger_step (run_pays current only b s) (run_unlocks current only b s) x z"
    if "ledger_step (run_pays current only b s) (run_unlocks current only b s) x y"
      "ledger_step (run_pays current only b s) (run_unlocks current only b s) y z" for x y z
    using ledger_step_trans that by blast
  show "ledger_step (run_pays current only b s) (run_unlocks current only b s) t t'"
    if x: "x \<in> set (accrual_rows s b only)" and "accrue_row current (earnings_stale_minutes s) t x = Inr t'"
    for t x t'
  proof -
    obtain p u where pu: "x = (p, u)" by (cases x)
    then have "u_id u = p_user p" using accrual_rowsD x by blast
    with that pu have "ledger_step (payment_due current (earnings_stale_minutes s) p u)
        (unlock_due current (earnings_stale_minutes s) p) t t'"
      using accrue_row_step by simp
    then show ?thesis
      by (rule ledger_step_mono) (use x pu in \<open>auto simp: run_pays_def run_unlocks_def\<close>)
  qed
qed simp

lemma ledger_step_new:
  assumes "ledger_step J U s s'" and "l \<in> set (rows (ledger s'))"
    and "l_id l \<notin> l_id ` set (rows (ledger s))"
  shows "J l"
proof -
  obtain old new where o: "rows (ledger s') = old @ new" "list_all2 (unlocks U) (rows (ledger s)) old"
    "list_all J new" using assms(1) by (auto simp: ledger_step_def)
  have "l_id x \<in> l_id ` set (rows (ledger s))" if "x \<in> set old" for x
    using that o(2) by (auto simp: in_set_conv_nth list_all2_conv_all_nth unlocks_def image_iff) force
  then have "l \<in> set new" using assms(2,3) o(1) by auto
  then show ?thesis using o(3) by (simp add: list_all_iff)
qed

lemma ledger_step_old:
  assumes "ledger_step J U s s'" and "wf_table l_id (ledger s')"
    and "l \<in> set (rows (ledger s))" and "l' \<in> set (rows (ledger s'))" and "l_id l' = l_id l"
  shows "unlocks U l l'"
proof -
  obtain old new where o: "rows (ledger s') = old @ new" "list_all2 (unlocks U) (rows (ledger s)) old"
    using assms(1) by (auto simp: ledger_step_def)
  obtain x where x: "x \<in> set old" "unlocks U l x"
    using assms(3) o(2) by (metis in_set_conv_nth list_all2_conv_all_nth)
  then have "l_id x = l_id l'" using assms(5) by (auto simp: unlocks_def)
  then have "x = l'" using wf_table_unique [OF assms(2)] x(1) assms(4) o(1) by auto
  then show ?thesis using x(2) by simp
qed

lemma ledger_step_available_mono:
  assumes "ledger_step J U s s'" and nonneg: "\<forall>l \<in> set (rows (ledger s')). 0 \<le> l_micro l"
    and P: "any_bucket P"
  shows "bucket_sum P Bk_available s \<le> bucket_sum P Bk_available s'"
proof -
  let ?g = "\<lambda>l. if P l \<and> l_bucket l = Bk_available then l_micro l else 0"
  obtain old new where o: "rows (ledger s') = old @ new" "list_all2 (unlocks U) (rows (ledger s)) old"
    using assms(1) by (auto simp: ledger_step_def)
  have "\<forall>l \<in> set old. 0 \<le> l_micro l" using nonneg o(1) by simp
  with o(2) have "sum_list (map ?g (rows (ledger s))) \<le> sum_list (map ?g old)"
    by (induction rule: list_all2_induct) (use P in \<open>auto simp: unlocks_def any_bucket_def\<close>)
  moreover have "0 \<le> sum_list (map ?g new)"
    by (rule sum_list_nonneg) (use nonneg o(1) in auto)
  ultimately show ?thesis
    unfolding bucket_sum_def sum_where_as_sum_list using o(1) by simp
qed

lemma any_bucket_user [simp]: "any_bucket (\<lambda>l. l_user l = u)" "any_bucket (\<lambda>l. l_proxy l = i)"
  by (simp_all add: any_bucket_def)

lemma accrue_available_mono:
  assumes "accrue_locked current only b s = Inr s'" and "ledger_ok current s"
  shows "bucket_sum (\<lambda>l. l_user l = u) Bk_available s \<le> bucket_sum (\<lambda>l. l_user l = u) Bk_available s'"
  using ledger_step_available_mono [OF accrue_locked_step [OF assms(1)]]
    ledger_okD(2) [OF accrue_locked_ledger_ok [OF assms]]
  by (simp add: spans_ok_def entry_ok_def)

subsection \<open>A second run at the same time does nothing\<close>

lemma settled_after:
  assumes "confirmed_until current stale p = Some e"
  shows "settled current stale (p\<lparr>p_cursor := Some e\<rparr>) u"
proof -
  have "confirmed_until current stale (p\<lparr>p_cursor := Some e\<rparr>) = Some e"
    using assms by (auto simp: confirmed_until_def split: option.splits)
  then show ?thesis by (simp add: settled_def row_cursor_def)
qed

lemma accrue_row_cursor:
  assumes "accrue_row current stale s (p, u) = Inr s'"
  shows "s' = s \<and> settled current stale p u \<or> (\<exists>e. confirmed_until current stale p = Some e \<and>
    proxies s' = update_where (\<lambda>q. p_id q = p_id p) (\<lambda>q. q\<lparr>p_cursor := Some e\<rparr>) (proxies s))"
  using assms by (auto simp: accrue_row_eq bindR_Inr_iff pay_span_frame settled_def
      split: if_splits option.splits)

definition visited :: "time \<Rightarrow> int \<Rightarrow> bool \<Rightarrow> int option \<Rightarrow> store \<Rightarrow> (proxy_row \<times> user_row) list \<Rightarrow> bool" where
  "visited current stale b only s rest \<longleftrightarrow> rest_ok current s rest
     \<and> (\<forall>(p, u) \<in> set (accrual_rows s b only). settled current stale p u \<or> (p, u) \<in> set rest)"

lemma accrual_rows_iff:
  "(p, u) \<in> set (accrual_rows s b only) \<longleftrightarrow> p \<in> set (rows (proxies s)) \<and> u \<in> set (rows (users s))
     \<and> u_id u = p_user p \<and> p_archived p = None
     \<and> (p_status p = Px_online \<or> (b \<and> p_status p = Px_suspect))
     \<and> earning_eligible (p_eligibility p) \<and> p_duplicate_of p = None \<and> has_exit_ip p \<and> trusted p
     \<and> (case only of None \<Rightarrow> True | Some i \<Rightarrow> p_id p = i)"
  by (auto simp: accrual_rows_def)

lemma visited_step:
  assumes v: "visited current stale b only s (x # rest)"
    and run: "accrue_row current stale s x = Inr s'"
  shows "visited current stale b only s' rest"
proof -
  obtain p u where x: "x = (p, u)" by (cases x)
  have p: "p \<in> set (rows (proxies s))" and ok: "ledger_ok current s"
    using v by (auto simp: visited_def rest_ok_def x)
  note f = accrue_row_proxies [OF run [unfolded x]]
  have "settled current stale q w \<or> (q, w) \<in> set rest" if qw: "(q, w) \<in> set (accrual_rows s' b only)" for q w
    using accrue_row_cursor [OF run [unfolded x]]
  proof (elim disjE conjE exE)
    assume "s' = s" "settled current stale p u"
    then show ?thesis using v qw x by (auto simp: visited_def)
  next
    fix e assume e: "confirmed_until current stale p = Some e"
      and s': "proxies s' = update_where (\<lambda>q. p_id q = p_id p) (\<lambda>q. q\<lparr>p_cursor := Some e\<rparr>) (proxies s)"
    have "q \<in> set (rows (proxies s'))" using qw by (simp add: accrual_rows_iff)
    then obtain r where r: "r \<in> set (rows (proxies s))"
      "q = (if p_id r = p_id p then r\<lparr>p_cursor := Some e\<rparr> else r)" unfolding s' by auto
    show ?thesis
    proof (cases "p_id r = p_id p")
      case True
      then have "r = p" using wf_table_unique [OF ledger_okD(1) [OF ok] r(1) p] by simp
      then show ?thesis using True r(2) settled_after [OF e] by simp
    next
      case False
      then have "(q, w) \<in> set (accrual_rows s b only)" "q \<noteq> p"
        using qw r f(1) by (auto simp: accrual_rows_iff)
      then show ?thesis using v x by (auto simp: visited_def)
    qed
  qed
  moreover have "rest_ok current s' rest"
    using v run by (auto simp: visited_def intro: rest_ok_step)
  ultimately show ?thesis by (auto simp: visited_def)
qed

lemma accrue_settled:
  assumes "accrue_locked current only b s = Inr s'" and "ledger_ok current s"
  shows "\<forall>(p, u) \<in> set (accrual_rows s' b only). settled current (earnings_stale_minutes s) p u"
proof -
  have "visited current (earnings_stale_minutes s) b only s' []"
    using assms(1) unfolding accrue_locked_def
    by (rule foldR_invariant_rest)
      (use rest_ok_start [OF assms(2)] visited_step in \<open>auto simp: visited_def\<close>)
  then show ?thesis by (simp add: visited_def)
qed

lemma foldR_still:
  "\<forall>x \<in> set xs. f s x = Inr s \<Longrightarrow> foldR f s xs = Inr s"
  by (induction xs) auto

subsection \<open>The cap on what a proxy can earn\<close>

lemma disjoint_spans_sum:
  fixes st en w :: "'a \<Rightarrow> int"
  assumes "finite S" and "\<And>x. x \<in> S \<Longrightarrow> st x < en x \<and> w x \<le> en x - st x"
    and "\<And>x y. x \<in> S \<Longrightarrow> y \<in> S \<Longrightarrow> x \<noteq> y \<Longrightarrow> en x \<le> st y \<or> en y \<le> st x"
    and "\<And>x. x \<in> S \<Longrightarrow> a \<le> st x \<and> en x \<le> b" and "a \<le> b"
  shows "sum w S \<le> b - a"
  using assms
proof (induction S arbitrary: b rule: finite_ranking_induct [where f = st])
  case empty
  then show ?case by simp
next
  case (insert x S)
  show ?case
  proof (cases "x \<in> S")
    case True
    then have "insert x S = S" by auto
    then show ?thesis using insert by simp
  next
    case False
    have x: "a \<le> st x" "st x < en x" "w x \<le> en x - st x" "en x \<le> b" using insert.prems(1,3) by blast+
    have "en y \<le> st x" if y: "y \<in> S" for y
    proof -
      have "y \<noteq> x" using y False by blast
      then have "en x \<le> st y \<or> en y \<le> st x" using insert.prems(2) [of x y] y by blast
      then show ?thesis using insert.hyps(2) [OF y] x(2) by linarith
    qed
    then have "sum w S \<le> st x - a"
      by (intro insert.IH) (use insert.prems x in auto)
    then show ?thesis using False insert.hyps(1) x by simp
  qed
qed

lemma window_cap:
  assumes "spans_ok now s" and "a \<le> b"
  shows "sum_where (\<lambda>l. l_proxy l = i \<and> a \<le> l_start l \<and> l_end l \<le> b) l_micro (ledger s) * 2592000 \<le> b - a"
proof -
  let ?xs = "filter (\<lambda>l. l_proxy l = i \<and> a \<le> l_start l \<and> l_end l \<le> b) (rows (ledger s))"
  have wf: "wf_table l_id (ledger s)" using assms(1) by (simp add: spans_ok_def)
  then have d: "distinct ?xs" by (auto simp: wf_table_def distinct_map)
  have "sum (\<lambda>l. l_micro l * 2592000) (set ?xs) \<le> b - a"
  proof (rule disjoint_spans_sum [where st = l_start and en = l_end])
    fix k l assume k: "k \<in> set ?xs" and l: "l \<in> set ?xs" and "k \<noteq> l"
    then have "l_id k \<noteq> l_id l" using wf_table_unique [OF wf] by auto
    moreover have "apart k l" using assms(1) k l by (simp add: spans_ok_def)
    ultimately show "l_end k \<le> l_start l \<or> l_end l \<le> l_start k" using k l by (auto simp: apart_def)
  qed (use assms in \<open>auto simp: spans_ok_def entry_ok_def\<close>)
  then show ?thesis
    unfolding sum_where_def using d by (simp add: sum_list_distinct_conv_sum_set sum_distrib_right)
qed

subsection \<open>Properties\<close>

text \<open>From a consistent ledger an accrual run never raises, and leaves the ledger consistent:
  nonempty, pairwise disjoint intervals per proxy, none beyond the accrual cursor.\<close>

lemma accrual_keeps_ledger:
  assumes "ledger_ok current s"
  shows "\<exists>s'. accrue_locked current only b s = Inr s' \<and> ledger_ok current s'"
  using accrue_locked_total [OF assms] accrue_locked_ledger_ok [OF _ assms] by blast

lemma ledger_ok_sample:
  assumes "distinct (map u_id us)" "\<forall>u \<in> set us. u_id u \<le> int (length us)"
    and "distinct (map p_id ps)" "\<forall>p \<in> set ps. p_id p \<le> int (length ps)"
  shows "ledger_ok now (sample_store us ps)"
  using assms by (simp add: ledger_ok_def sample_store_def empty_store_def spans_ok_def cursor_ok_def
      spans_end_def wf_table_def)

lemma ledger_ok_sample1: "ledger_ok now (sample_store [sample_user 1] [sample_proxy 1 1 t])"
  by (rule ledger_ok_sample) (simp_all add: sample_user_def sample_proxy_def)

lemma accrual_keeps_ledger_witness:
  "\<exists>s'. accrue_locked (hours 2) None False (sample_store [sample_user 1] [sample_proxy 1 1 (hours 2)]) = Inr s'
     \<and> ledger_ok (hours 2) s'"
  by (rule accrual_keeps_ledger [OF ledger_ok_sample1])

text \<open>The store after the run of the witness.\<close>

definition sample_accrued :: store where
  "sample_accrued =
     (case accrue_locked (hours 2) None False (sample_store [sample_user 1] [sample_proxy 1 1 (hours 2)]) of
        Inr s' \<Rightarrow> s' | Inl _ \<Rightarrow> empty_store)"

lemma sample_run:
  "accrue_locked (hours 2) None False (sample_store [sample_user 1] [sample_proxy 1 1 (hours 2)])
     = Inr sample_accrued"
  using accrue_locked_total [OF ledger_ok_sample1, of "hours 2" None False "hours 2"]
  by (auto simp: sample_accrued_def)

lemma sample_ledger:
  "rows (ledger sample_accrued) = [\<lparr>l_id = 1, l_user = 1, l_proxy = 1, l_start = 0, l_end = hours 2,
     l_micro = 2777, l_bucket = Bk_pending, l_created = hours 2\<rparr>]"
  by code_simp



text \<open>A row already in the ledger is left as it is, except that a pending one may become
  available, and then only when its proxy has been confirmed for the 168 hours of probation and
  the row lies in that probation cycle.\<close>

lemma accrual_unlocks_due:
  assumes "accrue_locked current only b s = Inr s'" and "ledger_ok current s"
    and "l \<in> set (rows (ledger s))" and "l' \<in> set (rows (ledger s'))" and "l_id l' = l_id l"
  shows "l' = l \<or> l_bucket l = Bk_pending \<and> l' = l\<lparr>l_bucket := Bk_available\<rparr>
     \<and> (\<exists>(p, u) \<in> set (accrual_rows s b only). unlock_due current (earnings_stale_minutes s) p l)"
  using ledger_step_old [OF accrue_locked_step [OF assms(1)] _ assms(3-5)]
    ledger_okD(2) [OF accrue_locked_ledger_ok [OF assms(1,2)]]
  unfolding spans_ok_def unlocks_def run_unlocks_def by blast

text \<open>The same proxy a week later, checked again, so that its probation is over.\<close>

definition sample_week :: store where
  "sample_week = update_proxy 1 (\<lambda>p. p\<lparr>p_last_success := Some (hours 170)\<rparr>) sample_accrued"

definition sample_unlocked :: store where
  "sample_unlocked =
     (case accrue_locked (hours 170) None False sample_week of Inr s' \<Rightarrow> s' | Inl _ \<Rightarrow> empty_store)"

lemma sample_week_ok: "ledger_ok (hours 170) sample_week"
proof (rule ledger_ok_later)
  have ok: "ledger_ok (hours 2) sample_accrued"
    using accrue_locked_ledger_ok [OF sample_run ledger_ok_sample1] .
  show "ledger_ok (hours 2) sample_week"
    unfolding sample_week_def
    by (rule ledger_ok_frame [OF ok]) (use ok in \<open>simp_all add: comp_def ledger_ok_def if_distrib cong: if_cong\<close>)
qed (simp add: hours_def minutes_def seconds_def)

lemma sample_week_run: "accrue_locked (hours 170) None False sample_week = Inr sample_unlocked"
  using accrue_locked_total [OF sample_week_ok, of None False] by (auto simp: sample_unlocked_def)

lemma sample_unlocked_ledger:
  "map (\<lambda>l. (l_id l, l_start l, l_end l, l_bucket l)) (rows (ledger sample_unlocked))
     = [(1, 0, hours 2, Bk_available), (2, hours 2, hours 168, Bk_available),
        (3, hours 168, hours 170, Bk_available)]"
  by code_simp

lemma accrual_unlocks_due_witness:
  "\<exists>(p, u) \<in> set (accrual_rows sample_week False None).
     unlock_due (hours 170) (earnings_stale_minutes sample_week) p (hd (rows (ledger sample_week)))"
proof -
  have "rows (ledger sample_week) \<noteq> []" "l_bucket (hd (rows (ledger sample_week))) = Bk_pending"
    "l_id (hd (rows (ledger sample_week))) = 1"
    by (simp_all add: sample_week_def sample_ledger)
  moreover have "rows (ledger sample_unlocked) \<noteq> []" "l_id (hd (rows (ledger sample_unlocked))) = 1"
    "l_bucket (hd (rows (ledger sample_unlocked))) = Bk_available"
    by code_simp+
  ultimately show ?thesis
    using accrual_unlocks_due [OF sample_week_run sample_week_ok hd_in_set hd_in_set] by auto
qed

text \<open>Accrual is idempotent: a second run at the same time changes nothing, so no interval is
  paid twice however often the worker and the page views trigger it.\<close>

lemma accrual_idempotent:
  assumes "accrue_locked current only b s = Inr s'" and "ledger_ok current s"
  shows "accrue_locked current only b s' = Inr s'"
proof -
  have "settings s' = settings s"
    using accrue_locked_cursors_only [OF assms(1)] by (simp add: cursors_only_def)
  then have "earnings_stale_minutes s' = earnings_stale_minutes s"
    by (simp add: earnings_stale_minutes_def bounded_int_def get_setting_def)
  then show ?thesis
    unfolding accrue_locked_def using accrue_settled [OF assms]
    by (intro foldR_still) (auto simp: accrue_row_eq)
qed

lemma accrual_idempotent_witness: "accrue_locked (hours 2) None False sample_accrued = Inr sample_accrued"
  by (rule accrual_idempotent [OF sample_run ledger_ok_sample1])

text \<open>The monthly cap: what a proxy has earned for the time between two instants is at most
  one dollar per 720 hours of that time, whatever was paid, expired or unlocked.\<close>

lemma accrual_monthly_cap:
  assumes "accrue_locked current only b s = Inr s'" and "ledger_ok current s" and "t0 \<le> t1"
  shows "sum_where (\<lambda>l. l_proxy l = i \<and> t0 \<le> l_start l \<and> l_end l \<le> t1) l_micro (ledger s')
     * (720 * 3600) \<le> t1 - t0"
  using window_cap [OF ledger_okD(2) [OF accrue_locked_ledger_ok [OF assms(1,2)]] assms(3)] by simp

lemma accrual_monthly_cap_witness:
  "sum_where (\<lambda>l. l_proxy l = 1 \<and> 0 \<le> l_start l \<and> l_end l \<le> hours 2) l_micro (ledger sample_accrued)
     * (720 * 3600) \<le> hours 2 - 0"
  by (rule accrual_monthly_cap [OF sample_run ledger_ok_sample1]) (simp add: hours_def minutes_def seconds_def)

end
