(* ===== verification/Py_Ip.thy ===== *)
theory Py_Ip
  imports Py_Text "HOL-Library.Word"
begin

text \<open>
  The part of Python's \<open>ipaddress\<close> that the sources use (3.11): \<open>ip_address(text)\<close>, \<open>str(address)\<close>
  and the predicates on address blocks. An address is a machine word; an IPv6 address may carry a
  scope.
\<close>

unbundle bit_operations_syntax

datatype ip = V4 "32 word" | V6 "128 word" "string option"

subsection \<open>Parsing\<close>

definition parse_octet :: "string \<Rightarrow> int option" where
  "parse_octet s =
     (if s = '''' \<or> \<not> list_all is_digit s \<or> 3 < length s then None
      else if s \<noteq> ''0'' \<and> hd s = CHR ''0'' then None
      else if 255 < digits_value s then None
      else Some (digits_value s))"

definition parse_v4 :: "string \<Rightarrow> 32 word option" where
  "parse_v4 s =
     (case map parse_octet (split_on (CHR ''.'') s) of
        [Some a, Some b, Some c, Some d] \<Rightarrow>
          Some (word_of_int (((a * 256 + b) * 256 + c) * 256 + d))
      | _ \<Rightarrow> None)"

definition parse_hextet :: "string \<Rightarrow> int option" where
  "parse_hextet s =
     (if s = '''' \<or> \<not> list_all is_hex (lower s) \<or> 4 < length s then None
      else Some (hexs_value (lower s)))"

fun all_some :: "'a option list \<Rightarrow> 'a list option" where
  "all_some [] = Some []"
| "all_some (None # xs) = None"
| "all_some (Some x # xs) = map_option (Cons x) (all_some xs)"

text \<open>\<open>'%x'\<close>.\<close>

function show_hex :: "int \<Rightarrow> string" where
  "show_hex n = (let d = (\<lambda>m. char_of (if m < 10 then 48 + m else 87 + m)) in
     if n < 16 then [d n] else show_hex (n div 16) @ [d (n mod 16)])"
  by pat_completeness auto
termination by (relation "measure nat") auto

declare show_hex.simps [simp del]

definition hextets_value :: "int list \<Rightarrow> int" where
  "hextets_value xs = foldl (\<lambda>v h. v * 65536 + h) 0 xs"

definition parse_v6_parts :: "string list \<Rightarrow> 128 word option" where
  "parse_v6_parts parts =
     (if 9 < length parts then None
      else (case filter (\<lambda>i. parts ! i = '''') [1..<length parts - 1] of
        [] \<Rightarrow>
          if length parts \<noteq> 8 then None
          else map_option (\<lambda>hs. word_of_int (hextets_value hs)) (all_some (map parse_hextet parts))
      | [skip] \<Rightarrow>
          (let hi = (if hd parts = '''' then skip - 1 else skip);
               lo = (if last parts = '''' then length parts - skip - 2 else length parts - skip - 1)
           in if (hd parts = '''' \<and> hi \<noteq> 0) \<or> (last parts = '''' \<and> lo \<noteq> 0) \<or> 8 \<le> hi + lo then None
              else (case (all_some (map parse_hextet (take hi parts)),
                          all_some (map parse_hextet (drop (length parts - lo) parts))) of
                (Some his, Some los) \<Rightarrow>
                  Some (word_of_int (hextets_value (his @ replicate (8 - (hi + lo)) 0 @ los)))
              | _ \<Rightarrow> None))
      | _ \<Rightarrow> None))"

definition parse_v6 :: "string \<Rightarrow> 128 word option" where
  "parse_v6 s =
     (let parts = split_on (CHR '':'') s in
      if length parts < 3 then None
      else if CHR ''.'' \<in> set (last parts)
      then (case parse_v4 (last parts) of
              None \<Rightarrow> None
            | Some w \<Rightarrow> parse_v6_parts (butlast parts @ [show_hex (uint w div 65536), show_hex (uint w mod 65536)]))
      else parse_v6_parts parts)"

definition ip_address :: "string \<Rightarrow> ip option" where
  "ip_address s =
     (if CHR ''/'' \<in> set s then None
      else case parse_v4 s of
        Some w \<Rightarrow> Some (V4 w)
      | None \<Rightarrow>
          if CHR ''%'' \<in> set s
          then (let (addr, scope) = split_first (CHR ''%'') s in
                if scope = '''' \<or> CHR ''%'' \<in> set scope then None
                else map_option (\<lambda>w. V6 w (Some scope)) (parse_v6 addr))
          else map_option (\<lambda>w. V6 w None) (parse_v6 s))"

subsection \<open>Printing\<close>

definition show_v4 :: "32 word \<Rightarrow> string" where
  "show_v4 w = join_with ''.'' (map (\<lambda>k. show_int (uint w div 256 ^ k mod 256)) [3, 2, 1, 0])"

text \<open>The longest run of zero hextets: the scan of \<open>_compress_hextets\<close> as (start, length) of the
  best run and of the current one.\<close>

definition zero_run :: "int list \<Rightarrow> nat \<times> nat" where
  "zero_run hs =
     (case foldl (\<lambda>(bs, bl, cs, cl) (i, h).
          if h = 0
          then (let cs' = (if cl = 0 then i else cs) in
                if bl < cl + 1 then (cs', cl + 1, cs', cl + 1) else (bs, bl, cs', cl + 1))
          else (bs, bl, 0, 0)) (0, 0, 0, 0) (enumerate 0 hs)
      of (bs, bl, cs, cl) \<Rightarrow> (bs, bl))"

definition show_v6 :: "128 word \<Rightarrow> string" where
  "show_v6 w =
     (let hs = map (\<lambda>k. uint w div 65536 ^ k mod 65536) [7, 6, 5, 4, 3, 2, 1, 0];
          texts = map show_hex hs;
          (st, len) = zero_run hs
      in if len \<le> 1 then join_with '':'' texts
         else join_with '':'' ((if st = 0 then [''''] else []) @ take st texts @ ['''']
                @ drop (st + len) texts @ (if st + len = 8 then [''''] else [])))"

fun show_ip :: "ip \<Rightarrow> string" where
  "show_ip (V4 w) = show_v4 w"
| "show_ip (V6 w None) = show_v6 w"
| "show_ip (V6 w (Some scope)) = show_v6 w @ CHR ''%'' # scope"

subsection \<open>Address blocks\<close>

text \<open>\<open>address in network\<close> for a network given by its first address and prefix length.\<close>

definition in_v4 :: "32 word \<Rightarrow> 32 word \<times> nat \<Rightarrow> bool" where
  "in_v4 w net = (drop_bit (32 - snd net) w = drop_bit (32 - snd net) (fst net))"

definition in_v6 :: "128 word \<Rightarrow> 128 word \<times> nat \<Rightarrow> bool" where
  "in_v6 w net = (drop_bit (128 - snd net) w = drop_bit (128 - snd net) (fst net))"

definition quad :: "int \<Rightarrow> int \<Rightarrow> int \<Rightarrow> int \<Rightarrow> 32 word" where
  "quad a b c d = word_of_int (((a * 256 + b) * 256 + c) * 256 + d)"

definition private_v4 :: "(32 word \<times> nat) list" where
  "private_v4 = [(quad 0 0 0 0, 8), (quad 10 0 0 0, 8), (quad 127 0 0 0, 8), (quad 169 254 0 0, 16),
     (quad 172 16 0 0, 12), (quad 192 0 0 0, 24), (quad 192 0 0 170, 31), (quad 192 0 2 0, 24),
     (quad 192 168 0 0, 16), (quad 198 18 0 0, 15), (quad 198 51 100 0, 24), (quad 203 0 113 0, 24),
     (quad 240 0 0 0, 4), (quad 255 255 255 255, 32)]"

definition private_v4_exceptions :: "(32 word \<times> nat) list" where
  "private_v4_exceptions = [(quad 192 0 0 9, 32), (quad 192 0 0 10, 32)]"

definition is_private_v4 :: "32 word \<Rightarrow> bool" where
  "is_private_v4 w \<longleftrightarrow> list_ex (in_v4 w) private_v4 \<and> \<not> list_ex (in_v4 w) private_v4_exceptions"

definition is_global_v4 :: "32 word \<Rightarrow> bool" where
  "is_global_v4 w \<longleftrightarrow> \<not> in_v4 w (quad 100 64 0 0, 10) \<and> \<not> is_private_v4 w"

text \<open>The first two or three hextets of an IPv6 network.\<close>

definition hexes :: "int list \<Rightarrow> 128 word" where
  "hexes hs = word_of_int (hextets_value (hs @ replicate (8 - length hs) 0))"

definition private_v6 :: "(128 word \<times> nat) list" where
  "private_v6 = [(1, 128), (0, 128), (hexes [0, 0, 0, 0, 0, 0xffff], 96), (hexes [0x64, 0xff9b, 1], 48),
     (hexes [0x100], 64), (hexes [0x2001], 23), (hexes [0x2001, 0xdb8], 32), (hexes [0x2002], 16),
     (hexes [0xfc00], 7), (hexes [0xfe80], 10)]"

definition private_v6_exceptions :: "(128 word \<times> nat) list" where
  "private_v6_exceptions = [(hexes [0x2001, 1, 0, 0, 0, 0, 0, 1], 128), (hexes [0x2001, 1, 0, 0, 0, 0, 0, 2], 128),
     (hexes [0x2001, 3], 32), (hexes [0x2001, 4, 0x112], 48), (hexes [0x2001, 0x20], 28), (hexes [0x2001, 0x30], 28)]"

definition ipv4_mapped :: "128 word \<Rightarrow> 32 word option" where
  "ipv4_mapped w = (if drop_bit 32 w = 0xFFFF then Some (ucast w) else None)"

definition is_private_v6 :: "128 word \<Rightarrow> bool" where
  "is_private_v6 w =
     (case ipv4_mapped w of
        Some v \<Rightarrow> is_private_v4 v
      | None \<Rightarrow> list_ex (in_v6 w) private_v6 \<and> \<not> list_ex (in_v6 w) private_v6_exceptions)"

fun is_global :: "ip \<Rightarrow> bool" where
  "is_global (V4 w) = is_global_v4 w"
| "is_global (V6 w _) = (\<not> is_private_v6 w)"

fun is_loopback :: "ip \<Rightarrow> bool" where
  "is_loopback (V4 w) = in_v4 w (quad 127 0 0 0, 8)"
| "is_loopback (V6 w _) = (w = 1)"

fun is_link_local :: "ip \<Rightarrow> bool" where
  "is_link_local (V4 w) = in_v4 w (quad 169 254 0 0, 16)"
| "is_link_local (V6 w _) = in_v6 w (hexes [0xfe80], 10)"

fun is_multicast :: "ip \<Rightarrow> bool" where
  "is_multicast (V4 w) = in_v4 w (quad 224 0 0 0, 4)"
| "is_multicast (V6 w _) = in_v6 w (hexes [0xff00], 8)"

fun is_unspecified :: "ip \<Rightarrow> bool" where
  "is_unspecified (V4 w) = (w = 0)"
| "is_unspecified (V6 w _) = (w = 0)"

fun ip_version :: "ip \<Rightarrow> int" where
  "ip_version (V4 _) = 4"
| "ip_version (V6 _ _) = 6"

lemma examples_v6:
  "map_option show_ip (ip_address ''2001:DB8:0:0:1::1'') = Some ''2001:db8::1:0:0:1''"
  "map_option show_ip (ip_address ''::ffff:1.2.3.4'') = Some ''::ffff:102:304''"
  "map_option show_ip (ip_address ''::'') = Some ''::''"
  "map_option show_ip (ip_address ''fe80::1%eth0'') = Some ''fe80::1%eth0''"
  "ip_address ''1::2::3'' = None" "ip_address '':1:2:3:4:5:6:7'' = None"
  by code_simp+

lemma examples_v4:
  "map_option show_ip (ip_address ''8.8.4.4'') = Some ''8.8.4.4''"
  "ip_address ''08.8.4.4'' = None" "ip_address ''8.8.4'' = None" "ip_address ''8.8.4.256'' = None"
  by code_simp+

end
