(* ===== verification/Network_Safety.thy ===== *)
theory Network_Safety
  imports Py_Ip
begin

text \<open>
  \<open>app/network_safety.py\<close>: proxy and RPC targets must be public hosts. The DNS resolver is a
  parameter: it fails with a text, or returns the first component of each socket address
  (\<open>None\<close> for an empty one).
\<close>

definition public_ip :: "string \<Rightarrow> string result" where
  "public_ip v =
     (case ip_address (strip v) of
        None \<Rightarrow> Inl (UnsafeProxyTarget ''Proxy target did not resolve to a valid IP address'')
      | Some a \<Rightarrow>
          if \<not> is_global a then Inl (UnsafeProxyTarget ''Proxy target resolves to a non-public IP address'')
          else Inr (show_ip a))"

text \<open>\<open>^(?:0x[0-9a-f]+|0[0-7]+|[0-9]+)$\<close>, ignoring case.\<close>

definition legacy_numeric :: "string \<Rightarrow> bool" where
  "legacy_numeric s \<longleftrightarrow> (let t = lower s in
     (take 2 t = ''0x'' \<and> drop 2 t \<noteq> '''' \<and> list_all is_hex (drop 2 t))
     \<or> (t \<noteq> '''' \<and> list_all is_digit t))"

definition label_char :: "char \<Rightarrow> bool" where
  "label_char c \<longleftrightarrow> is_digit c \<or> c = CHR ''-'' \<or> (97 \<le> code c \<and> code c \<le> 122)"

definition bad_label :: "string \<Rightarrow> bool" where
  "bad_label l \<longleftrightarrow> l = '''' \<or> 63 < length l \<or> hd l = CHR ''-'' \<or> last l = CHR ''-'' \<or> \<not> list_all label_char l"

definition local_hosts :: "string list" where
  "local_hosts = [''localhost'', ''localhost.localdomain'', ''ip6-localhost'', ''ip6-loopback'']"

definition validate_proxy_host :: "string \<Rightarrow> string result" where
  "validate_proxy_host host =
     (let n = rstrip_by (\<lambda>c. c = CHR ''.'') (lower (strip host)) in
      if n = '''' \<or> n \<in> set local_hosts then Inl (UnsafeProxyTarget ''Proxy target must use a public host'')
      else case ip_address n of
        None \<Rightarrow>
          if legacy_numeric n \<or> (CHR ''.'' \<in> set n \<and> list_all legacy_numeric (split_on (CHR ''.'') n))
          then Inl (UnsafeProxyTarget ''Legacy numeric proxy host aliases are not allowed'')
          else if list_ex bad_label (split_on (CHR ''.'') n)
          then Inl (UnsafeProxyTarget ''Proxy host is invalid'')
          else Inr n
      | Some a \<Rightarrow> bindR (public_ip (show_ip a)) (\<lambda>_. Inr (show_ip a)))"

text \<open>The loop that checks every answer.\<close>

fun public_all :: "string list \<Rightarrow> string list result" where
  "public_all [] = Inr []"
| "public_all (a # as) = bindR (public_ip a) (\<lambda>x. bindR (public_all as) (\<lambda>xs. Inr (x # xs)))"

definition address_version :: "string \<Rightarrow> int" where
  "address_version s = (case ip_address s of None \<Rightarrow> 0 | Some a \<Rightarrow> ip_version a)"

definition resolve_public_proxy_host ::
  "(string \<Rightarrow> int \<Rightarrow> string + string option list) \<Rightarrow> string \<Rightarrow> int \<Rightarrow> string result" where
  "resolve_public_proxy_host resolver host port =
     bindR (validate_proxy_host host) (\<lambda>n.
       case ip_address n of
         Some a \<Rightarrow> public_ip (show_ip a)
       | None \<Rightarrow>
           (case resolver n port of
              Inl e \<Rightarrow> Inl (UnsafeProxyTarget (''Proxy host cannot be resolved: '' @ e))
            | Inr answers \<Rightarrow>
                (let addresses = List.map_filter id answers in
                 if addresses = [] then Inl (UnsafeProxyTarget ''Proxy host returned no usable DNS addresses'')
                 else bindR (public_all addresses) (\<lambda>xs.
                   Inr (hd (sort_key (\<lambda>v. (address_version v, v)) (remdups xs)))))))"

subsection \<open>Facts\<close>

lemma public_ip_Inr: "public_ip v = Inr t \<longleftrightarrow> (\<exists>a. ip_address (strip v) = Some a \<and> is_global a \<and> t = show_ip a)"
  by (auto simp: public_ip_def split: option.splits if_splits)

lemma public_all_Inr:
  "public_all as = Inr xs \<Longrightarrow> list_all2 (\<lambda>a x. public_ip a = Inr x) as xs"
  by (induction as arbitrary: xs) (auto simp: bindR_Inr_iff)

lemma list_all2_left: "list_all2 P xs ys \<Longrightarrow> x \<in> set xs \<Longrightarrow> \<exists>y \<in> set ys. P x y"
  by (induction rule: list_all2_induct) auto

lemma list_all2_right: "list_all2 P xs ys \<Longrightarrow> y \<in> set ys \<Longrightarrow> \<exists>x \<in> set xs. P x y"
  by (induction rule: list_all2_induct) auto

lemma hd_sort_key_in: "xs \<noteq> [] \<Longrightarrow> hd (sort_key f xs) \<in> set xs"
  by (metis hd_in_set length_0_conv length_sort set_sort)

subsection \<open>Properties\<close>

text \<open>Whatever DNS answers, the address a connection is pinned to is the text of a globally
  reachable address: the host itself when it is a literal, or one of the answers, and then every
  answer was global; one private answer makes the whole resolution fail.\<close>

lemma resolved_host_is_public:
  assumes "resolve_public_proxy_host resolver host port = Inr t"
  shows "\<exists>n a. validate_proxy_host host = Inr n \<and> is_global a \<and> t = show_ip a
     \<and> (case ip_address n of
          Some b \<Rightarrow> True
        | None \<Rightarrow> \<exists>answers. resolver n port = Inr answers
            \<and> (\<exists>x. Some x \<in> set answers \<and> ip_address (strip x) = Some a)
            \<and> (\<forall>x. Some x \<in> set answers \<longrightarrow> (\<exists>b. ip_address (strip x) = Some b \<and> is_global b)))"
proof -
  obtain n where n: "validate_proxy_host host = Inr n"
    using assms by (auto simp: resolve_public_proxy_host_def bindR_Inr_iff)
  show ?thesis
  proof (cases "ip_address n")
    case (Some b)
    then have "public_ip (show_ip b) = Inr t"
      using assms n by (simp add: resolve_public_proxy_host_def)
    then obtain a where "is_global a" "t = show_ip a" unfolding public_ip_Inr by blast
    then show ?thesis using n Some by auto
  next
    case None
    obtain answers xs where ans: "resolver n port = Inr answers"
      and ne: "List.map_filter id answers \<noteq> []"
      and xs: "public_all (List.map_filter id answers) = Inr xs"
      and t: "t = hd (sort_key (\<lambda>v. (address_version v, v)) (remdups xs))"
      using assms n None
      by (auto simp: resolve_public_proxy_host_def bindR_Inr_iff Let_def split: sum.splits if_splits)
    note all2 = public_all_Inr [OF xs]
    have "xs \<noteq> []" using all2 ne by auto
    then have "t \<in> set xs" using hd_sort_key_in [of "remdups xs"] t by (metis remdups_eq_nil_iff set_remdups)
    then obtain y where y: "y \<in> set (List.map_filter id answers)" "public_ip y = Inr t"
      using list_all2_right [OF all2] by blast
    then obtain a where a: "ip_address (strip y) = Some a" "is_global a" "t = show_ip a"
      unfolding public_ip_Inr by blast
    have mf: "z \<in> set (List.map_filter id answers) \<longleftrightarrow> Some z \<in> set answers" for z
      by (force simp: List.map_filter_def)
    have "\<exists>b. ip_address (strip x) = Some b \<and> is_global b" if "Some x \<in> set answers" for x
    proof -
      have "x \<in> set (List.map_filter id answers)" using that mf by simp
      then obtain x' where "public_ip x = Inr x'"
        using list_all2_left [OF all2] by blast
      then show ?thesis unfolding public_ip_Inr by blast
    qed
    then show ?thesis using n None ans a y(1) mf by auto
  qed
qed

lemma resolved_host_is_public_witness:
  "\<exists>a. resolve_public_proxy_host (\<lambda>_ _. Inr [Some ''8.8.8.8'', Some ''1.1.1.1'']) ''Example.org.'' 80 = Inr (show_ip a)
     \<and> is_global a"
proof -
  have r: "resolve_public_proxy_host (\<lambda>_ _. Inr [Some ''8.8.8.8'', Some ''1.1.1.1'']) ''Example.org.'' 80 = Inr ''1.1.1.1''"
    by code_simp
  from resolved_host_is_public [OF r] show ?thesis unfolding r by blast
qed

end
