(* ===== verification/Systems.thy ===== *)
theory Systems
  imports Prelude
begin

text \<open>
  Interfaces shared by the components: labelled transition systems with an invariant, systems that
  reserve funds, and leases on rows that several workers claim.
\<close>

inductive steps :: "('e \<Rightarrow> 's \<Rightarrow> 's \<Rightarrow> bool) \<Rightarrow> 's \<Rightarrow> 'e list \<Rightarrow> 's \<Rightarrow> bool"
  for step :: "'e \<Rightarrow> 's \<Rightarrow> 's \<Rightarrow> bool" where
  steps_nil: "steps step s [] s"
| steps_cons: "step e s s' \<Longrightarrow> steps step s' es s'' \<Longrightarrow> steps step s (e # es) s''"

inductive_simps steps_Nil [simp]: "steps step s [] s'"
inductive_simps steps_Cons: "steps step s (e # es) s'"

lemma steps_append:
  "steps step s (es @ fs) s'' \<longleftrightarrow> (\<exists>s'. steps step s es s' \<and> steps step s' fs s'')"
  by (induction es arbitrary: s) (auto simp: steps_Cons)

lemma steps_restrict:
  "steps step s es s' \<Longrightarrow> list_all P es \<Longrightarrow> steps (\<lambda>e s s'. step e s s' \<and> P e) s es s'"
  by (induction rule: steps.induct) (auto intro: steps.intros)

text \<open>An invariant of every step is an invariant of every run.\<close>

locale invariant_system =
  fixes step :: "'e \<Rightarrow> 's \<Rightarrow> 's \<Rightarrow> bool" and inv :: "'s \<Rightarrow> bool"
  assumes inv_step: "inv s \<Longrightarrow> step e s s' \<Longrightarrow> inv s'"
begin

lemma steps_inv: "steps step s es s' \<Longrightarrow> inv s \<Longrightarrow> inv s'"
  by (induction rule: steps.induct) (auto intro: inv_step)

end

text \<open>
  Funds: what an account has never shrinks, and a step that reserves more checks the new total
  against what the account has.
\<close>

definition solvent :: "('s \<Rightarrow> int \<Rightarrow> int) \<Rightarrow> ('s \<Rightarrow> int \<Rightarrow> int) \<Rightarrow> 's \<Rightarrow> bool" where
  "solvent available reserved s \<longleftrightarrow> (\<forall>u. reserved s u \<le> available s u)"

locale reservation_system = invariant_system step inv
  for step :: "'e \<Rightarrow> 's \<Rightarrow> 's \<Rightarrow> bool" and inv :: "'s \<Rightarrow> bool" +
  fixes available reserved :: "'s \<Rightarrow> int \<Rightarrow> int"
  assumes funds_keep: "inv s \<Longrightarrow> step e s s' \<Longrightarrow> available s u \<le> available s' u"
    and reserve_guard: "inv s \<Longrightarrow> step e s s' \<Longrightarrow>
      reserved s' u \<le> reserved s u \<or> reserved s' u \<le> available s u"
begin

lemma step_solvent:
  assumes "inv s" "step e s s'" "solvent available reserved s"
  shows "solvent available reserved s'"
  unfolding solvent_def
proof
  fix u
  have "reserved s u \<le> available s u" using assms(3) by (simp add: solvent_def)
  then show "reserved s' u \<le> available s' u"
    using funds_keep [OF assms(1,2), of u] reserve_guard [OF assms(1,2), of u] by linarith
qed

lemma steps_solvent:
  assumes "steps step s es s'" "inv s" "solvent available reserved s"
  shows "solvent available reserved s'"
  using assms by (induction rule: steps.induct) (auto intro: inv_step step_solvent)

end

text \<open>A lease column: NULL, or a time that may have passed.\<close>

definition elapsed :: "time option \<Rightarrow> time \<Rightarrow> bool" where
  "elapsed t now = (case t of None \<Rightarrow> True | Some x \<Rightarrow> x \<le> now)"

lemma elapsed_simps [simp]: "elapsed None now" "elapsed (Some x) now \<longleftrightarrow> x \<le> now"
  by (simp_all add: elapsed_def)

text \<open>
  Claims: a worker takes only rows whose lease is NULL or over, and the rows it takes are leased
  for a positive time; so no other worker gets them while the lease runs.
\<close>

locale claim_lease =
  fixes claim :: "time \<Rightarrow> 'tok \<Rightarrow> 's \<Rightarrow> 's \<times> int list"
    and held_until :: "'s \<Rightarrow> int \<Rightarrow> time option"
    and ok :: "'s \<Rightarrow> bool"
    and lease :: time
  assumes lease_pos: "0 < lease"
    and claim_free: "ok s \<Longrightarrow> claim now tok s = (s', ks) \<Longrightarrow> k \<in> set ks \<Longrightarrow> elapsed (held_until s k) now"
    and claim_marks: "ok s \<Longrightarrow> claim now tok s = (s', ks) \<Longrightarrow> k \<in> set ks \<Longrightarrow>
      held_until s' k = Some (now + lease)"
    and claim_ok: "ok s \<Longrightarrow> claim now tok s = (s', ks) \<Longrightarrow> ok s'"
begin

lemma claim_exclusive:
  assumes "ok s" "claim t1 a s = (s1, ks)" and "k \<in> set ks"
    and "ok s2" "held_until s2 k = held_until s1 k" and "claim t2 b s2 = (s3, ls)" "t2 < t1 + lease"
  shows "k \<notin> set ls"
proof
  assume "k \<in> set ls"
  then have "elapsed (held_until s2 k) t2" using claim_free assms(4,6) by blast
  then show False using assms claim_marks [OF assms(1,2,3)] by simp
qed

lemma claims_disjoint:
  assumes "ok s" "claim t1 a s = (s1, ks)" "claim t2 b s1 = (s2, ls)" "t2 < t1 + lease"
  shows "set ks \<inter> set ls = {}"
  using claim_exclusive [OF assms(1,2) _ claim_ok [OF assms(1,2)] _ assms(3,4)] by blast

lemma no_claim_twice:
  assumes "ok s" "claim t a s = (s1, ks)" "claim t b s1 = (s2, ls)"
  shows "set ks \<inter> set ls = {}"
  by (rule claims_disjoint [OF assms]) (use lease_pos in simp)

end

end
