(* ===== verification/Provider_Egress.thy ===== *)
theory Provider_Egress
  imports Settings Network_Safety
begin

text \<open>
  The egress identity of provider assignments: \<open>_ip\<close>, \<open>_duplicate_egress\<close>, \<open>_dashboard_ready\<close> and
  \<open>reconcile_proxiware_duplicates\<close> of \<open>app/services/proxiware_qualification.py\<close>, and the SQL trigger
  on \<open>proxies\<close> of \<open>app/services/proxiware_swap.py\<close>. Outside tests \<open>current_app.testing\<close> is false.
\<close>

definition private_egress_v4 :: "(32 word \<times> nat) list" where
  "private_egress_v4 = [(quad 10 0 0 0, 8), (quad 172 16 0 0, 12), (quad 192 168 0 0, 16)]"

fun private_egress :: "ip \<Rightarrow> bool" where
  "private_egress (V4 w) = list_ex (in_v4 w) private_egress_v4"
| "private_egress (V6 w _) = in_v6 w (hexes [0xfc00], 7)"

fun unmap :: "ip \<Rightarrow> ip" where
  "unmap (V4 w) = V4 w"
| "unmap (V6 w sc) = (case ipv4_mapped w of None \<Rightarrow> V6 w sc | Some v \<Rightarrow> V4 v)"

definition provider_ip :: "string \<Rightarrow> string" where
  "provider_ip v =
     (case ip_address (strip v) of
        None \<Rightarrow> ''''
      | Some a0 \<Rightarrow>
          (let a = unmap a0 in
           if is_loopback a \<or> is_link_local a \<or> is_unspecified a \<or> is_multicast a \<or> private_egress a then ''''
           else if \<not> is_global a then '''' else show_ip a))"

definition trusted_exit :: "string \<Rightarrow> proxy_row \<Rightarrow> bool" where
  "trusted_exit ip p \<longleftrightarrow> p_archived p = None \<and> p_exit_ip p = Some ip \<and> trusted p"

definition duplicate_egress :: "store \<Rightarrow> int \<Rightarrow> string \<Rightarrow> bool" where
  "duplicate_egress s i ip =
     (if ip = '''' then False
      else if exists_where (trusted_exit ip) (proxies s) then True
      else exists_where (\<lambda>a. a_exit_ip a = Some ip \<and> a_missing a = None \<and> a_id a < i) (asgs s))"

definition dashboard_ready :: "store \<Rightarrow> time \<Rightarrow> asg_row \<Rightarrow> bool" where
  "dashboard_ready s current a =
     (if strip (or_empty (a_dash_id a)) = '''' \<or> a_dash_source a \<noteq> ''provider_dashboard''
         \<or> a_dash_eligible a \<noteq> Some True then False
      else case (a_dash_connections a, a_dash_observed a,
                 py_int (get_setting s ''proxiware_dashboard_max_age_seconds'' ''900'')) of
        (Some connections, Some observed, Some age) \<Rightarrow>
          0 \<le> connections \<and> connections < 1000 \<and> 0 \<le> current - observed
            \<and> current - observed \<le> seconds (max 60 age)
      | _ \<Rightarrow> False)"

text \<open>The egress addresses of the user fleet, and the groups of provider rows by address.\<close>

definition user_ips :: "store \<Rightarrow> string list" where
  "user_ips s = map (\<lambda>p. or_empty (p_exit_ip p))
     (select_where (\<lambda>p. p_archived p = None \<and> has_exit_ip p \<and> trusted p
        \<and> provider_ip (or_empty (p_exit_ip p)) \<noteq> '''') (proxies s))"

definition current_asgs :: "store \<Rightarrow> asg_row list" where
  "current_asgs s = select_where (\<lambda>a. a_missing a = None) (asgs s)"

definition asg_ip :: "asg_row \<Rightarrow> string" where
  "asg_ip a = provider_ip (or_empty (a_exit_ip a))"

definition egress_group :: "store \<Rightarrow> string \<Rightarrow> int list" where
  "egress_group s ip = map a_id (filter (\<lambda>a. asg_ip a = ip) (current_asgs s))"

definition is_duplicate :: "store \<Rightarrow> asg_row \<Rightarrow> bool" where
  "is_duplicate s a =
     (let ip = asg_ip a in
      if ip = '''' then False
      else if ip \<in> set (user_ips s) then True
      else a_id a \<in> set (tl (egress_group s ip)))"

definition distributable :: "store \<Rightarrow> time \<Rightarrow> asg_row \<Rightarrow> bool" where
  "distributable s now a \<longleftrightarrow> \<not> is_duplicate s a \<and> lower (a_live a) = ''live''
     \<and> lower (a_qualification a) = ''allow'' \<and> a_provider_eligible a \<and> dashboard_ready s now a"

text \<open>The flags of every current row are recomputed; the number of changed rows is returned.\<close>

definition reconcile_proxiware_duplicates :: "time \<Rightarrow> store \<Rightarrow> store \<times> int" where
  "reconcile_proxiware_duplicates now s =
     (let stale = (\<lambda>a. a_missing a = None
            \<and> (a_duplicate a \<noteq> is_duplicate s a \<or> a_distribution a \<noteq> distributable s now a))
      in (s\<lparr>asgs := update_where stale
            (\<lambda>a. a\<lparr>a_duplicate := is_duplicate s a, a_distribution := distributable s now a\<rparr>) (asgs s)\<rparr>,
          count_where stale (asgs s)))"

text \<open>The trigger after an update of exit_ip, egress_attestation_source or archived_at, with the
  old and the new exit address of the row. \<open>datetime('now')\<close> has whole seconds.\<close>

definition first_with_exit :: "store \<Rightarrow> string \<Rightarrow> int option" where
  "first_with_exit s ip =
     (case map a_id (select_where (\<lambda>a. a_missing a = None \<and> a_exit_ip a = Some ip) (asgs s)) of
        [] \<Rightarrow> None | i # is \<Rightarrow> Some (foldl min i is))"

definition egress_conflict_trigger :: "time \<Rightarrow> string option \<Rightarrow> string option \<Rightarrow> store \<Rightarrow> store" where
  "egress_conflict_trigger now old_ip new_ip s =
     s\<lparr>asgs := update_where
        (\<lambda>a. a_missing a = None \<and> a_exit_ip a \<noteq> None \<and> (a_exit_ip a = new_ip \<or> a_exit_ip a = old_ip))
        (\<lambda>a. (let ip = or_empty (a_exit_ip a);
                  taken = exists_where (trusted_exit ip) (proxies s);
                  first = (first_with_exit s ip = Some (a_id a) \<or> first_with_exit s ip = None)
              in a\<lparr>a_duplicate := (taken \<or> \<not> first),
                   a_distribution := (a_qualification a = ''allow'' \<and> a_live a = ''live''
                      \<and> a_provider_eligible a \<and> \<not> taken \<and> first),
                   a_updated := seconds (now div 1000000)\<rparr>))
        (asgs s)\<rparr>"

subsection \<open>Facts\<close>

lemma reconcile_dup_frame [simp]:
  "proxies (fst (reconcile_proxiware_duplicates n s)) = proxies s"
  "ledger (fst (reconcile_proxiware_duplicates n s)) = ledger s"
  "users (fst (reconcile_proxiware_duplicates n s)) = users s"
  "settings (fst (reconcile_proxiware_duplicates n s)) = settings s"
  "payouts (fst (reconcile_proxiware_duplicates n s)) = payouts s"
  "wallets (fst (reconcile_proxiware_duplicates n s)) = wallets s"
  "subs (fst (reconcile_proxiware_duplicates n s)) = subs s"
  "jobs (fst (reconcile_proxiware_duplicates n s)) = jobs s"
  "mappings (fst (reconcile_proxiware_duplicates n s)) = mappings s"
  by (simp_all add: reconcile_proxiware_duplicates_def Let_def)

lemma trigger_frame [simp]:
  "proxies (egress_conflict_trigger n a b s) = proxies s"
  "ledger (egress_conflict_trigger n a b s) = ledger s"
  "users (egress_conflict_trigger n a b s) = users s"
  "settings (egress_conflict_trigger n a b s) = settings s"
  "payouts (egress_conflict_trigger n a b s) = payouts s"
  "wallets (egress_conflict_trigger n a b s) = wallets s"
  "subs (egress_conflict_trigger n a b s) = subs s"
  "jobs (egress_conflict_trigger n a b s) = jobs s"
  "mappings (egress_conflict_trigger n a b s) = mappings s"
  by (simp_all add: egress_conflict_trigger_def)

lemma reconcile_asgs:
  "rows (asgs (fst (reconcile_proxiware_duplicates now s)))
     = map (\<lambda>a. if a_missing a = None
         then a\<lparr>a_duplicate := is_duplicate s a, a_distribution := distributable s now a\<rparr> else a) (rows (asgs s))"
proof -
  have keep: "a\<lparr>a_duplicate := x, a_distribution := y\<rparr> = a" if "a_duplicate a = x" "a_distribution a = y" for a x y
    using that by (cases a) simp
  show ?thesis
    unfolding reconcile_proxiware_duplicates_def Let_def fst_conv
    by (auto simp: keep)
qed

lemma reconcile_rows:
  assumes "(s', n) = reconcile_proxiware_duplicates now s" and "a' \<in> set (rows (asgs s'))"
  shows "\<exists>a \<in> set (rows (asgs s)). a_id a' = a_id a \<and> a_missing a' = a_missing a \<and> a_exit_ip a' = a_exit_ip a
     \<and> (a_missing a = None \<longrightarrow> a_duplicate a' = is_duplicate s a \<and> a_distribution a' = distributable s now a)"
proof -
  have "s' = fst (reconcile_proxiware_duplicates now s)" using assms(1) by (metis fst_conv)
  then obtain a where a: "a \<in> set (rows (asgs s))" "a' = (if a_missing a = None
      then a\<lparr>a_duplicate := is_duplicate s a, a_distribution := distributable s now a\<rparr> else a)"
    using assms(2) reconcile_asgs [of now s] by auto
  show ?thesis by (rule bexI [OF _ a(1)]) (simp add: a(2))
qed

lemma not_duplicate_first:
  assumes "\<not> is_duplicate s a" and "a \<in> set (rows (asgs s))" "a_missing a = None" "asg_ip a \<noteq> ''''"
  shows "asg_ip a \<notin> set (user_ips s) \<and> a_id a = hd (egress_group s (asg_ip a))"
proof -
  have "a_id a \<in> set (egress_group s (asg_ip a))"
    using assms(2,3) by (auto simp: egress_group_def current_asgs_def)
  moreover have "a_id a \<notin> set (tl (egress_group s (asg_ip a)))" "asg_ip a \<notin> set (user_ips s)"
    using assms(1,4) by (auto simp: is_duplicate_def Let_def split: if_splits)
  ultimately show ?thesis by (cases "egress_group s (asg_ip a)") auto
qed

text \<open>C14. After a reconciliation the provider rows that are distributed are exactly the live,
  allowed and eligible ones with fresh dashboard evidence that are no duplicates: no two of them
  share an egress address, and none has the egress address of an active attested user proxy.\<close>

lemma reconciled_distribution_unique:
  assumes run: "reconcile_proxiware_duplicates now s = (s', n)"
    and a: "a \<in> set (rows (asgs s'))" "a_missing a = None" "a_distribution a" "asg_ip a \<noteq> ''''"
    and b: "b \<in> set (rows (asgs s'))" "a_missing b = None" "a_distribution b" "asg_ip b = asg_ip a"
  shows "a_id a = a_id b \<and> asg_ip a \<notin> set (user_ips s')"
proof -
  have first: "asg_ip x \<notin> set (user_ips s) \<and> a_id x = hd (egress_group s (asg_ip x))"
    if x: "x \<in> set (rows (asgs s'))" "a_missing x = None" "a_distribution x" "asg_ip x \<noteq> ''''" for x
  proof -
    obtain y where y: "y \<in> set (rows (asgs s))" "a_id x = a_id y" "a_missing y = None" "a_exit_ip x = a_exit_ip y"
      "a_distribution x = distributable s now y"
      using reconcile_rows [OF run [symmetric] x(1)] x(2) by auto
    have "\<not> is_duplicate s y" "asg_ip y = asg_ip x" using x(3) y by (auto simp: distributable_def asg_ip_def)
    then show ?thesis using not_duplicate_first [OF _ y(1,3)] x(4) y(2) by simp
  qed
  have "proxies s' = proxies s" using reconcile_dup_frame(1) [of now s] run by simp
  then have "user_ips s' = user_ips s" by (simp add: user_ips_def)
  then show ?thesis using first [OF a] first [of b] a(4) b by simp
qed

definition sample_asg :: "int \<Rightarrow> string \<Rightarrow> asg_row" where
  "sample_asg i ip = \<lparr>a_id = i, a_sub = 1, a_external = ''e'', a_host = ''1.2.3.4'', a_port = 80,
     a_username = '''', a_password = '''', a_country = ''us'', a_protocol = ''http'', a_status = ''active'',
     a_qualification = ''allow'', a_provider_eligible = True, a_live = ''live'', a_exit_ip = Some ip,
     a_dash_id = Some ''d'', a_dash_eligible = Some True, a_dash_connections = Some 0,
     a_dash_observed = Some 0, a_dash_source = ''provider_dashboard'', a_dash_error = '''',
     a_last_seen = None, a_missing = None, a_ready = None, a_last_checked = None,
     a_egress_verified = None, a_last_error = '''', a_duplicate = False, a_distribution = False,
     a_q_next = None, a_q_claimed_until = None, a_q_token = None, a_q_attempts = 0,
     a_identity_fp = '''', a_identity_gen = 1, a_created = 0, a_updated = 0\<rparr>"

definition sample_asgs :: store where
  "sample_asgs = empty_store\<lparr>asgs := \<lparr>rows = [sample_asg 1 ''8.8.8.8'', sample_asg 2 ''8.8.8.8''], seq = 2\<rparr>\<rparr>"

lemma reconciled_distribution_unique_witness:
  "asg_ip (hd (rows (asgs (fst (reconcile_proxiware_duplicates 0 sample_asgs)))))
     \<notin> set (user_ips (fst (reconcile_proxiware_duplicates 0 sample_asgs)))"
proof -
  let ?s = "fst (reconcile_proxiware_duplicates 0 sample_asgs)"
  let ?a = "hd (rows (asgs ?s))"
  have run: "reconcile_proxiware_duplicates 0 sample_asgs = (?s, snd (reconcile_proxiware_duplicates 0 sample_asgs))"
    by simp
  have ip: "provider_ip ''8.8.8.8'' = ''8.8.8.8''" by code_simp
  have age: "py_int (get_setting sample_asgs ''proxiware_dashboard_max_age_seconds'' ''900'') = Some 900" by code_simp
  have st: "strip ''d'' = ''d''" "lower ''live'' = ''live''" "lower ''allow'' = ''allow''" by code_simp+
  have nd: "\<not> is_duplicate sample_asgs (sample_asg 1 ''8.8.8.8'')"
    using ip by (simp add: is_duplicate_def asg_ip_def egress_group_def
      current_asgs_def user_ips_def select_where_def sample_asgs_def sample_asg_def empty_store_def)
  then have "distributable sample_asgs 0 (sample_asg 1 ''8.8.8.8'')"
    using age st by (simp add: distributable_def dashboard_ready_def sample_asg_def seconds_def)
  then have hd: "rows (asgs ?s) \<noteq> [] \<and> ?a = (sample_asg 1 ''8.8.8.8'')\<lparr>a_distribution := True\<rparr>"
    unfolding reconcile_asgs using nd by (simp add: sample_asgs_def [THEN arg_cong, where f = asgs] sample_asg_def)
  then have ne: "rows (asgs ?s) \<noteq> []" by simp
  have a: "a_missing ?a = None" "a_distribution ?a" "asg_ip ?a \<noteq> ''''"
    using hd ip by (simp_all add: sample_asg_def asg_ip_def)
  show ?thesis
    using reconciled_distribution_unique [OF run hd_in_set [OF ne] a hd_in_set [OF ne] a(1,2) refl] by blast
qed

end
