(* ===== verification/Proxies.thy ===== *)
theory Proxies
  imports Accrual Proxy_Parser Systems Provider_Egress
begin

text \<open>
  \<open>app/services/proxies.py\<close>: adding, importing, replacing and archiving proxies, the choice of one
  distributor per egress address, and the promotion of a duplicate. Parameters: \<open>unquote\<close> of the
  parser and \<open>sha256\<close>, the hexadecimal digest of a text; stored credentials are encrypted, the model
  keeps their plain texts. \<open>wall\<close> is the clock that a function reads itself.
\<close>

subsection \<open>One distributor per egress address\<close>

definition exit_group :: "store \<Rightarrow> string \<Rightarrow> int option \<Rightarrow> proxy_row list" where
  "exit_group s ip excl = select_where (\<lambda>p. p_exit_ip p = Some ip \<and> p_archived p = None
     \<and> (case excl of None \<Rightarrow> True | Some x \<Rightarrow> p_id p \<noteq> x) \<and> trusted p) (proxies s)"

definition long_offline :: "time \<Rightarrow> proxy_row \<Rightarrow> bool" where
  "long_offline cutoff p \<longleftrightarrow> p_status p = Px_offline
     \<and> (case p_offline_since p of None \<Rightarrow> False | Some t \<Rightarrow> t \<le> cutoff)"

definition group_candidates :: "time \<Rightarrow> proxy_row list \<Rightarrow> proxy_row list" where
  "group_candidates cutoff ps =
     (let cs = filter (\<lambda>p. \<not> long_offline cutoff p) ps in if cs = [] then ps else cs)"

definition canonical_row :: "time \<Rightarrow> bool \<Rightarrow> proxy_row list \<Rightarrow> proxy_row" where
  "canonical_row wall prefer ps =
     (let all_preverified = prefer \<and> list_all (\<lambda>p. p_egress_verified p \<noteq> None) ps;
          key = (\<lambda>p. if all_preverified then (the (p_egress_verified p), p_created p, p_id p)
                      else (0, p_created p, p_id p))
      in hd (sort_key key (group_candidates (wall - hours 24) ps)))"

definition canonicalize_exit_group ::
  "time \<Rightarrow> string \<Rightarrow> bool \<Rightarrow> int option \<Rightarrow> store \<Rightarrow> store result" where
  "canonicalize_exit_group wall ip prefer excl s =
     (let ps = exit_group s ip excl in
      if ps = [] then Inr s
      else
        (let canonical = p_id (canonical_row wall prefer ps) in
         bindR (foldR (\<lambda>t p. expire_pending_cycle (p_id p) t) s (filter (\<lambda>p. p_id p \<noteq> canonical) ps)) (\<lambda>s1.
           Inr (s1\<lparr>proxies := update_where
                  (\<lambda>p. p_exit_ip p = Some ip \<and> p_id p \<noteq> canonical \<and> p_archived p = None \<and> trusted p
                     \<and> (case excl of None \<Rightarrow> True | Some x \<Rightarrow> p_id p \<noteq> x))
                  (\<lambda>p. p\<lparr>p_duplicate_of := Some canonical\<rparr>)
                  (update_where (\<lambda>p. p_id p = canonical) (\<lambda>p. p\<lparr>p_duplicate_of := None\<rparr>) (proxies s1))\<rparr>))))"

text \<open>\<open>str(ipaddress.ip_address(text.strip()))\<close>, empty when it is no address.\<close>

definition normalized_exit_ip :: "string option \<Rightarrow> string" where
  "normalized_exit_ip v =
     (let c = strip (or_empty v) in
      if c = '''' then '''' else (case ip_address c of None \<Rightarrow> '''' | Some a \<Rightarrow> show_ip a))"

text \<open>The update that a new attested exit address makes on its row.\<close>

definition attest_row :: "time \<Rightarrow> string \<Rightarrow> attestation \<Rightarrow> proxy_row \<Rightarrow> proxy_row" where
  "attest_row wall ip source p =
     p\<lparr>p_exit_ip := Some ip,
       p_country := (if or_empty (p_exit_ip p) \<noteq> '''' \<and> or_empty (p_exit_ip p) \<noteq> ip then '''' else p_country p),
       p_egress_verified :=
         (if or_empty (p_exit_ip p) \<noteq> ip \<and> or_empty (p_exit_ip p) \<noteq> '''' \<and> p_egress_verified p \<noteq> None then Some wall
          else (case p_egress_verified p of None \<Rightarrow> Some wall | Some t \<Rightarrow> Some t)),
       p_attestation := source, p_updated := wall\<rparr>"

definition reconcile_exit_ip :: "time \<Rightarrow> int \<Rightarrow> string \<Rightarrow> attestation \<Rightarrow> store \<Rightarrow> store result" where
  "reconcile_exit_ip wall pid exit_ip source s =
     (case ip_address (strip exit_ip) of
        None \<Rightarrow> Inr s
      | Some a \<Rightarrow>
          (let ip = show_ip a in
           case select_one (\<lambda>p. p_id p = pid \<and> p_archived p = None) (proxies s) of
             None \<Rightarrow> Inr s
           | Some previous \<Rightarrow>
               if source = At_none then Inr s
               else
                 (let old = or_empty (p_exit_ip previous);
                      s1 = egress_conflict_trigger wall (p_exit_ip previous) (Some ip)
                        (update_proxy pid (attest_row wall ip source) s)
                  in bindR (canonicalize_exit_group wall ip (p_egress_verified previous \<noteq> None) None s1) (\<lambda>s2.
                     bindR (if old \<noteq> '''' \<and> old \<noteq> ip then canonicalize_exit_group wall old False None s2
                            else Inr s2) (\<lambda>s3.
                       Inr (fst (reconcile_proxiware_duplicates wall s3)))))))"

definition promote_duplicate_if_due :: "time \<Rightarrow> int \<Rightarrow> store \<Rightarrow> (store \<times> int option) result" where
  "promote_duplicate_if_due current cid s =
     (case find_proxy s cid of
        None \<Rightarrow> Inr (s, None)
      | Some canonical \<Rightarrow>
          (case p_offline_since canonical of
             None \<Rightarrow> Inr (s, None)
           | Some offline \<Rightarrow>
               if p_status canonical \<noteq> Px_offline \<and> p_status canonical \<noteq> Px_archived then Inr (s, None)
               else if p_status canonical \<noteq> Px_archived \<and> current - offline < hours 24 then Inr (s, None)
               else case sort_key (\<lambda>p. (p_created p, p_id p))
                      (select_where (\<lambda>p. p_duplicate_of p = Some cid \<and> p_status p = Px_online
                         \<and> p_archived p = None) (proxies s)) of
                 [] \<Rightarrow> Inr (s, None)
               | candidate # _ \<Rightarrow>
                   (let i = p_id candidate in
                    bindR (expire_pending_cycle cid s) (\<lambda>s1.
                    bindR (reset_probation i current
                      (s1\<lparr>proxies :=
                         update_where (\<lambda>p. p_duplicate_of p = Some cid \<and> p_id p \<noteq> i)
                           (\<lambda>p. p\<lparr>p_duplicate_of := Some i\<rparr>)
                         (update_where (\<lambda>p. p_id p = i) (\<lambda>p. p\<lparr>p_duplicate_of := None\<rparr>)
                         (update_where (\<lambda>p. p_id p = cid) (\<lambda>p. p\<lparr>p_duplicate_of := Some i\<rparr>)
                           (proxies s1)))\<rparr>)) (\<lambda>s2.
                      Inr (s2, Some i))))))"

subsection \<open>Adding and importing\<close>

definition credential_fingerprint :: "(string \<Rightarrow> string) \<Rightarrow> parsed_proxy \<Rightarrow> string" where
  "credential_fingerprint sha256 p =
     sha256 (join_with [CHR 0x00] [lower (pp_host p), show_int (pp_port p), pp_username p, pp_password p])"

text \<open>The row that an INSERT with the defaults of the schema creates.\<close>

definition new_proxy_row :: "time \<Rightarrow> int \<Rightarrow> parsed_proxy \<Rightarrow> string \<Rightarrow> int \<Rightarrow> proxy_row" where
  "new_proxy_row now uid p fp i =
     \<lparr>p_id = i, p_user = uid, p_host = pp_host p, p_port = pp_port p, p_protocol_hint = pp_protocol p,
      p_detected_protocol = ''unknown'', p_username = pp_username p, p_password = pp_password p,
      p_fingerprint = fp, p_generation = 1, p_cred_started = now, p_status = Px_pending,
      p_eligibility = El_pending, p_verdict = '''', p_reason = '''', p_earn_checked = None,
      p_earn_next = None, p_earn_claimed_until = None, p_earn_token = None, p_egress_verified = None,
      p_attestation = At_none, p_exit_ip = None, p_country = '''', p_duplicate_of = None,
      p_failures = 0, p_online_since = None, p_offline_since = None, p_last_checked = None,
      p_last_success = None, p_next_check = Some now, p_check_claimed_until = None,
      p_check_token = None, p_health_mode = Hm_strong, p_next_probe = 0, p_last_endpoint = '''',
      p_latency = None, p_failure_kind = '''', p_cursor = Some now, p_probation = Some now,
      p_online_secs = 0, p_offline_secs = 0, p_dead_since = None, p_archived = None,
      p_last_error = '''', p_created = now, p_updated = now\<rparr>"

definition insert_proxy :: "time \<Rightarrow> int \<Rightarrow> parsed_proxy \<Rightarrow> string \<Rightarrow> store \<Rightarrow> store" where
  "insert_proxy now uid p fp s = s\<lparr>proxies := insert_row (new_proxy_row now uid p fp) (proxies s)\<rparr>"

definition active_count :: "store \<Rightarrow> int \<Rightarrow> int" where
  "active_count s uid = count_where (\<lambda>p. p_user p = uid \<and> p_archived p = None) (proxies s)"

definition known_fingerprint :: "store \<Rightarrow> string \<Rightarrow> bool" where
  "known_fingerprint s fp \<longleftrightarrow> exists_where (\<lambda>p. p_fingerprint p = fp) (proxies s)"

definition add_proxy ::
  "(string \<Rightarrow> string) \<Rightarrow> (string \<Rightarrow> string) \<Rightarrow> time \<Rightarrow> int \<Rightarrow> string \<Rightarrow> int option \<Rightarrow> store
     \<Rightarrow> (store \<times> int) result" where
  "add_proxy unquote sha256 now uid text max_active s =
     bindR (case max_active of
        Some m \<Rightarrow> if clamp 1 10000 m \<le> active_count s uid then Inl (ProxyQuotaExceeded (clamp 1 10000 m)) else Inr ()
      | None \<Rightarrow> Inr ()) (\<lambda>_. bindR (parse_proxy unquote text) (\<lambda>p.
       let fp = credential_fingerprint sha256 p in
       if known_fingerprint s fp then Inl DuplicateCredential
       else if find_user s uid = None then Inl (IntegrityError ''FOREIGN KEY constraint failed'')
       else Inr (insert_proxy now uid p fp s, seq (proxies s) + 1)))"

text \<open>The result of a bulk import, with its first hundred issues.\<close>

record import_issue =
  ii_line :: int
  ii_category :: string
  ii_reason :: string
  ii_value :: string

record import_result =
  ir_submitted :: int
  ir_added :: int
  ir_duplicates :: int
  ir_invalid :: int
  ir_quota_skipped :: int
  ir_blank :: int
  ir_issues :: "import_issue list"
  ir_truncated :: int

definition empty_import :: import_result where
  "empty_import = \<lparr>ir_submitted = 0, ir_added = 0, ir_duplicates = 0, ir_invalid = 0,
     ir_quota_skipped = 0, ir_blank = 0, ir_issues = [], ir_truncated = 0\<rparr>"

definition record_issue :: "int \<Rightarrow> string \<Rightarrow> string \<Rightarrow> string \<Rightarrow> import_result \<Rightarrow> import_result" where
  "record_issue n cat why v r =
     (if length (ir_issues r) < 100
      then r\<lparr>ir_issues := ir_issues r @ [\<lparr>ii_line = n, ii_category = cat, ii_reason = why, ii_value = v\<rparr>]\<rparr>
      else r\<lparr>ir_truncated := ir_truncated r + 1\<rparr>)"

definition safe_issue_value :: "parsed_proxy \<Rightarrow> string" where
  "safe_issue_value p = pp_host p @ '':'' @ show_int (pp_port p)"

text \<open>The first loop: parse every line. An exception other than ProxyParseError cannot occur.\<close>

fun parse_lines ::
  "(string \<Rightarrow> string) \<Rightarrow> (string \<Rightarrow> string) \<Rightarrow> int \<Rightarrow> string list \<Rightarrow> import_result
     \<Rightarrow> import_result \<times> (int \<times> parsed_proxy \<times> string) list" where
  "parse_lines unquote sha256 n [] r = (r, [])"
| "parse_lines unquote sha256 n (line # rest) r =
     (if strip line = '''' then parse_lines unquote sha256 (n + 1) rest (r\<lparr>ir_blank := ir_blank r + 1\<rparr>)
      else (let r1 = r\<lparr>ir_submitted := ir_submitted r + 1\<rparr> in
        case parse_proxy unquote (strip line) of
          Inl e \<Rightarrow>
            parse_lines unquote sha256 (n + 1) rest
              (record_issue n ''invalid'' (case e of ProxyParseError m \<Rightarrow> m | _ \<Rightarrow> '''') ''''
                (r1\<lparr>ir_invalid := ir_invalid r1 + 1\<rparr>))
        | Inr p \<Rightarrow>
            (let (r2, ps) = parse_lines unquote sha256 (n + 1) rest r1
             in (r2, (n, p, credential_fingerprint sha256 p) # ps))))"

text \<open>The second loop: insert the rows that are new, within the quota.\<close>

fun import_rows ::
  "time \<Rightarrow> int \<Rightarrow> int option \<Rightarrow> int \<Rightarrow> string list \<Rightarrow> (int \<times> parsed_proxy \<times> string) list
     \<Rightarrow> import_result \<Rightarrow> store \<Rightarrow> (store \<times> import_result) result" where
  "import_rows now uid quota active seen [] r s = Inr (s, r)"
| "import_rows now uid quota active seen ((n, p, fp) # rest) r s =
     (if fp \<in> set seen
      then import_rows now uid quota active seen rest
             (record_issue n ''duplicate'' ''Proxy credential already exists in this import'' (safe_issue_value p)
               (r\<lparr>ir_duplicates := ir_duplicates r + 1\<rparr>)) s
      else if known_fingerprint s fp
      then import_rows now uid quota active (fp # seen) rest
             (record_issue n ''duplicate'' ''Proxy credential already exists'' (safe_issue_value p)
               (r\<lparr>ir_duplicates := ir_duplicates r + 1\<rparr>)) s
      else if (case quota of None \<Rightarrow> False | Some q \<Rightarrow> q \<le> active)
      then import_rows now uid quota active (fp # seen) rest
             (record_issue n ''quota'' ''Account proxy limit reached'' (safe_issue_value p)
               (r\<lparr>ir_quota_skipped := ir_quota_skipped r + 1\<rparr>)) s
      else if find_user s uid = None then Inl (IntegrityError ''FOREIGN KEY constraint failed'')
      else import_rows now uid quota (active + 1) (fp # seen) rest (r\<lparr>ir_added := ir_added r + 1\<rparr>)
             (insert_proxy now uid p fp s))"

definition bulk_add_proxies ::
  "(string \<Rightarrow> string) \<Rightarrow> (string \<Rightarrow> string) \<Rightarrow> time \<Rightarrow> int \<Rightarrow> string list \<Rightarrow> int option \<Rightarrow> int \<Rightarrow> store
     \<Rightarrow> (store \<times> import_result) result" where
  "bulk_add_proxies unquote sha256 now uid lines max_active max_lines s =
     (if max 1 max_lines < int (length lines) then Inl ProxyImportLimitExceeded
      else
        (let quota = map_option (clamp 1 10000) max_active;
             (r, ps) = parse_lines unquote sha256 1 lines empty_import;
             active = (if quota = None then 0 else active_count s uid)
         in bindR (import_rows now uid quota active [] ps r s) (\<lambda>(s', r').
              Inr (s', r'\<lparr>ir_issues := sort_key ii_line (ir_issues r')\<rparr>))))"

subsection \<open>Replacing and archiving\<close>

definition owned_active :: "store \<Rightarrow> int \<Rightarrow> int \<Rightarrow> proxy_row option" where
  "owned_active s pid uid = select_one (\<lambda>p. p_id p = pid \<and> p_user p = uid \<and> p_archived p = None) (proxies s)"

definition replace_row :: "time \<Rightarrow> parsed_proxy \<Rightarrow> string \<Rightarrow> proxy_row \<Rightarrow> proxy_row" where
  "replace_row now q fp p = p\<lparr>p_host := pp_host q, p_port := pp_port q, p_protocol_hint := pp_protocol q,
     p_username := pp_username q, p_password := pp_password q, p_fingerprint := fp,
     p_generation := p_generation p + 1, p_cred_started := now, p_detected_protocol := ''unknown'',
     p_status := Px_pending, p_eligibility := El_pending, p_verdict := '''', p_reason := '''',
     p_earn_checked := None, p_earn_next := None, p_earn_claimed_until := None, p_earn_token := None,
     p_egress_verified := None, p_attestation := At_none, p_exit_ip := None, p_country := '''',
     p_duplicate_of := None, p_failures := 0, p_online_since := None, p_offline_since := None,
     p_last_checked := None, p_last_success := None, p_next_check := Some now,
     p_check_claimed_until := None, p_check_token := None, p_health_mode := Hm_strong, p_next_probe := 0,
     p_last_endpoint := '''', p_latency := None, p_failure_kind := '''', p_cursor := Some now,
     p_probation := Some now, p_online_secs := 0, p_offline_secs := 0, p_dead_since := None,
     p_last_error := '''', p_updated := now\<rparr>"

definition replace_proxy ::
  "(string \<Rightarrow> string) \<Rightarrow> (string \<Rightarrow> string) \<Rightarrow> time \<Rightarrow> time \<Rightarrow> int \<Rightarrow> int \<Rightarrow> string \<Rightarrow> store \<Rightarrow> store result" where
  "replace_proxy unquote sha256 wall current pid uid text s =
     bindR (parse_proxy unquote text) (\<lambda>q.
       case owned_active s pid uid of
         None \<Rightarrow> Inl (LookupError ''Proxy not found'')
       | Some existing \<Rightarrow>
           (let fp = credential_fingerprint sha256 q;
                old = or_empty (p_exit_ip existing)
            in if exists_where (\<lambda>p. p_fingerprint p = fp \<and> p_id p \<noteq> pid) (proxies s) then Inl DuplicateCredential
               else bindR (if old \<noteq> '''' then canonicalize_exit_group wall old False (Some pid) s else Inr s) (\<lambda>s1.
                    bindR (expire_pending_cycle pid s1) (\<lambda>s2.
                      Inr (egress_conflict_trigger wall (p_exit_ip existing) None
                        (s2\<lparr>proxies := update_where (\<lambda>p. p_id p = pid \<and> p_user p = uid \<and> p_archived p = None)
                              (replace_row current q fp) (proxies s2)\<rparr>))))))"

definition archive_proxy :: "time \<Rightarrow> time \<Rightarrow> int \<Rightarrow> int \<Rightarrow> store \<Rightarrow> store result" where
  "archive_proxy wall current pid uid s =
     (case owned_active s pid uid of
        None \<Rightarrow> Inl (LookupError ''Proxy not found'')
      | Some existing \<Rightarrow>
          (let old = or_empty (p_exit_ip existing) in
           bindR (if old \<noteq> '''' then canonicalize_exit_group wall old False (Some pid) s else Inr s) (\<lambda>s1.
           bindR (expire_pending_cycle pid s1) (\<lambda>s2.
             Inr (egress_conflict_trigger wall (p_exit_ip existing) (p_exit_ip existing)
               (s2\<lparr>proxies := update_where (\<lambda>p. p_id p = pid \<and> p_user p = uid \<and> p_archived p = None)
                     (\<lambda>p. p\<lparr>p_archived := Some current, p_status := Px_archived, p_updated := current\<rparr>)
                     (proxies s2)\<rparr>))))))"

end
