(* ===== verification/Fleet.thy ===== *)
theory Fleet
  imports Proxies
begin

text \<open>
  The invariant of the proxy fleet: the active attested proxies behind one egress address agree on
  their distributor. Every operation of \<open>app/services/proxies.py\<close> keeps it, and keeps the ledger
  consistent.
\<close>

definition active :: "proxy_row \<Rightarrow> bool" where
  "active p \<longleftrightarrow> p_archived p = None"

definition exit_key :: "proxy_row \<Rightarrow> string" where
  "exit_key p = or_empty (p_exit_ip p)"

definition root :: "proxy_row \<Rightarrow> int" where
  "root p = (case p_duplicate_of p of None \<Rightarrow> p_id p | Some r \<Rightarrow> r)"

text \<open>What two active rows must satisfy: a duplicate is attested, it points into its own group, two
  duplicates of one row are in one group, and a group has one root.\<close>

definition pair_ok :: "proxy_row \<Rightarrow> proxy_row \<Rightarrow> bool" where
  "pair_ok p q \<longleftrightarrow> (active p \<and> active q \<longrightarrow>
     (p_duplicate_of p \<noteq> None \<longrightarrow> trusted p \<and> exit_key p \<noteq> '''')
   \<and> (p_duplicate_of p = Some (p_id q) \<longrightarrow> trusted q \<and> exit_key q = exit_key p)
   \<and> (p_duplicate_of p \<noteq> None \<and> p_duplicate_of p = p_duplicate_of q \<longrightarrow> exit_key p = exit_key q)
   \<and> (trusted p \<and> trusted q \<and> exit_key p = exit_key q \<and> exit_key p \<noteq> '''' \<longrightarrow> root p = root q))"

definition links_on :: "(proxy_row \<Rightarrow> bool) \<Rightarrow> proxy_row list \<Rightarrow> bool" where
  "links_on K ps \<longleftrightarrow> (\<forall>p \<in> set ps. \<forall>q \<in> set ps. K p \<and> K q \<longrightarrow> pair_ok p q)"

definition targets_ok :: "int \<Rightarrow> proxy_row list \<Rightarrow> bool" where
  "targets_ok n ps \<longleftrightarrow> (\<forall>p \<in> set ps. case p_duplicate_of p of None \<Rightarrow> True | Some d \<Rightarrow> d \<le> n)"

definition links_ok :: "store \<Rightarrow> bool" where
  "links_ok s \<longleftrightarrow> links_on (\<lambda>_. True) (rows (proxies s)) \<and> targets_ok (seq (proxies s)) (rows (proxies s))"

definition fingerprints_ok :: "store \<Rightarrow> bool" where
  "fingerprints_ok s \<longleftrightarrow> distinct (map p_fingerprint (rows (proxies s)))"

definition fleet_ok :: "time \<Rightarrow> store \<Rightarrow> bool" where
  "fleet_ok now s \<longleftrightarrow> ledger_ok now s \<and> links_ok s \<and> fingerprints_ok s"

text \<open>The columns the invariant depends on.\<close>

definition link_view :: "proxy_row \<Rightarrow> int \<times> time option \<times> string option \<times> attestation \<times> int option \<times> string" where
  "link_view p = (p_id p, p_archived p, p_exit_ip p, p_attestation p, p_duplicate_of p, p_fingerprint p)"

lemma link_viewD:
  assumes "link_view p = link_view q"
  shows "p_id p = p_id q" "p_archived p = p_archived q" "p_exit_ip p = p_exit_ip q" "trusted p = trusted q"
    "p_duplicate_of p = p_duplicate_of q" "p_fingerprint p = p_fingerprint q" "active p = active q"
    "exit_key p = exit_key q" "root p = root q"
proof -
  show v: "p_id p = p_id q" "p_archived p = p_archived q" "p_exit_ip p = p_exit_ip q" "trusted p = trusted q"
    "p_duplicate_of p = p_duplicate_of q" "p_fingerprint p = p_fingerprint q"
    using assms by (simp_all add: link_view_def trusted_def)
  show "active p = active q" "exit_key p = exit_key q" "root p = root q"
    by (simp_all only: active_def exit_key_def root_def v)
qed

lemma pair_ok_view:
  "link_view p = link_view p' \<Longrightarrow> link_view q = link_view q' \<Longrightarrow> pair_ok p q = pair_ok p' q'"
  unfolding pair_ok_def by (simp only: link_viewD [of p p'] link_viewD [of q q'])

definition same_links :: "store \<Rightarrow> store \<Rightarrow> bool" where
  "same_links s s' \<longleftrightarrow> map link_view (rows (proxies s')) = map link_view (rows (proxies s))
     \<and> seq (proxies s') = seq (proxies s)"

lemma same_links_refl [simp]: "same_links s s"
  by (simp add: same_links_def)

lemma same_links_trans: "same_links a b \<Longrightarrow> same_links b c \<Longrightarrow> same_links a c"
  by (simp add: same_links_def)

lemma same_links_row:
  assumes "same_links s s'" "p \<in> set (rows (proxies s'))"
  shows "\<exists>q \<in> set (rows (proxies s)). link_view q = link_view p"
proof -
  have "link_view p \<in> set (map link_view (rows (proxies s)))"
    using assms unfolding same_links_def by (metis image_eqI list.set_map)
  then show ?thesis by auto
qed

lemma links_ok_same:
  assumes "same_links s s'" and "links_ok s"
  shows "links_ok s'"
  unfolding links_ok_def
proof
  show "links_on (\<lambda>_. True) (rows (proxies s'))"
    unfolding links_on_def
  proof (intro ballI impI)
    fix p q assume "p \<in> set (rows (proxies s'))" "q \<in> set (rows (proxies s'))"
    then obtain p0 q0 where "p0 \<in> set (rows (proxies s))" "link_view p0 = link_view p"
      "q0 \<in> set (rows (proxies s))" "link_view q0 = link_view q"
      using same_links_row [OF assms(1)] by metis
    then show "pair_ok p q" using pair_ok_view [of p0 p q0 q] assms(2) by (simp add: links_ok_def links_on_def)
  qed
next
  have "seq (proxies s') = seq (proxies s)" using assms(1) by (simp add: same_links_def)
  then show "targets_ok (seq (proxies s')) (rows (proxies s'))"
    using assms(2) same_links_row [OF assms(1)] link_viewD(5)
    unfolding links_ok_def targets_ok_def by metis
qed

lemma fingerprints_ok_same:
  assumes "same_links s s'"
  shows "fingerprints_ok s' = fingerprints_ok s"
proof -
  have "map p_fingerprint (rows (proxies t)) = map (\<lambda>v. snd (snd (snd (snd (snd v))))) (map link_view (rows (proxies t)))" for t
    by (simp add: link_view_def comp_def)
  then show ?thesis using assms unfolding fingerprints_ok_def same_links_def by metis
qed

lemma same_links_proxies: "proxies s' = proxies s \<Longrightarrow> same_links s s'"
  by (simp add: same_links_def)

lemma same_links_update:
  assumes "proxies s' = update_where P f (proxies s)" and "\<And>p. link_view (f p) = link_view p"
  shows "same_links s s'"
  using assms by (simp add: same_links_def)

lemma reset_same_links: "reset_probation i t s = Inr s' \<Longrightarrow> same_links s s'"
proof -
  assume "reset_probation i t s = Inr s'"
  then have "proxies s' = update_where (\<lambda>p. p_id p = i) (\<lambda>p. p\<lparr>p_probation := Some t, p_cursor := Some t\<rparr>) (proxies s)"
    by (auto simp: reset_probation_def expire_pending_cycle_def bindR_Inr_iff rebucket_frame)
  then show ?thesis by (rule same_links_update) (simp add: link_view_def)
qed

lemma cursors_only_links:
  assumes "cursors_only s s'"
  shows "same_links s s'"
proof -
  from assms have c: "map without_cursor (rows (proxies s')) = map without_cursor (rows (proxies s))"
    by (simp add: cursors_only_def)
  have "map link_view (rows (proxies t)) = map link_view (map without_cursor (rows (proxies t)))" for t
    by (simp add: link_view_def without_cursor_def)
  then have "map link_view (rows (proxies s')) = map link_view (rows (proxies s))" by (metis c)
  moreover have "seq (proxies s') = seq (proxies s)" using assms by (simp add: cursors_only_def)
  ultimately show ?thesis by (simp add: same_links_def)
qed

subsection \<open>Choosing the distributor\<close>

definition in_group :: "string \<Rightarrow> int option \<Rightarrow> proxy_row \<Rightarrow> bool" where
  "in_group ip excl p \<longleftrightarrow> p_exit_ip p = Some ip \<and> active p \<and> trusted p \<and> excl \<noteq> Some (p_id p)"

definition rehome :: "int \<Rightarrow> string \<Rightarrow> int option \<Rightarrow> proxy_row \<Rightarrow> proxy_row" where
  "rehome c ip excl p =
     (if p_id p = c then p\<lparr>p_duplicate_of := None\<rparr>
      else if in_group ip excl p then p\<lparr>p_duplicate_of := Some c\<rparr> else p)"

lemma set_exit_group: "set (exit_group s ip excl) = {p \<in> set (rows (proxies s)). in_group ip excl p}"
  by (auto simp: exit_group_def in_group_def active_def split: option.splits)

lemma canonical_row_in:
  assumes "ps \<noteq> []"
  shows "canonical_row wall prefer ps \<in> set ps"
proof -
  have ne: "group_candidates (wall - hours 24) ps \<noteq> []"
    using assms by (simp add: group_candidates_def Let_def)
  have "set (group_candidates (wall - hours 24) ps) \<subseteq> set ps"
    by (auto simp: group_candidates_def Let_def)
  then show ?thesis
    unfolding canonical_row_def Let_def using hd_sort_key_in [OF ne] by blast
qed

lemma expire_fold:
  assumes "foldR (\<lambda>t p. expire_pending_cycle (p_id p) t) s ps = Inr s'"
  shows "proxies s' = proxies s \<and> users s' = users s \<and> settings s' = settings s
     \<and> (ledger_ok now s \<longrightarrow> ledger_ok now s')"
  using assms
proof (rule foldR_relation)
  fix a p b
  assume e: "expire_pending_cycle (p_id p) a = Inr b"
  have "proxies b = proxies a \<and> users b = users a \<and> settings b = settings a"
    using e unfolding expire_pending_cycle_def by (simp add: rebucket_frame)
  then show "proxies b = proxies a \<and> users b = users a \<and> settings b = settings a \<and> (ledger_ok now a \<longrightarrow> ledger_ok now b)"
    using expire_ledger_ok [OF e] by simp
qed auto

lemma rehome_row:
  "(if p_exit_ip (if p_id p = c then p\<lparr>p_duplicate_of := None\<rparr> else p) = Some ip
       \<and> p_id (if p_id p = c then p\<lparr>p_duplicate_of := None\<rparr> else p) \<noteq> c
       \<and> p_archived (if p_id p = c then p\<lparr>p_duplicate_of := None\<rparr> else p) = None
       \<and> trusted (if p_id p = c then p\<lparr>p_duplicate_of := None\<rparr> else p)
       \<and> (case excl of None \<Rightarrow> True | Some x \<Rightarrow> p_id (if p_id p = c then p\<lparr>p_duplicate_of := None\<rparr> else p) \<noteq> x)
    then (if p_id p = c then p\<lparr>p_duplicate_of := None\<rparr> else p)\<lparr>p_duplicate_of := Some c\<rparr>
    else (if p_id p = c then p\<lparr>p_duplicate_of := None\<rparr> else p)) = rehome c ip excl p"
  by (cases "p_id p = c"; cases excl) (auto simp: rehome_def in_group_def active_def)

lemma canonicalize_cases:
  assumes "canonicalize_exit_group wall ip prefer excl s = Inr s'"
  obtains (empty) "s' = s" "\<forall>p \<in> set (rows (proxies s)). \<not> in_group ip excl p"
  | (chosen) r s1 where
      "r \<in> set (rows (proxies s))" "in_group ip excl r"
      "rows (proxies s') = map (rehome (p_id r) ip excl) (rows (proxies s))" "seq (proxies s') = seq (proxies s)"
      "ledger s' = ledger s1" "users s' = users s" "settings s' = settings s" "proxies s1 = proxies s" "users s1 = users s"
      "\<forall>now. ledger_ok now s \<longrightarrow> ledger_ok now s1"
proof (cases "exit_group s ip excl = []")
  case True
  then have "s' = s" using assms by (simp add: canonicalize_exit_group_def Let_def)
  moreover have "\<forall>p \<in> set (rows (proxies s)). \<not> in_group ip excl p"
    using set_exit_group [of s ip excl] True by auto
  ultimately show ?thesis by (rule empty)
next
  case False
  let ?r = "canonical_row wall prefer (exit_group s ip excl)"
  have r: "?r \<in> set (rows (proxies s))" "in_group ip excl ?r"
    using canonical_row_in [OF False, of wall "prefer"] by (auto simp: set_exit_group)
  obtain s1 where s1: "foldR (\<lambda>t p. expire_pending_cycle (p_id p) t) s
      (filter (\<lambda>p. p_id p \<noteq> p_id ?r) (exit_group s ip excl)) = Inr s1"
    and s': "s' = s1\<lparr>proxies := update_where
                  (\<lambda>p. p_exit_ip p = Some ip \<and> p_id p \<noteq> p_id ?r \<and> p_archived p = None \<and> trusted p
                     \<and> (case excl of None \<Rightarrow> True | Some x \<Rightarrow> p_id p \<noteq> x))
                  (\<lambda>p. p\<lparr>p_duplicate_of := Some (p_id ?r)\<rparr>)
                  (update_where (\<lambda>p. p_id p = p_id ?r) (\<lambda>p. p\<lparr>p_duplicate_of := None\<rparr>) (proxies s1))\<rparr>"
    using assms False by (auto simp: canonicalize_exit_group_def Let_def bindR_Inr_iff)
  note e = expire_fold [OF s1]
  have rows: "rows (proxies s') = map (rehome (p_id ?r) ip excl) (rows (proxies s))"
    unfolding s' using e by (simp add: rehome_row comp_def)
  show ?thesis
    by (rule chosen [OF r rows, of s1]) (use e s' in \<open>simp_all\<close>)
qed

lemma rehome_simps [simp]:
  "p_id (rehome c ip excl p) = p_id p" "p_user (rehome c ip excl p) = p_user p" "p_archived (rehome c ip excl p) = p_archived p"
  "p_exit_ip (rehome c ip excl p) = p_exit_ip p" "p_attestation (rehome c ip excl p) = p_attestation p"
  "p_cursor (rehome c ip excl p) = p_cursor p" "p_fingerprint (rehome c ip excl p) = p_fingerprint p"
  "trusted (rehome c ip excl p) = trusted p" "active (rehome c ip excl p) = active p"
  "exit_key (rehome c ip excl p) = exit_key p" "in_group i e (rehome c ip excl p) = in_group i e p"
  by (simp_all add: rehome_def trusted_def active_def exit_key_def in_group_def)

lemma canonicalize_ledger_ok:
  assumes "canonicalize_exit_group wall ip prefer excl s = Inr s'" and "ledger_ok now s"
  shows "ledger_ok now s'"
  using assms(1)
proof (cases rule: canonicalize_cases)
  case empty
  then show ?thesis using assms(2) by simp
next
  case (chosen r s1)
  have "ledger_ok now s1" using chosen assms(2) by simp
  then show ?thesis
    by (rule ledger_ok_frame) (use chosen assms(2) ledger_okD(4) in \<open>auto simp: comp_def\<close>)
qed

lemma canonicalize_frame:
  assumes "canonicalize_exit_group wall ip prefer excl s = Inr s'"
  shows "users s' = users s" "settings s' = settings s" "seq (proxies s') = seq (proxies s)"
    "map p_fingerprint (rows (proxies s')) = map p_fingerprint (rows (proxies s))"
    "map p_id (rows (proxies s')) = map p_id (rows (proxies s))"
  by (rule canonicalize_cases [OF assms]; simp add: comp_def)+

lemma exit_key_iff: "ip \<noteq> '''' \<Longrightarrow> p_exit_ip p = Some ip \<longleftrightarrow> exit_key p = ip"
  by (cases "p_exit_ip p") (auto simp: exit_key_def)

lemma pair_okD:
  assumes "pair_ok p q" "active p" "active q"
  shows "p_duplicate_of p \<noteq> None \<Longrightarrow> trusted p" "p_duplicate_of p \<noteq> None \<Longrightarrow> exit_key p \<noteq> ''''"
    "p_duplicate_of p = Some (p_id q) \<Longrightarrow> trusted q" "p_duplicate_of p = Some (p_id q) \<Longrightarrow> exit_key q = exit_key p"
    "p_duplicate_of p \<noteq> None \<Longrightarrow> p_duplicate_of p = p_duplicate_of q \<Longrightarrow> exit_key p = exit_key q"
    "trusted p \<Longrightarrow> trusted q \<Longrightarrow> exit_key p = exit_key q \<Longrightarrow> exit_key p \<noteq> '''' \<Longrightarrow> root p = root q"
  using assms unfolding pair_ok_def by blast+

lemma links_onD: "links_on K ps \<Longrightarrow> p \<in> set ps \<Longrightarrow> q \<in> set ps \<Longrightarrow> K p \<Longrightarrow> K q \<Longrightarrow> pair_ok p q"
  by (simp add: links_on_def)

lemma rehome_in:
  assumes "in_group ip excl p"
  shows "p_duplicate_of (rehome c ip excl p) = (if p_id p = c then None else Some c)"
    "root (rehome c ip excl p) = c"
  using assms by (simp_all add: rehome_def root_def)

lemma rehome_out: "\<not> in_group ip excl p \<Longrightarrow> p_id p \<noteq> c \<Longrightarrow> rehome c ip excl p = p"
  by (simp add: rehome_def)

text \<open>Giving a group one root keeps the links consistent on every set \<open>K\<close> of rows on which they
  were consistent outside the group, when no row outside the group points into it.\<close>

lemma rehome_links:
  assumes wf: "distinct (map p_id ps)" and r: "r \<in> set ps" "in_group ip excl r" and ip: "ip \<noteq> ''''"
    and K: "\<And>p c. K (rehome c ip excl p) = K p"
    and out: "links_on (\<lambda>p. K p \<and> \<not> in_group ip excl p) ps"
    and no_in: "\<And>p q. p \<in> set ps \<Longrightarrow> q \<in> set ps \<Longrightarrow> in_group ip excl p \<Longrightarrow> K q \<Longrightarrow> active q
      \<Longrightarrow> \<not> in_group ip excl q \<Longrightarrow> p_duplicate_of q \<noteq> Some (p_id p)"
    and full: "\<And>q. q \<in> set ps \<Longrightarrow> K q \<Longrightarrow> active q \<Longrightarrow> trusted q \<Longrightarrow> exit_key q = ip \<Longrightarrow> in_group ip excl q"
  shows "links_on K (map (rehome (p_id r) ip excl) ps)"
  unfolding links_on_def
proof (intro ballI impI)
  let ?c = "p_id r" let ?G = "in_group ip excl" let ?h = "rehome ?c ip excl"
  fix p' q' assume "p' \<in> set (map ?h ps)" "q' \<in> set (map ?h ps)" "K p' \<and> K q'"
  then obtain p q where p: "p \<in> set ps" "p' = ?h p" "K p" and q: "q \<in> set ps" "q' = ?h q" "K q"
    using K by auto
  have cG: "?G x" if "x \<in> set ps" "p_id x = ?c" for x
    using wf that r by (metis distinct_map inj_onD)
  have outD: "p_id x \<noteq> ?c" "?h x = x" if "x \<in> set ps" "\<not> ?G x" for x
    using cG [OF that(1)] that(2) by (auto simp: rehome_def)
  have inD: "trusted x" "exit_key x = ip" "active x" if "?G x" for x
    using that ip by (auto simp: in_group_def exit_key_def)
  note in_simps = rehome_in [of ip excl _ ?c]
  show "pair_ok p' q'"
  proof (cases "active p \<and> active q")
    case False
    then show ?thesis using p(2) q(2) by (auto simp: pair_ok_def)
  next
    case act: True
    consider (ii) "?G p" "?G q" | (io) "?G p" "\<not> ?G q" | (oi) "\<not> ?G p" "?G q" | (oo) "\<not> ?G p" "\<not> ?G q" by blast
    then show ?thesis
    proof cases
      case ii
      then show ?thesis using ip inD p(2) q(2) by (simp add: pair_ok_def in_simps)
    next
      case io
      have "p_duplicate_of q \<noteq> Some ?c" using no_in [OF r(1) q(1) r(2) q(3)] io act by simp
      moreover have "\<not> (trusted q \<and> exit_key q = ip)" using full [OF q(1,3)] io act by blast
      ultimately show ?thesis
        using io inD [OF io(1)] ip outD [OF q(1) io(2)] p(2) q(2) by (auto simp: pair_ok_def in_simps)
    next
      case oi
      have n: "p_duplicate_of p \<noteq> Some ?c" "p_duplicate_of p \<noteq> Some (p_id q)"
        using no_in [OF r(1) p(1) r(2) p(3)] no_in [OF q(1) p(1) oi(2) p(3)] oi act by simp_all
      have "\<not> (trusted p \<and> exit_key p = ip)" using full [OF p(1,3)] oi act by blast
      moreover have "pair_ok p p" using links_onD [OF out p(1) p(1)] p oi by simp
      ultimately show ?thesis
        using oi inD [OF oi(2)] n ip outD [OF p(1) oi(1)] p(2) q(2) by (auto simp: pair_ok_def in_simps)
    next
      case oo
      then show ?thesis using links_onD [OF out p(1) q(1)] p q outD by simp
    qed
  qed
qed

lemma rehome_targets:
  assumes "targets_ok n ps" and "c \<le> n"
  shows "targets_ok n (map (rehome c ip excl) ps)"
  using assms by (auto simp: targets_ok_def rehome_def)

lemma active_update_dup [simp]:
  "active (p\<lparr>p_duplicate_of := d\<rparr>) = active p" "exit_key (p\<lparr>p_duplicate_of := d\<rparr>) = exit_key p"
  "trusted (p\<lparr>p_duplicate_of := d\<rparr>) = trusted p"
  by (simp_all add: active_def exit_key_def trusted_def)

text \<open>Choosing a distributor without row \<open>x\<close>, which is about to leave the group.\<close>

lemma canonicalize_links_excl:
  assumes run: "canonicalize_exit_group wall ip prefer (Some x) s = Inr s'" and wf: "wf_table p_id (proxies s)"
    and ok: "links_ok s" and ip: "ip \<noteq> ''''"
  shows "links_on (\<lambda>p. p_id p \<noteq> x) (rows (proxies s')) \<and> targets_ok (seq (proxies s')) (rows (proxies s'))
     \<and> (\<forall>q \<in> set (rows (proxies s')). active q \<and> trusted q \<and> exit_key q = ip \<and> p_id q \<noteq> x \<longrightarrow> p_duplicate_of q \<noteq> Some x)"
  using run
proof (cases rule: canonicalize_cases)
  case empty
  moreover have "\<not> (active q \<and> trusted q \<and> exit_key q = ip \<and> p_id q \<noteq> x)" if "q \<in> set (rows (proxies s))" for q
    using empty(2) that by (simp add: in_group_def exit_key_iff [OF ip])
  ultimately show ?thesis using ok by (auto simp: links_ok_def links_on_def)
next
  case (chosen r s1)
  have links: "pair_ok p q" if "p \<in> set (rows (proxies s))" "q \<in> set (rows (proxies s))" for p q
    using ok that by (simp add: links_ok_def links_on_def)
  have "links_on (\<lambda>p. p_id p \<noteq> x) (map (rehome (p_id r) ip (Some x)) (rows (proxies s)))"
  proof (rule rehome_links [OF _ chosen(1,2) ip])
    show "distinct (map p_id (rows (proxies s)))" using wf by (simp add: wf_table_def)
    show "links_on (\<lambda>p. p_id p \<noteq> x \<and> \<not> in_group ip (Some x) p) (rows (proxies s))"
      using links by (simp add: links_on_def)
    show "in_group ip (Some x) q" if "p_id q \<noteq> x" "active q" "trusted q" "exit_key q = ip" for q
      using that by (simp add: in_group_def exit_key_iff [OF ip])
    show "p_duplicate_of q \<noteq> Some (p_id p)"
      if "p \<in> set (rows (proxies s))" "q \<in> set (rows (proxies s))" "in_group ip (Some x) p" "p_id q \<noteq> x" "active q"
        "\<not> in_group ip (Some x) q" for p q
    proof
      assume d: "p_duplicate_of q = Some (p_id p)"
      have "active p" "exit_key p = ip" using that(3) exit_key_iff [OF ip] by (auto simp: in_group_def)
      then have "trusted q" "exit_key q = ip"
        using pair_okD(1,4) [OF links [OF that(2,1)] that(5)] d by simp_all
      then show False using that(4-6) by (simp add: in_group_def exit_key_iff [OF ip])
    qed
  qed simp
  moreover have "p_id r \<le> seq (proxies s)" using wf chosen(1) by (simp add: wf_table_def)
  moreover have "p_id r \<noteq> x" using chosen(2) by (simp add: in_group_def)
  ultimately show ?thesis
    using chosen ok ip by (auto simp: links_ok_def rehome_targets rehome_in in_group_def exit_key_iff)
qed

lemma canonicalize_links_on:
  assumes run: "canonicalize_exit_group wall ip prefer None s = Inr s'" and wf: "wf_table p_id (proxies s)"
    and ip: "ip \<noteq> ''''" and K: "\<And>p c. K (rehome c ip None p) = K p"
    and out: "links_on (\<lambda>p. K p \<and> \<not> in_group ip None p) (rows (proxies s))"
    and no_in: "\<And>p q. p \<in> set (rows (proxies s)) \<Longrightarrow> q \<in> set (rows (proxies s)) \<Longrightarrow> in_group ip None p
      \<Longrightarrow> K q \<Longrightarrow> active q \<Longrightarrow> \<not> in_group ip None q \<Longrightarrow> p_duplicate_of q \<noteq> Some (p_id p)"
    and t: "targets_ok (seq (proxies s)) (rows (proxies s))"
  shows "links_on K (rows (proxies s')) \<and> targets_ok (seq (proxies s')) (rows (proxies s'))"
  using run
proof (cases rule: canonicalize_cases)
  case empty
  then show ?thesis using out t by (auto simp: links_on_def)
next
  case (chosen r s1)
  have "links_on K (map (rehome (p_id r) ip None) (rows (proxies s)))"
  proof (rule rehome_links [OF _ chosen(1,2) ip K out no_in])
    show "distinct (map p_id (rows (proxies s)))" using wf by (simp add: wf_table_def)
    show "in_group ip None q" if "active q" "trusted q" "exit_key q = ip" for q
      using that by (simp add: in_group_def exit_key_iff [OF ip])
  qed
  moreover have "p_id r \<le> seq (proxies s)" using wf chosen(1) by (simp add: wf_table_def)
  ultimately show ?thesis using chosen(3,4) t by (simp add: rehome_targets)
qed

lemma in_group_iff: "ip \<noteq> '''' \<Longrightarrow> in_group ip None p \<longleftrightarrow> active p \<and> trusted p \<and> exit_key p = ip"
  by (auto simp: in_group_def exit_key_iff)

lemma group_root:
  assumes "canonicalize_exit_group wall ip prefer None s = Inr s'" and wf: "wf_table p_id (proxies s)"
  shows "\<exists>c. rows (proxies s') = map (rehome c ip None) (rows (proxies s))
     \<and> (\<forall>z \<in> set (rows (proxies s)). p_id z = c \<longrightarrow> in_group ip None z)"
  using assms(1)
proof (cases rule: canonicalize_cases)
  case empty
  have "rehome (seq (proxies s) + 1) ip None p = p" if "p \<in> set (rows (proxies s))" for p
    using empty(2) that wf by (auto simp: rehome_def wf_table_def)
  then have "map (rehome (seq (proxies s) + 1) ip None) (rows (proxies s)) = rows (proxies s)"
    by (simp add: map_idI)
  then show ?thesis using empty(1) wf by (intro exI [of _ "seq (proxies s) + 1"]) (auto simp: wf_table_def)
next
  case (chosen r s1)
  show ?thesis
    by (rule exI [of _ "p_id r"]) (use chosen(1-3) wf_table_unique [OF wf] in blast)
qed

text \<open>Row \<open>x\<close> has moved to the group \<open>ip\<close>; both groups choose a distributor.\<close>

lemma moved_links:
  assumes ok: "links_ok s" and wf: "wf_table p_id (proxies s)" and ip: "ip \<noteq> ''''"
    and x: "x0 \<in> set (rows (proxies s))" "p_id x0 = x" "active x0" "exit_key x0 = old"
    and f: "\<And>p. p_id (f p) = p_id p" "\<And>p. p_duplicate_of (f p) = p_duplicate_of p" "\<And>p. active (f p) = active p"
      "\<And>p. exit_key (f p) = ip" "\<And>p. trusted (f p)"
    and s1: "proxies s1 = update_where (\<lambda>p. p_id p = x) f (proxies s)"
    and c1: "canonicalize_exit_group wall ip pr None s1 = Inr s2"
    and c2: "(if old \<noteq> '''' \<and> old \<noteq> ip then canonicalize_exit_group wall old False None s2 else Inr s2) = Inr s3"
  shows "links_ok s3"
proof -
  let ?K = "\<lambda>p. \<not> (active p \<and> trusted p \<and> exit_key p = old \<and> old \<noteq> '''' \<and> old \<noteq> ip)"
  have links: "pair_ok p q" if "p \<in> set (rows (proxies s))" "q \<in> set (rows (proxies s))" for p q
    using ok that by (simp add: links_ok_def links_on_def)
  have only_x: "p = x0" if "p \<in> set (rows (proxies s))" "p_id p = x" for p
    using wf_table_unique [OF wf that(1) x(1)] that(2) x(2) by simp
  have rows1: "rows (proxies s1) = map (\<lambda>p. if p_id p = x then f p else p) (rows (proxies s))" by (simp add: s1)
  have wf1: "wf_table p_id (proxies s1)" unfolding s1 by (rule wf_table_update [OF wf f(1)])
  have t1: "targets_ok (seq (proxies s1)) (rows (proxies s1))"
    using ok by (auto simp: s1 links_ok_def targets_ok_def f)
  have fG: "in_group ip None (f p)" if "active p" for p using that by (simp add: in_group_iff [OF ip] f)
  have old_row: "p \<in> set (rows (proxies s)) \<and> p_id p \<noteq> x"
    if "p \<in> set (rows (proxies s1))" "active p" "\<not> in_group ip None p" for p
    using that fG by (auto simp: rows1 f split: if_splits)
  have points: "exit_key q = exit_key p \<and> trusted q" if "p \<in> set (rows (proxies s))" "q \<in> set (rows (proxies s))"
      "active p" "active q" "p_duplicate_of q = Some (p_id p)" for p q
    using pair_okD(1,4) [OF links [OF that(2,1)] that(4,3)] that(5) by simp
  have L: "links_on ?K (rows (proxies s2)) \<and> targets_ok (seq (proxies s2)) (rows (proxies s2))"
  proof (rule canonicalize_links_on [OF c1 wf1 ip])
    show "links_on (\<lambda>p. ?K p \<and> \<not> in_group ip None p) (rows (proxies s1))"
      unfolding links_on_def
    proof (intro ballI impI)
      fix p q assume pq: "p \<in> set (rows (proxies s1))" "q \<in> set (rows (proxies s1))"
        "(?K p \<and> \<not> in_group ip None p) \<and> (?K q \<and> \<not> in_group ip None q)"
      show "pair_ok p q"
      proof (cases "active p \<and> active q")
        case True
        then show ?thesis using links old_row pq by blast
      next
        case False
        then show ?thesis by (auto simp: pair_ok_def)
      qed
    qed
    show "p_duplicate_of q \<noteq> Some (p_id p)"
      if "p \<in> set (rows (proxies s1))" "q \<in> set (rows (proxies s1))" "in_group ip None p" "?K q" "active q"
        "\<not> in_group ip None q" for p q
    proof
      assume d: "p_duplicate_of q = Some (p_id p)"
      note prem = that
      have q: "q \<in> set (rows (proxies s))" "p_id q \<noteq> x" using old_row [OF that(2,5,6)] by simp_all
      obtain p0 where p0: "p0 \<in> set (rows (proxies s))" "p = (if p_id p0 = x then f p0 else p0)"
        using prem(1) by (auto simp: rows1)
      have id0: "p_id p0 = p_id p" using p0(2) f(1) by auto
      have act: "active p0" using that(3) p0(2) by (auto simp: in_group_iff [OF ip] f split: if_splits)
      have k: "exit_key q = exit_key p0" "trusted q" using points [OF p0(1) q(1) act that(5)] d id0 by simp_all
      have ne: "exit_key q \<noteq> ''''" using pair_okD(2) [OF links [OF q(1) p0(1)] that(5) act] d by simp
      show False
      proof (cases "p_id p0 = x")
        case True
        then have "exit_key q = old" using only_x [OF p0(1)] k x by simp
        then show False using that(4-6) k ne by (auto simp: in_group_iff [OF ip])
      next
        case False
        then have "exit_key q = ip" using p0(2) that(3) k by (simp add: in_group_iff [OF ip])
        then show False using that(5,6) k by (simp add: in_group_iff [OF ip])
      qed
    qed
  qed (use t1 in \<open>simp_all\<close>)
  show ?thesis
  proof (cases "old \<noteq> '''' \<and> old \<noteq> ip")
    case False
    then show ?thesis using L c2 by (auto simp: links_ok_def links_on_def)
  next
    case both: True
    then have old: "old \<noteq> ''''" and c2': "canonicalize_exit_group wall old False None s2 = Inr s3"
      using c2 by simp_all
    have wf2: "wf_table p_id (proxies s2)"
      using wf1 canonicalize_frame(3,5) [OF c1] unfolding wf_table_def by (metis (no_types, lifting) image_eqI image_iff list.set_map)
    have "links_on (\<lambda>_. True) (rows (proxies s3)) \<and> targets_ok (seq (proxies s3)) (rows (proxies s3))"
    proof (rule canonicalize_links_on [OF c2' wf2 old])
      have "links_on (\<lambda>p. \<not> in_group old None p) (rows (proxies s2))"
        using L by (auto simp: links_on_def in_group_iff [OF old])
      then show "links_on (\<lambda>p. True \<and> \<not> in_group old None p) (rows (proxies s2))" by simp
      show "p_duplicate_of q \<noteq> Some (p_id p)"
        if "p \<in> set (rows (proxies s2))" "q \<in> set (rows (proxies s2))" "in_group old None p" "active q"
          "\<not> in_group old None q" for p q
      proof
        assume d: "p_duplicate_of q = Some (p_id p)"
        note prem = that
        obtain c where c: "rows (proxies s2) = map (rehome c ip None) (rows (proxies s1))"
            "\<And>z. z \<in> set (rows (proxies s1)) \<Longrightarrow> p_id z = c \<Longrightarrow> in_group ip None z"
          using group_root [OF c1 wf1] by metis
        obtain p1 q1 where p1: "p1 \<in> set (rows (proxies s1))" "p = rehome c ip None p1"
          and q1: "q1 \<in> set (rows (proxies s1))" "q = rehome c ip None q1"
          using prem(1,2) by (auto simp: c(1))
        have pG: "active p1" "trusted p1" "exit_key p1 = old" using prem(3) p1(2) by (simp_all add: in_group_iff [OF old])
        then have pN: "\<not> in_group ip None p1" using both by (simp add: in_group_iff [OF ip])
        show False
        proof (cases "in_group ip None q1")
          case True
          then have "p_id p1 = c" using d q1(2) p1(2) by (simp add: rehome_in split: if_splits)
          then show False using c(2) [OF p1(1)] pN by simp
        next
          case False
          then have q: "q = q1" using c(2) [OF q1(1)] q1(2) by (auto simp: rehome_def)
          have p0: "p1 \<in> set (rows (proxies s))" using old_row [OF p1(1) pG(1) pN] by simp
          have q0: "q1 \<in> set (rows (proxies s))" using old_row [OF q1(1) _ False] prem(4) q by simp
          show False using points [OF p0 q0 pG(1)] d prem(4,5) pG p1(2) q by (simp add: in_group_iff [OF old])
        qed
      qed
    qed (use L in simp_all)
    then show ?thesis by (simp add: links_ok_def)
  qed
qed

subsection \<open>The operations keep the fleet consistent\<close>

lemma join_with_ne: "sep \<noteq> [] \<Longrightarrow> 2 \<le> length xs \<Longrightarrow> join_with sep xs \<noteq> []"
  by (induction sep xs rule: join_with.induct) auto

lemma show_v6_ne: "show_v6 w \<noteq> []"
proof -
  have two: "2 \<le> length ((if st = 0 then [''''] else []) @ take st ts @ [''''] @ drop (st + len) ts @ u)"
    if "length ts = 8" for st len :: nat and ts u :: "string list"
    using that by (cases st) auto
  define ts where "ts = map show_hex (map (\<lambda>k. uint w div 65536 ^ k mod 65536) [7, 6, 5, 4, 3, 2, 1, 0])"
  define z where "z = zero_run (map (\<lambda>k. uint w div 65536 ^ k mod 65536) [7, 6, 5, 4, 3, 2, 1, 0])"
  have len: "length ts = 8" by (simp add: ts_def)
  have "show_v6 w = (case z of (st, len) \<Rightarrow> if len \<le> 1 then join_with '':'' ts
       else join_with '':'' ((if st = 0 then [''''] else []) @ take st ts @ ['''']
                @ drop (st + len) ts @ (if st + len = 8 then [''''] else [])))"
    unfolding show_v6_def Let_def ts_def z_def by (rule refl)
  also have "\<dots> \<noteq> []"
    by (cases z, simp only: prod.case split: if_split, intro conjI impI)
      (rule join_with_ne, simp, use len two [OF len] in simp)+
  finally show ?thesis .
qed

lemma show_ip_ne: "show_ip a \<noteq> ''''"
proof (cases a)
  case (V4 w)
  then show ?thesis by (simp add: show_v4_def join_with_ne)
next
  case (V6 w sc)
  then show ?thesis using show_v6_ne by (cases sc) auto
qed

lemma wf_same_ids:
  assumes "wf_table rid t" "map rid (rows t') = map rid (rows t)" "seq t' = seq t"
  shows "wf_table rid t'"
proof -
  have "rid ` set (rows t') = rid ` set (rows t)" using assms(2) by (metis list.set_map)
  then show ?thesis using assms unfolding wf_table_def by (metis (no_types, lifting) image_eqI imageE)
qed

lemma fleet_okD:
  assumes "fleet_ok now s"
  shows "ledger_ok now s" "links_ok s" "fingerprints_ok s" "wf_table p_id (proxies s)" "wf_table u_id (users s)"
  using assms by (simp_all add: fleet_ok_def ledger_ok_def)

lemma fleet_okI: "ledger_ok now s \<Longrightarrow> links_ok s \<Longrightarrow> fingerprints_ok s \<Longrightarrow> fleet_ok now s"
  by (simp add: fleet_ok_def)

lemma fleet_ok_later: "fleet_ok now s \<Longrightarrow> now \<le> later \<Longrightarrow> fleet_ok later s"
  using ledger_ok_later unfolding fleet_ok_def by blast

lemma fleet_ok_same_links:
  "fleet_ok now s \<Longrightarrow> same_links s s' \<Longrightarrow> ledger_ok later s' \<Longrightarrow> fleet_ok later s'"
  by (simp add: fleet_ok_def links_ok_same fingerprints_ok_same)

lemma fleet_ok_proxies:
  assumes "fleet_ok now s" "proxies s' = proxies s" "ledger s' = ledger s" "users s' = users s"
  shows "fleet_ok now s'"
  by (rule fleet_ok_same_links [OF assms(1) same_links_proxies [OF assms(2)]],
      rule ledger_ok_frame [OF fleet_okD(1) [OF assms(1)]]) (use assms fleet_okD in simp_all)

lemma canonicalize_wf:
  assumes "canonicalize_exit_group wall ip prefer excl s = Inr s'" "wf_table p_id (proxies s)"
  shows "wf_table p_id (proxies s')"
  by (rule wf_same_ids [OF assms(2)]) (rule canonicalize_frame [OF assms(1)])+

lemma attest_row_simps [simp]:
  "p_id (attest_row w ip src p) = p_id p" "p_cursor (attest_row w ip src p) = p_cursor p"
  "p_duplicate_of (attest_row w ip src p) = p_duplicate_of p" "active (attest_row w ip src p) = active p"
  "p_fingerprint (attest_row w ip src p) = p_fingerprint p" "exit_key (attest_row w ip src p) = ip"
  by (simp_all add: attest_row_def active_def exit_key_def)

lemma trusted_attest: "src \<noteq> At_none \<Longrightarrow> trusted (attest_row w ip src p)"
  by (cases src) (simp_all add: attest_row_def trusted_def)

lemma reconcile_exit_cases:
  assumes "reconcile_exit_ip wall pid exit_ip source s = Inr s'"
  obtains (same) "s' = s"
  | (moved) a x s1 s2 s3 where
      "select_one (\<lambda>p. p_id p = pid \<and> p_archived p = None) (proxies s) = Some x" "source \<noteq> At_none"
      "s1 = egress_conflict_trigger wall (p_exit_ip x) (Some (show_ip a))
        (update_proxy pid (attest_row wall (show_ip a) source) s)"
      "canonicalize_exit_group wall (show_ip a) (p_egress_verified x \<noteq> None) None s1 = Inr s2"
      "(if exit_key x \<noteq> '''' \<and> exit_key x \<noteq> show_ip a then canonicalize_exit_group wall (exit_key x) False None s2
        else Inr s2) = Inr s3"
      "s' = fst (reconcile_proxiware_duplicates wall s3)"
proof (cases "ip_address (strip exit_ip)")
  case None
  then show ?thesis using assms same by (simp add: reconcile_exit_ip_def)
next
  case (Some a)
  note ip = Some
  show ?thesis
  proof (cases "select_one (\<lambda>p. p_id p = pid \<and> p_archived p = None) (proxies s)")
    case None
    then show ?thesis using assms same ip by (simp add: reconcile_exit_ip_def Let_def)
  next
    case (Some x)
    show ?thesis
    proof (cases "source = At_none")
      case True
      then show ?thesis using assms same ip Some by (simp add: reconcile_exit_ip_def Let_def)
    next
      case False
      obtain s2 s3 where "canonicalize_exit_group wall (show_ip a) (p_egress_verified x \<noteq> None) None
          (egress_conflict_trigger wall (p_exit_ip x) (Some (show_ip a))
            (update_proxy pid (attest_row wall (show_ip a) source) s)) = Inr s2"
        "(if exit_key x \<noteq> '''' \<and> exit_key x \<noteq> show_ip a then canonicalize_exit_group wall (exit_key x) False None s2
          else Inr s2) = Inr s3"
        "s' = fst (reconcile_proxiware_duplicates wall s3)"
        using assms ip Some False unfolding reconcile_exit_ip_def Let_def exit_key_def
        by (simp only: option.case if_False bindR_Inr_iff) auto
      then show ?thesis using moved [OF Some False refl] by blast
    qed
  qed
qed

lemma reconcile_exit_keeps:
  assumes run: "reconcile_exit_ip wall pid exit_ip source s = Inr s'" and ok: "fleet_ok now s"
  shows "fleet_ok now s'"
  using run
proof (cases rule: reconcile_exit_cases)
  case same
  then show ?thesis using ok by simp
next
  case (moved a x s1 s2 s3)
  note s1 = moved(3) and c1 = moved(4) and c2 = moved(5) and s' = moved(6)
  have x: "x \<in> set (rows (proxies s))" "p_id x = pid" "active x"
    using select_one_SomeD [OF moved(1)] by (simp_all add: active_def)
  have p1: "proxies s1 = update_where (\<lambda>p. p_id p = pid) (attest_row wall (show_ip a) source) (proxies s)"
    by (simp add: s1)
  have l1: "ledger_ok now s1"
    by (rule ledger_ok_frame [OF fleet_okD(1) [OF ok]])
      (simp_all add: s1 map_if_key [unfolded comp_def] fleet_okD(5) [OF ok] comp_def if_distrib cong: if_cong)
  have f1: "map p_fingerprint (rows (proxies s1)) = map p_fingerprint (rows (proxies s))"
    by (simp add: p1 map_if_key)
  have "ledger_ok now s3" using c2 canonicalize_ledger_ok [OF c1 l1] canonicalize_ledger_ok by (auto split: if_splits)
  moreover have "map p_fingerprint (rows (proxies s3)) = map p_fingerprint (rows (proxies s))"
    using c2 canonicalize_frame(4) [OF c1] f1 canonicalize_frame(4) by (auto split: if_splits)
  then have "fingerprints_ok s3" using fleet_okD(3) [OF ok] by (simp add: fingerprints_ok_def)
  moreover have "links_ok s3"
    by (rule moved_links [OF fleet_okD(2) [OF ok] fleet_okD(4) [OF ok] show_ip_ne x(1,2,3) refl _ _ _ _ _ p1 c1 c2])
      (simp_all add: trusted_attest moved(2))
  ultimately have "fleet_ok now s3" by (simp add: fleet_okI)
  then show ?thesis by (rule fleet_ok_proxies) (simp_all add: s')
qed

text \<open>Passing the role of distributor from \<open>c\<close> to its duplicate \<open>i\<close>.\<close>

definition hand_over :: "int \<Rightarrow> int \<Rightarrow> proxy_row \<Rightarrow> proxy_row" where
  "hand_over c i p = (if p_id p = i then p\<lparr>p_duplicate_of := None\<rparr>
     else if p_id p = c \<or> p_duplicate_of p = Some c then p\<lparr>p_duplicate_of := Some i\<rparr> else p)"

lemma hand_over_simps [simp]:
  "p_id (hand_over c i p) = p_id p" "active (hand_over c i p) = active p" "trusted (hand_over c i p) = trusted p"
  "exit_key (hand_over c i p) = exit_key p" "p_fingerprint (hand_over c i p) = p_fingerprint p"
  "p_cursor (hand_over c i p) = p_cursor p"
  by (simp_all add: hand_over_def)

lemma hand_over_links:
  assumes ok: "links_on (\<lambda>_. True) ps" and wf: "distinct (map p_id ps)"
    and cand: "k \<in> set ps" "p_id k = i" "active k" "p_duplicate_of k = Some c" and ne: "i \<noteq> c"
  shows "links_on (\<lambda>_. True) (map (hand_over c i) ps)"
  unfolding links_on_def
proof (intro ballI impI)
  fix p' q' assume "p' \<in> set (map (hand_over c i) ps)" "q' \<in> set (map (hand_over c i) ps)"
  then obtain p q where p: "p \<in> set ps" "p' = hand_over c i p" and q: "q \<in> set ps" "q' = hand_over c i q" by auto
  have links: "pair_ok x y" if "x \<in> set ps" "y \<in> set ps" for x y using ok that by (simp add: links_on_def)
  have uniq: "x = y" if "x \<in> set ps" "y \<in> set ps" "p_id x = p_id y" for x y
    using wf that by (meson distinct_map inj_onD)
  let ?H = "\<lambda>x. p_id x = c \<or> p_duplicate_of x = Some c"
  have kH: "trusted k" "exit_key k \<noteq> ''''" using pair_okD(1,2) [OF links [OF cand(1,1)] cand(3,3)] cand(4) by simp_all
  have inH: "trusted x \<and> exit_key x = exit_key k" if "x \<in> set ps" "active x" "?H x" for x
  proof (cases "p_duplicate_of x = Some c")
    case True
    then show ?thesis
      using pair_okD(1,5) [OF links [OF that(1) cand(1)] that(2) cand(3)] cand(4) by simp
  next
    case False
    then show ?thesis using pair_okD(3,4) [OF links [OF cand(1) that(1)] cand(3) that(2)] cand(4) that(3) by simp
  qed
  have H_if: "?H x" if "x \<in> set ps" "active x" "trusted x" "exit_key x = exit_key k" for x
  proof -
    have "root k = root x" using pair_okD(6) [OF links [OF cand(1) that(1)] cand(3) that(2) kH(1) that(3)] that(4) kH(2) by simp
    then show ?thesis using cand(4) by (auto simp: root_def split: option.splits)
  qed
  have hit: "p_duplicate_of (hand_over c i x) = (if p_id x = i then None else Some i) \<and> root (hand_over c i x) = i"
    if "?H x" for x using that by (auto simp: hand_over_def root_def)
  have miss: "hand_over c i x = x" if "x \<in> set ps" "\<not> ?H x" for x
    using that uniq [OF that(1) cand(1)] cand(2,4) by (auto simp: hand_over_def)
  have to_k: "exit_key x = exit_key k \<and> trusted x" if "x \<in> set ps" "active x" "p_duplicate_of x = Some i" for x
    using pair_okD(1,4) [OF links [OF that(1) cand(1)] that(2) cand(3)] that(3) cand(2) by simp
  show "pair_ok p' q'"
  proof (cases "active p \<and> active q")
    case False
    then show ?thesis using p(2) q(2) by (auto simp: pair_ok_def)
  next
    case act: True
    have same: "x = k" if "x \<in> set ps" "p_id x = i" for x using uniq [OF that(1) cand(1)] that(2) cand(2) by simp
    consider (hh) "?H p" "?H q" | (hm) "?H p" "\<not> ?H q" | (mh) "\<not> ?H p" "?H q" | (mm) "\<not> ?H p" "\<not> ?H q" by blast
    then show ?thesis
    proof cases
      case hh
      then show ?thesis
        using hit [OF hh(1)] hit [OF hh(2)] inH [OF p(1) _ hh(1)] inH [OF q(1) _ hh(2)] act p q kH
        by (auto simp: pair_ok_def)
    next
      case hm
      have "p_id q \<noteq> i" using same [OF q(1)] hm(2) cand(4) by auto
      moreover have "\<not> (trusted q \<and> exit_key q = exit_key k)" using H_if [OF q(1)] act hm(2) by blast
      moreover have "p_duplicate_of p' = (if p_id p = i then None else Some i)" "root p' = i" "trusted p'" "exit_key p' = exit_key k"
        using hit [OF hm(1)] inH [OF p(1) _ hm(1)] act p(2) by simp_all
      moreover have "q' = q" using miss [OF q(1) hm(2)] q(2) by simp
      moreover have "p_duplicate_of q = Some i \<longrightarrow> exit_key q = exit_key k" using to_k [OF q(1)] act by blast
      ultimately show ?thesis unfolding pair_ok_def using kH(2) by (simp split: if_split) metis
    next
      case mh
      have "\<not> (trusted p \<and> exit_key p = exit_key k)" using H_if [OF p(1)] act mh(1) by blast
      moreover have "p_duplicate_of q' = (if p_id q = i then None else Some i)" "root q' = i" "trusted q'"
          "exit_key q' = exit_key k" "exit_key q = exit_key k" "p_id q' = p_id q" "active q'"
        using hit [OF mh(2)] inH [OF q(1) _ mh(2)] act q(2) by simp_all
      moreover have "p' = p" using miss [OF p(1) mh(1)] p(2) by simp
      moreover have "p_duplicate_of p = Some i \<longrightarrow> exit_key p = exit_key k" using to_k [OF p(1)] act by blast
      moreover note pair_okD(1,2) [OF links [OF p(1) p(1)]] pair_okD(3,4) [OF links [OF p(1) q(1)]] act
      ultimately show ?thesis unfolding pair_ok_def by (metis option.distinct(1))
    next
      case mm
      then show ?thesis using links [OF p(1) q(1)] p(2) q(2) miss [OF p(1) mm(1)] miss [OF q(1) mm(2)] by simp
    qed
  qed
qed

lemma promote_cases:
  assumes "promote_duplicate_if_due current cid s = Inr (s', w)"
  obtains (none) "s' = s" "w = None"
  | (promoted) c k s1 where "find_proxy s cid = Some c" "p_status c = Px_offline \<or> p_status c = Px_archived"
      "p_status c = Px_archived \<or> (\<exists>t. p_offline_since c = Some t \<and> hours 24 \<le> current - t)"
      "k \<in> set (rows (proxies s))" "p_duplicate_of k = Some cid" "p_status k = Px_online" "active k" "w = Some (p_id k)"
      "expire_pending_cycle cid s = Inr s1"
      "reset_probation (p_id k) current (s1\<lparr>proxies :=
         update_where (\<lambda>p. p_duplicate_of p = Some cid \<and> p_id p \<noteq> p_id k) (\<lambda>p. p\<lparr>p_duplicate_of := Some (p_id k)\<rparr>)
         (update_where (\<lambda>p. p_id p = p_id k) (\<lambda>p. p\<lparr>p_duplicate_of := None\<rparr>)
         (update_where (\<lambda>p. p_id p = cid) (\<lambda>p. p\<lparr>p_duplicate_of := Some (p_id k)\<rparr>) (proxies s1)))\<rparr>) = Inr s'"
proof (cases "w")
  case None
  then have "s' = s"
    using assms unfolding promote_duplicate_if_due_def Let_def
    by (auto split: option.splits if_splits list.splits simp: bindR_Inr_iff)
  then show ?thesis using None none by simp
next
  case (Some i)
  obtain c t where c: "find_proxy s cid = Some c" "p_offline_since c = Some t"
    and st: "p_status c = Px_offline \<or> p_status c = Px_archived" "p_status c = Px_archived \<or> hours 24 \<le> current - t"
    using assms Some unfolding promote_duplicate_if_due_def by (auto split: option.splits if_splits)
  let ?cs = "select_where (\<lambda>p. p_duplicate_of p = Some cid \<and> p_status p = Px_online \<and> p_archived p = None) (proxies s)"
  obtain k ks where k: "sort_key (\<lambda>p. (p_created p, p_id p)) ?cs = k # ks"
    using assms Some c st unfolding promote_duplicate_if_due_def by (auto split: list.splits if_splits)
  have "k \<in> set ?cs" using arg_cong [OF k, of set] by simp
  moreover have "\<exists>s1. expire_pending_cycle cid s = Inr s1 \<and> reset_probation (p_id k) current (s1\<lparr>proxies :=
         update_where (\<lambda>p. p_duplicate_of p = Some cid \<and> p_id p \<noteq> p_id k) (\<lambda>p. p\<lparr>p_duplicate_of := Some (p_id k)\<rparr>)
         (update_where (\<lambda>p. p_id p = p_id k) (\<lambda>p. p\<lparr>p_duplicate_of := None\<rparr>)
         (update_where (\<lambda>p. p_id p = cid) (\<lambda>p. p\<lparr>p_duplicate_of := Some (p_id k)\<rparr>) (proxies s1)))\<rparr>) = Inr s'
       \<and> w = Some (p_id k)"
    using assms c st k unfolding promote_duplicate_if_due_def Let_def by (auto simp: bindR_Inr_iff split: if_splits)
  ultimately show ?thesis using promoted [OF c(1) st(1)] c(2) st(2) by (auto simp: active_def)
qed

lemma hand_over_row:
  assumes "i \<noteq> c"
  shows "(let p1 = (if p_id p = c then p\<lparr>p_duplicate_of := Some i\<rparr> else p);
              p2 = (if p_id p1 = i then p1\<lparr>p_duplicate_of := None\<rparr> else p1)
          in if p_duplicate_of p2 = Some c \<and> p_id p2 \<noteq> i then p2\<lparr>p_duplicate_of := Some i\<rparr> else p2) = hand_over c i p"
  using assms by (auto simp: hand_over_def Let_def)

lemma promote_keeps:
  assumes run: "promote_duplicate_if_due current cid s = Inr (s', w)" and ok: "fleet_ok now s" and le: "now \<le> current"
  shows "fleet_ok current s'"
  using run
proof (cases rule: promote_cases)
  case none
  then show ?thesis using fleet_ok_later [OF ok le] by simp
next
  case (promoted c k s1)
  note wf = fleet_okD(4) [OF ok]
  let ?i = "p_id k"
  let ?s2 = "s1\<lparr>proxies :=
         update_where (\<lambda>p. p_duplicate_of p = Some cid \<and> p_id p \<noteq> ?i) (\<lambda>p. p\<lparr>p_duplicate_of := Some ?i\<rparr>)
         (update_where (\<lambda>p. p_id p = ?i) (\<lambda>p. p\<lparr>p_duplicate_of := None\<rparr>)
         (update_where (\<lambda>p. p_id p = cid) (\<lambda>p. p\<lparr>p_duplicate_of := Some ?i\<rparr>) (proxies s1)))\<rparr>"
  have c: "c \<in> set (rows (proxies s))" "p_id c = cid"
    using select_one_SomeD [OF promoted(1) [unfolded find_proxy_def]] by simp_all
  have ne: "?i \<noteq> cid"
  proof
    assume "?i = cid"
    then have "k = c" using wf_table_unique [OF wf promoted(4) c(1)] c(2) by simp
    then show False using promoted(2,6) by auto
  qed
  have e: "proxies s1 = proxies s" "users s1 = users s" "ledger_ok now s1"
    using promoted(9) expire_ledger_ok [OF promoted(9) fleet_okD(1) [OF ok]]
    by (simp_all add: expire_pending_cycle_def rebucket_frame)
  have rows: "rows (proxies ?s2) = map (hand_over cid ?i) (rows (proxies s))"
    using hand_over_row [OF ne] by (simp add: e(1) comp_def Let_def)
  have "map p_id (rows (proxies ?s2)) = map p_id (rows (proxies s1))"
    "map p_cursor (rows (proxies ?s2)) = map p_cursor (rows (proxies s1))"
    unfolding rows by (simp_all add: e comp_def)
  then have "ledger_ok now ?s2"
    by (intro ledger_ok_frame [OF e(3)]) (simp_all add: e fleet_okD(5) [OF ok] del: rows_update_where)
  moreover have "links_on (\<lambda>_. True) (rows (proxies ?s2))"
    unfolding rows
    by (rule hand_over_links [OF _ _ promoted(4) refl promoted(7,5) ne])
      (use fleet_okD [OF ok] in \<open>simp_all add: links_ok_def wf_table_def\<close>)
  moreover have "?i \<le> seq (proxies s)" using wf promoted(4) by (simp add: wf_table_def)
  then have "targets_ok (seq (proxies ?s2)) (rows (proxies ?s2))"
    using fleet_okD(2) [OF ok] unfolding rows by (auto simp: e(1) links_ok_def targets_ok_def hand_over_def)
  moreover have "fingerprints_ok ?s2" using fleet_okD(3) [OF ok] unfolding fingerprints_ok_def rows by (simp add: comp_def)
  ultimately have two: "fleet_ok now ?s2" by (simp add: fleet_okI links_ok_def)
  show ?thesis
    by (rule fleet_ok_same_links [OF two reset_same_links [OF promoted(10)]])
      (rule reset_ledger_ok [OF promoted(10) fleet_okD(1) [OF two] le])
qed

lemma rehome_keeps_dup:
  "p_duplicate_of (rehome c ip excl p) = Some x \<Longrightarrow> c \<noteq> x \<Longrightarrow> rehome c ip excl p = p"
  unfolding rehome_def by (cases "p_id p = c"; cases "in_group ip excl p") simp_all

text \<open>Row \<open>x\<close> leaves its group: it is archived or gets a new credential.\<close>

lemma left_group:
  assumes c: "(if old \<noteq> '''' then canonicalize_exit_group wall old pr (Some x) s else Inr s) = Inr s1"
    and ok: "fleet_ok now s" and e: "e \<in> set (rows (proxies s))" "p_id e = x" "active e" "exit_key e = old"
  shows "links_on (\<lambda>p. p_id p \<noteq> x) (rows (proxies s1)) \<and> targets_ok (seq (proxies s1)) (rows (proxies s1))
     \<and> (\<forall>q \<in> set (rows (proxies s1)). active q \<and> p_id q \<noteq> x \<longrightarrow> p_duplicate_of q \<noteq> Some x)"
proof (cases "old = ''''")
  case True
  then have s1: "s1 = s" using c by simp
  have "p_duplicate_of q \<noteq> Some x" if "q \<in> set (rows (proxies s))" "active q" for q
  proof
    assume d: "p_duplicate_of q = Some x"
    have "pair_ok q e" using fleet_okD(2) [OF ok] that(1) e(1) by (simp add: links_ok_def links_on_def)
    then show False using pair_okD(2,4) [of q e] that(2) e True d by simp
  qed
  then show ?thesis using fleet_okD(2) [OF ok] by (simp add: s1 links_ok_def links_on_def)
next
  case False
  then have c1: "canonicalize_exit_group wall old pr (Some x) s = Inr s1" using c by simp
  note * = canonicalize_links_excl [OF c1 fleet_okD(4,2) [OF ok] False]
  have "p_duplicate_of q \<noteq> Some x" if q: "q \<in> set (rows (proxies s1))" "active q" "p_id q \<noteq> x" for q
  proof
    assume d: "p_duplicate_of q = Some x"
    have "trusted q \<and> exit_key q = old"
      using c1
    proof (cases rule: canonicalize_cases)
      case empty
      then have "pair_ok q e" using fleet_okD(2) [OF ok] q(1) e(1) by (simp add: links_ok_def links_on_def)
      then show ?thesis using pair_okD(1,4) [of q e] q(2) e d by simp
    next
      case (chosen r s2)
      obtain q0 where q0: "q0 \<in> set (rows (proxies s))" "q = rehome (p_id r) old (Some x) q0"
        using q(1) chosen(3) by auto
      have rx: "p_id r \<noteq> x" using chosen(2) by (simp add: in_group_def)
      then have "q = q0" using rehome_keeps_dup [of "p_id r" old "Some x" q0 x] q0(2) d by simp
      then have "pair_ok q e" using fleet_okD(2) [OF ok] q0(1) e(1) by (simp add: links_ok_def links_on_def)
      then show ?thesis using pair_okD(1,4) [of q e] q(2) e d by simp
    qed
    then show False using * q d by blast
  qed
  then show ?thesis using * by blast
qed

lemma left_links:
  assumes l: "links_on (\<lambda>p. p_id p \<noteq> x) ps" and n: "\<forall>q \<in> set ps. active q \<and> p_id q \<noteq> x \<longrightarrow> p_duplicate_of q \<noteq> Some x"
    and f: "\<And>p. p_id (f p) = p_id p" "\<And>p. \<not> active (f p) \<or> (p_duplicate_of (f p) = None \<and> \<not> trusted (f p))"
  shows "links_on (\<lambda>_. True) (map (\<lambda>p. if p_id p = x then f p else p) ps)"
  unfolding links_on_def
proof (intro ballI impI)
  fix p' q' assume "p' \<in> set (map (\<lambda>p. if p_id p = x then f p else p) ps)" "q' \<in> set (map (\<lambda>p. if p_id p = x then f p else p) ps)"
  then obtain p q where p: "p \<in> set ps" "p' = (if p_id p = x then f p else p)"
    and q: "q \<in> set ps" "q' = (if p_id q = x then f q else q)" by auto
  have self: "p_id p \<noteq> x \<Longrightarrow> pair_ok p p" using l p(1) by (simp add: links_on_def)
  show "pair_ok p' q'"
  proof (cases "active p' \<and> active q'")
    case True
    show ?thesis
    proof (cases "p_id p = x")
      case True
      then have "p_duplicate_of p' = None" "\<not> trusted p'" using f(2) [of p] p(2) \<open>active p' \<and> active q'\<close> by auto
      then show ?thesis by (simp add: pair_ok_def)
    next
      case px: False
      show ?thesis
      proof (cases "p_id q = x")
        case True
        then have "p_duplicate_of q' = None" "\<not> trusted q'" "p_id q' = x"
          using f(1,2) [of q] q(2) \<open>active p' \<and> active q'\<close> by auto
        moreover have "p_duplicate_of p \<noteq> Some x" using n p(1) px \<open>active p' \<and> active q'\<close> p(2) by simp
        ultimately show ?thesis using self [OF px] px p(2) unfolding pair_ok_def by (metis option.distinct(1))
      next
        case False
        then show ?thesis using l p q px by (simp add: links_on_def)
      qed
    qed
  next
    case False
    then show ?thesis by (auto simp: pair_ok_def)
  qed
qed

lemma update_where_cong_rows:
  "(\<And>r. r \<in> set (rows t) \<Longrightarrow> P r = Q r) \<Longrightarrow> update_where P f t = update_where Q f t"
  by (simp add: update_where_def)

lemma canonicalize_owner:
  assumes "canonicalize_exit_group wall ip pr excl s = Inr s1"
  shows "map (\<lambda>p. (p_id p, p_user p, p_archived p)) (rows (proxies s1)) = map (\<lambda>p. (p_id p, p_user p, p_archived p)) (rows (proxies s))"
  by (rule canonicalize_cases [OF assms]) (simp_all add: comp_def)

lemma left_prefix:
  assumes e: "owned_active s pid uid = Some e"
    and c: "(if or_empty (p_exit_ip e) \<noteq> '''' then canonicalize_exit_group wall (or_empty (p_exit_ip e)) False (Some pid) s
             else Inr s) = Inr s1"
    and x: "expire_pending_cycle pid s1 = Inr s2" and ok: "fleet_ok now s"
  shows "users s2 = users s" "ledger_ok now s2"
    "map p_fingerprint (rows (proxies s2)) = map p_fingerprint (rows (proxies s))"
    "update_where (\<lambda>p. p_id p = pid \<and> p_user p = uid \<and> p_archived p = None) f (proxies s2)
       = update_where (\<lambda>p. p_id p = pid) f (proxies s2)"
    "links_on (\<lambda>p. p_id p \<noteq> pid) (rows (proxies s2))" "targets_ok (seq (proxies s2)) (rows (proxies s2))"
    "\<forall>q \<in> set (rows (proxies s2)). active q \<and> p_id q \<noteq> pid \<longrightarrow> p_duplicate_of q \<noteq> Some pid"
    "map p_id (rows (proxies s2)) = map p_id (rows (proxies s))" "seq (proxies s2) = seq (proxies s)"
proof -
  have e1: "e \<in> set (rows (proxies s))" "p_id e = pid" "p_user e = uid" "p_archived e = None"
    using select_one_SomeD [OF e [unfolded owned_active_def]] by simp_all
  have x1: "proxies s2 = proxies s1" "users s2 = users s1"
    using x by (simp_all add: expire_pending_cycle_def rebucket_frame)
  have c1: "s1 = s \<or> canonicalize_exit_group wall (or_empty (p_exit_ip e)) False (Some pid) s = Inr s1"
    using c by (simp split: if_splits)
  have l1: "ledger_ok now s1"
    using c1 fleet_okD(1) [OF ok] by (elim disjE) (simp, erule canonicalize_ledger_ok)
  show "users s2 = users s" unfolding x1 using c1 by (elim disjE) (simp, erule canonicalize_frame(1))
  show "map p_fingerprint (rows (proxies s2)) = map p_fingerprint (rows (proxies s))"
    unfolding x1 using c1 by (elim disjE) (simp, erule canonicalize_frame(4))
  show "map p_id (rows (proxies s2)) = map p_id (rows (proxies s))" unfolding x1 using c1 by (elim disjE) (simp, erule canonicalize_frame(5))
  show "seq (proxies s2) = seq (proxies s)" unfolding x1 using c1 by (elim disjE) (simp, erule canonicalize_frame(3))
  show "ledger_ok now s2" by (rule expire_ledger_ok [OF x l1])
  have own: "map (\<lambda>p. (p_id p, p_user p, p_archived p)) (rows (proxies s1)) = map (\<lambda>p. (p_id p, p_user p, p_archived p)) (rows (proxies s))"
    using c1 by (elim disjE) (simp, erule canonicalize_owner)
  have upd: "p_user p = uid \<and> p_archived p = None" if "p \<in> set (rows (proxies s1))" "p_id p = pid" for p
  proof -
    note prem = that
    have "(p_id p, p_user p, p_archived p) \<in> set (map (\<lambda>p. (p_id p, p_user p, p_archived p)) (rows (proxies s)))"
      using that(1) unfolding own [symmetric] by simp
    then obtain z where z: "z \<in> set (rows (proxies s))" "p_id p = p_id z" "p_user p = p_user z" "p_archived p = p_archived z" by auto
    have "p_id z = p_id e" unfolding z(2) [symmetric] prem(2) e1(2) by (rule refl)
    then have "z = e" by (rule wf_table_unique [OF fleet_okD(4) [OF ok] z(1) e1(1)])
    then show ?thesis using z(3,4) e1(3,4) by simp
  qed
  show "update_where (\<lambda>p. p_id p = pid \<and> p_user p = uid \<and> p_archived p = None) f (proxies s2)
      = update_where (\<lambda>p. p_id p = pid) f (proxies s2)"
    unfolding x1 by (rule update_where_cong_rows) (use upd in blast)
  have "links_on (\<lambda>p. p_id p \<noteq> pid) (rows (proxies s1)) \<and> targets_ok (seq (proxies s1)) (rows (proxies s1))
     \<and> (\<forall>q \<in> set (rows (proxies s1)). active q \<and> p_id q \<noteq> pid \<longrightarrow> p_duplicate_of q \<noteq> Some pid)"
    by (rule left_group [OF c ok e1(1,2)]) (simp_all add: active_def exit_key_def e1)
  then show "links_on (\<lambda>p. p_id p \<noteq> pid) (rows (proxies s2))" "targets_ok (seq (proxies s2)) (rows (proxies s2))"
    "\<forall>q \<in> set (rows (proxies s2)). active q \<and> p_id q \<noteq> pid \<longrightarrow> p_duplicate_of q \<noteq> Some pid"
    by (simp_all add: x1)
qed

lemma archive_keeps:
  assumes run: "archive_proxy wall current pid uid s = Inr s'" and ok: "fleet_ok now s"
  shows "fleet_ok now s'"
proof -
  obtain e where e: "owned_active s pid uid = Some e" using run by (auto simp: archive_proxy_def split: option.splits)
  let ?f = "\<lambda>p. p\<lparr>p_archived := Some current, p_status := Px_archived, p_updated := current\<rparr>"
  obtain s1 s2 where c: "(if or_empty (p_exit_ip e) \<noteq> '''' then canonicalize_exit_group wall (or_empty (p_exit_ip e)) False (Some pid) s
             else Inr s) = Inr s1"
    and x: "expire_pending_cycle pid s1 = Inr s2"
    and s': "s' = egress_conflict_trigger wall (p_exit_ip e) (p_exit_ip e) (s2\<lparr>proxies :=
        update_where (\<lambda>p. p_id p = pid \<and> p_user p = uid \<and> p_archived p = None) ?f (proxies s2)\<rparr>)"
    using run e by (auto simp: archive_proxy_def Let_def bindR_Inr_iff)
  note left = left_prefix [OF e c x ok]
  have p': "proxies s' = update_where (\<lambda>p. p_id p = pid) ?f (proxies s2)" using left(4) by (simp add: s')
  have "links_on (\<lambda>_. True) (map (\<lambda>p. if p_id p = pid then ?f p else p) (rows (proxies s2)))"
    by (rule left_links [OF left(5,7)]) (simp_all add: active_def)
  moreover have "targets_ok (seq (proxies s')) (rows (proxies s'))" using left(6) by (auto simp: p' targets_ok_def)
  moreover have "fingerprints_ok s'"
    using left(3) fleet_okD(3) [OF ok] by (simp add: p' fingerprints_ok_def map_if_key)
  moreover have "ledger_ok now s'"
    by (rule ledger_ok_frame [where s = s2]) (use left(1,2) fleet_okD(5) [OF ok] s' in \<open>simp_all add: p' map_if_key\<close>)
  ultimately show ?thesis by (simp add: fleet_ok_def links_ok_def p')
qed

lemma replace_fingerprints:
  assumes "distinct (map p_id ps)" "distinct (map p_fingerprint ps)" "\<forall>p \<in> set ps. p_fingerprint p = fp \<longrightarrow> p_id p = x"
    and "\<And>p. p_fingerprint (f p) = fp"
  shows "distinct (map p_fingerprint (map (\<lambda>p. if p_id p = x then f p else p) ps))"
proof -
  let ?g = "\<lambda>p. if p_id p = x then f p else p"
  have "inj_on (p_fingerprint \<circ> ?g) (set ps)"
  proof (rule inj_onI)
    fix a b assume ab: "a \<in> set ps" "b \<in> set ps" and e: "(p_fingerprint \<circ> ?g) a = (p_fingerprint \<circ> ?g) b"
    show "a = b"
    proof (cases "p_id a = x \<or> p_id b = x")
      case True
      then have "p_id a = x \<and> p_id b = x" using e assms(3,4) ab by (simp split: if_splits)
      then show ?thesis using assms(1) ab by (metis distinct_map inj_onD)
    next
      case False
      then have "p_fingerprint a = p_fingerprint b" using e by simp
      then show ?thesis using assms(2) ab by (metis distinct_map inj_onD)
    qed
  qed
  then show ?thesis using assms(1) by (simp add: distinct_map)
qed

lemma replace_keeps:
  assumes run: "replace_proxy unquote sha256 wall current pid uid txt s = Inr s'" and ok: "fleet_ok now s" and le: "now \<le> current"
  shows "fleet_ok current s'"
proof -
  obtain q where q: "parse_proxy unquote txt = Inr q"
    using run by (cases "parse_proxy unquote txt") (simp_all add: replace_proxy_def)
  obtain e where e: "owned_active s pid uid = Some e"
    using run q by (cases "owned_active s pid uid") (simp_all add: replace_proxy_def)
  let ?fp = "credential_fingerprint sha256 q"
  let ?f = "replace_row current q ?fp"
  have fresh: "\<not> exists_where (\<lambda>p. p_fingerprint p = ?fp \<and> p_id p \<noteq> pid) (proxies s)"
    using run q e by (simp add: replace_proxy_def Let_def split: if_splits)
  obtain s1 s2 where c: "(if or_empty (p_exit_ip e) \<noteq> '''' then canonicalize_exit_group wall (or_empty (p_exit_ip e)) False (Some pid) s
             else Inr s) = Inr s1"
    and x: "expire_pending_cycle pid s1 = Inr s2"
    and s': "s' = egress_conflict_trigger wall (p_exit_ip e) None (s2\<lparr>proxies :=
        update_where (\<lambda>p. p_id p = pid \<and> p_user p = uid \<and> p_archived p = None) ?f (proxies s2)\<rparr>)"
    using run q e fresh by (simp add: replace_proxy_def Let_def bindR_Inr_iff) blast
  note left = left_prefix [OF e c x ok]
  have f: "p_id (?f p) = p_id p" "p_duplicate_of (?f p) = None" "\<not> trusted (?f p)" "p_fingerprint (?f p) = ?fp"
      "p_cursor (?f p) = Some current" for p
    by (simp_all add: replace_row_def trusted_def)
  have p': "proxies s' = update_where (\<lambda>p. p_id p = pid) ?f (proxies s2)" using left(4) by (simp add: s')
  have "links_on (\<lambda>_. True) (map (\<lambda>p. if p_id p = pid then ?f p else p) (rows (proxies s2)))"
    by (rule left_links [OF left(5,7)]) (simp_all add: f)
  moreover have "targets_ok (seq (proxies s')) (rows (proxies s'))" using left(6) by (auto simp: p' targets_ok_def f)
  moreover have "fingerprints_ok s'"
  proof -
    have "(p_id p, p_fingerprint p) \<in> set (map (\<lambda>p. (p_id p, p_fingerprint p)) (rows (proxies s)))" if "p \<in> set (rows (proxies s2))" for p
    proof -
      have "map (\<lambda>p. (p_id p, p_fingerprint p)) (rows (proxies s2)) = map (\<lambda>p. (p_id p, p_fingerprint p)) (rows (proxies s))"
        using arg_cong2 [where f = zip, OF left(8) left(3)] by (simp add: zip_map_map zip_same_conv_map comp_def)
      then show ?thesis using that by (metis (no_types, lifting) image_eqI list.set_map)
    qed
    then have "\<forall>p \<in> set (rows (proxies s2)). p_fingerprint p = ?fp \<longrightarrow> p_id p = pid"
      using fresh by (fastforce simp: exists_where_iff)
    moreover have "distinct (map p_id (rows (proxies s2)))" "distinct (map p_fingerprint (rows (proxies s2)))"
      using left(3,8) fleet_okD(3,4) [OF ok] by (simp_all add: fingerprints_ok_def wf_table_def)
    ultimately have "distinct (map p_fingerprint (map (\<lambda>p. if p_id p = pid then ?f p else p) (rows (proxies s2))))"
      by (intro replace_fingerprints) (simp_all add: f)
    then show ?thesis by (simp only: fingerprints_ok_def p' rows_update_where)
  qed
  moreover have "ledger_ok current (update_proxy pid ?f s2)"
    by (rule ledger_ok_cursor_reset [OF left(2) le]) (simp_all add: f)
  then have "ledger_ok current s'"
    by (rule ledger_ok_frame) (use left(1) fleet_okD(5) [OF ok] s' p' in simp_all)
  ultimately show ?thesis by (simp add: fleet_ok_def links_ok_def p')
qed

lemma insert_keeps:
  assumes ok: "fleet_ok now s" and fresh: "\<not> known_fingerprint s fp" and le: "now \<le> at"
  shows "fleet_ok at (insert_proxy at uid q fp s)"
proof -
  let ?n = "new_proxy_row at uid q fp (seq (proxies s) + 1)" and ?ps = "rows (proxies s)"
  note wf = fleet_okD(4) [OF ok]
  have n: "p_id ?n = seq (proxies s) + 1" "p_duplicate_of ?n = None" "\<not> trusted ?n" "p_fingerprint ?n = fp" "p_cursor ?n = Some at"
    by (simp_all add: new_proxy_row_def trusted_def)
  have T: "p_duplicate_of p \<noteq> Some (p_id ?n)" if "p \<in> set ?ps" for p
    using fleet_okD(2) [OF ok] that unfolding n(1) by (force simp: links_ok_def targets_ok_def)
  have links: "pair_ok p p'" if "p \<in> set ?ps" "p' \<in> set ?ps" for p p'
    using fleet_okD(2) [OF ok] that by (simp add: links_ok_def links_on_def)
  have "pair_ok p ?n \<and> pair_ok ?n p" if "p \<in> set ?ps" for p
    using T [OF that] links [OF that that] n unfolding pair_ok_def by (metis option.distinct(1))
  moreover have "pair_ok ?n ?n" using n by (simp add: pair_ok_def)
  ultimately have "links_on (\<lambda>_. True) (?ps @ [?n])" using links by (auto simp: links_on_def)
  moreover have "targets_ok (seq (proxies s) + 1) (?ps @ [?n])"
    using fleet_okD(2) [OF ok] n(2) by (auto simp: links_ok_def targets_ok_def split: option.splits intro: add_increasing2)
  moreover have "distinct (map p_fingerprint (?ps @ [?n]))"
    using fleet_okD(3) [OF ok] fresh n(4) by (auto simp: fingerprints_ok_def known_fingerprint_def exists_where_iff)
  moreover have "ledger_ok at (insert_proxy at uid q fp s)"
  proof -
    have l: "ledger_ok at s" using ledger_ok_later [OF fleet_okD(1) [OF ok] le] .
    have "wf_table p_id (insert_row (new_proxy_row at uid q fp) (proxies s))" by (rule wf_table_insert [OF wf]) (simp add: n)
    moreover have "cursor_ok (insert_proxy at uid q fp s)"
      using ledger_okD(3) [OF l] spans_end_now [OF ledger_okD(2) [OF l]] n(5)
      by (auto simp: cursor_ok_def insert_proxy_def spans_end_def)
    ultimately show ?thesis
      using l by (simp add: ledger_ok_def spans_ok_def insert_proxy_def)
  qed
  ultimately show ?thesis by (simp add: fleet_ok_def links_ok_def fingerprints_ok_def insert_proxy_def)
qed

end
