(* ===== verification/Checks.thy ===== *)
theory Checks
  imports Fleet
begin

text \<open>
  \<open>app/services/checks.py\<close>: claiming proxies for a health or an EarnApp check, releasing the claims,
  applying the results and archiving dead proxies; \<open>classify_verdict\<close> of \<open>app/earnapp_probe.py\<close>.
  A result dictionary is a record whose missing or null entries are \<open>None\<close>; \<open>tok\<close> is the token that
  \<open>secrets.token_urlsafe\<close> returns, \<open>wall\<close> the clock that \<open>reconcile_exit_ip\<close> reads itself.
\<close>

subsection \<open>Claims\<close>

definition active_owner :: "store \<Rightarrow> proxy_row \<Rightarrow> bool" where
  "active_owner s p \<longleftrightarrow> exists_where (\<lambda>u. u_id u = p_user p \<and> u_status u = User_active) (users s)"

definition lapsed :: "time option \<Rightarrow> time \<Rightarrow> bool" where
  "lapsed t now = (case t of None \<Rightarrow> False | Some x \<Rightarrow> x \<le> now)"

definition due_health :: "time \<Rightarrow> store \<Rightarrow> proxy_row \<Rightarrow> bool" where
  "due_health now s p \<longleftrightarrow> p_archived p = None \<and> active_owner s p
     \<and> (elapsed (p_next_check p) now \<or> lapsed (p_check_claimed_until p) now)
     \<and> elapsed (p_check_claimed_until p) now"

definition health_key :: "proxy_row \<Rightarrow> time \<times> int" where
  "health_key p = ((case p_next_check p of None \<Rightarrow> p_created p | Some t \<Rightarrow> t), p_id p)"

definition claim_priority :: "time \<Rightarrow> proxy_row \<Rightarrow> int" where
  "claim_priority now p = (if lapsed (p_check_claimed_until p) now then 0 else 1)"

text \<open>\<open>ROW_NUMBER() OVER (PARTITION BY host ORDER BY ...)\<close> among the due rows.\<close>

definition host_key :: "proxy_row \<Rightarrow> string" where
  "host_key p = lower (sql_trim (p_host p))"

definition host_rank :: "proxy_row list \<Rightarrow> proxy_row \<Rightarrow> int" where
  "host_rank due p = int (length (filter (\<lambda>q. host_key q = host_key p \<and> health_key q \<le> health_key p) due))"

definition health_order :: "time \<Rightarrow> bool \<Rightarrow> proxy_row list \<Rightarrow> proxy_row list" where
  "health_order now interleave due =
     (if interleave then sort_key (\<lambda>p. (claim_priority now p, host_rank due p, health_key p)) due
      else sort_key (\<lambda>p. (claim_priority now p, health_key p)) due)"

definition batch_size :: "int option \<Rightarrow> int \<Rightarrow> int" where
  "batch_size lim conc = max 1 (min (case lim of None \<Rightarrow> conc | Some n \<Rightarrow> if n = 0 then conc else n) conc)"

definition health_batch :: "time \<Rightarrow> int option \<Rightarrow> int option \<Rightarrow> store \<Rightarrow> proxy_row list" where
  "health_batch now lim per_host s =
     take (nat (batch_size lim (health_concurrency (checker_settings s))))
       (health_order now (per_host \<noteq> None) (select_where (due_health now s) (proxies s)))"

definition claim_due_proxies ::
  "time \<Rightarrow> string \<Rightarrow> int option \<Rightarrow> int option \<Rightarrow> store \<Rightarrow> store \<times> proxy_row list" where
  "claim_due_proxies now tok lim per_host s =
     (let ids = map p_id (health_batch now lim per_host s) in
      if ids = [] then (s, [])
      else
        (let s' = s\<lparr>proxies := update_where (\<lambda>p. p_id p \<in> set ids)
               (\<lambda>p. p\<lparr>p_next_check := Some (now + minutes (health_interval_minutes (checker_settings s))),
                      p_check_claimed_until := Some (now + minutes 10), p_check_token := Some tok\<rparr>) (proxies s)\<rparr>
         in (s', sort_key p_id (select_where (\<lambda>p. p_check_token p = Some tok \<and> p_id p \<in> set ids) (proxies s')))))"

definition due_earnapp :: "time \<Rightarrow> store \<Rightarrow> proxy_row \<Rightarrow> bool" where
  "due_earnapp now s p \<longleftrightarrow> p_archived p = None \<and> p_status p = Px_online \<and> active_owner s p
     \<and> elapsed (p_earn_next p) now \<and> elapsed (p_earn_claimed_until p) now"

definition earnapp_batch :: "time \<Rightarrow> int \<Rightarrow> store \<Rightarrow> proxy_row list" where
  "earnapp_batch now lim s =
     take (nat (clamp 1 20 lim))
       (sort_key (\<lambda>p. ((case p_earn_next p of None \<Rightarrow> p_created p | Some t \<Rightarrow> t), p_id p))
         (select_where (due_earnapp now s) (proxies s)))"

definition claim_due_earnapp :: "time \<Rightarrow> string \<Rightarrow> int \<Rightarrow> store \<Rightarrow> store \<times> proxy_row list" where
  "claim_due_earnapp now tok lim s =
     (let ids = map p_id (earnapp_batch now lim s) in
      if ids = [] then (s, [])
      else
        (let s' = s\<lparr>proxies := update_where (\<lambda>p. p_id p \<in> set ids)
               (\<lambda>p. p\<lparr>p_earn_claimed_until := Some (now + minutes 10), p_earn_token := Some tok\<rparr>) (proxies s)\<rparr>
         in (s', sort_key p_id (select_where (\<lambda>p. p_earn_token p = Some tok \<and> p_id p \<in> set ids) (proxies s')))))"

text \<open>Releasing: the claims are pairs of a proxy id and a token; the number of released rows is returned.\<close>

fun release_health_claims :: "time \<Rightarrow> (int \<times> string option) list \<Rightarrow> store \<Rightarrow> store \<times> int" where
  "release_health_claims now [] s = (s, 0)"
| "release_health_claims now ((i, tok) # claims) s =
     (let hit = (\<lambda>p. p_id p = i \<and> p_check_token p = Some (or_empty tok));
          n = count_where hit (proxies s);
          (s', m) = release_health_claims now claims (s\<lparr>proxies := update_where hit
            (\<lambda>p. p\<lparr>p_next_check := Some now, p_check_claimed_until := None, p_check_token := None\<rparr>) (proxies s)\<rparr>)
      in (s', n + m))"

fun release_earnapp_claims :: "time \<Rightarrow> (int \<times> string option) list \<Rightarrow> store \<Rightarrow> store \<times> int" where
  "release_earnapp_claims now [] s = (s, 0)"
| "release_earnapp_claims now ((i, tok) # claims) s =
     (let hit = (\<lambda>p. p_id p = i \<and> p_earn_token p = Some (or_empty tok));
          n = count_where hit (proxies s);
          (s', m) = release_earnapp_claims now claims (s\<lparr>proxies := update_where hit
            (\<lambda>p. p\<lparr>p_earn_next := Some now, p_earn_claimed_until := None, p_earn_token := None\<rparr>) (proxies s)\<rparr>)
      in (s', n + m))"

subsection \<open>EarnApp results\<close>

definition classify_verdict :: "string \<Rightarrow> string \<Rightarrow> eligibility" where
  "classify_verdict verdict reason =
     (let value = upper (strip (if verdict = '''' then ''UNKNOWN'' else verdict)) in
      if value = ''CID_SET'' then El_allow
      else if value = ''BLACKLIST'' \<or> value = ''DECLINE'' \<or> strip reason = ''earnapp_blacklist'' then El_risk
      else El_pending)"

record earnapp_result =
  er_verdict :: "string option"
  er_reason :: "string option"
  er_generation :: "int option"
  er_claim :: "string option"
  er_exit_ip :: "string option"
  er_trusted :: "bool option"
  er_country :: "string option"

text \<open>\<open>x.get(k) or d\<close> of a text entry.\<close>

definition text_or :: "string option \<Rightarrow> string \<Rightarrow> string" where
  "text_or v d = (case v of None \<Rightarrow> d | Some t \<Rightarrow> if t = '''' then d else t)"

definition generation_of :: "proxy_row \<Rightarrow> int" where
  "generation_of p = (if p_generation p = 0 then 1 else p_generation p)"

text \<open>The guards of both result functions: a replaced credential or a lost claim is stale.\<close>

definition fresh_result :: "int option \<Rightarrow> string option \<Rightarrow> proxy_row \<Rightarrow> string option \<Rightarrow> bool" where
  "fresh_result gen claim p tok \<longleftrightarrow>
     (case gen of None \<Rightarrow> True | Some g \<Rightarrow> generation_of p = g)
   \<and> (case claim of None \<Rightarrow> True | Some c \<Rightarrow> or_empty tok = c)"

definition add_note :: "string \<Rightarrow> string \<Rightarrow> string" where
  "add_note reason note = strip_by (\<lambda>c. c = CHR '';'' \<or> c = CHR '' '') (reason @ note)"

definition verified_country :: "string \<Rightarrow> string \<Rightarrow> bool \<Rightarrow> string \<Rightarrow> string \<Rightarrow> string" where
  "verified_country country evidence legacy seen_ip previous_ip =
     (if legacy \<and> seen_ip \<noteq> '''' \<and> seen_ip \<noteq> previous_ip then ''''
      else if length country = 2 \<and> list_all is_alpha country \<and> evidence \<noteq> '''' \<and> evidence = previous_ip
      then country else '''')"

text \<open>What the result says of the row \<open>p\<close>: the eligibility, the reason, whether the address changed.\<close>

definition earnapp_ip :: "earnapp_result \<Rightarrow> string" where
  "earnapp_ip r = (if er_trusted r = Some True then normalized_exit_ip (er_exit_ip r) else '''')"

definition earnapp_egress_changed :: "earnapp_result \<Rightarrow> proxy_row \<Rightarrow> bool" where
  "earnapp_egress_changed r p \<longleftrightarrow> earnapp_ip r \<noteq> '''' \<and> normalized_exit_ip (p_exit_ip p) \<noteq> ''''
     \<and> earnapp_ip r \<noteq> normalized_exit_ip (p_exit_ip p)"

definition earnapp_unauthenticated :: "earnapp_result \<Rightarrow> bool" where
  "earnapp_unauthenticated r \<longleftrightarrow>
     text_or (er_verdict r) ''UNKNOWN'' = ''CID_SET'' \<and> er_trusted r \<noteq> None \<and> earnapp_ip r = ''''"

definition earnapp_eligibility :: "earnapp_result \<Rightarrow> proxy_row \<Rightarrow> eligibility" where
  "earnapp_eligibility r p =
     (if earnapp_unauthenticated r \<or> earnapp_egress_changed r p then El_pending
      else classify_verdict (text_or (er_verdict r) ''UNKNOWN'') (or_empty (er_reason r)))"

definition earnapp_reason :: "earnapp_result \<Rightarrow> proxy_row \<Rightarrow> string" where
  "earnapp_reason r p =
     (let reason = or_empty (er_reason r);
          reason1 = (if earnapp_unauthenticated r then add_note reason ''; missing authenticated egress IP'' else reason)
      in if earnapp_egress_changed r p then add_note reason1 ''; authenticated egress changed'' else reason1)"

definition earnapp_country :: "earnapp_result \<Rightarrow> proxy_row \<Rightarrow> string" where
  "earnapp_country r p =
     (let legacy = (er_trusted r = None);
          seen = normalized_exit_ip (er_exit_ip r)
      in verified_country (upper (strip (or_empty (er_country r))))
           (if earnapp_ip r \<noteq> '''' then earnapp_ip r else if legacy then seen else '''')
           legacy seen (normalized_exit_ip (p_exit_ip p)))"

text \<open>The final UPDATE.\<close>

definition earnapp_row ::
  "time \<Rightarrow> int \<Rightarrow> earnapp_result \<Rightarrow> proxy_row \<Rightarrow> bool \<Rightarrow> proxy_row \<Rightarrow> proxy_row" where
  "earnapp_row current refresh r prev reset p = p\<lparr>
     p_eligibility := earnapp_eligibility r prev,
     p_verdict := take 60 (text_or (er_verdict r) ''UNKNOWN''),
     p_reason := take 300 (earnapp_reason r prev),
     p_earn_checked := Some current,
     p_country := (if earnapp_country r prev \<noteq> '''' then earnapp_country r prev else p_country p),
     p_earn_next := Some (if earnapp_egress_changed r prev then current else current + hours refresh),
     p_earn_claimed_until := None, p_earn_token := None,
     p_probation := (if reset then Some current else p_probation p),
     p_cursor := (if reset then Some current else p_cursor p),
     p_updated := current\<rparr>"

definition apply_earnapp_result_locked ::
  "time \<Rightarrow> time \<Rightarrow> int \<Rightarrow> earnapp_result \<Rightarrow> store \<Rightarrow> store result" where
  "apply_earnapp_result_locked wall current pid r s =
     (case find_proxy s pid of
        None \<Rightarrow> Inr s
      | Some p \<Rightarrow>
          if p_archived p \<noteq> None then Inr s
          else if \<not> fresh_result (er_generation r) (er_claim r) p (p_earn_token p) then Inr s
          else
            (let changed = (p_eligibility p \<noteq> earnapp_eligibility r p);
                 reset = (changed \<or> earnapp_egress_changed r p)
             in bindR (if changed \<and> earning_eligible (p_eligibility p) then accrue_proxy_time pid current s else Inr s) (\<lambda>s1.
                bindR (if reset then reset_probation pid current s1 else Inr s1) (\<lambda>s2.
                bindR (if earnapp_ip r \<noteq> '''' then reconcile_exit_ip wall pid (earnapp_ip r) At_earnapp_tls s2 else Inr s2) (\<lambda>s3.
                  Inr (update_proxy pid
                    (earnapp_row current (earnapp_refresh_hours (checker_settings s)) r p reset) s3))))))"

subsection \<open>Health results\<close>

datatype probe_index = Index_absent | Index_unusable | Index_given int

record health_result =
  hr_status :: "string option"
  hr_generation :: "int option"
  hr_claim :: "string option"
  hr_failure :: "string option"
  hr_endpoint :: "string option"
  hr_index :: probe_index
  hr_latency :: "int option"
  hr_untrusted :: bool
  hr_exit_ip :: "string option"
  hr_protocol :: "string option"
  hr_error :: "string option"

text \<open>\<open>hr_untrusted\<close> is \<open>not (result.get('egress_trusted', True) is True)\<close>. The fields of a result that
  every branch stores.\<close>

definition next_index :: "health_result \<Rightarrow> proxy_row \<Rightarrow> int" where
  "next_index r p = (case hr_index r of
     Index_absent \<Rightarrow> max 0 (p_next_probe p) | Index_unusable \<Rightarrow> p_next_probe p | Index_given n \<Rightarrow> max 0 n)"

definition latency_of :: "health_result \<Rightarrow> int option" where
  "latency_of r = map_option (max 0) (hr_latency r)"

definition failure_of :: "health_result \<Rightarrow> string" where
  "failure_of r = take 60 (or_empty (hr_failure r))"

definition probed :: "health_result \<Rightarrow> string \<Rightarrow> string \<Rightarrow> proxy_row \<Rightarrow> proxy_row \<Rightarrow> proxy_row" where
  "probed r failure dflt prev p = p\<lparr>p_next_probe := next_index r prev,
     p_last_endpoint := take 300 (or_empty (hr_endpoint r)), p_latency := latency_of r,
     p_failure_kind := failure, p_last_error := take 500 (text_or (hr_error r) dflt)\<rparr>"

text \<open>What a live result says of the row: \<open>stale\<close> is \<open>health_stale_minutes\<close>.\<close>

definition up :: "proxy_row \<Rightarrow> bool" where
  "up p \<longleftrightarrow> p_status p = Px_online \<or> p_status p = Px_suspect"

definition seen_ip :: "health_result \<Rightarrow> string" where
  "seen_ip r = normalized_exit_ip (hr_exit_ip r)"

definition trusted_ip :: "health_result \<Rightarrow> string" where
  "trusted_ip r = (if hr_untrusted r then '''' else seen_ip r)"

definition known_ip :: "proxy_row \<Rightarrow> string" where
  "known_ip p = normalized_exit_ip (p_exit_ip p)"

definition egress_moved :: "health_result \<Rightarrow> proxy_row \<Rightarrow> bool" where
  "egress_moved r p \<longleftrightarrow> known_ip p \<noteq> '''' \<and> trusted_ip r \<noteq> '''' \<and> known_ip p \<noteq> trusted_ip r"

definition egress_mismatch :: "health_result \<Rightarrow> proxy_row \<Rightarrow> bool" where
  "egress_mismatch r p \<longleftrightarrow> hr_untrusted r \<and> known_ip p \<noteq> '''' \<and> seen_ip r \<noteq> '''' \<and> seen_ip r \<noteq> known_ip p"

definition egress_missing :: "health_result \<Rightarrow> proxy_row \<Rightarrow> bool" where
  "egress_missing r p \<longleftrightarrow> known_ip p = '''' \<and> trusted_ip r = ''''"

definition recovered :: "proxy_row \<Rightarrow> bool" where
  "recovered p \<longleftrightarrow> p_status p = Px_offline \<or> p_status p = Px_blocked"

definition unobserved :: "proxy_row \<Rightarrow> bool" where
  "unobserved p \<longleftrightarrow> up p \<and> p_online_since p \<noteq> None \<and> p_last_success p = None"

definition stale_up :: "time \<Rightarrow> int \<Rightarrow> proxy_row \<Rightarrow> bool" where
  "stale_up current stale p \<longleftrightarrow> up p \<and>
     (case p_last_success p of None \<Rightarrow> False | Some t \<Rightarrow> t + minutes stale < current)"

definition broken_continuity :: "time \<Rightarrow> int \<Rightarrow> health_result \<Rightarrow> proxy_row \<Rightarrow> bool" where
  "broken_continuity current stale r p \<longleftrightarrow> egress_moved r p \<or> egress_mismatch r p \<or> stale_up current stale p"

text \<open>The online seconds credited up to the last confirmed moment.\<close>

definition observed_online :: "time \<Rightarrow> int \<Rightarrow> proxy_row \<Rightarrow> int" where
  "observed_online current stale p =
     (case (p_online_since p, p_last_success p) of
        (Some online, Some success) \<Rightarrow> max 0 (whole_seconds (min current (success + minutes stale) - online))
      | _ \<Rightarrow> 0)"

definition live_row :: "time \<Rightarrow> checker_config \<Rightarrow> health_result \<Rightarrow> proxy_row \<Rightarrow> proxy_row \<Rightarrow> proxy_row" where
  "live_row current cfg r prev p =
     (let stale = health_stale_minutes cfg;
          stale_recovery = stale_up current stale prev;
          moved = egress_moved r prev; mismatch = egress_mismatch r prev; missing = egress_missing r prev;
          continuity_reset = (recovered prev \<or> moved \<or> mismatch \<or> stale_recovery \<or> unobserved prev);
          lost_claim = (moved \<or> mismatch \<or> stale_recovery \<or> unobserved prev)
      in probed r '''' '''' prev (p\<lparr>
           p_status := Px_online,
           p_detected_protocol := text_or (hr_protocol r) (p_detected_protocol prev),
           p_failures := 0,
           p_health_mode := (if hr_untrusted r \<and> (known_ip prev = '''' \<or> mismatch) \<or> missing then Hm_strong else Hm_fast),
           p_online_since := (if stale_recovery \<or> unobserved prev then Some current
                              else case p_online_since prev of None \<Rightarrow> Some current | Some t \<Rightarrow> Some t),
           p_offline_since := None, p_last_checked := Some current,
           p_check_claimed_until := None, p_check_token := None,
           p_online_secs := p_online_secs prev + (if stale_recovery then observed_online current stale prev else 0),
           p_offline_secs := p_offline_secs prev + (case p_offline_since prev of None \<Rightarrow> 0
              | Some t \<Rightarrow> if recovered prev then max 0 (whole_seconds (current - t)) else 0),
           p_dead_since := None,
           p_egress_verified := (if trusted_ip r \<noteq> '''' \<and> (p_egress_verified prev = None \<or> moved)
                                 then Some current else p_egress_verified prev),
           p_eligibility := (if moved \<or> mismatch \<or> missing then El_pending else p_eligibility prev),
           p_earn_next := (if moved \<or> mismatch \<or> missing then Some current else p_earn_next prev),
           p_probation := (if continuity_reset then Some current else p_probation prev),
           p_earn_claimed_until := (if lost_claim then None else p_earn_claimed_until p),
           p_earn_token := (if lost_claim then None else p_earn_token p),
           p_cursor := (if continuity_reset then Some current else p_cursor prev),
           p_last_success := Some current,
           p_next_check := Some (current + minutes (health_interval_minutes cfg)),
           p_updated := current\<rparr>))"

definition live_result ::
  "time \<Rightarrow> time \<Rightarrow> int \<Rightarrow> health_result \<Rightarrow> proxy_row \<Rightarrow> store \<Rightarrow> store result" where
  "live_result wall current pid r prev s =
     (let cfg = checker_settings s;
          reset = broken_continuity current (health_stale_minutes cfg) r prev
      in bindR (if reset \<and> earning_eligible (p_eligibility prev) then accrue_proxy_time pid current s else Inr s) (\<lambda>s1.
         bindR (if reset then reset_probation pid current s1 else Inr s1) (\<lambda>s2.
           let s3 = update_proxy pid (live_row current cfg r prev) s2 in
           if trusted_ip r \<noteq> '''' then reconcile_exit_ip wall pid (trusted_ip r) At_https_quorum s3 else Inr s3)))"

definition soft_failures :: "string list" where
  "soft_failures = [''probe_endpoint'', ''proxy_dns'', ''transient'', ''tls'', ''worker'']"

definition retry_row :: "time \<Rightarrow> checker_config \<Rightarrow> health_result \<Rightarrow> proxy_row \<Rightarrow> proxy_row \<Rightarrow> proxy_row" where
  "retry_row current cfg r prev p =
     probed r (if failure_of r = '''' then ''probe_endpoint'' else failure_of r) '''' prev (p\<lparr>
       p_last_checked := Some current,
       p_next_check := Some (current + minutes (health_retry_first_minutes cfg)),
       p_check_claimed_until := None, p_check_token := None, p_updated := current\<rparr>)"

definition confirm_row :: "time \<Rightarrow> health_result \<Rightarrow> proxy_row \<Rightarrow> proxy_row \<Rightarrow> proxy_row" where
  "confirm_row current r prev p =
     probed r (failure_of r) ''exit IP requires independent confirmation'' prev (p\<lparr>
       p_health_mode := Hm_strong, p_next_check := Some current,
       p_check_claimed_until := None, p_check_token := None, p_updated := current\<rparr>)"

text \<open>A blocked proxy keeps the probe fields of its row.\<close>

definition blocked_row :: "time \<Rightarrow> checker_config \<Rightarrow> health_result \<Rightarrow> proxy_row \<Rightarrow> proxy_row \<Rightarrow> proxy_row" where
  "blocked_row current cfg r prev p = p\<lparr>
     p_status := Px_blocked, p_eligibility := El_risk, p_failures := 0, p_health_mode := Hm_strong,
     p_online_since := None,
     p_offline_since := (case p_offline_since prev of None \<Rightarrow> Some current | Some t \<Rightarrow> Some t),
     p_online_secs := p_online_secs prev
       + (if up prev then observed_online current (health_stale_minutes cfg) prev else 0),
     p_last_checked := Some current,
     p_next_check := Some (current + minutes (health_interval_minutes cfg)),
     p_check_claimed_until := None, p_check_token := None,
     p_earn_claimed_until := None, p_earn_token := None, p_earn_next := Some current,
     p_failure_kind := (if failure_of r = '''' then ''provider_blocked'' else failure_of r),
     p_last_error := take 500 (text_or (hr_error r) ''provider blocked''), p_updated := current\<rparr>"

definition blocked_result :: "time \<Rightarrow> int \<Rightarrow> health_result \<Rightarrow> proxy_row \<Rightarrow> store \<Rightarrow> store result" where
  "blocked_result current pid r prev s =
     bindR (if earning_eligible (p_eligibility prev) then accrue_proxy_time pid current s else Inr s) (\<lambda>s1.
     bindR (reset_probation pid current s1) (\<lambda>s2.
       Inr (update_proxy pid (blocked_row current (checker_settings s) r prev) s2)))"

definition failed_row :: "time \<Rightarrow> checker_config \<Rightarrow> health_result \<Rightarrow> proxy_row \<Rightarrow> proxy_row \<Rightarrow> proxy_row" where
  "failed_row current cfg r prev p =
     (let failures = p_failures prev + 1;
          offline = (3 \<le> failures);
          remains_blocked = (p_status prev = Px_blocked)
      in probed r (if failure_of r = '''' then ''proxy'' else failure_of r) '''' prev (p\<lparr>
           p_status := (if offline then Px_offline else if remains_blocked then Px_blocked
                        else if 2 \<le> failures then Px_suspect else p_status prev),
           p_health_mode := Hm_strong, p_failures := failures,
           p_offline_since := (if offline \<or> remains_blocked
              then (case p_offline_since prev of None \<Rightarrow> Some current | Some t \<Rightarrow> Some t) else p_offline_since prev),
           p_online_since := (if offline \<or> remains_blocked then None else p_online_since prev),
           p_online_secs := p_online_secs prev
             + (if offline \<and> up prev then observed_online current (health_stale_minutes cfg) prev else 0),
           p_dead_since := (if offline then (case p_dead_since prev of None \<Rightarrow> Some current | Some t \<Rightarrow> Some t)
                            else p_dead_since prev),
           p_last_checked := Some current,
           p_next_check := Some (current + minutes (if failures = 1 then health_retry_first_minutes cfg
                                                    else health_retry_second_minutes cfg)),
           p_check_claimed_until := None, p_check_token := None,
           p_earn_claimed_until := None, p_earn_token := None, p_earn_next := Some current,
           p_updated := current\<rparr>))"

definition failed_result :: "time \<Rightarrow> int \<Rightarrow> health_result \<Rightarrow> proxy_row \<Rightarrow> store \<Rightarrow> store result" where
  "failed_result current pid r prev s =
     (let offline = (3 \<le> p_failures prev + 1) in
      bindR (if offline \<and> earning_eligible (p_eligibility prev) \<and> up prev
             then accrue_proxy_time pid current s else Inr s) (\<lambda>s1.
        let s2 = update_proxy pid (failed_row current (checker_settings s) r prev) s1 in
        if offline then reset_probation pid current s2 else Inr s2))"

definition apply_health_result_locked ::
  "time \<Rightarrow> time \<Rightarrow> int \<Rightarrow> health_result \<Rightarrow> store \<Rightarrow> store result" where
  "apply_health_result_locked wall current pid r s =
     (case find_proxy s pid of
        None \<Rightarrow> Inr s
      | Some p \<Rightarrow>
          if p_archived p \<noteq> None then Inr s
          else if \<not> fresh_result (hr_generation r) (hr_claim r) p (p_check_token p) then Inr s
          else
            (let status = text_or (hr_status r) ''inconclusive'' in
             if status = ''live'' \<or> status = ''live_unverified'' then live_result wall current pid r p s
             else if status = ''inconclusive'' \<or> (status = ''needs_confirmation'' \<and> failure_of r \<in> set soft_failures)
             then Inr (update_proxy pid (retry_row current (checker_settings s) r p) s)
             else if status = ''needs_confirmation'' \<and> failure_of r = ''egress_changed''
             then Inr (update_proxy pid (confirm_row current r p) s)
             else if status = ''blocked'' then blocked_result current pid r p s
             else failed_result current pid r p s))"

subsection \<open>Archiving\<close>

definition dead_since :: "time \<Rightarrow> proxy_row \<Rightarrow> bool" where
  "dead_since cutoff p \<longleftrightarrow> p_archived p = None \<and> p_status p = Px_offline \<and> lapsed (p_dead_since p) cutoff"

text \<open>The trigger fires for every archived row; it depends on the rows of its own address only, so that
  firing it after all rows are archived gives the same.\<close>

definition archive_due_dead_proxies :: "time \<Rightarrow> time \<Rightarrow> store \<Rightarrow> (store \<times> int) result" where
  "archive_due_dead_proxies wall current s =
     (let cutoff = current - hours 24 in
      bindR (foldR (\<lambda>t p. bindR (promote_duplicate_if_due current (p_id p) t) (\<lambda>(t', w). Inr t')) s
               (select_where (dead_since cutoff) (proxies s))) (\<lambda>s1.
        Inr (foldl (\<lambda>t p. egress_conflict_trigger wall (p_exit_ip p) (p_exit_ip p) t)
               (s1\<lparr>proxies := update_where (dead_since cutoff)
                  (\<lambda>p. p\<lparr>p_status := Px_archived, p_archived := Some current, p_updated := current\<rparr>) (proxies s1)\<rparr>)
               (select_where (dead_since cutoff) (proxies s1)),
             count_where (dead_since cutoff) (proxies s1))))"

subsection \<open>The results keep the fleet consistent\<close>

lemma fleet_update:
  assumes ok: "fleet_ok now s" and v: "\<And>p. link_view (f p) = link_view p" and le: "now \<le> at"
    and c: "(\<forall>p. p_cursor (f p) = Some at) \<or> (\<forall>p \<in> set (rows (proxies s)). p_id p = i \<longrightarrow> p_cursor (f p) = p_cursor p)"
  shows "fleet_ok at (update_proxy i f s)"
proof (rule fleet_ok_same_links [OF ok])
  have id: "p_id (f p) = p_id p" for p using v [of p] by (simp add: link_view_def)
  show "same_links s (update_proxy i f s)" by (rule same_links_update [OF proxies_update_proxy v])
  from c show "ledger_ok at (update_proxy i f s)"
  proof
    assume "\<forall>p. p_cursor (f p) = Some at"
    then show ?thesis by (intro ledger_ok_cursor_reset [OF fleet_okD(1) [OF ok] le]) (simp_all add: id)
  next
    assume same: "\<forall>p \<in> set (rows (proxies s)). p_id p = i \<longrightarrow> p_cursor (f p) = p_cursor p"
    have "ledger_ok now (update_proxy i f s)"
      by (rule ledger_ok_frame [OF fleet_okD(1) [OF ok]]) (use same fleet_okD(5) [OF ok] in \<open>simp_all add: id\<close>)
    then show ?thesis by (rule ledger_ok_later [OF _ le])
  qed
qed

lemma fleet_accrue:
  assumes "(if b then accrue_proxy_time i at s else Inr s) = Inr s'" "fleet_ok now s" "now \<le> at"
  shows "fleet_ok at s'"
proof (cases b)
  case True
  then have run: "accrue_locked at (Some i) True s = Inr s'" using assms(1) by (simp add: accrue_proxy_time_def)
  show ?thesis
    by (rule fleet_ok_same_links [OF assms(2) cursors_only_links [OF accrue_locked_cursors_only [OF run]]])
      (rule accrue_locked_ledger_ok [OF run ledger_ok_later [OF fleet_okD(1) [OF assms(2)] assms(3)]])
next
  case False
  then show ?thesis using assms fleet_ok_later by simp
qed

lemma fleet_reset:
  assumes "(if b then reset_probation i at s else Inr s) = Inr s'" "fleet_ok now s" "now \<le> at"
  shows "fleet_ok at s'"
proof (cases b)
  case True
  then have run: "reset_probation i at s = Inr s'" using assms(1) by simp
  show ?thesis
    by (rule fleet_ok_same_links [OF assms(2) reset_same_links [OF run]])
      (rule reset_ledger_ok [OF run fleet_okD(1) [OF assms(2)] assms(3)])
next
  case False
  then show ?thesis using assms fleet_ok_later by simp
qed

lemma fleet_reconcile:
  assumes "(if b then reconcile_exit_ip wall i ip src s else Inr s) = Inr s'" "fleet_ok at s"
  shows "fleet_ok at s'"
  using assms reconcile_exit_keeps by (cases b) auto

lemma probed_frame [simp]:
  "link_view (probed r k d prev p) = link_view p" "p_cursor (probed r k d prev p) = p_cursor p"
  "p_eligibility (probed r k d prev p) = p_eligibility p" "p_status (probed r k d prev p) = p_status p"
  by (simp_all add: probed_def link_view_def)

lemma result_rows_view [simp]:
  "link_view (live_row t cfg r prev p) = link_view p" "link_view (retry_row t cfg r prev p) = link_view p"
  "link_view (confirm_row t r prev p) = link_view p" "link_view (blocked_row t cfg r prev p) = link_view p"
  "link_view (failed_row t cfg r prev p) = link_view p" "link_view (earnapp_row t h er prev b p) = link_view p"
  unfolding live_row_def retry_row_def confirm_row_def blocked_row_def failed_row_def earnapp_row_def Let_def probed_frame
  unfolding link_view_def by simp_all

lemma result_rows_cursor [simp]:
  "p_cursor (retry_row t cfg r prev p) = p_cursor p" "p_cursor (confirm_row t r prev p) = p_cursor p"
  "p_cursor (blocked_row t cfg r prev p) = p_cursor p" "p_cursor (failed_row t cfg r prev p) = p_cursor p"
  "p_cursor (earnapp_row t h er prev b p) = (if b then Some t else p_cursor p)"
  by (simp_all add: retry_row_def confirm_row_def blocked_row_def failed_row_def earnapp_row_def Let_def)

lemma live_row_cursor:
  "p_cursor (live_row t cfg r prev p) =
     (if recovered prev \<or> egress_moved r prev \<or> egress_mismatch r prev \<or> stale_up t (health_stale_minutes cfg) prev
         \<or> unobserved prev then Some t else p_cursor prev)"
  by (simp add: live_row_def Let_def)

lemma live_keeps:
  assumes run: "live_result wall at i r prev s = Inr s'" and ok: "fleet_ok now s" and le: "now \<le> at"
    and prev: "find_proxy s i = Some prev"
  shows "fleet_ok at s'"
proof -
  let ?cfg = "checker_settings s"
  let ?b = "broken_continuity at (health_stale_minutes ?cfg) r prev"
  obtain s1 s2 where s1: "(if ?b \<and> earning_eligible (p_eligibility prev) then accrue_proxy_time i at s else Inr s) = Inr s1"
    and s2: "(if ?b then reset_probation i at s1 else Inr s1) = Inr s2"
    and s': "(if trusted_ip r \<noteq> '''' then reconcile_exit_ip wall i (trusted_ip r) At_https_quorum (update_proxy i (live_row at ?cfg r prev) s2)
        else Inr (update_proxy i (live_row at ?cfg r prev) s2)) = Inr s'"
    using run unfolding live_result_def Let_def bindR_Inr_iff by blast
  have ok2: "fleet_ok at s2" by (rule fleet_reset [OF s2 fleet_accrue [OF s1 ok le] order_refl])
  have "p_cursor (live_row at ?cfg r prev p) = Some at \<or> (\<not> ?b \<and> p_cursor (live_row at ?cfg r prev p) = p_cursor prev)" for p
    by (auto simp: live_row_cursor broken_continuity_def)
  moreover have "p = prev" if "\<not> ?b" "p \<in> set (rows (proxies s2))" "p_id p = i" for p
  proof -
    have "s2 = s" using that(1) s1 s2 by simp
    moreover have "prev \<in> set (rows (proxies s))" "p_id prev = i"
      using select_one_SomeD [OF prev [unfolded find_proxy_def]] by simp_all
    ultimately show ?thesis using wf_table_unique [OF fleet_okD(4) [OF ok]] that by metis
  qed
  ultimately have "(\<forall>p. p_cursor (live_row at ?cfg r prev p) = Some at)
      \<or> (\<forall>p \<in> set (rows (proxies s2)). p_id p = i \<longrightarrow> p_cursor (live_row at ?cfg r prev p) = p_cursor p)"
    by (auto simp: live_row_cursor broken_continuity_def)
  then have "fleet_ok at (update_proxy i (live_row at ?cfg r prev) s2)"
    by (rule fleet_update [OF ok2 result_rows_view(1) order_refl])
  then show ?thesis by (rule fleet_reconcile [OF s'])
qed

lemma if_elim:
  assumes "(if b then x else y) = z"
  obtains "b" "x = z" | "\<not> b" "y = z"
  using assms by (cases b) simp_all

lemma apply_health_cases:
  assumes "apply_health_result_locked wall at i r s = Inr s'" and "find_proxy s i = Some p"
  obtains (noop) "Inr s = (Inr s' :: store result)"
    | (live) "\<not> p_archived p \<noteq> None" "\<not> \<not> fresh_result (hr_generation r) (hr_claim r) p (p_check_token p)" "live_result wall at i r p s = Inr s'"
    | (retry) "Inr (update_proxy i (retry_row at (checker_settings s) r p) s) = (Inr s' :: store result)"
    | (confirm) "Inr (update_proxy i (confirm_row at r p) s) = (Inr s' :: store result)"
    | (blocked) "blocked_result at i r p s = Inr s'" | (failed) "failed_result at i r p s = Inr s'"
proof -
  show thesis
    using assms(1) unfolding apply_health_result_locked_def assms(2) option.case Let_def
    by (elim if_elim) (rule noop live retry confirm blocked failed; assumption)+
qed

lemma apply_health_keeps:
  assumes run: "apply_health_result_locked wall at i r s = Inr s'" and ok: "fleet_ok now s" and le: "now \<le> at"
  shows "fleet_ok at s'"
proof (cases "find_proxy s i")
  case None
  then show ?thesis using run fleet_ok_later [OF ok le] by (simp add: apply_health_result_locked_def)
next
  case (Some p)
  have plain: "fleet_ok at (update_proxy i f s)" if "\<And>q. link_view (f q) = link_view q" "\<And>q. p_cursor (f q) = p_cursor q" for f
    by (rule fleet_update [OF ok that(1) le]) (simp add: that(2))
  have blocked_ok: "fleet_ok at s''" if b: "blocked_result at i r p s = Inr s''" for s''
  proof -
    obtain s1 s2 where s1: "(if earning_eligible (p_eligibility p) then accrue_proxy_time i at s else Inr s) = Inr s1"
      and s2: "(if True then reset_probation i at s1 else Inr s1) = Inr s2"
      and s'': "s'' = update_proxy i (blocked_row at (checker_settings s) r p) s2"
      using b by (auto simp: blocked_result_def bindR_Inr_iff)
    have "fleet_ok at s2" by (rule fleet_reset [OF s2 fleet_accrue [OF s1 ok le] order_refl])
    then show ?thesis unfolding s'' by (rule fleet_update) simp_all
  qed
  have failed_ok: "fleet_ok at s''" if b: "failed_result at i r p s = Inr s''" for s''
  proof -
    obtain s1 where s1: "(if 3 \<le> p_failures p + 1 \<and> earning_eligible (p_eligibility p) \<and> up p then accrue_proxy_time i at s else Inr s) = Inr s1"
      and s'': "(if 3 \<le> p_failures p + 1 then reset_probation i at (update_proxy i (failed_row at (checker_settings s) r p) s1)
           else Inr (update_proxy i (failed_row at (checker_settings s) r p) s1)) = Inr s''"
      using b unfolding failed_result_def Let_def bindR_Inr_iff by blast
    have "fleet_ok at (update_proxy i (failed_row at (checker_settings s) r p) s1)"
      by (rule fleet_update [OF fleet_accrue [OF s1 ok le] _ order_refl]) simp_all
    then show ?thesis by (rule fleet_reset [OF s'' _ order_refl])
  qed
  show ?thesis
    using run Some
  proof (cases rule: apply_health_cases)
    case noop
    then show ?thesis using fleet_ok_later [OF ok le] by simp
  next
    case live
    from live(3) show ?thesis by (rule live_keeps [OF _ ok le Some])
  next
    case retry
    then show ?thesis using plain [of "retry_row at (checker_settings s) r p"] by simp
  next
    case confirm
    then show ?thesis using plain [of "confirm_row at r p"] by simp
  next
    case blocked
    then show ?thesis by (rule blocked_ok)
  next
    case failed
    then show ?thesis by (rule failed_ok)
  qed
qed

lemma apply_earnapp_cases:
  assumes "apply_earnapp_result_locked wall at i r s = Inr s'"
  obtains (noop) "s' = s"
  | (applied) p s1 s2 s3 where "find_proxy s i = Some p" "p_archived p = None"
      "fresh_result (er_generation r) (er_claim r) p (p_earn_token p)"
      "(if p_eligibility p \<noteq> earnapp_eligibility r p \<and> earning_eligible (p_eligibility p) then accrue_proxy_time i at s else Inr s) = Inr s1"
      "(if p_eligibility p \<noteq> earnapp_eligibility r p \<or> earnapp_egress_changed r p then reset_probation i at s1 else Inr s1) = Inr s2"
      "(if earnapp_ip r \<noteq> '''' then reconcile_exit_ip wall i (earnapp_ip r) At_earnapp_tls s2 else Inr s2) = Inr s3"
      "s' = update_proxy i (earnapp_row at (earnapp_refresh_hours (checker_settings s)) r p
         (p_eligibility p \<noteq> earnapp_eligibility r p \<or> earnapp_egress_changed r p)) s3"
proof (cases "find_proxy s i")
  case None
  then show ?thesis using assms noop by (simp add: apply_earnapp_result_locked_def)
next
  case (Some p)
  show ?thesis
  proof (cases "p_archived p = None \<and> fresh_result (er_generation r) (er_claim r) p (p_earn_token p)")
    case True
    then show ?thesis
      using assms applied [OF Some] unfolding apply_earnapp_result_locked_def Some Let_def option.case
      by (simp add: bindR_Inr_iff) blast
  next
    case False
    then have "s' = s"
      using assms unfolding apply_earnapp_result_locked_def Some option.case Let_def
      by (simp only: sum.inject split: if_split_asm) blast+
    then show ?thesis by (rule noop)
  qed
qed

lemma apply_earnapp_keeps:
  assumes run: "apply_earnapp_result_locked wall at i r s = Inr s'" and ok: "fleet_ok now s" and le: "now \<le> at"
  shows "fleet_ok at s'"
  using run
proof (cases rule: apply_earnapp_cases)
  case noop
  then show ?thesis using fleet_ok_later [OF ok le] by simp
next
  case (applied p s1 s2 s3)
  have "fleet_ok at s3"
    by (rule fleet_reconcile [OF applied(6) fleet_reset [OF applied(5) fleet_accrue [OF applied(4) ok le] order_refl]])
  then show ?thesis unfolding applied(7) by (rule fleet_update) simp_all
qed

lemma triggers_frame [simp]:
  "proxies (foldl (\<lambda>t p. egress_conflict_trigger w (p_exit_ip p) (p_exit_ip p) t) s ps) = proxies s"
  "ledger (foldl (\<lambda>t p. egress_conflict_trigger w (p_exit_ip p) (p_exit_ip p) t) s ps) = ledger s"
  "users (foldl (\<lambda>t p. egress_conflict_trigger w (p_exit_ip p) (p_exit_ip p) t) s ps) = users s"
  by (induction ps arbitrary: s) simp_all

lemma fleet_archive:
  assumes ok: "fleet_ok now s"
  shows "fleet_ok now (s\<lparr>proxies := update_where P (\<lambda>p. p\<lparr>p_status := Px_archived, p_archived := Some at, p_updated := u\<rparr>) (proxies s)\<rparr>)"
    (is "fleet_ok now ?s")
proof -
  let ?f = "\<lambda>p. p\<lparr>p_status := Px_archived, p_archived := Some at, p_updated := u\<rparr>"
  have "links_on (\<lambda>_. True) (rows (proxies ?s))"
    unfolding links_on_def
  proof (intro ballI impI)
    fix p' q' assume "p' \<in> set (rows (proxies ?s))" "q' \<in> set (rows (proxies ?s))"
    then obtain p q where p: "p \<in> set (rows (proxies s))" "p' = (if P p then ?f p else p)"
      and q: "q \<in> set (rows (proxies s))" "q' = (if P q then ?f q else q)" by auto
    show "pair_ok p' q'"
    proof (cases "P p \<or> P q")
      case True
      then show ?thesis using p(2) q(2) by (auto simp: pair_ok_def active_def)
    next
      case False
      then show ?thesis using fleet_okD(2) [OF ok] p q by (simp add: links_ok_def links_on_def)
    qed
  qed
  moreover have "targets_ok (seq (proxies ?s)) (rows (proxies ?s))"
    using fleet_okD(2) [OF ok] by (auto simp: links_ok_def targets_ok_def)
  moreover have "fingerprints_ok ?s" using fleet_okD(3) [OF ok] by (simp add: fingerprints_ok_def map_if_key)
  moreover have "ledger_ok now ?s"
    by (rule ledger_ok_frame [OF fleet_okD(1) [OF ok]]) (simp_all add: map_if_key fleet_okD(5) [OF ok])
  ultimately show ?thesis by (simp only: fleet_ok_def links_ok_def)
qed

lemma archive_due_keeps:
  assumes run: "archive_due_dead_proxies wall at s = Inr (s', n)" and ok: "fleet_ok now s" and le: "now \<le> at"
  shows "fleet_ok at s'"
proof -
  let ?dead = "dead_since (at - hours 24)"
  obtain s1 where s1: "foldR (\<lambda>t p. bindR (promote_duplicate_if_due at (p_id p) t) (\<lambda>(t', w). Inr t')) s
      (select_where ?dead (proxies s)) = Inr s1"
    and s': "s' = foldl (\<lambda>t p. egress_conflict_trigger wall (p_exit_ip p) (p_exit_ip p) t)
       (s1\<lparr>proxies := update_where ?dead (\<lambda>p. p\<lparr>p_status := Px_archived, p_archived := Some at, p_updated := at\<rparr>) (proxies s1)\<rparr>)
       (select_where ?dead (proxies s1))"
    using run by (auto simp: archive_due_dead_proxies_def Let_def bindR_Inr_iff)
  have "fleet_ok at s1"
    by (rule foldR_invariant [OF s1, where I = "fleet_ok at"])
      (auto simp: fleet_ok_later [OF ok le] bindR_Inr_iff intro: promote_keeps [OF _ _ order_refl])
  then have "fleet_ok at (s1\<lparr>proxies := update_where ?dead (\<lambda>p. p\<lparr>p_status := Px_archived, p_archived := Some at, p_updated := at\<rparr>) (proxies s1)\<rparr>)"
    by (rule fleet_archive)
  then show ?thesis by (rule fleet_ok_proxies) (simp_all add: s')
qed

end
