(* ===== verification/Imports.thy ===== *)
theory Imports
  imports Fleet Samples
begin

text \<open>
  What adding and importing proxies guarantees: the fleet stays consistent, the quota of active
  proxies is never exceeded, and the counters of an import account for every line.
\<close>

lemma add_proxy_cases:
  assumes "add_proxy unquote sha256 at uid txt mx s = Inr (s', i)"
  obtains q where "parse_proxy unquote txt = Inr q" "\<not> known_fingerprint s (credential_fingerprint sha256 q)"
    "s' = insert_proxy at uid q (credential_fingerprint sha256 q) s" "i = seq (proxies s) + 1" "find_user s uid \<noteq> None"
    "\<forall>m. mx = Some m \<longrightarrow> active_count s uid < clamp 1 10000 m"
proof -
  have quota: "\<forall>m. mx = Some m \<longrightarrow> active_count s uid < clamp 1 10000 m"
    using assms by (cases mx) (simp_all add: add_proxy_def split: if_splits)
  then have pass: "(case mx of Some m \<Rightarrow> if clamp 1 10000 m \<le> active_count s uid then Inl (ProxyQuotaExceeded (clamp 1 10000 m)) else Inr ()
      | None \<Rightarrow> Inr ()) = Inr ()" by (cases mx) auto
  obtain q where q: "parse_proxy unquote txt = Inr q"
    using assms unfolding add_proxy_def pass by (cases "parse_proxy unquote txt") simp_all
  show ?thesis
    using assms unfolding add_proxy_def pass
    by (intro that [OF q _ _ _ _ quota]) (simp_all add: q Let_def split: if_splits)
qed

lemma add_keeps:
  assumes "add_proxy unquote sha256 at uid txt mx s = Inr (s', i)" "fleet_ok now s" "now \<le> at"
  shows "fleet_ok at s'"
  using assms(1) by (rule add_proxy_cases) (simp add: insert_keeps [OF assms(2) _ assms(3)])

lemma active_count_insert [simp]:
  "active_count (insert_proxy at uid q fp s) u = active_count s u + (if u = uid then 1 else 0)"
  by (auto simp: active_count_def insert_proxy_def count_where_insert new_proxy_row_def)

lemma find_user_insert [simp]: "find_user (insert_proxy at uid q fp s) u = find_user s u"
  by (simp add: find_user_def insert_proxy_def)

text \<open>The second loop, by induction over the parsed lines.\<close>

definition moved_on :: "import_result \<Rightarrow> import_result \<Rightarrow> int \<Rightarrow> bool" where
  "moved_on r r' n \<longleftrightarrow> ir_added r' + ir_duplicates r' + ir_quota_skipped r'
       = ir_added r + ir_duplicates r + ir_quota_skipped r + n
     \<and> ir_submitted r' = ir_submitted r \<and> ir_invalid r' = ir_invalid r \<and> ir_blank r' = ir_blank r
     \<and> ir_added r \<le> ir_added r'"

lemma record_issue_counts [simp]:
  "ir_added (record_issue n c w v r) = ir_added r" "ir_duplicates (record_issue n c w v r) = ir_duplicates r"
  "ir_quota_skipped (record_issue n c w v r) = ir_quota_skipped r" "ir_submitted (record_issue n c w v r) = ir_submitted r"
  "ir_invalid (record_issue n c w v r) = ir_invalid r" "ir_blank (record_issue n c w v r) = ir_blank r"
  by (simp_all add: record_issue_def)

lemma import_rows_run:
  assumes "import_rows at uid quota act seen ps r s = Inr (s', r')" and "fleet_ok at s"
  shows "fleet_ok at s' \<and> moved_on r r' (int (length ps))
     \<and> active_count s' uid = active_count s uid + ir_added r' - ir_added r
     \<and> (\<forall>u. u \<noteq> uid \<longrightarrow> active_count s' u = active_count s u)"
  using assms
proof (induction at uid quota act seen ps r s rule: import_rows.induct)
  case (1 now uid quota act seen r s)
  then show ?case by (simp add: moved_on_def)
next
  case (2 now uid quota act seen n p fp rest r s)
  note run = 2(5) and ok = 2(6)
  show ?case
  proof (cases "fp \<in> set seen")
    case True
    then have "import_rows now uid quota act seen rest
             (record_issue n ''duplicate'' ''Proxy credential already exists in this import'' (safe_issue_value p)
               (r\<lparr>ir_duplicates := ir_duplicates r + 1\<rparr>)) s = Inr (s', r')" using run by simp
    from 2(1) [OF True this ok] show ?thesis by (auto simp: moved_on_def)
  next
    case new: False
    show ?thesis
    proof (cases "known_fingerprint s fp")
      case True
      then have "import_rows now uid quota act (fp # seen) rest
             (record_issue n ''duplicate'' ''Proxy credential already exists'' (safe_issue_value p)
               (r\<lparr>ir_duplicates := ir_duplicates r + 1\<rparr>)) s = Inr (s', r')" using run new by simp
      from 2(2) [OF new True this ok] show ?thesis by (auto simp: moved_on_def)
    next
      case fresh: False
      let ?full = "case quota of None \<Rightarrow> False | Some q \<Rightarrow> q \<le> act"
      show ?thesis
      proof (cases ?full)
        case True
        then have "import_rows now uid quota act (fp # seen) rest
             (record_issue n ''quota'' ''Account proxy limit reached'' (safe_issue_value p)
               (r\<lparr>ir_quota_skipped := ir_quota_skipped r + 1\<rparr>)) s = Inr (s', r')" using run new fresh by simp
        from 2(3) [OF new fresh True this ok] show ?thesis by (auto simp: moved_on_def)
      next
        case False
        then have u: "find_user s uid \<noteq> None" and
          rec: "import_rows now uid quota (act + 1) (fp # seen) rest (r\<lparr>ir_added := ir_added r + 1\<rparr>)
             (insert_proxy now uid p fp s) = Inr (s', r')"
          using run new fresh by (simp_all split: if_splits)
        from 2(4) [OF new fresh False u rec insert_keeps [OF ok fresh order_refl]]
        show ?thesis by (auto simp: moved_on_def)
      qed
    qed
  qed
qed
lemma import_rows_quota:
  assumes "import_rows at uid (Some q) act seen ps r s = Inr (s', r')" and "active_count s uid = act"
  shows "active_count s' uid \<le> max q act"
  using assms
proof (induction at uid "Some q" act seen ps r s rule: import_rows.induct)
  case (1 now uid act seen r s)
  then show ?case by simp
next
  case (2 now uid act seen n p fp rest r s)
  show ?case
  proof (cases "fp \<in> set seen \<or> known_fingerprint s fp \<or> q \<le> act")
    case True
    then show ?thesis
      using 2(5,6) 2(1) [OF _ _ 2(6)] 2(2) [OF _ _ _ 2(6)] 2(3) [OF _ _ _ _ 2(6)]
      by (simp split: if_splits)
  next
    case False
    then have "find_user s uid \<noteq> None" and
      rec: "import_rows now uid (Some q) (act + 1) (fp # seen) rest (r\<lparr>ir_added := ir_added r + 1\<rparr>)
             (insert_proxy now uid p fp s) = Inr (s', r')"
      using 2(5) by (simp_all split: if_splits)
    then have "active_count s' uid \<le> max q (act + 1)" using 2(4) False 2(6) by simp
    then show ?thesis using False by simp
  qed
qed

text \<open>Every recorded issue is counted, and at most a hundred are listed.\<close>

definition issues_ok :: "import_result \<Rightarrow> bool" where
  "issues_ok r \<longleftrightarrow> int (length (ir_issues r)) + ir_truncated r = ir_duplicates r + ir_invalid r + ir_quota_skipped r
     \<and> length (ir_issues r) \<le> 100"

lemma issues_ok_record:
  assumes "issues_ok r" and "ir_duplicates r' + ir_invalid r' + ir_quota_skipped r' = ir_duplicates r + ir_invalid r + ir_quota_skipped r + 1"
    and "ir_issues r' = ir_issues r" "ir_truncated r' = ir_truncated r"
  shows "issues_ok (record_issue n c w v r')"
  using assms by (auto simp: issues_ok_def record_issue_def)

lemma import_rows_issues:
  "import_rows at uid quota act seen ps r s = Inr (s', r') \<Longrightarrow> issues_ok r \<Longrightarrow> issues_ok r'"
proof (induction at uid quota act seen ps r s rule: import_rows.induct)
  case (1 now uid quota act seen r s)
  then show ?case by simp
next
  case (2 now uid quota act seen n p fp rest r s)
  have dup: "issues_ok (record_issue n c w v (r\<lparr>ir_duplicates := ir_duplicates r + 1\<rparr>))" for c w v
    by (rule issues_ok_record [OF 2(6)]) simp_all
  have quo: "issues_ok (record_issue n c w v (r\<lparr>ir_quota_skipped := ir_quota_skipped r + 1\<rparr>))" for c w v
    by (rule issues_ok_record [OF 2(6)]) simp_all
  have add: "issues_ok (r\<lparr>ir_added := ir_added r + 1\<rparr>)" using 2(6) by (simp add: issues_ok_def)
  show ?case
    using 2(5) 2(1) [OF _ _ dup] 2(2) [OF _ _ _ dup] 2(3) [OF _ _ _ _ quo] 2(4) [OF _ _ _ _ _ add]
    by (simp split: if_splits)
qed

lemma parse_lines_counts:
  "parse_lines unquote sha256 n lines r = (r', ps) \<Longrightarrow> issues_ok r \<Longrightarrow>
     issues_ok r' \<and> ir_submitted r' + ir_blank r' = ir_submitted r + ir_blank r + int (length lines)
     \<and> ir_submitted r' - ir_invalid r' = ir_submitted r - ir_invalid r + int (length ps)
     \<and> ir_added r' = ir_added r \<and> ir_duplicates r' = ir_duplicates r \<and> ir_quota_skipped r' = ir_quota_skipped r"
proof (induction lines arbitrary: n r r' ps)
  case Nil
  then show ?case by simp
next
  case (Cons line rest)
  show ?case
  proof (cases "strip line = ''''")
    case True
    then have "parse_lines unquote sha256 (n + 1) rest (r\<lparr>ir_blank := ir_blank r + 1\<rparr>) = (r', ps)" using Cons.prems(1) by simp
    from Cons.IH [OF this] show ?thesis using Cons.prems(2) by (simp add: issues_ok_def)
  next
    case ne: False
    let ?r1 = "r\<lparr>ir_submitted := ir_submitted r + 1\<rparr>"
    show ?thesis
    proof (cases "parse_proxy unquote (strip line)")
      case (Inl e)
      let ?why = "case e of ProxyParseError m \<Rightarrow> m | _ \<Rightarrow> ''''"
      let ?r2 = "record_issue n ''invalid'' ?why '''' (?r1\<lparr>ir_invalid := ir_invalid ?r1 + 1\<rparr>)"
      have rec: "parse_lines unquote sha256 (n + 1) rest ?r2 = (r', ps)"
        using Cons.prems(1) ne Inl by simp
      have "issues_ok ?r2" by (rule issues_ok_record [OF Cons.prems(2)]) simp_all
      from Cons.IH [OF rec this] show ?thesis by simp
    next
      case (Inr p)
      obtain ps' where rec: "parse_lines unquote sha256 (n + 1) rest ?r1 = (r', ps')" "ps = (n, p, credential_fingerprint sha256 p) # ps'"
        using Cons.prems(1) ne Inr by (auto simp: Let_def split: prod.splits)
      have "issues_ok ?r1" using Cons.prems(2) by (simp add: issues_ok_def)
      from Cons.IH [OF rec(1) this] show ?thesis using rec(2) by simp
    qed
  qed
qed

lemma bulk_cases:
  assumes "bulk_add_proxies unquote sha256 at uid lines mx ml s = Inr (s', r')"
  obtains r ps r1 where "int (length lines) \<le> max 1 ml" "parse_lines unquote sha256 1 lines empty_import = (r, ps)"
    "import_rows at uid (map_option (clamp 1 10000) mx) (if mx = None then 0 else active_count s uid) [] ps r s = Inr (s', r1)"
    "r' = r1\<lparr>ir_issues := sort_key ii_line (ir_issues r1)\<rparr>"
proof -
  obtain r ps where p: "parse_lines unquote sha256 1 lines empty_import = (r, ps)" by fastforce
  show ?thesis
    using assms that [OF _ p] by (auto simp: bulk_add_proxies_def Let_def p bindR_Inr_iff split: if_splits prod.splits)
qed

lemma bulk_keeps:
  assumes "bulk_add_proxies unquote sha256 at uid lines mx ml s = Inr (s', r')" "fleet_ok now s" "now \<le> at"
  shows "fleet_ok at s'"
  using assms(1) by (rule bulk_cases) (use import_rows_run fleet_ok_later [OF assms(2,3)] in blast)

text \<open>A bulk import is fully accounted for: every line is blank or submitted, every submitted line
  is added, a duplicate, invalid or over the quota, the listed and truncated issues are exactly the
  lines not added, at most a hundred are listed, and the user owns exactly the added proxies more.\<close>

lemma import_accounts_for_every_line:
  assumes "bulk_add_proxies unquote sha256 at uid lines mx ml s = Inr (s', r)" and "fleet_ok now s" and "now \<le> at"
  shows "ir_submitted r + ir_blank r = int (length lines)
     \<and> ir_submitted r = ir_added r + ir_duplicates r + ir_invalid r + ir_quota_skipped r
     \<and> int (length (ir_issues r)) + ir_truncated r = ir_submitted r - ir_added r
     \<and> length (ir_issues r) \<le> 100
     \<and> (\<forall>u. active_count s' u = active_count s u + (if u = uid then ir_added r else 0))"
proof -
  obtain r0 ps r1 where p: "parse_lines unquote sha256 1 lines empty_import = (r0, ps)"
    and i: "import_rows at uid (map_option (clamp 1 10000) mx) (if mx = None then 0 else active_count s uid) [] ps r0 s = Inr (s', r1)"
    and r: "r = r1\<lparr>ir_issues := sort_key ii_line (ir_issues r1)\<rparr>"
    using assms(1) by (rule bulk_cases)
  have "issues_ok empty_import" by (simp add: issues_ok_def empty_import_def)
  note c0 = parse_lines_counts [OF p this]
  note c1 = import_rows_run [OF i fleet_ok_later [OF assms(2,3)]]
  have "issues_ok r1" using import_rows_issues [OF i] c0 by blast
  then show ?thesis using c0 c1 by (auto simp: r issues_ok_def moved_on_def empty_import_def)
qed

text \<open>C7. Adding and importing never lift a user above the quota of active proxies: a user below the
  (clamped) limit ends at most at the limit, and a user above it gets nothing more.\<close>

lemma import_respects_quota:
  assumes "bulk_add_proxies unquote sha256 at uid lines (Some mx) ml s = Inr (s', r)"
  shows "active_count s' uid \<le> max (clamp 1 10000 mx) (active_count s uid)"
  using assms by (rule bulk_cases) (simp add: import_rows_quota)

definition plain :: "string \<Rightarrow> string" where
  "plain x = x"

definition sample_import :: "(store \<times> import_result) result" where
  "sample_import = bulk_add_proxies plain plain 5 1
     [''1.2.3.4:80'', '' '', ''1.2.3.4:80'', ''x'', ''5.6.7.8:81'', ''5.6.7.9:82''] (Some 2) 100 (sample_store [sample_user 1] [])"

lemma sample_import_run: "case sample_import of Inr (s, r) \<Rightarrow> ir_added r = 2 \<and> ir_duplicates r = 1 \<and> ir_invalid r = 1
     \<and> ir_quota_skipped r = 1 \<and> ir_blank r = 1 | Inl e \<Rightarrow> False"
  by code_simp

lemma fleet_ok_empty: "fleet_ok now (sample_store [sample_user 1] [])"
  by (simp add: fleet_ok_def ledger_ok_def wf_table_def spans_ok_def cursor_ok_def links_ok_def links_on_def targets_ok_def
      fingerprints_ok_def sample_defs)

lemma import_accounts_for_every_line_witness:
  "\<exists>s' r. sample_import = Inr (s', r) \<and> ir_submitted r = 5 \<and> ir_added r = 2
     \<and> int (length (ir_issues r)) + ir_truncated r = 3 \<and> active_count s' 1 = 2"
proof -
  obtain s' r where run: "sample_import = Inr (s', r)" and r: "ir_added r = 2" "ir_blank r = 1"
    using sample_import_run by (auto split: sum.splits prod.splits)
  have "active_count (sample_store [sample_user 1] []) 1 = 0" by (simp add: active_count_def count_where_def sample_defs)
  then have "ir_submitted r = 5 \<and> int (length (ir_issues r)) + ir_truncated r = 3 \<and> active_count s' 1 = 2"
    using import_accounts_for_every_line [OF run [unfolded sample_import_def] fleet_ok_empty [of 0]] r by simp
  then show ?thesis using run r by blast
qed

lemma import_respects_quota_witness:
  "\<exists>s' r. sample_import = Inr (s', r) \<and> active_count s' 1 \<le> 2 \<and> ir_quota_skipped r = 1"
proof -
  obtain s' r where run: "sample_import = Inr (s', r)" and r: "ir_quota_skipped r = 1"
    using sample_import_run by (auto split: sum.splits prod.splits)
  have "active_count (sample_store [sample_user 1] []) 1 = 0" by (simp add: active_count_def count_where_def sample_defs)
  then have "active_count s' 1 \<le> 2"
    using import_respects_quota [OF run [unfolded sample_import_def]] by (simp add: clamp_def)
  then show ?thesis using run r by blast
qed

end
