(* ===== verification/Check_Properties.thy ===== *)
theory Check_Properties
  imports Checks Imports
begin

text \<open>
  What the checks guarantee: claims are exclusive leases of due rows, stale results change nothing,
  only attested evidence moves an egress identity, and the state machine of a proxy's status.
\<close>

subsection \<open>Claims\<close>

lemma health_batch_due: "p \<in> set (health_batch now lim ph s) \<Longrightarrow> p \<in> set (rows (proxies s)) \<and> due_health now s p"
  unfolding health_batch_def by (drule in_set_takeD) (simp add: health_order_def split: if_splits)

lemma earnapp_batch_due: "p \<in> set (earnapp_batch now lim s) \<Longrightarrow> p \<in> set (rows (proxies s)) \<and> due_earnapp now s p"
  unfolding earnapp_batch_def by (drule in_set_takeD) simp

lemma claim_due_proxies_cases:
  assumes "claim_due_proxies now tok lim ph s = (s', ps)"
  obtains (none) "s' = s" "ps = []" "health_batch now lim ph s = []"
  | (some) "ps = sort_key p_id (select_where (\<lambda>p. p_check_token p = Some tok \<and> p_id p \<in> p_id ` set (health_batch now lim ph s)) (proxies s'))"
      "s' = s\<lparr>proxies := update_where (\<lambda>p. p_id p \<in> p_id ` set (health_batch now lim ph s))
               (\<lambda>p. p\<lparr>p_next_check := Some (now + minutes (health_interval_minutes (checker_settings s))),
                      p_check_claimed_until := Some (now + minutes 10), p_check_token := Some tok\<rparr>) (proxies s)\<rparr>"
proof (cases "health_batch now lim ph s = []")
  case True
  then show ?thesis using assms by (intro none) (simp_all add: claim_due_proxies_def)
next
  case False
  then show ?thesis using assms by (intro some) (auto simp: claim_due_proxies_def Let_def)
qed

lemma claim_due_earnapp_cases:
  assumes "claim_due_earnapp now tok lim s = (s', ps)"
  obtains (none) "s' = s" "ps = []" "earnapp_batch now lim s = []"
  | (some) "ps = sort_key p_id (select_where (\<lambda>p. p_earn_token p = Some tok \<and> p_id p \<in> p_id ` set (earnapp_batch now lim s)) (proxies s'))"
      "s' = s\<lparr>proxies := update_where (\<lambda>p. p_id p \<in> p_id ` set (earnapp_batch now lim s))
               (\<lambda>p. p\<lparr>p_earn_claimed_until := Some (now + minutes 10), p_earn_token := Some tok\<rparr>) (proxies s)\<rparr>"
proof (cases "earnapp_batch now lim s = []")
  case True
  then show ?thesis using assms by (intro none) (simp_all add: claim_due_earnapp_def)
next
  case False
  then show ?thesis using assms by (intro some) (auto simp: claim_due_earnapp_def Let_def)
qed

definition proxy_ids_ok :: "store \<Rightarrow> bool" where
  "proxy_ids_ok s \<longleftrightarrow> wf_table p_id (proxies s)"

definition health_claim :: "int option \<Rightarrow> int option \<Rightarrow> time \<Rightarrow> string \<Rightarrow> store \<Rightarrow> store \<times> int list" where
  "health_claim lim ph now tok s = (case claim_due_proxies now tok lim ph s of (s', ps) \<Rightarrow> (s', map p_id ps))"

definition health_held :: "store \<Rightarrow> int \<Rightarrow> time option" where
  "health_held s i = (case find_proxy s i of None \<Rightarrow> None | Some p \<Rightarrow> p_check_claimed_until p)"

definition earnapp_claim :: "int \<Rightarrow> time \<Rightarrow> string \<Rightarrow> store \<Rightarrow> store \<times> int list" where
  "earnapp_claim lim now tok s = (case claim_due_earnapp now tok lim s of (s', ps) \<Rightarrow> (s', map p_id ps))"

definition earnapp_held :: "store \<Rightarrow> int \<Rightarrow> time option" where
  "earnapp_held s i = (case find_proxy s i of None \<Rightarrow> None | Some p \<Rightarrow> p_earn_claimed_until p)"

lemma find_proxy_row: "proxy_ids_ok s \<Longrightarrow> p \<in> set (rows (proxies s)) \<Longrightarrow> find_proxy s (p_id p) = Some p"
  unfolding proxy_ids_ok_def find_proxy_def by (rule wf_table_find)

interpretation health: claim_lease "health_claim lim ph" health_held proxy_ids_ok "minutes 10" for lim ph
proof
  show "0 < minutes 10" by (simp add: minutes_def seconds_def)
  fix s s' now tok ks k
  assume ok: "proxy_ids_ok s" and run: "health_claim lim ph now tok s = (s', ks)"
  then obtain ps where ps: "claim_due_proxies now tok lim ph s = (s', ps)" "ks = map p_id ps"
    by (auto simp: health_claim_def split: prod.splits)
  have "proxy_ids_ok s' \<and> (k \<in> set ks \<longrightarrow> elapsed (health_held s k) now \<and> health_held s' k = Some (now + minutes 10))"
    using ps(1)
  proof (cases rule: claim_due_proxies_cases)
    case none
    then show ?thesis using ok ps(2) by simp
  next
    case some
    have ok': "proxy_ids_ok s'" using ok some(2) by (simp add: proxy_ids_ok_def wf_table_update)
    have "elapsed (health_held s k) now \<and> health_held s' k = Some (now + minutes 10)" if k: "k \<in> set ks"
    proof -
      from k obtain p q where p: "p \<in> set (rows (proxies s'))" "p_id p = k" and q: "q \<in> set (health_batch now lim ph s)" "p_id q = k"
        using some(1) ps(2) by auto
      have "find_proxy s k = Some q" using find_proxy_row [OF ok] health_batch_due [OF q(1)] q(2) by blast
      then have "elapsed (health_held s k) now" using health_batch_due [OF q(1)] by (simp add: health_held_def due_health_def)
      moreover have "p_id p \<in> p_id ` set (health_batch now lim ph s)" using p(2) q by (metis image_eqI)
      then have "p_check_claimed_until p = Some (now + minutes 10)"
        using p(1) some(2) by (auto split: if_splits)
      then have "health_held s' k = Some (now + minutes 10)"
        using find_proxy_row [OF ok' p(1)] p(2) by (simp add: health_held_def)
      ultimately show ?thesis by blast
    qed
    then show ?thesis using ok' by blast
  qed
  then show "proxy_ids_ok s'" "k \<in> set ks \<Longrightarrow> elapsed (health_held s k) now"
    "k \<in> set ks \<Longrightarrow> health_held s' k = Some (now + minutes 10)" by blast+
qed

interpretation earnapp: claim_lease "earnapp_claim lim" earnapp_held proxy_ids_ok "minutes 10" for lim
proof
  show "0 < minutes 10" by (simp add: minutes_def seconds_def)
  fix s s' now tok ks k
  assume ok: "proxy_ids_ok s" and run: "earnapp_claim lim now tok s = (s', ks)"
  then obtain ps where ps: "claim_due_earnapp now tok lim s = (s', ps)" "ks = map p_id ps"
    by (auto simp: earnapp_claim_def split: prod.splits)
  have "proxy_ids_ok s' \<and> (k \<in> set ks \<longrightarrow> elapsed (earnapp_held s k) now \<and> earnapp_held s' k = Some (now + minutes 10))"
    using ps(1)
  proof (cases rule: claim_due_earnapp_cases)
    case none
    then show ?thesis using ok ps(2) by simp
  next
    case some
    have ok': "proxy_ids_ok s'" using ok some(2) by (simp add: proxy_ids_ok_def wf_table_update)
    have "elapsed (earnapp_held s k) now \<and> earnapp_held s' k = Some (now + minutes 10)" if k: "k \<in> set ks"
    proof -
      from k obtain p q where p: "p \<in> set (rows (proxies s'))" "p_id p = k" and q: "q \<in> set (earnapp_batch now lim s)" "p_id q = k"
        using some(1) ps(2) by auto
      have "find_proxy s k = Some q" using find_proxy_row [OF ok] earnapp_batch_due [OF q(1)] q(2) by blast
      then have "elapsed (earnapp_held s k) now" using earnapp_batch_due [OF q(1)] by (simp add: earnapp_held_def due_earnapp_def)
      moreover have "p_id p \<in> p_id ` set (earnapp_batch now lim s)" using p(2) q by (metis image_eqI)
      then have "p_earn_claimed_until p = Some (now + minutes 10)"
        using p(1) some(2) by (auto split: if_splits)
      then have "earnapp_held s' k = Some (now + minutes 10)"
        using find_proxy_row [OF ok' p(1)] p(2) by (simp add: earnapp_held_def)
      ultimately show ?thesis by blast
    qed
    then show ?thesis using ok' by blast
  qed
  then show "proxy_ids_ok s'" "k \<in> set ks \<Longrightarrow> elapsed (earnapp_held s k) now"
    "k \<in> set ks \<Longrightarrow> earnapp_held s' k = Some (now + minutes 10)" by blast+
qed

text \<open>Health claims are exclusive leases: a worker gets at most twenty rows, all due, of active users
  and not archived, marked with its token for ten minutes; a worker that claims within these ten
  minutes gets none of them, whatever batch size and order it asks for.\<close>

lemma health_claims_exclusive:
  assumes ok: "proxy_ids_ok s" and one: "claim_due_proxies t1 a lim1 ph1 s = (s1, ps)"
    and two: "claim_due_proxies t2 b lim2 ph2 s1 = (s2, qs)" and t: "t2 < t1 + minutes 10"
  shows "p_id ` set ps \<inter> p_id ` set qs = {} \<and> length ps \<le> 20
     \<and> (\<forall>p \<in> set ps. p_check_token p = Some a \<and> p_check_claimed_until p = Some (t1 + minutes 10)
          \<and> (\<exists>q \<in> set (rows (proxies s)). p_id q = p_id p \<and> due_health t1 s q))"
proof -
  have c1: "health_claim lim1 ph1 t1 a s = (s1, map p_id ps)" and c2: "health_claim lim2 ph2 t2 b s1 = (s2, map p_id qs)"
    using one two by (simp_all add: health_claim_def)
  have ok1: "proxy_ids_ok s1" by (rule health.claim_ok [OF ok c1])
  have "k \<notin> p_id ` set qs" if "k \<in> p_id ` set ps" for k
  proof
    assume "k \<in> p_id ` set qs"
    then have "elapsed (health_held s1 k) t2" using health.claim_free [OF ok1 c2] by simp
    moreover have "health_held s1 k = Some (t1 + minutes 10)" using health.claim_marks [OF ok c1] that by simp
    ultimately show False using t by simp
  qed
  then have "p_id ` set ps \<inter> p_id ` set qs = {}" by blast
  moreover have "length ps \<le> 20 \<and> (\<forall>p \<in> set ps. p_check_token p = Some a \<and> p_check_claimed_until p = Some (t1 + minutes 10)
          \<and> (\<exists>q \<in> set (rows (proxies s)). p_id q = p_id p \<and> due_health t1 s q))"
    using one
  proof (cases rule: claim_due_proxies_cases)
    case none
    then show ?thesis by simp
  next
    case some
    let ?B = "health_batch t1 lim1 ph1 s"
    have "length ps \<le> card (p_id ` set ?B)"
    proof -
      have "distinct (map p_id (rows (proxies s1)))" using ok1 by (simp add: proxy_ids_ok_def wf_table_def)
      then have "distinct (map p_id ps)" unfolding some(1) distinct_map by (auto simp: select_where_def inj_on_def)
      then have "length ps = card (p_id ` set ps)" by (metis distinct_card length_map list.set_map)
      also have "\<dots> \<le> card (p_id ` set ?B)" by (rule card_mono) (auto simp: some(1))
      finally show ?thesis .
    qed
    also have "\<dots> \<le> length ?B" by (metis card_length length_map list.set_map)
    also have "\<dots> \<le> 20"
    proof -
      have "batch_size lim1 (health_concurrency (checker_settings s)) \<le> 20"
        using bounded_int_range [of 1 20 s "''health_concurrency''" 5]
        by (simp add: batch_size_def checker_settings_def min_le_iff_disj)
      then show ?thesis by (simp add: health_batch_def)
    qed
    finally have "length ps \<le> 20" .
    moreover have "p_check_token p = Some a \<and> p_check_claimed_until p = Some (t1 + minutes 10)
          \<and> (\<exists>q \<in> set (rows (proxies s)). p_id q = p_id p \<and> due_health t1 s q)" if p: "p \<in> set ps" for p
    proof -
      obtain q where q: "q \<in> set ?B" "p_id q = p_id p" using p some(1) by auto
      have "p \<in> set (rows (proxies s1))" using p some(1) by simp
      then have "find_proxy s1 (p_id p) = Some p" by (rule find_proxy_row [OF ok1])
      moreover have "p_id p \<in> set (map p_id ps)" using p by simp
      then have "health_held s1 (p_id p) = Some (t1 + minutes 10)" by (rule health.claim_marks [OF ok c1])
      ultimately have "p_check_claimed_until p = Some (t1 + minutes 10)" by (simp add: health_held_def)
      moreover have "p_check_token p = Some a" using p some(1) by simp
      ultimately show ?thesis using health_batch_due [OF q(1)] q(2) by blast
    qed
    ultimately show ?thesis by blast
  qed
  ultimately show ?thesis by blast
qed

subsection \<open>What a health result does to the status\<close>

text \<open>The automaton behind the branches: a signal and the pair of status and failure count.\<close>

datatype signal = Sg_ignored | Sg_live | Sg_soft | Sg_blocked | Sg_failure

fun automaton :: "signal \<Rightarrow> px_status \<times> int \<Rightarrow> px_status \<times> int" where
  "automaton Sg_ignored x = x"
| "automaton Sg_soft x = x"
| "automaton Sg_live x = (Px_online, 0)"
| "automaton Sg_blocked x = (Px_blocked, 0)"
| "automaton Sg_failure (st, n) =
     ((if 3 \<le> n + 1 then Px_offline else if st = Px_blocked then Px_blocked
       else if 2 \<le> n + 1 then Px_suspect else st), n + 1)"

definition signal_of_result :: "health_result \<Rightarrow> signal" where
  "signal_of_result r =
     (let status = text_or (hr_status r) ''inconclusive'' in
      if status = ''live'' \<or> status = ''live_unverified'' then Sg_live
      else if status = ''inconclusive'' \<or> (status = ''needs_confirmation'' \<and> failure_of r \<in> set soft_failures) then Sg_soft
      else if status = ''needs_confirmation'' \<and> failure_of r = ''egress_changed'' then Sg_soft
      else if status = ''blocked'' then Sg_blocked else Sg_failure)"

definition signal_for :: "health_result \<Rightarrow> proxy_row \<Rightarrow> signal" where
  "signal_for r p =
     (if p_archived p = None \<and> fresh_result (hr_generation r) (hr_claim r) p (p_check_token p)
      then signal_of_result r else Sg_ignored)"

definition status_of :: "store \<Rightarrow> int \<Rightarrow> (px_status \<times> int) option" where
  "status_of s i = map_option (\<lambda>p. (p_status p, p_failures p)) (find_proxy s i)"

text \<open>Columns that reconciliation, accrual and probation resets leave alone.\<close>

definition core_view :: "proxy_row \<Rightarrow> int \<times> px_status \<times> int \<times> int \<times> int \<times> time option" where
  "core_view p = (p_id p, p_status p, p_failures p, p_user p, p_generation p, p_archived p)"

definition same_view :: "(proxy_row \<Rightarrow> 'a) \<Rightarrow> store \<Rightarrow> store \<Rightarrow> bool" where
  "same_view v s s' \<longleftrightarrow> map v (rows (proxies s')) = map v (rows (proxies s))"

abbreviation same_core :: "store \<Rightarrow> store \<Rightarrow> bool" where
  "same_core \<equiv> same_view core_view"

lemma same_view_refl [simp]: "same_view v s s"
  by (simp add: same_view_def)

lemma same_view_trans: "same_view v a b \<Longrightarrow> same_view v b c \<Longrightarrow> same_view v a c"
  by (simp add: same_view_def)

lemma same_view_update:
  assumes "proxies s' = update_where P f (proxies s)" and "\<And>p. v (f p) = v p"
  shows "same_view v s s'"
  using assms by (simp add: same_view_def map_if_key)

text \<open>Reading a column of one row through a view.\<close>

lemma same_view_find:
  assumes "same_view v s s'" and "\<And>p. k (v p) = p_id p"
  shows "map_option v (find_proxy s' i) = map_option v (find_proxy s i)"
proof -
  have find: "map_option v (List.find (\<lambda>p. p_id p = i) ps) = List.find (\<lambda>x. k x = i) (map v ps)" for ps
    by (induction ps) (auto simp: assms(2))
  then show ?thesis using assms(1) unfolding find_proxy_def select_one_def same_view_def by metis
qed

lemma status_of_core: "same_core s s' \<Longrightarrow> status_of s' i = status_of s i"
proof -
  assume "same_core s s'"
  then have same: "map_option core_view (find_proxy s' i) = map_option core_view (find_proxy s i)" by (rule same_view_find [where k = fst]) (simp add: core_view_def)
  have st: "status_of t i = map_option (\<lambda>v. (fst (snd v), fst (snd (snd v)))) (map_option core_view (find_proxy t i))" for t
    by (simp add: status_of_def option.map_comp comp_def core_view_def)
  show ?thesis unfolding st same by (rule refl)
qed

lemma canonicalize_view:
  assumes "canonicalize_exit_group wall ip pr excl s = Inr s'" and v: "\<And>p d. v (p\<lparr>p_duplicate_of := d\<rparr>) = v p"
  shows "same_view v s s'"
  using assms(1)
proof (cases rule: canonicalize_cases)
  case (chosen r s1)
  have "v (rehome c ip excl p) = v p" for c p
    unfolding rehome_def by (cases "p_id p = c"; cases "in_group ip excl p") (simp_all add: v)
  then show ?thesis using chosen(3) by (simp add: same_view_def)
qed simp

lemma reconcile_view:
  assumes "reconcile_exit_ip wall i ip src s = Inr s'" and v: "\<And>p d. v (p\<lparr>p_duplicate_of := d\<rparr>) = v p"
    and a: "\<And>a p. v (attest_row wall (show_ip a) src p) = v p"
  shows "same_view v s s'"
  using assms(1)
proof (cases rule: reconcile_exit_cases)
  case (moved a x s1 s2 s3)
  have "same_view v s s1"
    by (rule same_view_update [where P = "\<lambda>p. p_id p = i" and f = "attest_row wall (show_ip a) src"]) (simp_all add: moved(3) assms(3))
  moreover have "same_view v s2 s3" using moved(5) canonicalize_view [OF _ v] by (auto split: if_splits)
  moreover have "same_view v s3 s'" by (simp add: moved(6) same_view_def)
  ultimately show ?thesis using canonicalize_view [OF moved(4) v] same_view_trans by blast
qed simp

lemma reset_core: "(if b then reset_probation i t s else Inr s) = Inr s' \<Longrightarrow> same_core s s'"
proof (cases b)
  case True
  assume "(if b then reset_probation i t s else Inr s) = Inr s'"
  then have "proxies s' = update_where (\<lambda>p. p_id p = i) (\<lambda>p. p\<lparr>p_probation := Some t, p_cursor := Some t\<rparr>) (proxies s)"
    using True by (auto simp: reset_probation_def expire_pending_cycle_def bindR_Inr_iff rebucket_frame)
  then show ?thesis by (rule same_view_update) (simp add: core_view_def)
qed simp

lemma accrue_core: "(if b then accrue_proxy_time i t s else Inr s) = Inr s' \<Longrightarrow> same_core s s'"
proof (cases b)
  case True
  assume "(if b then accrue_proxy_time i t s else Inr s) = Inr s'"
  then have "cursors_only s s'" using True accrue_locked_cursors_only by (simp add: accrue_proxy_time_def)
  then have c: "map without_cursor (rows (proxies s')) = map without_cursor (rows (proxies s))" by (simp add: cursors_only_def)
  have "map core_view (rows (proxies t)) = map core_view (map without_cursor (rows (proxies t)))" for t
    by (simp add: core_view_def without_cursor_def)
  then show ?thesis unfolding same_view_def by (metis c)
qed simp

lemma reconcile_core: "(if b then reconcile_exit_ip wall i ip src s else Inr s) = Inr s' \<Longrightarrow> same_core s s'"
  by (cases b) (auto intro!: reconcile_view simp: core_view_def attest_row_def)

lemma result_rows_status:
  "p_id (live_row t cfg r prev p) = p_id p" "p_status (live_row t cfg r prev p) = Px_online" "p_failures (live_row t cfg r prev p) = 0"
  "core_view (retry_row t cfg r prev p) = core_view p" "core_view (confirm_row t r prev p) = core_view p"
  "p_id (blocked_row t cfg r prev p) = p_id p" "p_status (blocked_row t cfg r prev p) = Px_blocked" "p_failures (blocked_row t cfg r prev p) = 0"
  "p_id (failed_row t cfg r prev p) = p_id p"
  "(p_status (failed_row t cfg r prev p), p_failures (failed_row t cfg r prev p)) = automaton Sg_failure (p_status prev, p_failures prev)"
  "core_view (earnapp_row t h er prev b p) = core_view p"
  unfolding live_row_def retry_row_def confirm_row_def blocked_row_def failed_row_def earnapp_row_def Let_def probed_def core_view_def
  by simp_all

lemma find_update:
  assumes "\<And>p. p_id (f p) = p_id p"
  shows "find_proxy (update_proxy i f s) i = map_option f (find_proxy s i)"
proof -
  have "List.find (\<lambda>p. p_id p = i) (map (\<lambda>p. if p_id p = i then f p else p) ps) = map_option f (List.find (\<lambda>p. p_id p = i) ps)" for ps
    by (induction ps) (auto simp: assms)
  then show ?thesis by (simp add: find_proxy_def select_one_def)
qed

lemma status_update:
  assumes "\<And>p. p_id (f p) = p_id p" and "\<And>p. (p_status (f p), p_failures (f p)) = x" and "status_of s i \<noteq> None"
  shows "status_of (update_proxy i f s) i = Some x"
  using assms(2,3) by (auto simp: status_of_def find_update [OF assms(1)] option.map_comp comp_def)

lemma live_status:
  assumes l: "live_result wall at i r p s = Inr s'" and st: "status_of s i \<noteq> None"
  shows "status_of s' i = Some (Px_online, 0)"
proof -
  let ?f = "live_row at (checker_settings s) r p"
  let ?b = "broken_continuity at (health_stale_minutes (checker_settings s)) r p"
  obtain s1 s2 where s1: "(if ?b \<and> earning_eligible (p_eligibility p) then accrue_proxy_time i at s else Inr s) = Inr s1"
    and s2: "(if ?b then reset_probation i at s1 else Inr s1) = Inr s2"
    and s3: "(if trusted_ip r \<noteq> '''' then reconcile_exit_ip wall i (trusted_ip r) At_https_quorum (update_proxy i ?f s2)
        else Inr (update_proxy i ?f s2)) = Inr s'"
    using l unfolding live_result_def Let_def bindR_Inr_iff by blast
  have "status_of s2 i \<noteq> None" using st status_of_core [OF accrue_core [OF s1]] status_of_core [OF reset_core [OF s2]] by simp
  then have "status_of (update_proxy i ?f s2) i = Some (Px_online, 0)"
    by (intro status_update) (simp_all add: result_rows_status)
  then show ?thesis using status_of_core [OF reconcile_core [OF s3]] by simp
qed

lemma blocked_status:
  assumes b: "blocked_result at i r p s = Inr s'" and st: "status_of s i \<noteq> None"
  shows "status_of s' i = Some (Px_blocked, 0)"
proof -
  obtain s1 s2 where s1: "(if earning_eligible (p_eligibility p) then accrue_proxy_time i at s else Inr s) = Inr s1"
    and s2: "(if True then reset_probation i at s1 else Inr s1) = Inr s2"
    and s3: "s' = update_proxy i (blocked_row at (checker_settings s) r p) s2"
    using b by (auto simp: blocked_result_def bindR_Inr_iff)
  have "status_of s2 i \<noteq> None" using st status_of_core [OF accrue_core [OF s1]] status_of_core [OF reset_core [OF s2]] by simp
  then show ?thesis unfolding s3 by (intro status_update) (simp_all add: result_rows_status)
qed

lemma failed_status:
  assumes b: "failed_result at i r p s = Inr s'" and st: "status_of s i \<noteq> None"
  shows "status_of s' i = Some (automaton Sg_failure (p_status p, p_failures p))"
proof -
  let ?f = "failed_row at (checker_settings s) r p"
  obtain s1 where s1: "(if 3 \<le> p_failures p + 1 \<and> earning_eligible (p_eligibility p) \<and> up p then accrue_proxy_time i at s else Inr s) = Inr s1"
    and s3: "(if 3 \<le> p_failures p + 1 then reset_probation i at (update_proxy i ?f s1) else Inr (update_proxy i ?f s1)) = Inr s'"
    using b unfolding failed_result_def Let_def bindR_Inr_iff by blast
  have "status_of s1 i \<noteq> None" using st status_of_core [OF accrue_core [OF s1]] by simp
  then have "status_of (update_proxy i ?f s1) i = Some (automaton Sg_failure (p_status p, p_failures p))"
    by (intro status_update result_rows_status(10)) (simp_all add: result_rows_status)
  then show ?thesis using status_of_core [OF reset_core [OF s3]] by simp
qed

lemma soft_core:
  "same_core s (update_proxy i (retry_row t cfg r p) s)" "same_core s (update_proxy i (confirm_row t r p) s)"
  by (rule same_view_update [OF proxies_update_proxy], simp add: result_rows_status)+

lemma apply_health_signal:
  assumes run: "apply_health_result_locked wall at i r s = Inr s'" and p: "find_proxy s i = Some p"
  shows "case signal_for r p of Sg_ignored \<Rightarrow> s' = s | Sg_live \<Rightarrow> live_result wall at i r p s = Inr s'
     | Sg_soft \<Rightarrow> s' = update_proxy i (retry_row at (checker_settings s) r p) s \<or> s' = update_proxy i (confirm_row at r p) s
     | Sg_blocked \<Rightarrow> blocked_result at i r p s = Inr s' | Sg_failure \<Rightarrow> failed_result at i r p s = Inr s'"
  using run unfolding apply_health_result_locked_def p option.case Let_def signal_for_def signal_of_result_def
  by (elim if_elim) (simp_all only: simp_thms if_True if_False signal.case sum.inject not_not)

lemma health_status_step:
  assumes run: "apply_health_result_locked wall at i r s = Inr s'" and p: "find_proxy s i = Some p"
  shows "status_of s' i = Some (automaton (signal_for r p) (p_status p, p_failures p))"
proof -
  have st: "status_of s i = Some (p_status p, p_failures p)" by (simp add: status_of_def p)
  then have ne: "status_of s i \<noteq> None" by simp
  note sig = apply_health_signal [OF run p]
  show ?thesis
    by (cases "signal_for r p")
      (use sig st live_status [OF _ ne] blocked_status [OF _ ne] failed_status [OF _ ne] status_of_core [OF soft_core(1)]
        status_of_core [OF soft_core(2)] in auto)
qed

text \<open>C4. Health results drive a small automaton, which the handler refines: whatever the branch does to
  the ledger, the probation and the egress groups, the status and the failure count of the row become
  what the automaton makes of the signal; stale results and results for archived rows are ignored.\<close>

lemma health_result_refines_automaton:
  assumes "apply_health_result_locked wall at i r s = Inr s'" and "find_proxy s i = Some p"
  shows "status_of s' i = Some (automaton (signal_for r p) (p_status p, p_failures p))"
  by (rule health_status_step [OF assms])

subsection \<open>Three failures\<close>

text \<open>A sequence of results for one proxy, each with the time at which it is applied.\<close>

definition apply_results :: "time \<Rightarrow> int \<Rightarrow> store \<Rightarrow> (time \<times> health_result) list \<Rightarrow> store result" where
  "apply_results wall i = foldR (\<lambda>s (at, r). apply_health_result_locked wall at i r s)"

definition failures :: "(time \<times> health_result) list \<Rightarrow> nat" where
  "failures rs = length (filter (\<lambda>(at, r). signal_of_result r = Sg_failure) rs)"

lemma automaton_bound:
  assumes "st = Px_offline \<longrightarrow> 3 \<le> n" and "automaton g (st, n) = (st', n')" and "0 \<le> n"
  shows "(st' = Px_offline \<longrightarrow> 3 \<le> n') \<and> n' \<le> n + (if g = Sg_failure then 1 else 0) \<and> 0 \<le> n'"
  using assms by (cases g) (auto split: if_splits)

lemma results_bound:
  assumes "apply_results wall i s rs = Inr s'" and "status_of s i = Some (st, n)" and "st = Px_offline \<longrightarrow> 3 \<le> n" and "0 \<le> n"
  shows "\<exists>st' n'. status_of s' i = Some (st', n') \<and> (st' = Px_offline \<longrightarrow> 3 \<le> n') \<and> n' \<le> n + int (failures rs)"
  using assms
proof (induction rs arbitrary: s st n)
  case Nil
  then show ?case by (simp add: apply_results_def failures_def)
next
  case (Cons x rs)
  obtain at r where x: "x = (at, r)" by (cases x)
  obtain s1 where s1: "apply_health_result_locked wall at i r s = Inr s1" "apply_results wall i s1 rs = Inr s'"
    using Cons.prems(1) by (auto simp: apply_results_def x bindR_Inr_iff)
  obtain p where p: "find_proxy s i = Some p" "p_status p = st" "p_failures p = n"
    using Cons.prems(2) by (auto simp: status_of_def)
  obtain st1 n1 where a: "automaton (signal_for r p) (st, n) = (st1, n1)" by fastforce
  note b = automaton_bound [OF Cons.prems(3) a Cons.prems(4)]
  have "status_of s1 i = Some (st1, n1)"
    using health_status_step [OF s1(1) p(1)] a p(2,3) by simp
  then obtain st' n' where *: "status_of s' i = Some (st', n')" "st' = Px_offline \<longrightarrow> 3 \<le> n'" "n' \<le> n1 + int (failures rs)"
    using Cons.IH [OF s1(2)] b by blast
  have "signal_for r p = Sg_failure \<longrightarrow> signal_of_result r = Sg_failure" by (auto simp: signal_for_def)
  then have "n1 + int (failures rs) \<le> n + int (failures (x # rs))" using b by (auto simp: failures_def x split: if_splits)
  then have "n' \<le> n + int (failures (x # rs))" using *(3) by linarith
  then show ?case using *(1,2) by blast
qed

text \<open>A proxy goes offline only after three failures: when a proxy without failures that is not
  offline is offline after a sequence of results, at least three of them were failures.\<close>

lemma offline_needs_three_failures:
  assumes "apply_results wall i s rs = Inr s'" and "find_proxy s i = Some p" "p_status p \<noteq> Px_offline" "p_failures p = 0"
    and "find_proxy s' i = Some p'" "p_status p' = Px_offline"
  shows "3 \<le> failures rs"
proof -
  have "status_of s i = Some (p_status p, 0)" using assms(2,4) by (simp add: status_of_def)
  then show ?thesis using results_bound [OF assms(1), of "p_status p" 0] assms(3,5,6) by (auto simp: status_of_def)
qed

subsection \<open>Interruptions\<close>

text \<open>The results after which a proxy starts a new probation.\<close>

definition interrupts :: "time \<Rightarrow> store \<Rightarrow> health_result \<Rightarrow> proxy_row \<Rightarrow> bool" where
  "interrupts at s r p = (case signal_for r p of
     Sg_live \<Rightarrow> broken_continuity at (health_stale_minutes (checker_settings s)) r p
   | Sg_blocked \<Rightarrow> True | Sg_failure \<Rightarrow> 3 \<le> p_failures p + 1 | _ \<Rightarrow> False)"

definition none_pending :: "int \<Rightarrow> store \<Rightarrow> bool" where
  "none_pending i s \<longleftrightarrow> (\<forall>l \<in> set (rows (ledger s)). l_proxy l = i \<longrightarrow> l_bucket l \<noteq> Bk_pending)"

definition cycle_view :: "proxy_row \<Rightarrow> int \<times> time option \<times> time option" where
  "cycle_view p = (p_id p, p_probation p, p_cursor p)"

definition restarted :: "int \<Rightarrow> time \<Rightarrow> store \<Rightarrow> bool" where
  "restarted i at s \<longleftrightarrow> none_pending i s \<and> map_option cycle_view (find_proxy s i) = Some (i, Some at, Some at)"

lemma expire_pending_none:
  assumes "expire_pending_cycle k s = Inr s'" and "none_pending i s \<or> k = i"
  shows "none_pending i s'"
  unfolding none_pending_def
proof (intro ballI impI)
  fix l assume l: "l \<in> set (rows (ledger s'))" "l_proxy l = i"
  let ?P = "\<lambda>l. l_proxy l = k \<and> l_bucket l = Bk_pending"
  have "rows (ledger s') = map (\<lambda>l. if ?P l then l\<lparr>l_bucket := Bk_expired\<rparr> else l) (rows (ledger s))"
    using rebucket_ledger [OF assms(1) [unfolded expire_pending_cycle_def]] by simp
  then obtain k0 where "k0 \<in> set (rows (ledger s))" "l = (if ?P k0 then k0\<lparr>l_bucket := Bk_expired\<rparr> else k0)" using l(1) by auto
  then show "l_bucket l \<noteq> Bk_pending" using assms(2) l(2) by (cases "?P k0") (auto simp: none_pending_def)
qed

lemma canonicalize_none_pending:
  assumes "canonicalize_exit_group wall ip pr excl s = Inr s'" and "none_pending i s"
  shows "none_pending i s'"
proof (cases "exit_group s ip excl = []")
  case True
  then show ?thesis using assms by (simp add: canonicalize_exit_group_def)
next
  case False
  let ?c = "p_id (canonical_row wall pr (exit_group s ip excl))"
  obtain s1 where s1: "foldR (\<lambda>t p. expire_pending_cycle (p_id p) t) s (filter (\<lambda>p. p_id p \<noteq> ?c) (exit_group s ip excl)) = Inr s1"
    and s': "ledger s' = ledger s1"
    using assms(1) False by (auto simp: canonicalize_exit_group_def Let_def bindR_Inr_iff)
  have "none_pending i s1"
    by (rule foldR_invariant [OF s1, where I = "none_pending i"]) (use assms(2) expire_pending_none in blast)+
  then show ?thesis by (simp add: none_pending_def s')
qed

lemma reconcile_none_pending:
  assumes "reconcile_exit_ip wall k ip src s = Inr s'" and "none_pending i s"
  shows "none_pending i s'"
  using assms(1)
proof (cases rule: reconcile_exit_cases)
  case same
  then show ?thesis using assms(2) by simp
next
  case (moved a x s1 s2 s3)
  have "none_pending i s1" using assms(2) by (simp add: none_pending_def moved(3))
  then have "none_pending i s2" by (rule canonicalize_none_pending [OF moved(4)])
  then have "none_pending i s3" using moved(5) canonicalize_none_pending by (auto split: if_splits)
  then show ?thesis by (simp add: none_pending_def moved(6))
qed

lemma reconcile_restarted:
  assumes "(if b then reconcile_exit_ip wall i ip src s else Inr s) = Inr s'" and "restarted i at s"
  shows "restarted i at s'"
proof (cases b)
  case True
  then have run: "reconcile_exit_ip wall i ip src s = Inr s'" using assms(1) by simp
  have "same_view cycle_view s s'" by (rule reconcile_view [OF run]) (simp_all add: cycle_view_def attest_row_def)
  then have "map_option cycle_view (find_proxy s' i) = map_option cycle_view (find_proxy s i)"
    by (rule same_view_find [where k = fst]) (simp add: cycle_view_def)
  then show ?thesis using reconcile_none_pending [OF run] assms(2) by (simp add: restarted_def)
next
  case False
  then show ?thesis using assms by simp
qed

lemma reset_none_pending:
  assumes "reset_probation k at s = Inr s'" and "none_pending i s"
  shows "none_pending i s'"
proof -
  obtain s1 where s1: "expire_pending_cycle k s = Inr s1"
    and s': "ledger s' = ledger s1"
    using assms(1) by (auto simp: reset_probation_def bindR_Inr_iff)
  show ?thesis using expire_pending_none [OF s1, of i] assms(2) by (simp add: none_pending_def s')
qed

lemma reset_restarted:
  assumes "reset_probation i at s = Inr s'" and "status_of s i \<noteq> None"
  shows "restarted i at s'"
proof -
  obtain s1 where s1: "expire_pending_cycle i s = Inr s1"
    and s': "s' = update_proxy i (\<lambda>p. p\<lparr>p_probation := Some at, p_cursor := Some at\<rparr>) s1"
    using assms(1) by (auto simp: reset_probation_def bindR_Inr_iff)
  have "find_proxy s1 i = find_proxy s i" using s1 by (simp add: expire_pending_cycle_def rebucket_frame find_proxy_def)
  then obtain p where p: "find_proxy s1 i = Some p" using assms(2) by (auto simp: status_of_def)
  have "p_id p = i" using select_one_SomeD [OF p [unfolded find_proxy_def]] by simp
  then show ?thesis
    using expire_pending_none [OF s1, of i] p unfolding s' restarted_def
    by (simp add: find_update cycle_view_def none_pending_def)
qed

lemma update_restarted:
  assumes "restarted i at s" and "\<And>p. p_id (f p) = p_id p"
    and "\<And>p. (p_probation (f p), p_cursor (f p)) = (p_probation p, p_cursor p) \<or> (p_probation (f p), p_cursor (f p)) = (Some at, Some at)"
  shows "restarted i at (update_proxy i f s)"
proof -
  obtain p where p: "find_proxy s i = Some p" "cycle_view p = (i, Some at, Some at)" using assms(1) by (auto simp: restarted_def)
  have "cycle_view (f p) = (i, Some at, Some at)" using p(2) assms(2) [of p] assms(3) [of p] by (auto simp: cycle_view_def)
  then show ?thesis using assms(1) p(1) by (simp add: restarted_def find_update [OF assms(2)] none_pending_def)
qed

lemma live_row_probation:
  "broken_continuity at (health_stale_minutes cfg) r prev \<Longrightarrow>
     p_id (live_row at cfg r prev p) = p_id p \<and> (p_probation (live_row at cfg r prev p), p_cursor (live_row at cfg r prev p)) = (Some at, Some at)"
  by (auto simp: live_row_def Let_def probed_def broken_continuity_def)

lemma blocked_row_probation:
  "p_id (blocked_row at cfg r prev p) = p_id p" "p_probation (blocked_row at cfg r prev p) = p_probation p"
  "p_cursor (blocked_row at cfg r prev p) = p_cursor p"
  by (simp_all add: blocked_row_def)

text \<open>C5. An interruption starts a new probation and forfeits what was not yet unlocked: after a live
  result with a changed or mismatching egress address or after a stale interval, a blocked result or
  the failure that takes the proxy offline, no ledger row of the proxy is pending any more, and its
  probation and its accrual cursor start at the time of the result.\<close>

lemma interruption_forfeits_pending:
  assumes run: "apply_health_result_locked wall at i r s = Inr s'" and p: "find_proxy s i = Some p"
    and i: "interrupts at s r p"
  shows "restarted i at s'"
proof -
  have st: "status_of s i \<noteq> None" by (simp add: status_of_def p)
  note sig = apply_health_signal [OF run p]
  consider (live) "live_result wall at i r p s = Inr s'" "broken_continuity at (health_stale_minutes (checker_settings s)) r p"
    | (blocked) "blocked_result at i r p s = Inr s'" | (failed) "failed_result at i r p s = Inr s'" "3 \<le> p_failures p + 1"
    using sig i by (cases "signal_for r p") (auto simp: interrupts_def)
  then show ?thesis
  proof cases
    case live
    let ?f = "live_row at (checker_settings s) r p"
    obtain s1 s2 where s1: "(if earning_eligible (p_eligibility p) then accrue_proxy_time i at s else Inr s) = Inr s1"
      and s2: "reset_probation i at s1 = Inr s2"
      and s3: "(if trusted_ip r \<noteq> '''' then reconcile_exit_ip wall i (trusted_ip r) At_https_quorum (update_proxy i ?f s2)
          else Inr (update_proxy i ?f s2)) = Inr s'"
      using live(1) unfolding live_result_def Let_def bindR_Inr_iff by (simp add: live(2)) blast
    have "restarted i at s2" by (rule reset_restarted [OF s2]) (use st status_of_core [OF accrue_core [OF s1]] in simp)
    then have "restarted i at (update_proxy i ?f s2)" by (rule update_restarted) (use live_row_probation [OF live(2)] in auto)
    then show ?thesis by (rule reconcile_restarted [OF s3])
  next
    case blocked
    then obtain s1 s2 where s1: "(if earning_eligible (p_eligibility p) then accrue_proxy_time i at s else Inr s) = Inr s1"
      and s2: "reset_probation i at s1 = Inr s2" and s3: "s' = update_proxy i (blocked_row at (checker_settings s) r p) s2"
      by (auto simp: blocked_result_def bindR_Inr_iff)
    have "restarted i at s2" by (rule reset_restarted [OF s2]) (use st status_of_core [OF accrue_core [OF s1]] in simp)
    then show ?thesis unfolding s3 by (rule update_restarted) (simp_all add: blocked_row_probation)
  next
    case failed
    then obtain s1 where s1: "(if earning_eligible (p_eligibility p) \<and> up p then accrue_proxy_time i at s else Inr s) = Inr s1"
      and s2: "reset_probation i at (update_proxy i (failed_row at (checker_settings s) r p) s1) = Inr s'"
      by (auto simp: failed_result_def Let_def bindR_Inr_iff)
    have "status_of (update_proxy i (failed_row at (checker_settings s) r p) s1) i \<noteq> None"
      using status_update [of "failed_row at (checker_settings s) r p" _ s1 i, OF _ result_rows_status(10)] st
        status_of_core [OF accrue_core [OF s1]] by (simp add: result_rows_status(9))
    then show ?thesis by (rule reset_restarted [OF s2])
  qed
qed

subsection \<open>Stale and untrusted results\<close>

lemma accrue_links: "(if b then accrue_proxy_time i t s else Inr s) = Inr s' \<Longrightarrow> same_links s s'"
  by (cases b) (auto simp: accrue_proxy_time_def intro: cursors_only_links accrue_locked_cursors_only)

lemma reset_links: "(if b then reset_probation i t s else Inr s) = Inr s' \<Longrightarrow> same_links s s'"
  by (cases b) (auto intro: reset_same_links)

lemma update_links: "(\<And>p. link_view (f p) = link_view p) \<Longrightarrow> same_links s (update_proxy i f s)"
  by (rule same_links_update [OF proxies_update_proxy])

lemmas link_steps = accrue_links reset_links

lemma untrusted_same_links:
  assumes run: "apply_health_result_locked wall at i r s = Inr s'" and t: "trusted_ip r = ''''"
  shows "same_links s s'"
proof (cases "find_proxy s i")
  case None
  then show ?thesis using run by (simp add: apply_health_result_locked_def)
next
  case (Some p)
  have live: "same_links s s'" if l: "live_result wall at i r p s = Inr s'"
  proof -
    let ?f = "live_row at (checker_settings s) r p" and ?b = "broken_continuity at (health_stale_minutes (checker_settings s)) r p"
    obtain s1 s2 where s1: "(if ?b \<and> earning_eligible (p_eligibility p) then accrue_proxy_time i at s else Inr s) = Inr s1"
      and s2: "(if ?b then reset_probation i at s1 else Inr s1) = Inr s2" and s3: "s' = update_proxy i ?f s2"
      using l t unfolding live_result_def Let_def bindR_Inr_iff by auto
    show ?thesis unfolding s3 using same_links_trans [OF same_links_trans [OF accrue_links [OF s1] reset_links [OF s2]] update_links] by simp
  qed
  have blocked: "same_links s s'" if b: "blocked_result at i r p s = Inr s'"
  proof -
    obtain s1 s2 where s1: "(if earning_eligible (p_eligibility p) then accrue_proxy_time i at s else Inr s) = Inr s1"
      and s2: "(if True then reset_probation i at s1 else Inr s1) = Inr s2" and s3: "s' = update_proxy i (blocked_row at (checker_settings s) r p) s2"
      using b by (auto simp: blocked_result_def bindR_Inr_iff)
    show ?thesis unfolding s3 using same_links_trans [OF same_links_trans [OF accrue_links [OF s1] reset_links [OF s2]] update_links] by simp
  qed
  have failed: "same_links s s'" if b: "failed_result at i r p s = Inr s'"
  proof -
    let ?f = "failed_row at (checker_settings s) r p"
    obtain s1 where s1: "(if 3 \<le> p_failures p + 1 \<and> earning_eligible (p_eligibility p) \<and> up p then accrue_proxy_time i at s else Inr s) = Inr s1"
      and s2: "(if 3 \<le> p_failures p + 1 then reset_probation i at (update_proxy i ?f s1) else Inr (update_proxy i ?f s1)) = Inr s'"
      using b unfolding failed_result_def Let_def bindR_Inr_iff by blast
    show ?thesis using same_links_trans [OF same_links_trans [OF accrue_links [OF s1] update_links] reset_links [OF s2]] by simp
  qed
  show ?thesis
    by (cases "signal_for r p") (use apply_health_signal [OF run Some] live blocked failed update_links [of "retry_row at (checker_settings s) r p"]
        update_links [of "confirm_row at r p"] in auto)
qed

text \<open>Only attested evidence moves an egress identity: a health result without a trusted exit
  address, of whatever status, leaves the exit address, the attestation, the distributor, the
  archive mark and the fingerprint of every row as they are.\<close>

lemma untrusted_result_keeps_identity:
  assumes run: "apply_health_result_locked wall at i r s = Inr s'" and t: "trusted_ip r = ''''"
  shows "map link_view (rows (proxies s')) = map link_view (rows (proxies s))"
  using untrusted_same_links [OF run t] by (simp add: same_links_def)

lemma replaced_row:
  assumes run: "replace_proxy unquote sha256 wall current i uid txt s = Inr s1" and p: "find_proxy s i = Some p"
    and wf: "proxy_ids_ok s"
  shows "\<exists>p'. find_proxy s1 i = Some p' \<and> p_generation p' = p_generation p + 1"
proof -
  obtain q where q: "parse_proxy unquote txt = Inr q"
    using run by (cases "parse_proxy unquote txt") (simp_all add: replace_proxy_def)
  obtain e where e: "owned_active s i uid = Some e"
    using run q by (cases "owned_active s i uid") (simp_all add: replace_proxy_def)
  let ?f = "replace_row current q (credential_fingerprint sha256 q)"
  let ?P = "\<lambda>p. p_id p = i \<and> p_user p = uid \<and> p_archived p = None"
  obtain s2 s3 where c: "(if or_empty (p_exit_ip e) \<noteq> '''' then canonicalize_exit_group wall (or_empty (p_exit_ip e)) False (Some i) s
             else Inr s) = Inr s2"
    and x: "expire_pending_cycle i s2 = Inr s3" and s1: "proxies s1 = update_where ?P ?f (proxies s3)"
    using run q e by (auto simp: replace_proxy_def Let_def bindR_Inr_iff split: if_split_asm)
  have "same_core s s2" using c by (cases "or_empty (p_exit_ip e) = ''''") (auto intro: canonicalize_view simp: core_view_def)
  moreover have "proxies s3 = proxies s2" using x by (simp add: expire_pending_cycle_def rebucket_frame)
  ultimately have "map_option core_view (find_proxy s3 i) = map_option core_view (find_proxy s i)"
    by (intro same_view_find [where k = fst]) (simp_all add: same_view_def core_view_def)
  then obtain p3 where p3: "find_proxy s3 i = Some p3" "core_view p3 = core_view p" using p by (auto simp: map_option_eq_Some)
  have e1: "e \<in> set (rows (proxies s))" "p_id e = i" "p_user e = uid" "p_archived e = None"
    using select_one_SomeD [OF e [unfolded owned_active_def]] by simp_all
  have "find_proxy s i = Some e" using find_proxy_row [OF wf e1(1)] e1(2) by simp
  then have "?P p3" using p p3(2) e1 by (simp add: core_view_def)
  moreover have "List.find (\<lambda>p. p_id p = i) (map (\<lambda>p. if ?P p then ?f p else p) ps)
      = map_option (\<lambda>p. if ?P p then ?f p else p) (List.find (\<lambda>p. p_id p = i) ps)" for ps
    by (induction ps) (auto simp: replace_row_def)
  ultimately have "find_proxy s1 i = Some (?f p3)" using p3(1) by (simp add: find_proxy_def select_one_def s1)
  then show ?thesis using p3(2) by (simp add: replace_row_def core_view_def)
qed

text \<open>C6. A result of an old credential is worthless: once the owner has replaced the credential of a
  proxy, health and EarnApp results that carry the generation read before change nothing.\<close>

lemma replaced_credential_ignores_results:
  assumes "replace_proxy unquote sha256 wall current i uid txt s = Inr s1" and "find_proxy s i = Some p" "1 \<le> p_generation p"
    and "proxy_ids_ok s" and "hr_generation r = Some (p_generation p)" "er_generation er = Some (p_generation p)"
  shows "apply_health_result_locked w at i r s1 = Inr s1 \<and> apply_earnapp_result_locked w at i er s1 = Inr s1"
proof -
  obtain p' where "find_proxy s1 i = Some p'" "p_generation p' = p_generation p + 1"
    using replaced_row [OF assms(1,2,4)] by blast
  then show ?thesis
    using assms(3,5,6) by (simp add: apply_health_result_locked_def apply_earnapp_result_locked_def fresh_result_def generation_of_def)
qed

subsection \<open>Dead proxies and promotions\<close>

definition dead_view :: "proxy_row \<Rightarrow> int \<times> time option \<times> px_status \<times> time option" where
  "dead_view p = (p_id p, p_archived p, p_status p, p_dead_since p)"

lemma promote_dead_view:
  assumes "promote_duplicate_if_due current cid s = Inr (s', w)"
  shows "same_view dead_view s s'"
  using assms
proof (cases rule: promote_cases)
  case (promoted c k s1)
  let ?s2 = "s1\<lparr>proxies :=
         update_where (\<lambda>p. p_duplicate_of p = Some cid \<and> p_id p \<noteq> p_id k) (\<lambda>p. p\<lparr>p_duplicate_of := Some (p_id k)\<rparr>)
         (update_where (\<lambda>p. p_id p = p_id k) (\<lambda>p. p\<lparr>p_duplicate_of := None\<rparr>)
         (update_where (\<lambda>p. p_id p = cid) (\<lambda>p. p\<lparr>p_duplicate_of := Some (p_id k)\<rparr>) (proxies s1)))\<rparr>"
  have "same_view dead_view s s1" using promoted(9) by (simp add: expire_pending_cycle_def rebucket_frame same_view_def)
  moreover have "same_view dead_view s1 ?s2"
    by (simp add: same_view_def map_if_key comp_def dead_view_def)
  moreover have "proxies s' = update_where (\<lambda>p. p_id p = p_id k) (\<lambda>p. p\<lparr>p_probation := Some current, p_cursor := Some current\<rparr>) (proxies ?s2)"
    using promoted(10) by (auto simp: reset_probation_def expire_pending_cycle_def bindR_Inr_iff rebucket_frame)
  then have "same_view dead_view ?s2 s'" by (rule same_view_update) (simp add: dead_view_def)
  ultimately show ?thesis using same_view_trans by blast
qed simp

definition dead_after :: "time \<Rightarrow> proxy_row \<Rightarrow> int \<times> time option \<times> px_status \<times> time option" where
  "dead_after at p = (if dead_since (at - hours 24) p then (p_id p, Some at, Px_archived, p_dead_since p) else dead_view p)"

lemma archive_view:
  assumes "same_view dead_view s s1"
  shows "map dead_view (rows (update_where (dead_since c) (\<lambda>p. p\<lparr>p_status := Px_archived, p_archived := Some at, p_updated := at\<rparr>) (proxies s1)))
     = map (\<lambda>p. if dead_since c p then (p_id p, Some at, Px_archived, p_dead_since p) else dead_view p) (rows (proxies s))"
proof -
  let ?after = "\<lambda>(i, a, st, d). if a = None \<and> st = Px_offline \<and> lapsed d c then (i, Some at, Px_archived, d) else (i, a, st, d)"
  have dead: "?after (dead_view p) = (if dead_since c p then (p_id p, Some at, Px_archived, p_dead_since p) else dead_view p)" for p
    by (simp add: dead_view_def dead_since_def)
  have "map dead_view (rows (update_where (dead_since c) (\<lambda>p. p\<lparr>p_status := Px_archived, p_archived := Some at, p_updated := at\<rparr>) (proxies s1)))
      = map ?after (map dead_view (rows (proxies s1)))"
    by (simp only: rows_update_where map_map comp_def dead) (simp add: dead_view_def)
  also have "map dead_view (rows (proxies s1)) = map dead_view (rows (proxies s))" using assms by (simp add: same_view_def)
  also have "map ?after (map dead_view (rows (proxies s)))
      = map (\<lambda>p. if dead_since c p then (p_id p, Some at, Px_archived, p_dead_since p) else dead_view p) (rows (proxies s))"
    by (simp only: map_map comp_def dead)
  finally show ?thesis .
qed

text \<open>The daily archiving takes exactly the dead: it archives the active offline proxies that have
  been dead for at least 24 hours, with the time of the run, and touches the archive mark and the
  status of no other proxy; promotions before it change neither.\<close>

lemma archiving_takes_exactly_the_dead:
  assumes "archive_due_dead_proxies wall at s = Inr (s', n)"
  shows "map dead_view (rows (proxies s')) = map (dead_after at) (rows (proxies s))"
proof -
  obtain s1 where s1: "foldR (\<lambda>t p. bindR (promote_duplicate_if_due at (p_id p) t) (\<lambda>(t', w). Inr t')) s
      (select_where (dead_since (at - hours 24)) (proxies s)) = Inr s1"
    and s': "proxies s' = update_where (dead_since (at - hours 24)) (\<lambda>p. p\<lparr>p_status := Px_archived, p_archived := Some at, p_updated := at\<rparr>) (proxies s1)"
    using assms by (auto simp: archive_due_dead_proxies_def Let_def bindR_Inr_iff)
  have "same_view dead_view s s1"
    using s1 by (rule foldR_relation) (auto simp: bindR_Inr_iff intro: same_view_trans promote_dead_view)
  have after: "dead_after at = (\<lambda>p. if dead_since (at - hours 24) p then (p_id p, Some at, Px_archived, p_dead_since p) else dead_view p)"
    by (rule ext) (simp add: dead_after_def)
  show ?thesis unfolding s' after by (rule archive_view [OF \<open>same_view dead_view s s1\<close>])
qed

text \<open>A promotion hands over the whole group: it happens only when the distributor is archived or has
  been offline for 24 hours; afterwards the promoted proxy, an online duplicate, is no duplicate, no
  row points to the old distributor, the old distributor has nothing pending and the promoted proxy
  starts a new probation.\<close>

lemma promotion_hands_over:
  assumes run: "promote_duplicate_if_due current cid s = Inr (s', Some i)" and wf: "proxy_ids_ok s"
  shows "(\<exists>c. find_proxy s cid = Some c \<and> (p_status c = Px_archived \<or>
            p_status c = Px_offline \<and> (\<exists>t. p_offline_since c = Some t \<and> hours 24 \<le> current - t)))
     \<and> (\<exists>k. find_proxy s i = Some k \<and> p_status k = Px_online \<and> p_archived k = None \<and> p_duplicate_of k = Some cid)
     \<and> (\<forall>p \<in> set (rows (proxies s')). p_duplicate_of p \<noteq> Some cid \<and> (p_id p = i \<longrightarrow> p_duplicate_of p = None))
     \<and> none_pending cid s' \<and> restarted i current s'"
  using run
proof (cases rule: promote_cases)
  case (promoted c k s1)
  let ?s2 = "s1\<lparr>proxies :=
         update_where (\<lambda>p. p_duplicate_of p = Some cid \<and> p_id p \<noteq> p_id k) (\<lambda>p. p\<lparr>p_duplicate_of := Some (p_id k)\<rparr>)
         (update_where (\<lambda>p. p_id p = p_id k) (\<lambda>p. p\<lparr>p_duplicate_of := None\<rparr>)
         (update_where (\<lambda>p. p_id p = cid) (\<lambda>p. p\<lparr>p_duplicate_of := Some (p_id k)\<rparr>) (proxies s1)))\<rparr>"
  have i: "i = p_id k" using promoted(8) by simp
  have k: "find_proxy s i = Some k" unfolding i by (rule find_proxy_row [OF wf promoted(4)])
  have ne: "i \<noteq> cid" using k promoted(1,2,6) by auto
  have s1: "proxies s1 = proxies s" using promoted(9) by (simp add: expire_pending_cycle_def rebucket_frame)
  have rows2: "rows (proxies ?s2) = map (hand_over cid i) (rows (proxies s))"
    using hand_over_row [OF ne [unfolded i]] unfolding i by (simp add: s1 comp_def Let_def)
  have p': "proxies s' = update_where (\<lambda>p. p_id p = i) (\<lambda>p. p\<lparr>p_probation := Some current, p_cursor := Some current\<rparr>) (proxies ?s2)"
    using promoted(10) i by (auto simp: reset_probation_def expire_pending_cycle_def bindR_Inr_iff rebucket_frame)
  have "p_duplicate_of (hand_over cid i p) \<noteq> Some cid \<and> (p_id p = i \<longrightarrow> p_duplicate_of (hand_over cid i p) = None)" for p
    using ne by (auto simp: hand_over_def)
  then have "\<forall>p \<in> set (rows (proxies s')). p_duplicate_of p \<noteq> Some cid \<and> (p_id p = i \<longrightarrow> p_duplicate_of p = None)"
    unfolding p' rows_update_where rows2 by (auto split: if_splits)
  moreover have "none_pending cid s1" by (rule expire_pending_none [OF promoted(9)]) simp
  then have "none_pending cid ?s2" by (simp add: none_pending_def)
  then have "none_pending cid s'"
    using reset_none_pending [OF promoted(10)] by blast
  moreover have "status_of ?s2 i \<noteq> None"
  proof -
    have "hand_over cid i k \<in> set (rows (proxies ?s2))" unfolding rows2 using promoted(4) by simp
    then have "find_proxy ?s2 i \<noteq> None" unfolding find_proxy_def select_one_None_iff i using hand_over_simps(1) by blast
    then show ?thesis by (simp add: status_of_def)
  qed
  then have "restarted i current s'" using reset_restarted [of i current ?s2 s'] promoted(10) i by simp
  ultimately show ?thesis using promoted(1-3,5,6,7) k by (auto simp: active_def)
qed simp

subsection \<open>Witnesses\<close>

definition sample_health :: "string \<Rightarrow> string option \<Rightarrow> health_result" where
  "sample_health st ip = \<lparr>hr_status = Some st, hr_generation = Some 1, hr_claim = None, hr_failure = None,
     hr_endpoint = None, hr_index = Index_absent, hr_latency = Some 40, hr_untrusted = False,
     hr_exit_ip = ip, hr_protocol = None, hr_error = None\<rparr>"

definition sample_bare :: proxy_row where
  "sample_bare = (sample_proxy 1 1 (hours 2))\<lparr>p_exit_ip := None, p_attestation := At_none\<rparr>"

definition sample_fleet :: store where
  "sample_fleet = sample_store [sample_user 1] [sample_bare]"

definition result_store :: "store result \<Rightarrow> store" where
  "result_store r = (case r of Inr s \<Rightarrow> s | Inl _ \<Rightarrow> empty_store)"

definition is_ok :: "'a result \<Rightarrow> bool" where
  "is_ok r = (case r of Inr _ \<Rightarrow> True | Inl _ \<Rightarrow> False)"

lemma is_okD: "is_ok r \<Longrightarrow> r = Inr (result_store r)"
  by (simp add: is_ok_def result_store_def split: sum.splits)

definition sample_late :: "store result" where
  "sample_late = apply_health_result_locked 0 (hours 9) 1 (sample_health ''live'' None) sample_fleet"

definition sample_failing :: "store result" where
  "sample_failing = apply_results 0 1 sample_fleet
     [(hours 2, sample_health ''dead'' None), (hours 2, sample_health ''live'' None), (hours 2, sample_health ''dead'' None),
      (hours 2, sample_health ''dead'' None), (hours 2, sample_health ''dead'' None)]"

lemma sample_late_ok: "is_ok sample_late"
  by code_simp

lemma sample_failing_ok: "is_ok sample_failing" "map_option p_status (find_proxy (result_store sample_failing) 1) = Some Px_offline"
  by code_simp+

lemma sample_fleet_find: "find_proxy sample_fleet 1 = Some (sample_bare)"
  by code_simp

lemma sample_fleet_ids: "proxy_ids_ok sample_fleet"
  by (simp add: proxy_ids_ok_def wf_table_def sample_fleet_def sample_bare_def sample_defs)

lemma health_result_refines_automaton_witness:
  "status_of (result_store sample_late) 1 = Some (Px_online, 0)"
proof -
  have "signal_for (sample_health ''live'' None) (sample_bare) = Sg_live" by code_simp
  then show ?thesis
    using health_result_refines_automaton [OF is_okD [OF sample_late_ok, unfolded sample_late_def] sample_fleet_find]
    by (simp add: sample_late_def)
qed

lemma offline_needs_three_failures_witness:
  "3 \<le> failures [(hours 2, sample_health ''dead'' None), (hours 2, sample_health ''live'' None), (hours 2, sample_health ''dead'' None),
      (hours 2, sample_health ''dead'' None), (hours 2, sample_health ''dead'' None)]"
proof -
  obtain p' where p': "find_proxy (result_store sample_failing) 1 = Some p'" "p_status p' = Px_offline"
    using sample_failing_ok(2) by auto
  show ?thesis
    by (rule offline_needs_three_failures [OF is_okD [OF sample_failing_ok(1), unfolded sample_failing_def] sample_fleet_find _ _ p' [unfolded sample_failing_def]])
      (simp_all add: sample_bare_def sample_proxy_def)
qed

lemma interruption_forfeits_pending_witness: "restarted 1 (hours 9) (result_store sample_late)"
proof -
  have "interrupts (hours 9) sample_fleet (sample_health ''live'' None) (sample_bare)" by code_simp
  then show ?thesis
    using interruption_forfeits_pending [OF is_okD [OF sample_late_ok, unfolded sample_late_def] sample_fleet_find]
    by (simp add: sample_late_def)
qed

lemma untrusted_result_keeps_identity_witness:
  "\<exists>s'. apply_health_result_locked 0 (hours 2) 1 ((sample_health ''live'' None)\<lparr>hr_untrusted := True\<rparr>) sample_fleet = Inr s'
     \<and> map link_view (rows (proxies s')) = map link_view (rows (proxies sample_fleet))"
proof -
  let ?r = "(sample_health ''live'' None)\<lparr>hr_untrusted := True\<rparr>"
  have "is_ok (apply_health_result_locked 0 (hours 2) 1 ?r sample_fleet)" by code_simp
  note run = is_okD [OF this]
  show ?thesis using untrusted_result_keeps_identity [OF run] run by (auto simp: trusted_ip_def)
qed

lemma health_claims_exclusive_witness:
  "p_id ` set (snd (claim_due_proxies (hours 2) ''a'' None None sample_fleet)) \<inter>
     p_id ` set (snd (claim_due_proxies (hours 2) ''b'' (Some 3) (Some 1) (fst (claim_due_proxies (hours 2) ''a'' None None sample_fleet)))) = {}
   \<and> map p_id (snd (claim_due_proxies (hours 2) ''a'' None None sample_fleet)) = [1]"
proof -
  have "map p_id (snd (claim_due_proxies (hours 2) ''a'' None None sample_fleet)) = [1]" by code_simp
  then show ?thesis
    using health_claims_exclusive [OF sample_fleet_ids, of "hours 2" "''a''" None None _ _ "hours 2" "''b''" "Some 3" "Some 1"]
    by (metis prod.collapse less_add_same_cancel1 health.lease_pos)
qed

definition sample_replaced :: "store result" where
  "sample_replaced = replace_proxy plain plain 0 (hours 2) 1 1 ''5.6.7.8:80'' sample_fleet"

lemma sample_replaced_ok: "is_ok sample_replaced"
  by code_simp

lemma replaced_credential_ignores_results_witness:
  "apply_health_result_locked 0 (hours 3) 1 (sample_health ''live'' None) (result_store sample_replaced) = Inr (result_store sample_replaced)"
  using replaced_credential_ignores_results [OF is_okD [OF sample_replaced_ok, unfolded sample_replaced_def] sample_fleet_find _ sample_fleet_ids,
      of "sample_health ''live'' None" "\<lparr>er_verdict = None, er_reason = None, er_generation = Some 1, er_claim = None,
        er_exit_ip = None, er_trusted = None, er_country = None\<rparr>" 0 "hours 3"]
  by (simp add: sample_bare_def sample_proxy_def sample_health_def sample_replaced_def)

text \<open>A dead distributor with an online duplicate.\<close>

definition sample_group :: store where
  "sample_group = sample_store [sample_user 1]
     [(sample_proxy 1 1 0)\<lparr>p_status := Px_offline, p_offline_since := Some 0, p_dead_since := Some 0, p_online_since := None\<rparr>,
      (sample_proxy 2 1 (hours 30))\<lparr>p_duplicate_of := Some 1\<rparr>]"

lemma sample_promote: "(case promote_duplicate_if_due (hours 30) 1 sample_group of Inr (s, w) \<Rightarrow> w = Some 2 | Inl _ \<Rightarrow> False)"
  by code_simp

lemma promotion_hands_over_witness:
  "\<exists>s'. promote_duplicate_if_due (hours 30) 1 sample_group = Inr (s', Some 2) \<and> restarted 2 (hours 30) s'
     \<and> (\<forall>p \<in> set (rows (proxies s')). p_duplicate_of p \<noteq> Some 1)"
proof -
  obtain s' where run: "promote_duplicate_if_due (hours 30) 1 sample_group = Inr (s', Some 2)"
    using sample_promote by (auto split: sum.splits prod.splits)
  have "proxy_ids_ok sample_group" by (simp add: proxy_ids_ok_def wf_table_def sample_group_def sample_defs)
  then show ?thesis using promotion_hands_over [OF run] run by blast
qed

lemma sample_archive: "(case archive_due_dead_proxies 0 (hours 30) sample_group of Inr (s, n) \<Rightarrow> n = 1 | Inl _ \<Rightarrow> False)"
  by code_simp

lemma archiving_takes_exactly_the_dead_witness:
  "\<exists>s'. archive_due_dead_proxies 0 (hours 30) sample_group = Inr (s', 1)
     \<and> map dead_view (rows (proxies s')) = [(1, Some (hours 30), Px_archived, Some 0), (2, None, Px_online, None)]"
proof -
  obtain s' where run: "archive_due_dead_proxies 0 (hours 30) sample_group = Inr (s', 1)"
    using sample_archive by (auto split: sum.splits prod.splits)
  have "map (dead_after (hours 30)) (rows (proxies sample_group)) = [(1, Some (hours 30), Px_archived, Some 0), (2, None, Px_online, None)]"
    by code_simp
  then show ?thesis using archiving_takes_exactly_the_dead [OF run] run by simp
qed

end
