(* ===== verification/Wallets.thy ===== *)
theory Wallets
  imports Samples
begin

text \<open>
  \<open>app/services/wallets.py\<close>: the payout wallet of a user, its 48-hour lock and the uniqueness of
  addresses. The table has \<open>UNIQUE(user_id)\<close> and \<open>address COLLATE NOCASE UNIQUE\<close>.
\<close>

definition is_address :: "string \<Rightarrow> bool" where
  "is_address s \<longleftrightarrow> length s = 42 \<and> take 2 s = ''0x'' \<and> list_all is_hex (drop 2 s)"

definition open_account :: "user_row \<Rightarrow> bool" where
  "open_account u \<longleftrightarrow> u_status u = User_pending \<or> u_status u = User_active"

text \<open>\<open>wallets w JOIN users u ON u.id = w.user_id\<close> with a condition on the user.\<close>

definition wallet_owner :: "store \<Rightarrow> (user_row \<Rightarrow> bool) \<Rightarrow> wallet_row \<Rightarrow> bool" where
  "wallet_owner s Q w \<longleftrightarrow> exists_where (\<lambda>u. u_id u = w_user w \<and> Q u) (users s)"

text \<open>The upsert of \<open>set_wallet\<close>: \<open>None\<close> is sqlite3's IntegrityError.\<close>

definition upsert_wallet :: "time \<Rightarrow> int \<Rightarrow> string \<Rightarrow> time \<Rightarrow> store \<Rightarrow> store option" where
  "upsert_wallet current uid address locked s =
     (if exists_where (\<lambda>w. lower (w_address w) = lower address \<and> w_user w \<noteq> uid) (wallets s) then None
      else if exists_where (\<lambda>w. w_user w = uid) (wallets s) then
        Some (s\<lparr>wallets := update_where (\<lambda>w. w_user w = uid)
          (\<lambda>w. w\<lparr>w_address := address, w_locked_until := locked, w_updated := current\<rparr>) (wallets s)\<rparr>)
      else if find_user s uid = None then None
      else Some (s\<lparr>wallets := insert_row (\<lambda>i. \<lparr>w_id = i, w_user = uid, w_address = address,
             w_locked_until = locked, w_updated = current\<rparr>) (wallets s)\<rparr>))"

definition set_wallet :: "time \<Rightarrow> int \<Rightarrow> string \<Rightarrow> store \<Rightarrow> (store \<times> string \<times> time) result" where
  "set_wallet current uid address s =
     (let normalized = lower (strip address) in
      if \<not> is_address normalized then Inl (ValueError ''Wallet must be a valid USDT BEP20 address'')
      else if (case select_one (\<lambda>w. w_user w = uid) (wallets s) of
                 None \<Rightarrow> False | Some w \<Rightarrow> current < w_locked_until w)
      then Inl WalletLocked
      else if exists_where (\<lambda>w. lower (w_address w) = normalized \<and> w_user w \<noteq> uid
                 \<and> wallet_owner s open_account w) (wallets s)
      then Inl (WalletInUse ''Wallet is already assigned to another active account'')
      else
        (let stale = map w_id (select_where (\<lambda>w. lower (w_address w) = normalized \<and> w_user w \<noteq> uid
                 \<and> wallet_owner s (\<lambda>u. \<not> open_account u) w
                 \<and> \<not> exists_where (\<lambda>p. po_wallet p = w_id w) (payouts s)) (wallets s));
             s1 = s\<lparr>wallets := delete_where (\<lambda>w. w_id w \<in> set stale) (wallets s)\<rparr>;
             locked = current + hours 48
         in case upsert_wallet current uid normalized locked s1 of
              None \<Rightarrow> Inl (WalletInUse ''Wallet is retained by an inactive account's payout history'')
            | Some s2 \<Rightarrow> Inr (s2, normalized, locked)))"

subsection \<open>Facts\<close>

definition wallets_ok :: "store \<Rightarrow> bool" where
  "wallets_ok s \<longleftrightarrow> wf_table w_id (wallets s)
     \<and> (\<forall>w \<in> set (rows (wallets s)). lower (w_address w) = w_address w \<and> is_address (w_address w))
     \<and> (\<forall>w \<in> set (rows (wallets s)). \<forall>v \<in> set (rows (wallets s)).
          w_id w \<noteq> w_id v \<longrightarrow> w_user w \<noteq> w_user v \<and> w_address w \<noteq> w_address v)"

text \<open>Every payout still has its wallet.\<close>

definition payouts_have_wallets :: "store \<Rightarrow> bool" where
  "payouts_have_wallets s \<longleftrightarrow>
     (\<forall>p \<in> set (rows (payouts s)). \<exists>w \<in> set (rows (wallets s)). w_id w = po_wallet p \<and> w_user w = po_user p)"

lemma upsert_wallet_frame [keeps]:
  assumes "upsert_wallet c u a l s = Some s'"
  shows "ledger s' = ledger s" "users s' = users s" "proxies s' = proxies s" "payouts s' = payouts s"
    "settings s' = settings s" "asgs s' = asgs s" "subs s' = subs s" "jobs s' = jobs s" "mappings s' = mappings s"
  using assms by (auto simp: upsert_wallet_def split: if_splits)

lemma set_walletD:
  assumes "set_wallet current uid address s = Inr (s', a, l)"
  obtains stale where "is_address a" "a = lower (strip address)" "l = current + hours 48"
    "\<forall>w \<in> set stale. w_user w \<noteq> uid \<and> \<not> exists_where (\<lambda>p. po_wallet p = w_id w) (payouts s) \<and> w \<in> set (rows (wallets s))"
    "upsert_wallet current uid a l (s\<lparr>wallets := delete_where (\<lambda>w. w_id w \<in> w_id ` set stale) (wallets s)\<rparr>) = Some s'"
    "\<forall>w \<in> set (rows (wallets s)). w_user w = uid \<longrightarrow> select_one (\<lambda>w. w_user w = uid) (wallets s) = Some w \<longrightarrow> w_locked_until w \<le> current"
proof -
  let ?a = "lower (strip address)"
  let ?stale = "select_where (\<lambda>w. lower (w_address w) = ?a \<and> w_user w \<noteq> uid
    \<and> wallet_owner s (\<lambda>u. \<not> open_account u) w
    \<and> \<not> exists_where (\<lambda>p. po_wallet p = w_id w) (payouts s)) (wallets s)"
  show ?thesis
    by (rule that [of ?stale]) (use assms in \<open>auto simp: set_wallet_def Let_def split: if_splits option.splits\<close>)
qed

lemma set_wallet_frame [keeps]:
  assumes "set_wallet current uid address s = Inr (s', a, l)"
  shows "ledger s' = ledger s" "users s' = users s" "proxies s' = proxies s" "payouts s' = payouts s"
    "settings s' = settings s" "asgs s' = asgs s" "subs s' = subs s" "jobs s' = jobs s" "mappings s' = mappings s"
  using assms by (auto elim!: set_walletD dest: upsert_wallet_frame)

lemma wallets_ok_delete: "wallets_ok s \<Longrightarrow> wallets_ok (s\<lparr>wallets := delete_where P (wallets s)\<rparr>)"
  by (simp add: wallets_ok_def wf_table_delete)

lemma wallets_ok_unique:
  "wallets_ok s \<Longrightarrow> v \<in> set (rows (wallets s)) \<Longrightarrow> w \<in> set (rows (wallets s)) \<Longrightarrow>
     w_user v = w_user w \<or> w_address v = w_address w \<Longrightarrow> v = w"
  unfolding wallets_ok_def using wf_table_unique [of w_id "wallets s" v w] by blast

lemma upsert_wallet_ok:
  assumes up: "upsert_wallet current uid a l s = Some s'" and ok: "wallets_ok s"
    and a: "is_address a" "lower a = a"
  shows "wallets_ok s'"
proof -
  have wf: "wf_table w_id (wallets s)"
    and fresh: "w_address w \<noteq> a" if "w \<in> set (rows (wallets s))" "w_user w \<noteq> uid" for w
    using up ok a that by (auto simp: upsert_wallet_def wallets_ok_def exists_where_iff split: if_splits)
  have wf: "wf_table w_id (wallets s)" using ok by (simp add: wallets_ok_def)
  show ?thesis
  proof (cases "exists_where (\<lambda>w. w_user w = uid) (wallets s)")
    case True
    let ?f = "\<lambda>w. if w_user w = uid then w\<lparr>w_address := a, w_locked_until := l, w_updated := current\<rparr> else w"
    have s': "rows (wallets s') = map ?f (rows (wallets s))" "wf_table w_id (wallets s')"
      using up True wf by (auto simp: upsert_wallet_def wf_table_update split: if_splits)
    have "w_user (?f v) \<noteq> w_user (?f w) \<and> w_address (?f v) \<noteq> w_address (?f w)"
      if vw: "v \<in> set (rows (wallets s))" "w \<in> set (rows (wallets s))" "w_id (?f v) \<noteq> w_id (?f w)" for v w
    proof -
      have "w_user v \<noteq> w_user w" "w_address v \<noteq> w_address w"
        using wallets_ok_unique [OF ok vw(1,2)] vw(3) by auto
      then show ?thesis using fresh [OF vw(1)] fresh [OF vw(2)] by auto
    qed
    then show ?thesis
      using ok a s' by (simp add: wallets_ok_def)
  next
    case False
    have s': "rows (wallets s') = rows (wallets s) @ [\<lparr>w_id = seq (wallets s) + 1, w_user = uid,
        w_address = a, w_locked_until = l, w_updated = current\<rparr>]" "wf_table w_id (wallets s')"
      using up False wf by (auto simp: upsert_wallet_def wf_table_insert split: if_splits)
    have "w_user w \<noteq> uid" if "w \<in> set (rows (wallets s))" for w
      using False that by (auto simp: exists_where_iff)
    then show ?thesis
      using ok a s' fresh by (auto simp: wallets_ok_def)
  qed
qed

subsection \<open>Properties\<close>

text \<open>Saving a wallet keeps the wallet table consistent: one wallet per user, one user per
  address (whatever the case it was typed in), every address a lower-case 20-byte hex address; and
  no payout loses the wallet it was requested to.\<close>

lemma set_wallet_keeps_wallets:
  assumes run: "set_wallet current uid address s = Inr (s', a, l)"
    and ok: "wallets_ok s" and po: "payouts_have_wallets s"
  shows "wallets_ok s' \<and> payouts_have_wallets s'"
proof -
  obtain stale where a: "is_address a" "a = lower (strip address)"
    and st: "\<forall>w \<in> set stale. w_user w \<noteq> uid \<and> \<not> exists_where (\<lambda>p. po_wallet p = w_id w) (payouts s)
       \<and> w \<in> set (rows (wallets s))"
    and up: "upsert_wallet current uid a l
       (s\<lparr>wallets := delete_where (\<lambda>w. w_id w \<in> w_id ` set stale) (wallets s)\<rparr>) = Some s'"
    using run by (elim set_walletD)
  have "wallets_ok s'"
    by (rule upsert_wallet_ok [OF up wallets_ok_delete [OF ok]]) (use a in simp_all)
  moreover have "\<exists>w \<in> set (rows (wallets s')). w_id w = po_wallet p \<and> w_user w = po_user p"
    if p: "p \<in> set (rows (payouts s))" for p
  proof -
    obtain w where w: "w \<in> set (rows (wallets s))" "w_id w = po_wallet p" "w_user w = po_user p"
      using po p by (auto simp: payouts_have_wallets_def)
    have "w_id w \<notin> w_id ` set stale"
      using st p w(2) by (auto simp: exists_where_iff image_iff)
    then show ?thesis
      using up w by (fastforce simp: upsert_wallet_def image_iff split: if_splits)
  qed
  ultimately show ?thesis
    using set_wallet_frame(4) [OF run] by (simp add: payouts_have_wallets_def)
qed

definition sample_address :: string where
  "sample_address = ''0x'' @ replicate 40 (CHR ''a'')"

definition sample_wallet_store :: store where
  "sample_wallet_store = (case set_wallet 0 1 sample_address (sample_store [sample_user 1] []) of
     Inr (s', _) \<Rightarrow> s' | Inl _ \<Rightarrow> empty_store)"

lemma sample_wallet_run:
  "set_wallet 0 1 sample_address (sample_store [sample_user 1] [])
     = Inr (sample_wallet_store, sample_address, hours 48)"
proof -
  have "(case set_wallet 0 1 sample_address (sample_store [sample_user 1] []) of
     Inr (s', a, l) \<Rightarrow> a = sample_address \<and> l = hours 48 | Inl _ \<Rightarrow> False)"
    by code_simp
  then show ?thesis by (auto simp: sample_wallet_store_def split: sum.splits)
qed

lemma set_wallet_keeps_wallets_witness:
  "wallets_ok sample_wallet_store \<and> payouts_have_wallets sample_wallet_store"
  by (rule set_wallet_keeps_wallets [OF sample_wallet_run])
    (simp_all add: wallets_ok_def payouts_have_wallets_def sample_store_def empty_store_def)

text \<open>Within the 48-hour lock the wallet of a user cannot be changed, and a change starts a
  new lock; so no payout goes to an address saved less than 48 hours before it is requested.\<close>

lemma set_wallet_lock:
  assumes "wallets_ok s" and "w \<in> set (rows (wallets s))" and "w_user w = uid"
  shows "set_wallet current uid address s = Inr (s', a, l) \<Longrightarrow>
     w_locked_until w \<le> current \<and> l = current + hours 48
     \<and> (\<exists>w' \<in> set (rows (wallets s')). w_id w' = w_id w \<and> w_user w' = uid \<and> w_address w' = a \<and> w_locked_until w' = l)"
proof -
  assume run: "set_wallet current uid address s = Inr (s', a, l)"
  have "select_one (\<lambda>w. w_user w = uid) (wallets s) = Some w"
  proof (cases "select_one (\<lambda>w. w_user w = uid) (wallets s)")
    case None
    then show ?thesis using assms by (auto simp: select_one_None_iff)
  next
    case (Some v)
    then show ?thesis
      using select_one_SomeD [OF Some] wallets_ok_unique [OF assms(1) _ assms(2), of v] assms(3) by simp
  qed
  with run show ?thesis
  proof (elim set_walletD)
    fix stale
    assume sel: "select_one (\<lambda>w. w_user w = uid) (wallets s) = Some w" and l: "l = current + hours 48"
      and st: "\<forall>w \<in> set stale. w_user w \<noteq> uid \<and> \<not> exists_where (\<lambda>p. po_wallet p = w_id w) (payouts s)
        \<and> w \<in> set (rows (wallets s))"
      and up: "upsert_wallet current uid a l
        (s\<lparr>wallets := delete_where (\<lambda>w. w_id w \<in> w_id ` set stale) (wallets s)\<rparr>) = Some s'"
      and lk: "\<forall>w \<in> set (rows (wallets s)). w_user w = uid \<longrightarrow>
        select_one (\<lambda>w. w_user w = uid) (wallets s) = Some w \<longrightarrow> w_locked_until w \<le> current"
    have "w_id w \<notin> w_id ` set stale"
      using st assms wf_table_unique [of w_id "wallets s" w] by (auto simp: wallets_ok_def)
    then have "w \<in> set (rows (delete_where (\<lambda>w. w_id w \<in> w_id ` set stale) (wallets s)))"
      using assms(2) by simp
    then show ?thesis
      using up lk sel assms(2,3) l by (auto simp: upsert_wallet_def exists_where_iff split: if_splits)
  qed
qed

lemma set_wallet_lock_witness:
  "\<exists>s' l. set_wallet (hours 48) 1 sample_address sample_wallet_store = Inr (s', sample_address, l)
     \<and> l = hours 48 + hours 48"
proof -
  have ok: "wallets_ok sample_wallet_store"
    by code_simp
  have w: "rows (wallets sample_wallet_store) \<noteq> []" "w_user (hd (rows (wallets sample_wallet_store))) = 1"
    by code_simp+
  have "(case set_wallet (hours 48) 1 sample_address sample_wallet_store of
     Inr (s', a, l) \<Rightarrow> a = sample_address | Inl _ \<Rightarrow> False)"
    by code_simp
  then obtain s' l where run: "set_wallet (hours 48) 1 sample_address sample_wallet_store
      = Inr (s', sample_address, l)" by (auto split: sum.splits)
  show ?thesis
    using set_wallet_lock [OF ok hd_in_set [OF w(1)] w(2) run] run by blast
qed

end
