(* ===== verification/Payouts.thy ===== *)
theory Payouts
  imports Accrual Wallets Systems
begin

text \<open>
  \<open>app/services/payouts.py\<close>, the state changes of \<open>app/services/payout_verification.py\<close> and the
  claims of \<open>app/payout_verifier_service.py\<close>: a payout is quoted, requested, approved by an
  administrator, sent (a transaction hash is submitted), verified by the worker under a claim, and
  ends confirmed or failed; a failed one can be submitted again.
\<close>

subsection \<open>Requesting and approving\<close>

record payout_quote =
  q_amount :: int
  q_fee_bps :: int
  q_fee :: int
  q_net :: int

definition quote_payout :: "int \<Rightarrow> payout_quote result" where
  "quote_payout amount =
     (if amount < 10000000 then Inl (ValueError ''The minimum payout is $10.00'')
      else if 10 ^ 15 < amount then Inl (ValueError ''Payout amount is above the supported maximum'')
      else (let fee_bps = (if 50000000 \<le> amount then 200 else 1000);
                fee = amount * fee_bps div 10000
            in Inr \<lparr>q_amount = amount, q_fee_bps = fee_bps, q_fee = fee, q_net = amount - fee\<rparr>))"

definition outstanding_limit :: "int option \<Rightarrow> int" where
  "outstanding_limit v = clamp 1 1000 (case v of None \<Rightarrow> 10 | Some n \<Rightarrow> n)"

fun is_outstanding :: "payout_status \<Rightarrow> bool" where
  "is_outstanding Po_requested = True"
| "is_outstanding Po_approved = True"
| "is_outstanding Po_verifying = True"
| "is_outstanding _ = False"

fun reserving :: "payout_status \<Rightarrow> bool" where
  "reserving Po_failed = False"
| "reserving _ = True"

text \<open>The SELECTs on a user's payouts; the second leaves one row out (\<open>id<>?\<close>).\<close>

definition reserved_micro :: "store \<Rightarrow> int \<Rightarrow> int" where
  "reserved_micro s uid = sum_where (\<lambda>p. po_user p = uid \<and> reserving (po_status p)) po_amount (payouts s)"

definition reserved_except :: "store \<Rightarrow> int \<Rightarrow> int \<Rightarrow> int" where
  "reserved_except s uid i =
     sum_where (\<lambda>p. po_user p = uid \<and> po_id p \<noteq> i \<and> reserving (po_status p)) po_amount (payouts s)"

definition outstanding_count :: "store \<Rightarrow> int \<Rightarrow> int" where
  "outstanding_count s uid = count_where (\<lambda>p. po_user p = uid \<and> is_outstanding (po_status p)) (payouts s)"

definition request_payout :: "time \<Rightarrow> int option \<Rightarrow> int \<Rightarrow> int \<Rightarrow> store \<Rightarrow> (store \<times> int) result" where
  "request_payout current max_outstanding uid amount s =
     bindR (quote_payout amount) (\<lambda>q.
       case select_one (\<lambda>w. w_user w = uid) (wallets s) of
         None \<Rightarrow> Inl (ValueError ''Set a wallet before requesting payout'')
       | Some w \<Rightarrow>
           if current < w_locked_until w
           then Inl (ValueError ''Wallet is still under the 48-hour security lock'')
           else if outstanding_limit max_outstanding \<le> outstanding_count s uid
           then Inl (PayoutQuotaExceeded (outstanding_limit max_outstanding))
           else if available_micro_usd (balances_for_user s uid) - reserved_micro s uid < amount
           then Inl (ValueError ''Payout amount exceeds available balance'')
           else Inr (s\<lparr>payouts := insert_row (\<lambda>i. \<lparr>po_id = i, po_user = uid, po_wallet = w_id w,
                  po_address = w_address w, po_amount = q_amount q, po_fee_bps = q_fee_bps q,
                  po_fee = q_fee q, po_net = q_net q, po_due = current + hours 48,
                  po_status = Po_requested, po_tx = '''', po_error = '''', po_attempts = 0,
                  po_next = None, po_verified = None, po_confirmations = 0, po_block = None,
                  po_claimed_until = None, po_token = None, po_created = current,
                  po_updated = current\<rparr>) (payouts s)\<rparr>, seq (payouts s) + 1))"

text \<open>\<open>UPDATE payouts SET ... WHERE id=? AND C\<close> with the check \<open>cursor.rowcount != 1\<close>.\<close>

definition update_payout ::
  "int \<Rightarrow> (payout_row \<Rightarrow> bool) \<Rightarrow> (payout_row \<Rightarrow> payout_row) \<Rightarrow> exn \<Rightarrow> store \<Rightarrow> store result" where
  "update_payout i C f e s =
     (if count_where (\<lambda>p. po_id p = i \<and> C p) (payouts s) \<noteq> 1 then Inl e
      else Inr (s\<lparr>payouts := update_where (\<lambda>p. po_id p = i \<and> C p) f (payouts s)\<rparr>))"

definition approve_payout :: "time \<Rightarrow> int \<Rightarrow> store \<Rightarrow> store result" where
  "approve_payout current i s =
     update_payout i (\<lambda>p. po_status p = Po_requested) (\<lambda>p. p\<lparr>po_status := Po_approved, po_updated := current\<rparr>)
       (LookupError ''Payout not found or not awaiting approval'') s"

subsection \<open>Submitting a transaction\<close>

definition is_tx_hash :: "string \<Rightarrow> bool" where
  "is_tx_hash s \<longleftrightarrow> length s = 66 \<and> take 2 s = ''0x'' \<and> list_all is_hex (drop 2 s)"

definition normalize_tx_hash :: "string \<Rightarrow> string result" where
  "normalize_tx_hash v =
     (let t = lower (strip v) in
      if is_tx_hash t then Inr t
      else Inl (ValueError ''Transaction hash must be a 32-byte 0x-prefixed hexadecimal value''))"

definition submit_payout_transaction :: "time \<Rightarrow> int \<Rightarrow> string \<Rightarrow> store \<Rightarrow> store result" where
  "submit_payout_transaction current i tx_hash s =
     bindR (normalize_tx_hash tx_hash) (\<lambda>v.
       case find_payout s i of
         None \<Rightarrow> Inl (LookupError ''Payout not found or not awaiting transaction verification'')
       | Some p \<Rightarrow>
           if po_status p = Po_failed
              \<and> available_micro_usd (balances_for_user s (po_user p)) - reserved_except s (po_user p) i < po_amount p
           then Inl (ValueError ''Payout retry exceeds available balance'')
           else if exists_where (\<lambda>q. lower (po_tx q) = v \<and> po_id q \<noteq> i) (payouts s)
           then Inl (ValueError ''Transaction hash is already assigned to another payout'')
           else update_payout i (\<lambda>q. po_status q \<in> {Po_approved, Po_failed, Po_verifying})
                  (\<lambda>q. q\<lparr>po_status := Po_verifying, po_tx := v, po_error := '''', po_attempts := 0,
                     po_next := Some current, po_verified := None, po_confirmations := 0,
                     po_block := None, po_claimed_until := None, po_token := None,
                     po_updated := current\<rparr>)
                  (LookupError ''Payout not found or not awaiting transaction verification'') s)"

definition mark_payout_sent :: "time \<Rightarrow> int \<Rightarrow> string \<Rightarrow> store \<Rightarrow> store result" where
  "mark_payout_sent current i tx_hash s = submit_payout_transaction current i tx_hash s"

subsection \<open>Verification under a claim\<close>

record verification_result =
  vr_status :: string
  vr_error :: string
  vr_confirmations :: int
  vr_block :: "int option"

definition apply_payout_verification ::
  "time \<Rightarrow> int \<Rightarrow> verification_result \<Rightarrow> string option \<Rightarrow> store \<Rightarrow> store result" where
  "apply_payout_verification current i r claim s =
     (if vr_status r \<notin> {''pending'', ''confirmed'', ''failed''}
      then Inl (ValueError ''Invalid payout verification status'')
      else update_payout i
             (\<lambda>p. po_status p = Po_verifying \<and> (case claim of None \<Rightarrow> True | Some k \<Rightarrow> po_token p = Some k))
             (\<lambda>p. p\<lparr>po_status := (if vr_status r = ''pending'' then Po_verifying
                               else if vr_status r = ''confirmed'' then Po_confirmed else Po_failed),
                 po_error := take 500 (vr_error r), po_attempts := po_attempts p + 1,
                 po_next := (if vr_status r = ''pending'' then Some (current + minutes 5) else None),
                 po_verified := (if vr_status r = ''pending'' then None else Some current),
                 po_confirmations := max 0 (vr_confirmations r), po_block := vr_block r,
                 po_claimed_until := None, po_token := None, po_updated := current\<rparr>)
             (LookupError ''Payout not found or no longer awaiting verification'') s)"

text \<open>\<open>ORDER BY COALESCE(next_verification_at, created_at), id LIMIT 1\<close>.\<close>

definition due_payouts :: "time \<Rightarrow> store \<Rightarrow> payout_row list" where
  "due_payouts now s =
     sort_key (\<lambda>p. (case po_next p of None \<Rightarrow> po_created p | Some t \<Rightarrow> t, po_id p))
       (select_where (\<lambda>p. po_status p = Po_verifying \<and> elapsed (po_next p) now
          \<and> elapsed (po_claimed_until p) now) (payouts s))"

definition claim_one :: "time \<Rightarrow> string \<Rightarrow> store \<Rightarrow> store \<times> payout_row option" where
  "claim_one now token s =
     (case due_payouts now s of
        [] \<Rightarrow> (s, None)
      | row # _ \<Rightarrow>
          (case update_payout (po_id row) (\<lambda>p. po_status p = Po_verifying \<and> elapsed (po_claimed_until p) now)
                  (\<lambda>p. p\<lparr>po_claimed_until := Some (now + minutes 5), po_token := Some token\<rparr>)
                  (RuntimeError '''') s of
             Inl _ \<Rightarrow> (s, None)
           | Inr s1 \<Rightarrow> (s1, find_payout s1 (po_id row))))"

definition release_claim :: "int \<Rightarrow> string \<Rightarrow> store \<Rightarrow> store" where
  "release_claim i token s = s\<lparr>payouts := update_where
     (\<lambda>p. po_id p = i \<and> po_token p = Some token \<and> po_status p = Po_verifying)
     (\<lambda>p. p\<lparr>po_claimed_until := None, po_token := None\<rparr>) (payouts s)\<rparr>"

text \<open>
  \<open>run_batch\<close> with its verifier as a parameter (it may raise); \<open>configured\<close> says that the RPC URL
  and the token contract are set. The second component is the number of rows handled, or the
  exception that the batch re-raises after releasing its claim.
\<close>

definition run_batch ::
  "bool \<Rightarrow> (payout_row \<Rightarrow> verification_result result) \<Rightarrow> time \<Rightarrow> string \<Rightarrow> store \<Rightarrow> store \<times> int result" where
  "run_batch configured verifier current token s =
     (if \<not> configured then (s, Inr 0)
      else case claim_one current token s of
        (s1, None) \<Rightarrow> (s1, Inr 0)
      | (s1, Some row) \<Rightarrow>
          (let i = po_id row; k = or_empty (po_token row) in
           case bindR (verifier row) (\<lambda>r. apply_payout_verification current i r (Some k) s1) of
             Inr s2 \<Rightarrow> (s2, Inr 1)
           | Inl e \<Rightarrow> (release_claim i k s1, Inl e)))"

subsection \<open>What the statements do\<close>

lemma update_payoutD:
  assumes "update_payout i C f e s = Inr s'"
  shows "s' = s\<lparr>payouts := update_where (\<lambda>p. po_id p = i \<and> C p) f (payouts s)\<rparr>"
    "\<exists>p \<in> set (rows (payouts s)). po_id p = i \<and> C p"
proof -
  show "s' = s\<lparr>payouts := update_where (\<lambda>p. po_id p = i \<and> C p) f (payouts s)\<rparr>"
    using assms by (simp add: update_payout_def split: if_splits)
  have "filter (\<lambda>p. po_id p = i \<and> C p) (rows (payouts s)) \<noteq> []"
    using assms by (auto simp: update_payout_def count_where_def split: if_splits)
  then show "\<exists>p \<in> set (rows (payouts s)). po_id p = i \<and> C p"
    by (auto simp: filter_empty_conv)
qed

lemma update_payout_hit:
  assumes "wf_table po_id (payouts s)" and "p \<in> set (rows (payouts s))" "po_id p = i"
  shows "update_payout i C f e s = (if C p
    then Inr (s\<lparr>payouts := update_where (\<lambda>p. po_id p = i \<and> C p) f (payouts s)\<rparr>) else Inl e)"
  using count_key [OF assms(1,2), of C] assms(3) by (simp add: update_payout_def)

definition payout_weight :: "int \<Rightarrow> payout_row \<Rightarrow> int" where
  "payout_weight u p = (if po_user p = u \<and> reserving (po_status p) then po_amount p else 0)"

lemma reserved_as_list: "reserved_micro s u = sum_list (map (payout_weight u) (rows (payouts s)))"
  unfolding reserved_micro_def sum_where_as_sum_list payout_weight_def ..

lemma reserved_except_as_list: "reserved_except s u i
    = sum_list (map (\<lambda>p. if po_id p = i then 0 else payout_weight u p) (rows (payouts s)))"
  unfolding reserved_except_def sum_where_as_sum_list payout_weight_def
  by (rule arg_cong [where f = sum_list], rule map_cong) auto

lemma reserved_update_le:
  assumes "\<And>p. p \<in> set (rows (payouts s)) \<Longrightarrow> P p \<Longrightarrow> payout_weight u (f p) \<le> payout_weight u p"
  shows "reserved_micro (s\<lparr>payouts := update_where P f (payouts s)\<rparr>) u \<le> reserved_micro s u"
  unfolding reserved_as_list by (simp add: comp_def sum_list_map_if_le assms)

lemma reserved_update_row:
  assumes wf: "wf_table po_id (payouts s)" and p: "p \<in> set (rows (payouts s))" and i: "po_id p = i" "C p"
    and f: "\<And>q. po_id (f q) = po_id q"
  shows "reserved_micro (s\<lparr>payouts := update_where (\<lambda>q. po_id q = i \<and> C q) f (payouts s)\<rparr>) u
    = reserved_except s u i + payout_weight u (f p)"
proof -
  let ?f = "\<lambda>q. if po_id q = i \<and> C q then f q else q"
  let ?ys = "map ?f (rows (payouts s))"
  have ids: "map po_id ?ys = map po_id (rows (payouts s))" by (simp add: f)
  have "distinct (map po_id ?ys)" unfolding ids using wf by (simp add: wf_table_def)
  moreover have "f p \<in> set ?ys" using p i by force
  ultimately have "sum_list (map (payout_weight u) ?ys)
      = sum_list (map (\<lambda>q. if po_id q = po_id (f p) then 0 else payout_weight u q) ?ys) + payout_weight u (f p)"
    by (rule sum_list_split_row)
  also have "map (\<lambda>q. if po_id q = po_id (f p) then 0 else payout_weight u q) ?ys
      = map (\<lambda>q. if po_id q = i then 0 else payout_weight u q) (rows (payouts s))"
    using i f by auto
  finally show ?thesis unfolding reserved_as_list reserved_except_as_list by simp
qed

lemma request_payoutD:
  assumes "request_payout t m uid a s = Inr (s', i)"
  obtains w q where "quote_payout a = Inr q" "w \<in> set (rows (wallets s))" "w_user w = uid"
    "w_locked_until w \<le> t" "outstanding_count s uid < outstanding_limit m"
    "a \<le> available_micro_usd (balances_for_user s uid) - reserved_micro s uid" "i = seq (payouts s) + 1"
    "s' = s\<lparr>payouts := insert_row (\<lambda>i. \<lparr>po_id = i, po_user = uid, po_wallet = w_id w,
       po_address = w_address w, po_amount = q_amount q, po_fee_bps = q_fee_bps q,
       po_fee = q_fee q, po_net = q_net q, po_due = t + hours 48,
       po_status = Po_requested, po_tx = '''', po_error = '''', po_attempts = 0,
       po_next = None, po_verified = None, po_confirmations = 0, po_block = None,
       po_claimed_until = None, po_token = None, po_created = t,
       po_updated = t\<rparr>) (payouts s)\<rparr>"
proof -
  obtain q where q: "quote_payout a = Inr q"
    using assms by (auto simp: request_payout_def bindR_Inr_iff)
  obtain w where w: "select_one (\<lambda>w. w_user w = uid) (wallets s) = Some w"
    using assms by (auto simp: request_payout_def bindR_Inr_iff split: option.splits)
  show ?thesis
    by (rule that [OF q, of w])
      (use assms q w select_one_SomeD [OF w] in \<open>auto simp: request_payout_def split: if_splits\<close>)
qed

lemma quote_payoutD:
  assumes "quote_payout a = Inr q"
  shows "q_amount q = a" "q_net q + q_fee q = a" "0 \<le> q_fee q" "10 * q_fee q \<le> a"
    "10000000 \<le> a" "a \<le> 10 ^ 15"
  using assms by (auto simp: quote_payout_def Let_def split: if_splits)

lemma submit_payoutD:
  assumes "submit_payout_transaction t i h s = Inr s'"
  obtains v p where "normalize_tx_hash h = Inr v" "find_payout s i = Some p"
    "po_status p = Po_failed \<Longrightarrow>
       po_amount p \<le> available_micro_usd (balances_for_user s (po_user p)) - reserved_except s (po_user p) i"
    "\<forall>q \<in> set (rows (payouts s)). po_id q \<noteq> i \<longrightarrow> lower (po_tx q) \<noteq> v"
    "update_payout i (\<lambda>q. po_status q \<in> {Po_approved, Po_failed, Po_verifying})
       (\<lambda>q. q\<lparr>po_status := Po_verifying, po_tx := v, po_error := '''', po_attempts := 0,
          po_next := Some t, po_verified := None, po_confirmations := 0,
          po_block := None, po_claimed_until := None, po_token := None, po_updated := t\<rparr>)
       (LookupError ''Payout not found or not awaiting transaction verification'') s = Inr s'"
proof -
  obtain v where v: "normalize_tx_hash h = Inr v"
    using assms by (auto simp: submit_payout_transaction_def bindR_Inr_iff)
  obtain p where p: "find_payout s i = Some p"
    using assms by (auto simp: submit_payout_transaction_def bindR_Inr_iff split: option.splits)
  show ?thesis
    by (rule that [OF v p])
      (use assms v p in \<open>auto simp: submit_payout_transaction_def exists_where_iff split: if_splits\<close>)
qed

lemma claim_oneD:
  assumes "claim_one now tok s = (s', r)"
  obtains (none) "s' = s" "r = None"
  | (some) p where "p \<in> set (rows (payouts s))" "po_status p = Po_verifying" "elapsed (po_next p) now"
      "elapsed (po_claimed_until p) now" "r = find_payout s' (po_id p)"
      "s' = s\<lparr>payouts := update_where
          (\<lambda>q. po_id q = po_id p \<and> po_status q = Po_verifying \<and> elapsed (po_claimed_until q) now)
          (\<lambda>q. q\<lparr>po_claimed_until := Some (now + minutes 5), po_token := Some tok\<rparr>) (payouts s)\<rparr>"
proof (cases "due_payouts now s")
  case Nil
  then show ?thesis using assms none by (simp add: claim_one_def)
next
  case (Cons p ps)
  then have "p \<in> set (due_payouts now s)" by simp
  then have p: "p \<in> set (rows (payouts s))" "po_status p = Po_verifying" "elapsed (po_next p) now"
    "elapsed (po_claimed_until p) now"
    by (simp_all add: due_payouts_def)
  show ?thesis
  proof (cases "update_payout (po_id p) (\<lambda>p. po_status p = Po_verifying \<and> elapsed (po_claimed_until p) now)
      (\<lambda>p. p\<lparr>po_claimed_until := Some (now + minutes 5), po_token := Some tok\<rparr>) (RuntimeError '''') s")
    case (Inl e)
    then show ?thesis using assms Cons none by (simp add: claim_one_def)
  next
    case (Inr s1)
    then have s': "s' = s1" "r = find_payout s1 (po_id p)" using assms Cons by (auto simp: claim_one_def)
    show ?thesis
    proof (rule some [OF p])
      show "r = find_payout s' (po_id p)" using s' by simp
    qed (unfold s'(1), rule update_payoutD(1) [OF Inr])
  qed
qed

end
