(* ===== verification/Payout_System.thy ===== *)
theory Payout_System
  imports Payouts
begin

text \<open>
  The payout subsystem as a transition system over the database and the clock: user requests,
  administrator decisions, verifier workers, accrual runs, probation resets and wallet changes, in
  any order. Solvency, the uniqueness of transaction hashes and the finality of confirmed payouts
  are invariants of all its runs.
\<close>

datatype payout_event =
    Ev_request int int "int option"
  | Ev_approve int
  | Ev_submit int string
  | Ev_claim string
  | Ev_apply int verification_result "string option"
  | Ev_release int string
  | Ev_accrue "int option" bool
  | Ev_reset int
  | Ev_wallet int string

type_synonym world = "time \<times> store"

text \<open>One committed operation; a failed one is rolled back and is no step. The clock may advance.\<close>

inductive payout_step :: "payout_event \<Rightarrow> world \<Rightarrow> world \<Rightarrow> bool" where
  request: "t \<le> t' \<Longrightarrow> request_payout t' m u a s = Inr (s', i) \<Longrightarrow>
     payout_step (Ev_request u a m) (t, s) (t', s')"
| approve: "t \<le> t' \<Longrightarrow> approve_payout t' i s = Inr s' \<Longrightarrow> payout_step (Ev_approve i) (t, s) (t', s')"
| submit: "t \<le> t' \<Longrightarrow> mark_payout_sent t' i h s = Inr s' \<Longrightarrow> payout_step (Ev_submit i h) (t, s) (t', s')"
| claim: "t \<le> t' \<Longrightarrow> claim_one t' k s = (s', r) \<Longrightarrow> payout_step (Ev_claim k) (t, s) (t', s')"
| apply_result: "t \<le> t' \<Longrightarrow> apply_payout_verification t' i r k s = Inr s' \<Longrightarrow>
     payout_step (Ev_apply i r k) (t, s) (t', s')"
| release: "t \<le> t' \<Longrightarrow> release_claim i k s = s' \<Longrightarrow> payout_step (Ev_release i k) (t, s) (t', s')"
| accrue: "t \<le> t' \<Longrightarrow> accrue_locked t' only b s = Inr s' \<Longrightarrow> payout_step (Ev_accrue only b) (t, s) (t', s')"
| reset: "t \<le> t' \<Longrightarrow> reset_probation i t' s = Inr s' \<Longrightarrow> payout_step (Ev_reset i) (t, s) (t', s')"
| wallet: "t \<le> t' \<Longrightarrow> set_wallet t' u ad s = Inr (s', x) \<Longrightarrow> payout_step (Ev_wallet u ad) (t, s) (t', s')"

inductive_cases payout_stepE: "payout_step e w w'"

text \<open>How a step changes the payouts table: not at all, by a new request, or by one guarded update.\<close>

inductive payouts_change :: "time \<Rightarrow> payout_event \<Rightarrow> store \<Rightarrow> store \<Rightarrow> bool" where
  same: "payouts s' = payouts s \<Longrightarrow> payouts_change t e s s'"
| added: "request_payout t m u a s = Inr (s', i) \<Longrightarrow> payouts_change t (Ev_request u a m) s s'"
| approved: "approve_payout t i s = Inr s' \<Longrightarrow> payouts_change t (Ev_approve i) s s'"
| submitted: "submit_payout_transaction t i h s = Inr s' \<Longrightarrow> payouts_change t (Ev_submit i h) s s'"
| applied: "apply_payout_verification t i r k s = Inr s' \<Longrightarrow> payouts_change t (Ev_apply i r k) s s'"
| claimed: "claim_one t k s = (s', r) \<Longrightarrow> payouts_change t (Ev_claim k) s s'"
| released: "release_claim i k s = s' \<Longrightarrow> payouts_change t (Ev_release i k) s s'"

inductive_cases payouts_changeE: "payouts_change t e s s'"

lemma reset_probation_frame [keeps]:
  assumes "reset_probation pid at s = Inr s'"
  shows "payouts s' = payouts s" "wallets s' = wallets s" "users s' = users s" "settings s' = settings s"
    "ledger s' = update_where (\<lambda>l. l_proxy l = pid \<and> l_bucket l = Bk_pending) (\<lambda>l. l\<lparr>l_bucket := Bk_expired\<rparr>) (ledger s)"
  using assms rebucket_ledger unfolding reset_probation_def expire_pending_cycle_def
  by (auto simp: bindR_Inr_iff rebucket_frame)

lemma accrue_locked_frame [keeps]:
  assumes "accrue_locked current only b s = Inr s'"
  shows "payouts s' = payouts s" "wallets s' = wallets s" "users s' = users s" "settings s' = settings s"
  using accrue_locked_cursors_only [OF assms] by (simp_all add: cursors_only_def)

lemma payout_step_change: "payout_step e (t, s) (t', s') \<Longrightarrow> t \<le> t' \<and> payouts_change t' e s s'"
  by (erule payout_stepE)
    (auto simp: mark_payout_sent_def reset_probation_frame set_wallet_frame accrue_locked_frame
      intro: payouts_change.intros)

lemma update_payout_ledger:
  "update_payout i C f e s = Inr s' \<Longrightarrow> ledger s' = ledger s \<and> users s' = users s \<and> proxies s' = proxies s
     \<and> wallets s' = wallets s \<and> settings s' = settings s"
  by (drule update_payoutD(1)) simp

text \<open>What a step does to the ledger and its invariant.\<close>

lemma payout_op_frame:
  "request_payout t m u a s = Inr (s', i) \<Longrightarrow> ledger s' = ledger s \<and> users s' = users s \<and> proxies s' = proxies s"
  "approve_payout t i s = Inr s' \<Longrightarrow> ledger s' = ledger s \<and> users s' = users s \<and> proxies s' = proxies s"
  "submit_payout_transaction t i h s = Inr s' \<Longrightarrow> ledger s' = ledger s \<and> users s' = users s \<and> proxies s' = proxies s"
  "apply_payout_verification t i r k s = Inr s' \<Longrightarrow> ledger s' = ledger s \<and> users s' = users s \<and> proxies s' = proxies s"
  "claim_one t tok s = (s', x) \<Longrightarrow> ledger s' = ledger s \<and> users s' = users s \<and> proxies s' = proxies s"
  "release_claim i tok s = s' \<Longrightarrow> ledger s' = ledger s \<and> users s' = users s \<and> proxies s' = proxies s"
  by (auto elim!: request_payoutD submit_payoutD claim_oneD
      dest: update_payout_ledger simp: approve_payout_def apply_payout_verification_def release_claim_def
      split: if_splits)

subsection \<open>The payouts table\<close>

definition payout_row_ok :: "payout_row \<Rightarrow> bool" where
  "payout_row_ok p \<longleftrightarrow> 10000000 \<le> po_amount p \<and> po_amount p \<le> 10 ^ 15 \<and> 0 \<le> po_fee p
     \<and> 10 * po_fee p \<le> po_amount p \<and> po_net p + po_fee p = po_amount p
     \<and> (po_tx p = '''' \<or> is_tx_hash (po_tx p) \<and> lower (po_tx p) = po_tx p)
     \<and> (po_status p \<in> {Po_verifying, Po_confirmed} \<longrightarrow> po_tx p \<noteq> '''')"

definition tx_apart :: "payout_row \<Rightarrow> payout_row \<Rightarrow> bool" where
  "tx_apart p q \<longleftrightarrow> po_id p = po_id q \<or> po_tx p = '''' \<or> po_tx p \<noteq> po_tx q"

definition payouts_ok :: "store \<Rightarrow> bool" where
  "payouts_ok s \<longleftrightarrow> wf_table po_id (payouts s) \<and> (\<forall>p \<in> set (rows (payouts s)). payout_row_ok p)
     \<and> (\<forall>p \<in> set (rows (payouts s)). \<forall>q \<in> set (rows (payouts s)). tx_apart p q)"

lemma payouts_ok_update:
  assumes ok: "payouts_ok s"
    and f: "\<And>p. po_id (f p) = po_id p" "\<And>p. po_tx (f p) = po_tx p"
    and r: "\<And>p. p \<in> set (rows (payouts s)) \<Longrightarrow> P p \<Longrightarrow> payout_row_ok (f p)"
  shows "payouts_ok (s\<lparr>payouts := update_where P f (payouts s)\<rparr>)"
proof -
  have "tx_apart (if P p then f p else p) (if P q then f q else q) = tx_apart p q" for p q
    by (simp add: tx_apart_def f)
  then show ?thesis using assms by (auto simp: payouts_ok_def wf_table_update)
qed

lemma normalize_tx_hashD: "normalize_tx_hash h = Inr v \<Longrightarrow> is_tx_hash v \<and> lower v = v \<and> v \<noteq> ''''"
  by (auto simp: normalize_tx_hash_def Let_def is_tx_hash_def split: if_splits)

lemma submit_payouts_ok:
  assumes "submit_payout_transaction t i h s = Inr s'" and ok: "payouts_ok s"
  shows "payouts_ok s'"
  using assms(1)
proof (rule submit_payoutD)
  fix v p
  let ?C = "\<lambda>q. po_status q \<in> {Po_approved, Po_failed, Po_verifying}"
  let ?f = "\<lambda>q. q\<lparr>po_status := Po_verifying, po_tx := v, po_error := '''', po_attempts := 0,
          po_next := Some t, po_verified := None, po_confirmations := 0,
          po_block := None, po_claimed_until := None, po_token := None, po_updated := t\<rparr>"
  assume v: "normalize_tx_hash h = Inr v"
    and fresh: "\<forall>q \<in> set (rows (payouts s)). po_id q \<noteq> i \<longrightarrow> lower (po_tx q) \<noteq> v"
    and up: "update_payout i ?C ?f (LookupError ''Payout not found or not awaiting transaction verification'') s = Inr s'"
  note vv = normalize_tx_hashD [OF v]
  have free: "po_tx q \<noteq> v" if "q \<in> set (rows (payouts s))" "po_id q \<noteq> i" for q
    using fresh that vv by auto
  let ?g = "\<lambda>p. if po_id p = i \<and> ?C p then ?f p else p"
  have s': "s' = s\<lparr>payouts := update_where (\<lambda>p. po_id p = i \<and> ?C p) ?f (payouts s)\<rparr>"
    by (rule update_payoutD(1) [OF up])
  have "tx_apart (?g p) (?g q)" if pq: "p \<in> set (rows (payouts s))" "q \<in> set (rows (payouts s))" for p q
  proof (cases "po_id p = po_id q")
    case True
    then show ?thesis by (simp add: tx_apart_def)
  next
    case False
    then have "tx_apart p q" "po_id p \<noteq> i \<or> po_id q \<noteq> i" using ok pq by (auto simp: payouts_ok_def)
    then show ?thesis
      using False free [OF pq(1)] free [OF pq(2)] by (auto simp: tx_apart_def)
  qed
  moreover have "payout_row_ok (?g p)" if "p \<in> set (rows (payouts s))" for p
    using ok that vv by (auto simp: payouts_ok_def payout_row_ok_def)
  ultimately show ?thesis
    using ok unfolding s' by (simp add: payouts_ok_def wf_table_update)
qed

lemma request_payouts_ok:
  assumes "request_payout t m u a s = Inr (s', i)" and ok: "payouts_ok s"
  shows "payouts_ok s'"
  using assms(1)
proof (rule request_payoutD)
  fix w q
  assume q: "quote_payout a = Inr q"
    and s': "s' = s\<lparr>payouts := insert_row (\<lambda>i. \<lparr>po_id = i, po_user = u, po_wallet = w_id w,
       po_address = w_address w, po_amount = q_amount q, po_fee_bps = q_fee_bps q,
       po_fee = q_fee q, po_net = q_net q, po_due = t + hours 48,
       po_status = Po_requested, po_tx = '''', po_error = '''', po_attempts = 0,
       po_next = None, po_verified = None, po_confirmations = 0, po_block = None,
       po_claimed_until = None, po_token = None, po_created = t,
       po_updated = t\<rparr>) (payouts s)\<rparr>"
  show ?thesis
    using ok quote_payoutD [OF q] unfolding s'
    by (auto simp: payouts_ok_def wf_table_insert payout_row_ok_def tx_apart_def)
qed

lemma payouts_change_ok:
  assumes "payouts_change t e s s'" and ok: "payouts_ok s"
  shows "payouts_ok s'"
  using assms(1)
proof (cases rule: payouts_change.cases)
  case same
  then show ?thesis using ok by (simp add: payouts_ok_def)
next
  case added
  then show ?thesis using request_payouts_ok ok by blast
next
  case (approved i)
  then show ?thesis
    unfolding approve_payout_def
    by (auto dest!: update_payoutD(1) intro!: payouts_ok_update ok) (use ok in \<open>auto simp: payouts_ok_def payout_row_ok_def\<close>)
next
  case submitted
  then show ?thesis using submit_payouts_ok ok by blast
next
  case (applied i r k)
  then show ?thesis
    unfolding apply_payout_verification_def
    by (auto split: if_splits dest!: update_payoutD(1) intro!: payouts_ok_update ok)
      (use ok in \<open>auto simp: payouts_ok_def payout_row_ok_def\<close>)
next
  case (claimed k r)
  then show ?thesis
    by (auto elim!: claim_oneD intro!: payouts_ok_update ok) (use ok in \<open>auto simp: payouts_ok_def payout_row_ok_def\<close>)
next
  case (released i k)
  then show ?thesis
    by (auto simp: release_claim_def intro!: payouts_ok_update ok) (use ok in \<open>auto simp: payouts_ok_def payout_row_ok_def\<close>)
qed

subsection \<open>Solvency\<close>

definition world_ok :: "world \<Rightarrow> bool" where
  "world_ok w \<longleftrightarrow> ledger_ok (fst w) (snd w) \<and> payouts_ok (snd w)"

definition world_available :: "world \<Rightarrow> int \<Rightarrow> int" where
  "world_available w u = available_micro_usd (balances_for_user (snd w) u)"

definition world_reserved :: "world \<Rightarrow> int \<Rightarrow> int" where
  "world_reserved w u = reserved_micro (snd w) u"

lemma available_as_bucket: "available_micro_usd (balances_for_user s u) = bucket_sum (\<lambda>l. l_user l = u) Bk_available s"
  by (simp add: balances_for_user_def)

lemma available_cong: "ledger s' = ledger s \<Longrightarrow>
  available_micro_usd (balances_for_user s' u) = available_micro_usd (balances_for_user s u)"
  by (simp add: available_as_bucket bucket_sum_def)

lemma reset_available:
  assumes "reset_probation pid at s = Inr s'"
  shows "available_micro_usd (balances_for_user s' u) = available_micro_usd (balances_for_user s u)"
  unfolding available_as_bucket bucket_sum_def reset_probation_frame(5) [OF assms] sum_where_update
  unfolding sum_where_as_sum_list
  by (rule arg_cong [where f = sum_list], rule map_cong) auto

lemma ledger_ok_same:
  assumes "ledger_ok t s" "t \<le> t'" "ledger s' = ledger s \<and> users s' = users s \<and> proxies s' = proxies s"
  shows "ledger_ok t' s'"
  by (rule ledger_ok_frame [OF ledger_ok_later [OF assms(1,2)]]) (use assms ledger_okD(4) in auto)

lemma payout_step_ledger:
  assumes "payout_step e (t, s) (t', s')" "ledger_ok t s"
  shows "ledger_ok t' s'"
    and "available_micro_usd (balances_for_user s u) \<le> available_micro_usd (balances_for_user s' u)"
proof -
  have frame: "ledger_ok t' s' \<and> available_micro_usd (balances_for_user s u) \<le> available_micro_usd (balances_for_user s' u)"
    if "t \<le> t'" "ledger s' = ledger s \<and> users s' = users s \<and> proxies s' = proxies s"
    using ledger_ok_same [OF assms(2)] that available_cong [of s' s u] by auto
  have "ledger_ok t' s' \<and> available_micro_usd (balances_for_user s u) \<le> available_micro_usd (balances_for_user s' u)"
    using assms(1)
  proof (cases rule: payout_step.cases)
    case (accrue only b)
    have ok: "ledger_ok t' s" using ledger_ok_later [OF assms(2)] accrue by simp
    show ?thesis
      using accrue_locked_ledger_ok [OF _ ok] accrue_available_mono [OF _ ok] accrue
      unfolding available_as_bucket by blast
  next
    case (reset i)
    then show ?thesis using reset_ledger_ok assms(2) reset_available by simp
  next
    case (wallet u ad x)
    then show ?thesis using frame set_wallet_frame by (cases x) simp
  qed (use frame payout_op_frame in \<open>auto simp: mark_payout_sent_def\<close>)
  then show "ledger_ok t' s'"
    "available_micro_usd (balances_for_user s u) \<le> available_micro_usd (balances_for_user s' u)" by auto
qed

lemma reserved_cong: "payouts s' = payouts s \<Longrightarrow> reserved_micro s' u = reserved_micro s u"
  by (simp add: reserved_micro_def)

lemma reserved_request:
  assumes "request_payout t m uid a s = Inr (s', i)"
  shows "reserved_micro s' u = reserved_micro s u + (if u = uid then a else 0)"
    "u = uid \<Longrightarrow> reserved_micro s' u \<le> available_micro_usd (balances_for_user s u)"
proof -
  have "reserved_micro s' u = reserved_micro s u + (if u = uid then a else 0)
      \<and> a \<le> available_micro_usd (balances_for_user s uid) - reserved_micro s uid"
    using assms by (rule request_payoutD)
      (auto simp: reserved_micro_def sum_where_insert dest: quote_payoutD(1))
  then show "reserved_micro s' u = reserved_micro s u + (if u = uid then a else 0)"
    "u = uid \<Longrightarrow> reserved_micro s' u \<le> available_micro_usd (balances_for_user s u)" by auto
qed

lemma reserved_submit:
  assumes run: "submit_payout_transaction t i h s = Inr s'" and ok: "payouts_ok s"
    and nn: "\<forall>p \<in> set (rows (payouts s)). 0 \<le> po_amount p"
  shows "reserved_micro s' u \<le> reserved_micro s u
    \<or> reserved_micro s' u \<le> available_micro_usd (balances_for_user s u)"
  using run
proof (rule submit_payoutD)
  fix v p
  let ?C = "\<lambda>q. po_status q \<in> {Po_approved, Po_failed, Po_verifying}"
  let ?f = "\<lambda>q. q\<lparr>po_status := Po_verifying, po_tx := v, po_error := '''', po_attempts := 0,
          po_next := Some t, po_verified := None, po_confirmations := 0,
          po_block := None, po_claimed_until := None, po_token := None, po_updated := t\<rparr>"
  assume p: "find_payout s i = Some p"
    and retry: "po_status p = Po_failed \<Longrightarrow>
       po_amount p \<le> available_micro_usd (balances_for_user s (po_user p)) - reserved_except s (po_user p) i"
    and up: "update_payout i ?C ?f (LookupError ''Payout not found or not awaiting transaction verification'') s = Inr s'"
  have wf: "wf_table po_id (payouts s)" using ok by (simp add: payouts_ok_def)
  have pm: "p \<in> set (rows (payouts s))" "po_id p = i"
    using select_one_SomeD [OF p [unfolded find_payout_def]] by simp_all
  have C: "?C p" and s': "s' = s\<lparr>payouts := update_where (\<lambda>q. po_id q = i \<and> ?C q) ?f (payouts s)\<rparr>"
    using up update_payout_hit [OF wf pm] by (auto split: if_splits)
  have r': "reserved_micro s' u = reserved_except s u i + payout_weight u (?f p)"
    unfolding s' by (rule reserved_update_row [OF wf pm, where C = ?C]) (use C in simp_all)
  have r: "reserved_micro s u = reserved_except s u i + payout_weight u p"
    using sum_list_split_row [of po_id "rows (payouts s)" p "payout_weight u"] wf pm
    unfolding reserved_as_list reserved_except_as_list wf_table_def by simp
  show ?thesis
  proof (cases "po_status p = Po_failed \<and> u = po_user p")
    case True
    then show ?thesis using r' retry by (simp add: payout_weight_def)
  next
    case False
    then have "payout_weight u (?f p) = payout_weight u p"
      using C by (auto simp: payout_weight_def)
    then show ?thesis using r r' by simp
  qed
qed

lemma reserved_change:
  assumes "payouts_change t e s s'" and ok: "payouts_ok s"
  shows "reserved_micro s' u \<le> reserved_micro s u
    \<or> reserved_micro s' u \<le> available_micro_usd (balances_for_user s u)"
proof -
  have nn: "\<forall>p \<in> set (rows (payouts s)). 0 \<le> po_amount p"
    using ok by (force simp: payouts_ok_def payout_row_ok_def)
  show ?thesis
    using assms(1)
  proof (cases rule: payouts_change.cases)
    case same
    then show ?thesis using reserved_cong [of s' s u] by simp
  next
    case (added m v a i)
    then show ?thesis
      using reserved_request [of t m v a s s' i u] by (cases "u = v") auto
  next
    case (approved i)
    then show ?thesis
      unfolding approve_payout_def by (intro disjI1) (auto dest!: update_payoutD(1) intro!: reserved_update_le simp: payout_weight_def)
  next
    case submitted
    then show ?thesis using reserved_submit ok nn by blast
  next
    case (applied i r k)
    then show ?thesis
      unfolding apply_payout_verification_def using nn
      by (intro disjI1) (auto dest!: update_payoutD(1) intro!: reserved_update_le simp: payout_weight_def split: if_splits)
  next
    case (claimed k r)
    then show ?thesis
      by (intro disjI1) (auto elim!: claim_oneD intro!: reserved_update_le simp: payout_weight_def)
  next
    case (released i k)
    then show ?thesis
      by (intro disjI1) (auto simp: release_claim_def payout_weight_def intro!: reserved_update_le)
  qed
qed

interpretation funds: reservation_system payout_step world_ok world_available world_reserved
proof
  fix w w' :: world and e
  obtain t s t' s' where w: "w = (t, s)" "w' = (t', s')" by (cases w, cases w')
  assume ok: "world_ok w" and st: "payout_step e w w'"
  have st': "payout_step e (t, s) (t', s')" and l: "ledger_ok t s" and p: "payouts_ok s"
    using ok st w by (simp_all add: world_ok_def)
  note ch = payout_step_change [OF st']
  show "world_ok w'"
    using payout_step_ledger(1) [OF st' l] payouts_change_ok ch p w by (auto simp: world_ok_def)
  fix u
  show "world_available w u \<le> world_available w' u"
    using payout_step_ledger(2) [OF st' l] w by (simp add: world_available_def)
  show "world_reserved w' u \<le> world_reserved w u \<or> world_reserved w' u \<le> world_available w u"
    using reserved_change [of t' e s s' u] ch p w by (simp add: world_reserved_def world_available_def)
qed

subsection \<open>The life of a payout row\<close>

fun payout_edge :: "payout_status \<Rightarrow> payout_status \<Rightarrow> bool" where
  "payout_edge Po_requested x = (x = Po_approved)"
| "payout_edge Po_approved x = (x = Po_verifying)"
| "payout_edge Po_verifying x = (x = Po_verifying \<or> x = Po_confirmed \<or> x = Po_failed)"
| "payout_edge Po_failed x = (x = Po_verifying)"
| "payout_edge Po_confirmed x = False"
| "payout_edge Po_sent x = False"

definition same_terms :: "payout_row \<Rightarrow> payout_row \<Rightarrow> bool" where
  "same_terms p p' \<longleftrightarrow> po_id p' = po_id p \<and> po_user p' = po_user p \<and> po_wallet p' = po_wallet p
     \<and> po_address p' = po_address p \<and> po_amount p' = po_amount p \<and> po_fee_bps p' = po_fee_bps p
     \<and> po_fee p' = po_fee p \<and> po_net p' = po_net p \<and> po_due p' = po_due p \<and> po_created p' = po_created p"

definition payout_evolves :: "payout_row \<Rightarrow> payout_row \<Rightarrow> bool" where
  "payout_evolves p p' \<longleftrightarrow> same_terms p p' \<and> (p' = p \<or> payout_edge (po_status p) (po_status p'))"

lemma same_terms_refl [simp]: "same_terms p p"
  by (simp add: same_terms_def)

lemma same_terms_trans: "same_terms p q \<Longrightarrow> same_terms q r \<Longrightarrow> same_terms p r"
  by (simp add: same_terms_def)

lemma payout_evolves_refl [simp]: "payout_evolves p p"
  by (simp add: payout_evolves_def)

lemma evolves_update:
  assumes "p \<in> set (rows (payouts s))" and "\<And>q. P q \<Longrightarrow> payout_evolves q (f q)"
  shows "\<exists>p' \<in> set (rows (payouts (s\<lparr>payouts := update_where P f (payouts s)\<rparr>))). payout_evolves p p'"
  using assms by (cases "P p") auto

lemma evolves_update_payout:
  assumes "update_payout i C f e s = Inr s'" and "p \<in> set (rows (payouts s))"
    and "\<And>q. C q \<Longrightarrow> payout_evolves q (f q)"
  shows "\<exists>p' \<in> set (rows (payouts s')). payout_evolves p p'"
  unfolding update_payoutD(1) [OF assms(1)] by (rule evolves_update [OF assms(2)]) (use assms(3) in simp)

lemma payouts_change_evolves:
  assumes "payouts_change t e s s'" and p: "p \<in> set (rows (payouts s))"
  shows "\<exists>p' \<in> set (rows (payouts s')). payout_evolves p p'"
  using assms(1)
proof (cases rule: payouts_change.cases)
  case same
  then show ?thesis using p payout_evolves_refl by metis
next
  case added
  then show ?thesis using p by (auto elim!: request_payoutD) (use payout_evolves_refl in blast)
next
  case (approved i)
  show ?thesis
    by (rule evolves_update_payout [OF approved(2) [unfolded approve_payout_def] p])
      (simp add: payout_evolves_def same_terms_def)
next
  case (submitted i h)
  from this(2) show ?thesis
    by (rule submit_payoutD, elim evolves_update_payout [OF _ p])
      (auto simp: payout_evolves_def same_terms_def)
next
  case (applied i r k)
  then have "vr_status r \<in> {''pending'', ''confirmed'', ''failed''}"
    by (auto simp: apply_payout_verification_def split: if_splits)
  with applied(2) show ?thesis
    by (simp only: apply_payout_verification_def not_not if_False simp_thms, elim evolves_update_payout [OF _ p])
      (auto simp: payout_evolves_def same_terms_def)
next
  case (claimed k r)
  from this(2) show ?thesis
  proof (rule claim_oneD)
    assume "s' = s"
    then show ?thesis using p payout_evolves_refl by blast
  next
    fix q
    assume s': "s' = s\<lparr>payouts := update_where
          (\<lambda>x. po_id x = po_id q \<and> po_status x = Po_verifying \<and> elapsed (po_claimed_until x) t)
          (\<lambda>x. x\<lparr>po_claimed_until := Some (t + minutes 5), po_token := Some k\<rparr>) (payouts s)\<rparr>"
    show ?thesis
      unfolding s' by (rule evolves_update [OF p]) (simp add: payout_evolves_def same_terms_def)
  qed
next
  case (released i k)
  show ?thesis
    unfolding released(2) [symmetric] release_claim_def
    by (rule evolves_update [OF p]) (simp add: payout_evolves_def same_terms_def)
qed

definition world_payouts :: "world \<Rightarrow> payout_row list" where
  "world_payouts w = rows (payouts (snd w))"

lemma step_evolves:
  assumes "payout_step e w w'" and "p \<in> set (world_payouts w)"
  shows "\<exists>p' \<in> set (world_payouts w'). payout_evolves p p'"
  using payouts_change_evolves payout_step_change assms
  by (cases w, cases w') (fastforce simp: world_payouts_def)

lemma steps_evolve:
  "steps payout_step w es w' \<Longrightarrow> p \<in> set (world_payouts w) \<Longrightarrow>
     \<exists>p' \<in> set (world_payouts w'). same_terms p p' \<and> (po_status p \<in> {Po_confirmed, Po_sent} \<longrightarrow> p' = p)"
proof (induction arbitrary: p rule: steps.induct)
  case (steps_nil s)
  then show ?case by (auto intro: bexI [of _ p])
next
  case (steps_cons e s s' es s'')
  obtain q where q: "q \<in> set (world_payouts s')" "payout_evolves p q"
    using step_evolves [OF steps_cons.hyps(1) steps_cons.prems] by blast
  obtain r where r: "r \<in> set (world_payouts s'')" "same_terms q r"
    "po_status q \<in> {Po_confirmed, Po_sent} \<longrightarrow> r = q"
    using steps_cons.IH [OF q(1)] by blast
  have "po_status p \<in> {Po_confirmed, Po_sent} \<Longrightarrow> q = p"
    using q(2) by (auto simp: payout_evolves_def)
  then show ?case
    using q(2) r same_terms_trans by (auto simp: payout_evolves_def intro!: bexI [OF _ r(1)])
qed

subsection \<open>What a claim protects\<close>

text \<open>While the row carries the token it was claimed with, its transaction hash is the claimed one.\<close>

definition token_pins :: "string \<Rightarrow> int \<Rightarrow> string \<Rightarrow> world \<Rightarrow> bool" where
  "token_pins k i h w \<longleftrightarrow>
     (\<forall>p \<in> set (world_payouts w). po_id p = i \<and> po_token p = Some k \<longrightarrow> po_tx p = h)"

definition no_claim_with :: "string \<Rightarrow> payout_event \<Rightarrow> bool" where
  "no_claim_with k e \<longleftrightarrow> (case e of Ev_claim k' \<Rightarrow> k' \<noteq> k | _ \<Rightarrow> True)"

lemma token_pins_update:
  assumes "\<forall>p \<in> set (rows (payouts s)). po_id p = i \<and> po_token p = Some k \<longrightarrow> po_tx p = h"
    and "\<And>p. po_id (f p) = po_id p" "\<And>p. po_token (f p) = Some k \<Longrightarrow> po_token p = Some k \<and> po_tx (f p) = po_tx p"
  shows "\<forall>p \<in> set (rows (payouts (s\<lparr>payouts := update_where P f (payouts s)\<rparr>))).
     po_id p = i \<and> po_token p = Some k \<longrightarrow> po_tx p = h"
  using assms by auto

interpretation pins: invariant_system "\<lambda>e w w'. payout_step e w w' \<and> no_claim_with k e" "token_pins k i h"
  for k i h
proof
  fix w w' e
  assume pin: "token_pins k i h w" and st: "payout_step e w w' \<and> no_claim_with k e"
  obtain t s t' s' where w: "w = (t, s)" "w' = (t', s')" by (cases w, cases w')
  have inv: "\<forall>p \<in> set (rows (payouts s)). po_id p = i \<and> po_token p = Some k \<longrightarrow> po_tx p = h"
    using pin w by (simp add: token_pins_def world_payouts_def)
  have "payouts_change t' e s s'" using payout_step_change st w by blast
  then have "\<forall>p \<in> set (rows (payouts s')). po_id p = i \<and> po_token p = Some k \<longrightarrow> po_tx p = h"
  proof (cases rule: payouts_change.cases)
    case same
    then show ?thesis using inv by simp
  next
    case added
    then show ?thesis using inv by (auto elim!: request_payoutD)
  next
    case (approved i)
    then show ?thesis
      unfolding approve_payout_def by (auto dest!: update_payoutD(1) simp: inv [rule_format])
  next
    case (submitted i h)
    from this(2) show ?thesis
      by (rule submit_payoutD) (auto dest!: update_payoutD(1) simp: inv [rule_format])
  next
    case (applied i r k)
    then show ?thesis
      unfolding apply_payout_verification_def by (auto dest!: update_payoutD(1) simp: inv [rule_format] split: if_splits)
  next
    case (claimed k' r)
    then have "k' \<noteq> k" using st by (simp add: no_claim_with_def)
    then show ?thesis
      using claimed(2) inv by (auto elim!: claim_oneD)
  next
    case (released i k)
    then show ?thesis by (auto simp: release_claim_def inv [rule_format])
  qed
  then show "token_pins k i h w'" using w by (simp add: token_pins_def world_payouts_def)
qed

lemma find_payoutD: "find_payout s i = Some p \<Longrightarrow> p \<in> set (rows (payouts s)) \<and> po_id p = i"
  using select_one_SomeD [of "\<lambda>p. po_id p = i" "payouts s" p] by (simp add: find_payout_def)

lemma claim_one_Some:
  assumes "claim_one t k s = (s1, Some row)" and wf: "wf_table po_id (payouts s)"
  obtains p where "p \<in> set (rows (payouts s))" "po_status p = Po_verifying" "elapsed (po_claimed_until p) t"
    "row = p\<lparr>po_claimed_until := Some (t + minutes 5), po_token := Some k\<rparr>"
    "find_payout s1 (po_id p) = Some row" "wf_table po_id (payouts s1)" "find_payout s (po_id p) = Some p"
  using assms(1)
proof (rule claim_oneD)
  fix p
  assume p: "p \<in> set (rows (payouts s))" "po_status p = Po_verifying" "elapsed (po_claimed_until p) t"
    and r: "Some row = find_payout s1 (po_id p)"
    and s1: "s1 = s\<lparr>payouts := update_where
          (\<lambda>q. po_id q = po_id p \<and> po_status q = Po_verifying \<and> elapsed (po_claimed_until q) t)
          (\<lambda>q. q\<lparr>po_claimed_until := Some (t + minutes 5), po_token := Some k\<rparr>) (payouts s)\<rparr>"
  have wf1: "wf_table po_id (payouts s1)" unfolding s1 using wf by (simp add: wf_table_update)
  let ?p = "p\<lparr>po_claimed_until := Some (t + minutes 5), po_token := Some k\<rparr>"
  have "?p \<in> set (rows (payouts s1))" unfolding s1 using p by force
  then have "select_one (\<lambda>x. po_id x = po_id ?p) (payouts s1) = Some ?p" by (rule wf_table_find [OF wf1])
  then have "find_payout s1 (po_id p) = Some ?p" by (simp add: find_payout_def)
  moreover have "find_payout s (po_id p) = Some p"
    unfolding find_payout_def by (rule wf_table_find [OF wf p(1)])
  ultimately show ?thesis using that [OF p] r wf1 by simp
qed simp

definition payout_claim :: "time \<Rightarrow> string \<Rightarrow> store \<Rightarrow> store \<times> int list" where
  "payout_claim now k s = (case claim_one now k s of (s', r) \<Rightarrow> (s', map po_id (case r of None \<Rightarrow> [] | Some p \<Rightarrow> [p])))"

definition payout_held_until :: "store \<Rightarrow> int \<Rightarrow> time option" where
  "payout_held_until s i = (case find_payout s i of None \<Rightarrow> None | Some p \<Rightarrow> po_claimed_until p)"

interpretation verifier: claim_lease payout_claim payout_held_until "\<lambda>s. wf_table po_id (payouts s)" "minutes 5"
proof
  show "0 < minutes 5" by (simp add: minutes_def seconds_def)
  fix s s' now k ks i
  assume wf: "wf_table po_id (payouts s)" and c: "payout_claim now k s = (s', ks)"
  obtain r where r: "claim_one now k s = (s', r)" "ks = map po_id (case r of None \<Rightarrow> [] | Some p \<Rightarrow> [p])"
    using c by (auto simp: payout_claim_def split: prod.splits)
  have *: "wf_table po_id (payouts s') \<and> (i \<in> set ks \<longrightarrow> elapsed (payout_held_until s i) now
      \<and> payout_held_until s' i = Some (now + minutes 5))"
  proof (cases r)
    case None
    have "wf_table po_id (payouts s')"
      using r(1) wf by (auto elim!: claim_oneD simp: wf_table_update)
    then show ?thesis using None r(2) by simp
  next
    case (Some row)
    obtain p where "elapsed (po_claimed_until p) now" "find_payout s (po_id p) = Some p"
      "row = p\<lparr>po_claimed_until := Some (now + minutes 5), po_token := Some k\<rparr>"
      "find_payout s' (po_id p) = Some row" "wf_table po_id (payouts s')"
      using r(1) unfolding Some by (elim claim_one_Some [OF _ wf])
    then show ?thesis by (simp add: r(2) Some payout_held_until_def)
  qed
  show "i \<in> set ks \<Longrightarrow> elapsed (payout_held_until s i) now" using * by blast
  show "i \<in> set ks \<Longrightarrow> payout_held_until s' i = Some (now + minutes 5)" using * by blast
  show "wf_table po_id (payouts s')" using * by blast
qed

end
