(* ===== verification/Payout_Properties.thy ===== *)
theory Payout_Properties
  imports Payout_System
begin

text \<open>
  The properties of the payout subsystem, and a concrete run at which they are instantiated.
\<close>

lemma steps_appendI: "steps step s es s1 \<Longrightarrow> steps step s1 fs s2 \<Longrightarrow> steps step s (es @ fs) s2"
  unfolding steps_append by blast

subsection \<open>A concrete run\<close>

text \<open>A user who has earned twelve dollars asks for ten, is approved, paid and confirmed.\<close>

definition sample_now :: time where
  "sample_now = 12000000 * 2592000"

definition sample_funded :: store where
  "sample_funded = (sample_store [sample_user 1] [])
     \<lparr>ledger := \<lparr>rows = [\<lparr>l_id = 1, l_user = 1, l_proxy = 1, l_start = 0, l_end = sample_now,
        l_micro = 12000000, l_bucket = Bk_available, l_created = sample_now\<rparr>], seq = 1\<rparr>,
      wallets := \<lparr>rows = [\<lparr>w_id = 1, w_user = 1, w_address = sample_address, w_locked_until = 0,
        w_updated = 0\<rparr>], seq = 1\<rparr>\<rparr>"

definition sample_hash :: string where
  "sample_hash = ''0x'' @ replicate 64 (CHR ''b'')"

definition from_result :: "store result \<Rightarrow> store" where
  "from_result r = (case r of Inr s \<Rightarrow> s | Inl _ \<Rightarrow> empty_store)"

definition sample_result :: verification_result where
  "sample_result = \<lparr>vr_status = ''confirmed'', vr_error = '''', vr_confirmations = 12, vr_block = Some 7\<rparr>"

definition sample_requested :: store where
  "sample_requested = (case request_payout sample_now None 1 10000000 sample_funded of
     Inr (s, _) \<Rightarrow> s | Inl _ \<Rightarrow> empty_store)"

definition sample_approved :: store where
  "sample_approved = from_result (approve_payout sample_now 1 sample_requested)"

definition sample_submitted :: store where
  "sample_submitted = from_result (mark_payout_sent sample_now 1 sample_hash sample_approved)"

definition sample_claimed :: store where
  "sample_claimed = fst (claim_one sample_now ''k'' sample_submitted)"

definition sample_confirmed :: store where
  "sample_confirmed =
     from_result (apply_payout_verification sample_now 1 sample_result (Some ''k'') sample_claimed)"

lemma from_resultI: "(case r of Inr _ \<Rightarrow> True | Inl _ \<Rightarrow> False) \<Longrightarrow> r = Inr (from_result r)"
  by (cases r) (simp_all add: from_result_def)

lemma sample_world_ok: "world_ok (sample_now, sample_funded)"
  by (simp add: world_ok_def ledger_ok_def spans_ok_def entry_ok_def apart_def cursor_ok_def wf_table_def
      payouts_ok_def sample_funded_def sample_defs sample_now_def)

lemma sample_solvent: "solvent world_available world_reserved (sample_now, sample_funded)"
  by (simp add: solvent_def world_available_def world_reserved_def available_as_bucket bucket_sum_def
      reserved_micro_def sum_where_def sample_funded_def sample_defs)

lemma sample_request: "request_payout sample_now None 1 10000000 sample_funded = Inr (sample_requested, 1)"
proof -
  have "(case request_payout sample_now None 1 10000000 sample_funded of
     Inr (s, i) \<Rightarrow> i = 1 | Inl _ \<Rightarrow> False)" by code_simp
  then show ?thesis by (auto simp: sample_requested_def split: sum.splits)
qed

lemma sample_approve: "approve_payout sample_now 1 sample_requested = Inr sample_approved"
  unfolding sample_approved_def by (rule from_resultI) code_simp

lemma sample_submit: "mark_payout_sent sample_now 1 sample_hash sample_approved = Inr sample_submitted"
  unfolding sample_submitted_def by (rule from_resultI) code_simp

lemma sample_claim:
  "claim_one sample_now ''k'' sample_submitted = (sample_claimed, Some (hd (rows (payouts sample_claimed))))"
proof -
  have "snd (claim_one sample_now ''k'' sample_submitted) = Some (hd (rows (payouts sample_claimed)))"
    by code_simp
  then show ?thesis by (simp add: sample_claimed_def prod_eq_iff)
qed

lemma sample_apply:
  "apply_payout_verification sample_now 1 sample_result (Some ''k'') sample_claimed = Inr sample_confirmed"
  unfolding sample_confirmed_def by (rule from_resultI) code_simp

definition sample_events :: "payout_event list" where
  "sample_events = [Ev_request 1 10000000 None, Ev_approve 1, Ev_submit 1 sample_hash, Ev_claim ''k'',
     Ev_apply 1 sample_result (Some ''k'')]"

lemma sample_to_submitted:
  "steps payout_step (sample_now, sample_funded)
     [Ev_request 1 10000000 None, Ev_approve 1, Ev_submit 1 sample_hash] (sample_now, sample_submitted)"
  using sample_request sample_approve sample_submit
  by (auto intro!: steps.intros intro: payout_step.intros)

lemma sample_run_confirmed: "steps payout_step (sample_now, sample_funded) sample_events (sample_now, sample_confirmed)"
proof -
  have B: "steps payout_step (sample_now, sample_submitted) [Ev_claim ''k'', Ev_apply 1 sample_result (Some ''k'')]
      (sample_now, sample_confirmed)"
    using sample_claim sample_apply by (auto intro!: steps.intros intro: payout_step.intros)
  have eq: "sample_events = [Ev_request 1 10000000 None, Ev_approve 1, Ev_submit 1 sample_hash]
      @ [Ev_claim ''k'', Ev_apply 1 sample_result (Some ''k'')]"
    by (simp add: sample_events_def)
  show ?thesis unfolding eq by (rule steps_appendI [OF sample_to_submitted B])
qed

subsection \<open>Properties\<close>

text \<open>C10. In every reachable state the payouts table is consistent: the amount lies between the
  minimum and the maximum, the fee is at most a tenth of it and fee and net add up to it, a payout
  that is being verified or confirmed has a well-formed transaction hash, and no two payouts share
  a hash.\<close>

lemma payouts_stay_consistent:
  assumes "steps payout_step w es w'" and "world_ok w"
  shows "payouts_ok (snd w')"
  using funds.steps_inv [OF assms] by (simp add: world_ok_def)

lemma payouts_stay_consistent_witness: "payouts_ok (snd (sample_now, sample_confirmed))"
  by (rule payouts_stay_consistent [OF sample_run_confirmed sample_world_ok])

text \<open>C11. No payout disappears, its terms (user, wallet, address, amount, fee, net) never change,
  and a confirmed or sent payout never changes at all.\<close>

lemma payout_confirmed_final:
  assumes "steps payout_step w es w'" and "p \<in> set (rows (payouts (snd w)))"
  shows "\<exists>p' \<in> set (rows (payouts (snd w'))). same_terms p p'
     \<and> (po_status p = Po_confirmed \<or> po_status p = Po_sent \<longrightarrow> p' = p)"
  using steps_evolve [OF assms(1), of p] assms(2) by (simp add: world_payouts_def)

lemma payout_confirmed_final_witness:
  "\<exists>p' \<in> set (rows (payouts sample_confirmed)). same_terms (hd (rows (payouts sample_requested))) p'"
proof -
  have "steps payout_step (sample_now, sample_requested) [Ev_approve 1] (sample_now, sample_approved)"
    using sample_approve by (auto intro!: steps.intros intro: payout_step.intros)
  moreover have "steps payout_step (sample_now, sample_approved) [Ev_submit 1 sample_hash] (sample_now, sample_submitted)"
    using sample_submit by (auto intro!: steps.intros intro: payout_step.intros)
  moreover have "steps payout_step (sample_now, sample_submitted) [Ev_claim ''k'', Ev_apply 1 sample_result (Some ''k'')]
      (sample_now, sample_confirmed)"
    using sample_claim sample_apply by (auto intro!: steps.intros intro: payout_step.intros)
  ultimately have run: "steps payout_step (sample_now, sample_requested) ([Ev_approve 1] @ [Ev_submit 1 sample_hash]
      @ [Ev_claim ''k'', Ev_apply 1 sample_result (Some ''k'')]) (sample_now, sample_confirmed)"
    by (blast intro: steps_appendI)
  have "rows (payouts sample_requested) \<noteq> []" by code_simp
  then show ?thesis
    using payout_confirmed_final [OF run, of "hd (rows (payouts sample_requested))"] by auto
qed

text \<open>C9. A verification result is applied to the transaction that was verified: if a worker
  claims a payout and later, after any operations in between (other workers, a new submission by an
  administrator, expired claims) that do not draw the same claim token again, the database accepts
  its result, then the payout still has the hash, the address and the amounts the worker read.\<close>

lemma payout_result_matches_claim:
  assumes claim: "claim_one t k s = (s1, Some row)" and ok: "world_ok (t, s)"
    and run: "steps payout_step (t, s1) es (t2, s2)" and tok: "list_all (no_claim_with k) es"
    and app: "apply_payout_verification t3 (po_id row) r (Some k) s2 = Inr s3"
  shows "\<exists>p \<in> set (rows (payouts s2)). po_tx p = po_tx row \<and> same_terms row p
     \<and> po_status p = Po_verifying \<and> po_token p = Some k"
proof -
  have wf: "wf_table po_id (payouts s)" using ok by (simp add: world_ok_def payouts_ok_def)
  have f1: "find_payout s1 (po_id row) = Some row" and wf1: "wf_table po_id (payouts s1)"
    by (rule claim_one_Some [OF claim wf], simp)+
  have row: "row \<in> set (world_payouts (t, s1))" using find_payoutD [OF f1] by (simp add: world_payouts_def)
  have step: "payout_step (Ev_claim k) (t, s) (t, s1)" using claim by (auto intro: payout_step.claim)
  have "payouts_ok (snd (t, s1))"
    by (rule payouts_stay_consistent [where es = "[Ev_claim k]", OF _ ok])
      (use step in \<open>simp add: steps_Cons\<close>)
  have "token_pins k (po_id row) (po_tx row) (t, s1)"
    using wf_table_unique [OF wf1] row by (auto simp: token_pins_def world_payouts_def)
  then have pins: "token_pins k (po_id row) (po_tx row) (t2, s2)"
    by (rule pins.steps_inv [OF steps_restrict [OF run tok]])
  obtain q where q: "q \<in> set (world_payouts (t2, s2))" "same_terms row q"
    using steps_evolve [OF run row] by blast
  have ok2: "world_ok (t2, s2)"
    by (rule funds.steps_inv [where s = "(t, s)" and es = "Ev_claim k # es"])
      (use step run ok in \<open>auto simp: steps_Cons\<close>)
  then have wf2: "wf_table po_id (payouts s2)" by (simp add: world_ok_def payouts_ok_def)
  obtain p where p: "p \<in> set (rows (payouts s2))" "po_id p = po_id row" "po_status p = Po_verifying" "po_token p = Some k"
    using app unfolding apply_payout_verification_def by (auto split: if_splits dest!: update_payoutD(2))
  have "p = q" using wf_table_unique [OF wf2 p(1)] q p(2) by (auto simp: world_payouts_def same_terms_def)
  then show ?thesis
    using p q pins by (auto simp: token_pins_def world_payouts_def)
qed

lemma payout_result_matches_claim_witness:
  "\<exists>p \<in> set (rows (payouts sample_claimed)). po_tx p = po_tx (hd (rows (payouts sample_claimed)))
     \<and> po_status p = Po_verifying"
proof -
  have ok: "world_ok (sample_now, sample_submitted)"
    by (rule funds.steps_inv [OF sample_to_submitted sample_world_ok])
  have i: "po_id (hd (rows (payouts sample_claimed))) = 1" by code_simp
  have none: "steps payout_step (sample_now, sample_claimed) [] (sample_now, sample_claimed)" by simp
  show ?thesis
    using payout_result_matches_claim [OF sample_claim ok none] sample_apply i by fastforce
qed

text \<open>Two verifier workers never hold the same payout: a claim lasts five minutes, and until it
  is over no claim returns that row again.\<close>

lemma payout_claims_exclusive:
  assumes "wf_table po_id (payouts s)" and "claim_one t1 a s = (s1, Some p)"
    and "claim_one t2 b s1 = (s2, Some q)" and "t2 < t1 + minutes 5"
  shows "po_id p \<noteq> po_id q"
  using verifier.claims_disjoint [of s t1 a s1 "[po_id p]" t2 b s2 "[po_id q]"] assms
  by (auto simp: payout_claim_def)

lemma payout_claims_exclusive_witness:
  "\<exists>s s1 s2 p q. claim_one 1000000 ''a'' s = (s1, Some p) \<and> claim_one 1000000 ''b'' s1 = (s2, Some q)
     \<and> po_id p \<noteq> po_id q"
proof -
  let ?p = "\<lambda>i. (hd (rows (payouts sample_submitted)))\<lparr>po_id := i, po_next := None\<rparr>"
  let ?s = "sample_funded\<lparr>payouts := \<lparr>rows = [?p 1, ?p 2], seq = 2\<rparr>\<rparr>"
  let ?c1 = "claim_one 1000000 ''a'' ?s"
  let ?c2 = "claim_one 1000000 ''b'' (fst ?c1)"
  have wf: "wf_table po_id (payouts ?s)" by (simp add: wf_table_def)
  have "snd ?c1 \<noteq> None" "snd ?c2 \<noteq> None" by code_simp+
  then have c: "?c1 = (fst ?c1, Some (the (snd ?c1)))" "?c2 = (fst ?c2, Some (the (snd ?c2)))"
    by (simp_all add: prod_eq_iff)
  have "po_id (the (snd ?c1)) \<noteq> po_id (the (snd ?c2))"
    by (rule payout_claims_exclusive [OF wf c]) (simp add: minutes_def seconds_def)
  then show ?thesis using c by blast
qed

lemma minus_div_mono:
  fixes a b n :: int
  assumes "a \<le> b" and "0 < n"
  shows "a - a div n \<le> b - b div n"
proof -
  have "(b - a) * 1 \<le> (b - a) * n" using assms by (intro mult_left_mono) auto
  then have "b div n \<le> (a + (b - a) * n) div n" using assms by (intro zdiv_mono1) auto
  also have "\<dots> = (b - a) + a div n" using assms by simp
  finally show ?thesis by simp
qed

text \<open>The quote: fee and net add up to the amount, the fee is at most ten percent, and asking
  for more never pays out less, also across the threshold of the lower fee.\<close>

lemma quote_payout_fair:
  assumes "quote_payout a = Inr q" and "quote_payout b = Inr r" and "a \<le> b"
  shows "q_net q + q_fee q = a \<and> 0 \<le> q_fee q \<and> 10 * q_fee q \<le> a \<and> q_net q \<le> q_net r"
proof -
  have net: "q_net q = a - a * (if 50000000 \<le> a then 200 else 1000) div 10000"
    "q_net r = b - b * (if 50000000 \<le> b then 200 else 1000) div 10000"
    using assms(1,2) by (auto simp: quote_payout_def Let_def split: if_splits)
  have "a - a div 50 \<le> b - b div 50" "a - a div 10 \<le> b - b div 10"
    using assms(3) by (simp_all add: minus_div_mono)
  moreover have "a div 50 \<le> a div 10" using quote_payoutD(5) [OF assms(1)] by (simp add: zdiv_mono2)
  ultimately have "q_net q \<le> q_net r"
    unfolding net using assms(3) by (simp split: if_splits)
  then show ?thesis using quote_payoutD [OF assms(1)] by simp
qed

lemma quote_payout_fair_witness:
  "q_net \<lparr>q_amount = 49999999, q_fee_bps = 1000, q_fee = 4999999, q_net = 45000000\<rparr>
     \<le> q_net \<lparr>q_amount = 50000000, q_fee_bps = 200, q_fee = 1000000, q_net = 49000000\<rparr>"
  using quote_payout_fair [of 49999999 "\<lparr>q_amount = 49999999, q_fee_bps = 1000, q_fee = 4999999, q_net = 45000000\<rparr>"
      50000000 "\<lparr>q_amount = 50000000, q_fee_bps = 200, q_fee = 1000000, q_net = 49000000\<rparr>"]
  by (simp add: quote_payout_def)

end
