(* ===== verification/Program.thy ===== *)
theory Program
  imports Check_Properties Payout_Properties
begin

text \<open>
  The program as one transition system: the operations of the payout subsystem and of the proxy
  fleet, in any order, over one database and one clock. An operation that raises is rolled back and
  is no step.
\<close>

datatype fleet_event =
    Fl_add int string "int option"
  | Fl_import int "string list" "int option" int
  | Fl_replace time int int string
  | Fl_archive time int int
  | Fl_health time int health_result
  | Fl_earnapp time int earnapp_result
  | Fl_claim_health string "int option" "int option"
  | Fl_claim_earnapp string int
  | Fl_release_health "(int \<times> string option) list"
  | Fl_release_earnapp "(int \<times> string option) list"
  | Fl_promote int
  | Fl_archive_dead time

fun fleet_run ::
  "(string \<Rightarrow> string) \<Rightarrow> (string \<Rightarrow> string) \<Rightarrow> fleet_event \<Rightarrow> time \<Rightarrow> store \<Rightarrow> store result" where
  "fleet_run unq sha (Fl_add u x m) t s = bindR (add_proxy unq sha t u x m s) (\<lambda>(s', i). Inr s')"
| "fleet_run unq sha (Fl_import u xs m k) t s = bindR (bulk_add_proxies unq sha t u xs m k s) (\<lambda>(s', r). Inr s')"
| "fleet_run unq sha (Fl_replace w i u x) t s = replace_proxy unq sha w t i u x s"
| "fleet_run unq sha (Fl_archive w i u) t s = archive_proxy w t i u s"
| "fleet_run unq sha (Fl_health w i r) t s = apply_health_result_locked w t i r s"
| "fleet_run unq sha (Fl_earnapp w i r) t s = apply_earnapp_result_locked w t i r s"
| "fleet_run unq sha (Fl_claim_health k l h) t s = Inr (fst (claim_due_proxies t k l h s))"
| "fleet_run unq sha (Fl_claim_earnapp k l) t s = Inr (fst (claim_due_earnapp t k l s))"
| "fleet_run unq sha (Fl_release_health cs) t s = Inr (fst (release_health_claims t cs s))"
| "fleet_run unq sha (Fl_release_earnapp cs) t s = Inr (fst (release_earnapp_claims t cs s))"
| "fleet_run unq sha (Fl_promote i) t s = bindR (promote_duplicate_if_due t i s) (\<lambda>(s', k). Inr s')"
| "fleet_run unq sha (Fl_archive_dead w) t s = bindR (archive_due_dead_proxies w t s) (\<lambda>(s', n). Inr s')"

inductive program_step ::
  "(string \<Rightarrow> string) \<Rightarrow> (string \<Rightarrow> string) \<Rightarrow> payout_event + fleet_event \<Rightarrow> world \<Rightarrow> world \<Rightarrow> bool"
  for unq sha where
  payout: "payout_step e w w' \<Longrightarrow> program_step unq sha (Inl e) w w'"
| fleet: "t \<le> t' \<Longrightarrow> fleet_run unq sha e t' s = Inr s' \<Longrightarrow> program_step unq sha (Inr e) (t, s) (t', s')"

inductive_cases program_stepE: "program_step unq sha e w w'"

definition program_ok :: "world \<Rightarrow> bool" where
  "program_ok w \<longleftrightarrow> fleet_ok (fst w) (snd w) \<and> payouts_ok (snd w)"

subsection \<open>Every operation of the fleet keeps the fleet consistent\<close>

lemma fleet_ok_columns:
  assumes "fleet_ok t s" and "\<And>p. link_view (f p) = link_view p" "\<And>p. p_cursor (f p) = p_cursor p"
  shows "fleet_ok t (s\<lparr>proxies := update_where P f (proxies s)\<rparr>)"
proof -
  have id: "p_id (f p) = p_id p" for p using assms(2) [of p] by (simp add: link_view_def)
  show ?thesis
    by (rule fleet_ok_same_links [OF assms(1) same_links_update], simp, rule assms(2),
        rule ledger_ok_frame [OF fleet_okD(1) [OF assms(1)]])
      (use fleet_okD(5) [OF assms(1)] in \<open>simp_all add: map_if_key id assms(3)\<close>)
qed

lemma claim_health_fleet:
  assumes "claim_due_proxies t k l h s = (s', ps)" and "fleet_ok t s"
  shows "fleet_ok t s'"
  using assms(1)
  by (rule claim_due_proxies_cases)
    (use assms(2) in \<open>simp_all add: fleet_ok_columns link_view_def\<close>)

lemma claim_earnapp_fleet:
  assumes "claim_due_earnapp t k l s = (s', ps)" and "fleet_ok t s"
  shows "fleet_ok t s'"
  using assms(1)
  by (rule claim_due_earnapp_cases)
    (use assms(2) in \<open>simp_all add: fleet_ok_columns link_view_def\<close>)

lemma release_health_fleet: "fleet_ok t s \<Longrightarrow> fleet_ok t (fst (release_health_claims n cs s))"
proof (induction n cs s rule: release_health_claims.induct)
  case (2 now i tok claims s)
  have "fleet_ok t (s\<lparr>proxies := update_where (\<lambda>p. p_id p = i \<and> p_check_token p = Some (or_empty tok))
            (\<lambda>p. p\<lparr>p_next_check := Some now, p_check_claimed_until := None, p_check_token := None\<rparr>) (proxies s)\<rparr>)"
    by (rule fleet_ok_columns [OF 2(2)]) (simp_all add: link_view_def)
  then show ?case using 2(1) [OF refl refl] by (auto simp: Let_def split: prod.splits)
qed simp

lemma release_earnapp_fleet: "fleet_ok t s \<Longrightarrow> fleet_ok t (fst (release_earnapp_claims n cs s))"
proof (induction n cs s rule: release_earnapp_claims.induct)
  case (2 now i tok claims s)
  have "fleet_ok t (s\<lparr>proxies := update_where (\<lambda>p. p_id p = i \<and> p_earn_token p = Some (or_empty tok))
            (\<lambda>p. p\<lparr>p_earn_next := Some now, p_earn_claimed_until := None, p_earn_token := None\<rparr>) (proxies s)\<rparr>)"
    by (rule fleet_ok_columns [OF 2(2)]) (simp_all add: link_view_def)
  then show ?case using 2(1) [OF refl refl] by (auto simp: Let_def split: prod.splits)
qed simp

lemma fleet_run_keeps:
  assumes run: "fleet_run unq sha e t' s = Inr s'" and ok: "fleet_ok t s" and le: "t \<le> t'"
  shows "fleet_ok t' s'"
proof -
  have ok': "fleet_ok t' s" by (rule fleet_ok_later [OF ok le])
  show ?thesis
    using run
    by (cases e)
      (use ok ok' le in \<open>auto simp: bindR_Inr_iff release_health_fleet release_earnapp_fleet fleet_ok_later
        intro: add_keeps bulk_keeps replace_keeps apply_health_keeps apply_earnapp_keeps promote_keeps archive_due_keeps
          claim_health_fleet claim_earnapp_fleet prod.collapse [symmetric] dest: archive_keeps\<close>)
qed

subsection \<open>The fleet never touches payouts and never takes unlocked money away\<close>

definition funds_kept :: "store \<Rightarrow> store \<Rightarrow> bool" where
  "funds_kept s s' \<longleftrightarrow> payouts s' = payouts s
     \<and> (\<forall>u. bucket_sum (\<lambda>l. l_user l = u) Bk_available s \<le> bucket_sum (\<lambda>l. l_user l = u) Bk_available s')"

lemma funds_kept_refl [simp]: "funds_kept s s"
  by (simp add: funds_kept_def)

lemma funds_kept_trans: "funds_kept a b \<Longrightarrow> funds_kept b c \<Longrightarrow> funds_kept a c"
  by (force simp: funds_kept_def intro: order_trans)

lemma funds_kept_same: "payouts s' = payouts s \<Longrightarrow> ledger s' = ledger s \<Longrightarrow> funds_kept s s'"
  by (simp add: funds_kept_def bucket_sum_def)

lemma funds_expire: "expire_pending_cycle i s = Inr s' \<Longrightarrow> funds_kept s s'"
proof -
  assume e: "expire_pending_cycle i s = Inr s'"
  have "reset_probation i 0 s = Inr (update_proxy i (\<lambda>p. p\<lparr>p_probation := Some 0, p_cursor := Some 0\<rparr>) s')"
    using e by (simp add: reset_probation_def)
  from reset_available [OF this] have "bucket_sum (\<lambda>l. l_user l = u) Bk_available s' = bucket_sum (\<lambda>l. l_user l = u) Bk_available s" for u
    by (simp add: available_as_bucket bucket_sum_def)
  then show ?thesis using e by (simp add: funds_kept_def expire_pending_cycle_def rebucket_frame)
qed

lemma funds_reset: "(if b then reset_probation i t s else Inr s) = Inr s' \<Longrightarrow> funds_kept s s'"
proof (cases b)
  case True
  assume "(if b then reset_probation i t s else Inr s) = Inr s'"
  then have r: "reset_probation i t s = Inr s'" using True by simp
  then show ?thesis
    using reset_available [OF r] reset_probation_frame(1) [OF r] by (simp add: funds_kept_def available_as_bucket)
qed simp

lemma funds_accrue: "(if b then accrue_proxy_time i t s else Inr s) = Inr s' \<Longrightarrow> ledger_ok t s \<Longrightarrow> funds_kept s s'"
  by (cases b) (auto simp: funds_kept_def accrue_proxy_time_def accrue_available_mono accrue_locked_frame)

lemma funds_canonicalize:
  assumes "canonicalize_exit_group wall ip pr excl s = Inr s'"
  shows "funds_kept s s'"
proof (cases "exit_group s ip excl = []")
  case True
  then show ?thesis using assms by (simp add: canonicalize_exit_group_def)
next
  case False
  let ?c = "p_id (canonical_row wall pr (exit_group s ip excl))"
  obtain s1 where s1: "foldR (\<lambda>t p. expire_pending_cycle (p_id p) t) s (filter (\<lambda>p. p_id p \<noteq> ?c) (exit_group s ip excl)) = Inr s1"
    and s': "ledger s' = ledger s1" "payouts s' = payouts s1"
    using assms False by (auto simp: canonicalize_exit_group_def Let_def bindR_Inr_iff)
  have "funds_kept s s1"
    by (rule foldR_relation [OF s1]) (auto intro: funds_kept_trans funds_expire)
  then show ?thesis using funds_kept_trans funds_kept_same [OF s'(2,1)] by blast
qed

lemma funds_reconcile: "(if b then reconcile_exit_ip wall i ip src s else Inr s) = Inr s' \<Longrightarrow> funds_kept s s'"
proof (cases b)
  case True
  assume "(if b then reconcile_exit_ip wall i ip src s else Inr s) = Inr s'"
  then have "reconcile_exit_ip wall i ip src s = Inr s'" using True by simp
  then show ?thesis
  proof (cases rule: reconcile_exit_cases)
    case (moved a x s1 s2 s3)
    have "funds_kept s s1" "funds_kept s3 s'" by (simp_all add: moved(3,6) funds_kept_same)
    moreover have "s3 = s2 \<or> funds_kept s2 s3" using moved(5) funds_canonicalize by (simp split: if_split_asm)
    ultimately show ?thesis using funds_canonicalize [OF moved(4)] funds_kept_trans by (metis funds_kept_refl)
  qed simp
qed simp

lemma funds_promote:
  assumes "promote_duplicate_if_due t i s = Inr (s', w)"
  shows "funds_kept s s'"
  using assms
proof (cases rule: promote_cases)
  case (promoted c k s1)
  note promoted(10) [THEN reset_probation_frame(1)]
  have "funds_kept s s1" by (rule funds_expire [OF promoted(9)])
  also have "funds_kept s1 s'"
    using funds_kept_trans [OF funds_kept_same funds_reset [where b = True, simplified, OF promoted(10)]] by simp
  finally (funds_kept_trans) show ?thesis .
qed simp

lemma funds_left:
  assumes "(if b then canonicalize_exit_group wall ip pr excl s else Inr s) = Inr s1" "expire_pending_cycle i s1 = Inr s2"
  shows "funds_kept s s2"
proof -
  have "s1 = s \<or> funds_kept s s1" using assms(1) funds_canonicalize by (simp split: if_split_asm)
  then show ?thesis using funds_expire [OF assms(2)] funds_kept_trans by blast
qed

lemma funds_replace:
  assumes run: "replace_proxy unq sha w t i u x s = Inr s'"
  shows "funds_kept s s'"
proof -
  obtain q where q: "parse_proxy unq x = Inr q"
    using run by (cases "parse_proxy unq x") (simp_all add: replace_proxy_def)
  obtain e where e: "owned_active s i u = Some e"
    using run q by (cases "owned_active s i u") (simp_all add: replace_proxy_def)
  obtain s1 s2 where "(if or_empty (p_exit_ip e) \<noteq> '''' then canonicalize_exit_group w (or_empty (p_exit_ip e)) False (Some i) s
             else Inr s) = Inr s1" "expire_pending_cycle i s1 = Inr s2" "payouts s' = payouts s2" "ledger s' = ledger s2"
    using run q e by (auto simp: replace_proxy_def Let_def bindR_Inr_iff split: if_split_asm)
  then show ?thesis using funds_left funds_kept_same funds_kept_trans by blast
qed

lemma funds_archive:
  assumes run: "archive_proxy w t i u s = Inr s'"
  shows "funds_kept s s'"
proof -
  obtain e where e: "owned_active s i u = Some e" using run by (auto simp: archive_proxy_def split: option.splits)
  obtain s1 s2 where "(if or_empty (p_exit_ip e) \<noteq> '''' then canonicalize_exit_group w (or_empty (p_exit_ip e)) False (Some i) s
             else Inr s) = Inr s1" "expire_pending_cycle i s1 = Inr s2" "payouts s' = payouts s2" "ledger s' = ledger s2"
    using run e by (auto simp: archive_proxy_def Let_def bindR_Inr_iff)
  then show ?thesis using funds_left funds_kept_same funds_kept_trans by blast
qed

lemma funds_update: "funds_kept s (update_proxy i f s)"
  by (rule funds_kept_same) simp_all

lemma funds_health:
  assumes run: "apply_health_result_locked w t i r s = Inr s'" and ok: "ledger_ok t s"
  shows "funds_kept s s'"
proof (cases "find_proxy s i")
  case None
  then show ?thesis using run by (simp add: apply_health_result_locked_def)
next
  case (Some p)
  have live: "funds_kept s s'" if l: "live_result w t i r p s = Inr s'"
  proof -
    let ?f = "live_row t (checker_settings s) r p" and ?b = "broken_continuity t (health_stale_minutes (checker_settings s)) r p"
    obtain s1 s2 where s1: "(if ?b \<and> earning_eligible (p_eligibility p) then accrue_proxy_time i t s else Inr s) = Inr s1"
      and s2: "(if ?b then reset_probation i t s1 else Inr s1) = Inr s2"
      and s3: "(if trusted_ip r \<noteq> '''' then reconcile_exit_ip w i (trusted_ip r) At_https_quorum (update_proxy i ?f s2)
          else Inr (update_proxy i ?f s2)) = Inr s'"
      using l unfolding live_result_def Let_def bindR_Inr_iff by blast
    show ?thesis
      by (rule funds_kept_trans [OF funds_kept_trans [OF funds_accrue [OF s1 ok] funds_reset [OF s2]]
            funds_kept_trans [OF funds_update funds_reconcile [OF s3]]])
  qed
  have blocked: "funds_kept s s'" if b: "blocked_result t i r p s = Inr s'"
  proof -
    obtain s1 s2 where s1: "(if earning_eligible (p_eligibility p) then accrue_proxy_time i t s else Inr s) = Inr s1"
      and s2: "(if True then reset_probation i t s1 else Inr s1) = Inr s2" and s3: "s' = update_proxy i (blocked_row t (checker_settings s) r p) s2"
      using b by (auto simp: blocked_result_def bindR_Inr_iff)
    show ?thesis unfolding s3 by (rule funds_kept_trans [OF funds_kept_trans [OF funds_accrue [OF s1 ok] funds_reset [OF s2]] funds_update])
  qed
  have failed: "funds_kept s s'" if b: "failed_result t i r p s = Inr s'"
  proof -
    let ?f = "failed_row t (checker_settings s) r p"
    obtain s1 where s1: "(if 3 \<le> p_failures p + 1 \<and> earning_eligible (p_eligibility p) \<and> up p then accrue_proxy_time i t s else Inr s) = Inr s1"
      and s2: "(if 3 \<le> p_failures p + 1 then reset_probation i t (update_proxy i ?f s1) else Inr (update_proxy i ?f s1)) = Inr s'"
      using b unfolding failed_result_def Let_def bindR_Inr_iff by blast
    show ?thesis by (rule funds_kept_trans [OF funds_kept_trans [OF funds_accrue [OF s1 ok] funds_update] funds_reset [OF s2]])
  qed
  show ?thesis
    by (cases "signal_for r p") (use apply_health_signal [OF run Some] live blocked failed funds_update in auto)
qed

lemma funds_earnapp:
  assumes run: "apply_earnapp_result_locked w t i r s = Inr s'" and ok: "ledger_ok t s"
  shows "funds_kept s s'"
  using run
proof (cases rule: apply_earnapp_cases)
  case (applied p s1 s2 s3)
  show ?thesis unfolding applied(7)
    by (rule funds_kept_trans [OF funds_kept_trans [OF funds_accrue [OF applied(4) ok] funds_reset [OF applied(5)]]
          funds_kept_trans [OF funds_reconcile [OF applied(6)] funds_update]])
qed simp

lemma triggers_payouts [simp]:
  "payouts (foldl (\<lambda>t p. egress_conflict_trigger w (p_exit_ip p) (p_exit_ip p) t) s ps) = payouts s"
  by (induction ps arbitrary: s) simp_all

lemma funds_archive_dead:
  assumes "archive_due_dead_proxies w t s = Inr (s', n)"
  shows "funds_kept s s'"
proof -
  obtain s1 where s1: "foldR (\<lambda>x p. bindR (promote_duplicate_if_due t (p_id p) x) (\<lambda>(x', w). Inr x')) s
      (select_where (dead_since (t - hours 24)) (proxies s)) = Inr s1"
    and s': "payouts s' = payouts s1" "ledger s' = ledger s1"
    using assms by (auto simp: archive_due_dead_proxies_def Let_def bindR_Inr_iff)
  have "funds_kept s s1"
    by (rule foldR_relation [OF s1]) (auto simp: bindR_Inr_iff intro: funds_kept_trans funds_promote)
  then show ?thesis using funds_kept_same [OF s'] funds_kept_trans by blast
qed

lemma funds_import:
  "import_rows t u q a seen ps r s = Inr (s', r') \<Longrightarrow> funds_kept s s'"
proof (induction t u q a seen ps r s rule: import_rows.induct)
  case (2 now uid quota act seen n p fp rest r s)
  have "funds_kept s (insert_proxy now uid p fp s)" by (rule funds_kept_same) (simp_all add: insert_proxy_def)
  then show ?case using 2 by (auto split: if_splits dest: funds_kept_trans)
qed simp

lemma funds_claims:
  "funds_kept s (fst (claim_due_proxies t k l h s))" "funds_kept s (fst (claim_due_earnapp t k l' s))"
  by (auto simp: claim_due_proxies_def claim_due_earnapp_def Let_def intro: funds_kept_same)

lemma funds_release:
  "funds_kept s (fst (release_health_claims t cs s))" "funds_kept s (fst (release_earnapp_claims t cs s))"
proof -
  have "payouts (fst (release_health_claims t cs s)) = payouts s \<and> ledger (fst (release_health_claims t cs s)) = ledger s"
    by (induction t cs s rule: release_health_claims.induct) (auto simp: Let_def split: prod.splits)
  then show "funds_kept s (fst (release_health_claims t cs s))" by (simp add: funds_kept_same)
  have "payouts (fst (release_earnapp_claims t cs s)) = payouts s \<and> ledger (fst (release_earnapp_claims t cs s)) = ledger s"
    by (induction t cs s rule: release_earnapp_claims.induct) (auto simp: Let_def split: prod.splits)
  then show "funds_kept s (fst (release_earnapp_claims t cs s))" by (simp add: funds_kept_same)
qed

lemma fleet_run_funds:
  assumes "fleet_run unq sha e t s = Inr s'" and "ledger_ok t s"
  shows "funds_kept s s'"
proof (cases e)
  case (Fl_add u x m)
  then obtain i where "add_proxy unq sha t u x m s = Inr (s', i)" using assms(1) by (auto simp: bindR_Inr_iff)
  then show ?thesis by (rule add_proxy_cases) (simp add: funds_kept_same insert_proxy_def)
next
  case (Fl_import u xs m k)
  then obtain r where "bulk_add_proxies unq sha t u xs m k s = Inr (s', r)" using assms(1) by (auto simp: bindR_Inr_iff)
  then show ?thesis by (rule bulk_cases) (rule funds_import)
qed (use assms in \<open>auto simp: bindR_Inr_iff funds_claims funds_release
      intro: funds_replace funds_archive funds_health funds_earnapp funds_promote funds_archive_dead\<close>)

subsection \<open>The whole program\<close>

lemma payout_step_links:
  assumes "payout_step e (t, s) (t', s')"
  shows "same_links s s'"
  using assms
  by (cases rule: payout_step.cases)
    (auto simp: mark_payout_sent_def release_claim_def intro: same_links_proxies cursors_only_links accrue_locked_cursors_only reset_same_links
      dest: payout_op_frame set_wallet_frame)

interpretation program: reservation_system "program_step unq sha" program_ok world_available world_reserved for unq sha
proof
  fix w w' :: world and e
  assume ok: "program_ok w" and st: "program_step unq sha e w w'"
  obtain t s t' s' where w: "w = (t, s)" "w' = (t', s')" by (cases w, cases w')
  have f: "fleet_ok t s" and p: "payouts_ok s" using ok by (simp_all add: w program_ok_def)
  have wok: "world_ok w" using f p by (simp add: w world_ok_def fleet_okD)
  have "program_ok w' \<and> (\<forall>u. world_available w u \<le> world_available w' u)
     \<and> (\<forall>u. world_reserved w' u \<le> world_reserved w u \<or> world_reserved w' u \<le> world_available w u)"
    using st
  proof (cases rule: program_step.cases)
    case (payout e0)
    note st' = payout(2)
    have "world_ok w'" by (rule funds.inv_step [OF wok st'])
    moreover have "same_links s s'" using payout_step_links st' w by simp
    ultimately have "program_ok w'"
      using fleet_ok_same_links [OF f] w by (simp add: program_ok_def world_ok_def)
    then show ?thesis using funds.funds_keep [OF wok st'] funds.reserve_guard [OF wok st'] by blast
  next
    case (fleet t1 t2 e0 s1 s2)
    then have r: "fleet_run unq sha e0 t' s = Inr s'" "t \<le> t'" using w by simp_all
    have k: "funds_kept s s'" by (rule fleet_run_funds [OF r(1) ledger_ok_later [OF fleet_okD(1) [OF f] r(2)]])
    then have "program_ok w'" using fleet_run_keeps [OF r(1) f r(2)] p w by (simp add: program_ok_def funds_kept_def payouts_ok_def)
    moreover have "world_available w u \<le> world_available w' u" for u
      using k w by (simp add: world_available_def available_as_bucket funds_kept_def)
    moreover have "world_reserved w' u = world_reserved w u" for u
      using k w by (simp add: world_reserved_def reserved_micro_def funds_kept_def)
    ultimately show ?thesis by simp
  qed
  then show "program_ok w'" "\<And>u. world_available w u \<le> world_available w' u"
    "\<And>u. world_reserved w' u \<le> world_reserved w u \<or> world_reserved w' u \<le> world_available w u" by blast+
qed

lemma lift_payout_steps: "steps payout_step w es w' \<Longrightarrow> steps (program_step unq sha) w (map Inl es) w'"
  by (induction rule: steps.induct) (auto intro: steps.intros program_step.payout)

text \<open>C1. Solvency of the whole program: whatever users, administrators, checkers, verifier workers and
  maintenance runs do, in any order - adding, replacing, archiving and importing proxies, health and
  EarnApp results, promotions, accrual, payouts, wallet changes - what a user has asked for
  (requested, approved, being verified, confirmed or sent) never exceeds what the user has earned and
  unlocked. A failed payout gives its amount back and takes it again only if the balance covers it.\<close>

lemma program_solvency:
  assumes "steps (program_step unq sha) w es w'" and "program_ok w" and "solvent world_available world_reserved w"
  shows "solvent world_available world_reserved w'"
  by (rule program.steps_solvent [OF assms])

text \<open>C2. In every reachable state the active attested proxies behind one egress address have one
  distributor: two of them that are no duplicates are the same proxy.\<close>

lemma one_distributor_per_address:
  assumes "steps (program_step unq sha) w es w'" and "program_ok w"
    and "p \<in> set (rows (proxies (snd w')))" "active p" "trusted p" "p_duplicate_of p = None" "exit_key p \<noteq> ''''"
    and "q \<in> set (rows (proxies (snd w')))" "active q" "trusted q" "p_duplicate_of q = None" "exit_key q = exit_key p"
  shows "p = q"
proof -
  have ok: "fleet_ok (fst w') (snd w')" using program.steps_inv [OF assms(1,2)] by (simp add: program_ok_def)
  have "pair_ok p q" using fleet_okD(2) [OF ok] assms(3,8) by (simp add: links_ok_def links_on_def)
  then have "root p = root q" using pair_okD(6) [of p q] assms(4,5,7,9,10,12) by simp
  then have "p_id p = p_id q" using assms(6,11) by (simp add: root_def)
  then show ?thesis using wf_table_unique [OF fleet_okD(4) [OF ok] assms(3,8)] by simp
qed


subsection \<open>A concrete run\<close>

text \<open>The payout run of \<open>Payout_Properties\<close>, then a new proxy of the same user.\<close>

definition sample_grown :: store where
  "sample_grown = result_store (fleet_run plain plain (Fl_add 1 ''5.6.7.8:80'' (Some 10)) sample_now sample_confirmed)"

lemma sample_grown_run: "fleet_run plain plain (Fl_add 1 ''5.6.7.8:80'' (Some 10)) sample_now sample_confirmed = Inr sample_grown"
proof -
  have "is_ok (fleet_run plain plain (Fl_add 1 ''5.6.7.8:80'' (Some 10)) sample_now sample_confirmed)" by code_simp
  then show ?thesis unfolding sample_grown_def by (rule is_okD)
qed

lemma sample_program_ok: "program_ok (sample_now, sample_funded)"
  using sample_world_ok
  by (simp add: program_ok_def world_ok_def fleet_ok_def links_ok_def links_on_def targets_ok_def fingerprints_ok_def
      sample_funded_def sample_defs)

lemma sample_program_run:
  "\<exists>es. steps (program_step plain plain) (sample_now, sample_funded) es (sample_now, sample_grown)"
proof -
  obtain es where "steps payout_step (sample_now, sample_funded) es (sample_now, sample_confirmed)"
    using sample_run_confirmed by blast
  note a = lift_payout_steps [OF this, of plain plain]
  have b: "steps (program_step plain plain) (sample_now, sample_confirmed) [Inr (Fl_add 1 ''5.6.7.8:80'' (Some 10))] (sample_now, sample_grown)"
    unfolding steps_Cons steps_Nil using program_step.fleet [OF order_refl sample_grown_run] by blast
  have "steps (program_step plain plain) (sample_now, sample_funded)
      (map Inl es @ [Inr (Fl_add 1 ''5.6.7.8:80'' (Some 10))]) (sample_now, sample_grown)"
    unfolding steps_append by (rule exI conjI a b)+
  then show ?thesis by (rule exI)
qed

lemma program_solvency_witness: "solvent world_available world_reserved (sample_now, sample_grown)"
  using sample_program_run program_solvency [OF _ sample_program_ok sample_solvent] by blast


lemma sample_group_ok: "program_ok (hours 30, sample_group)"
  by (simp add: program_ok_def fleet_ok_def ledger_ok_def wf_table_def spans_ok_def cursor_ok_def spans_end_def links_ok_def links_on_def
      targets_ok_def fingerprints_ok_def pair_ok_def active_def root_def trusted_def exit_key_def payouts_ok_def sample_group_def sample_defs
      eval_nat_numeral)

lemma sample_group_run:
  "\<exists>s'. steps (program_step plain plain) (hours 30, sample_group) [Inr (Fl_promote 1)] (hours 30, s')
     \<and> promote_duplicate_if_due (hours 30) 1 sample_group = Inr (s', Some 2)"
proof -
  obtain s' where run: "promote_duplicate_if_due (hours 30) 1 sample_group = Inr (s', Some 2)"
    using sample_promote by (auto split: sum.splits prod.splits)
  have "fleet_run plain plain (Fl_promote 1) (hours 30) sample_group = Inr s'" by (simp add: run)
  from program_step.fleet [OF order_refl this] show ?thesis unfolding steps_Cons steps_Nil using run by blast
qed

lemma one_distributor_per_address_witness:
  "\<exists>s'. promote_duplicate_if_due (hours 30) 1 sample_group = Inr (s', Some 2)
     \<and> (\<forall>q \<in> set (rows (proxies s')). active q \<and> trusted q \<and> p_duplicate_of q = None \<and> exit_key q = ''9.9.9.9'' \<longrightarrow> p_id q = 2)"
proof -
  obtain s' where run: "steps (program_step plain plain) (hours 30, sample_group) [Inr (Fl_promote 1)] (hours 30, s')"
    "promote_duplicate_if_due (hours 30) 1 sample_group = Inr (s', Some 2)" using sample_group_run by blast
  have "(case promote_duplicate_if_due (hours 30) 1 sample_group of Inr (s, w) \<Rightarrow>
      list_ex (\<lambda>p. p_id p = 2 \<and> active p \<and> trusted p \<and> p_duplicate_of p = None \<and> exit_key p = ''9.9.9.9'') (rows (proxies s)) | Inl _ \<Rightarrow> False)"
    by code_simp
  then obtain p where "p \<in> set (rows (proxies s'))" "p_id p = 2" "active p" "trusted p" "p_duplicate_of p = None" "exit_key p = ''9.9.9.9''"
    by (auto simp: run(2) list_ex_iff)
  then have "p_id q = 2" if "q \<in> set (rows (proxies s'))" "active q" "trusted q" "p_duplicate_of q = None" "exit_key q = ''9.9.9.9''" for q
    using one_distributor_per_address [OF run(1) sample_group_ok, of p q] that by (simp only: snd_conv) blast
  then show ?thesis using run(2) by blast
qed

end
