(* ===== verification/Online_Time.thy ===== *)
theory Online_Time
  imports Accrual
begin

text \<open>
  \<open>earning_online_seconds_for_proxies\<close> of \<open>app/services/earnings.py\<close>: the seconds of confirmed
  earning time shown for a proxy, from the merged intervals of its ledger and the running interval.
  A set of half-open intervals is measured by the number of microseconds it covers.
\<close>

type_synonym span = "time \<times> time"

text \<open>The loop over \<open>sorted(intervals)\<close>; \<open>merged[-1]\<close> is carried along.\<close>

fun merge_from :: "span \<Rightarrow> span list \<Rightarrow> span list" where
  "merge_from (a, b) [] = [(a, b)]"
| "merge_from (a, b) ((c, d) # xs) =
     (if c \<le> b then merge_from (a, max b d) xs else (a, b) # merge_from (c, d) xs)"

definition merge_spans :: "span list \<Rightarrow> span list" where
  "merge_spans xs = (case sort xs of [] \<Rightarrow> [] | x # r \<Rightarrow> merge_from x r)"

definition span_seconds :: "span list \<Rightarrow> int" where
  "span_seconds xs = sum_list (map (\<lambda>(a, b). whole_seconds (b - a)) xs)"

text \<open>The ledger intervals of one proxy, of its current credential, clipped at the present.\<close>

definition ledger_intervals :: "time \<Rightarrow> time \<Rightarrow> store \<Rightarrow> int \<Rightarrow> span list" where
  "ledger_intervals current cred s i =
     filter (\<lambda>(a, b). a < b)
       (map (\<lambda>l. (min current (l_start l), min current (l_end l)))
         (select_where (\<lambda>l. l_proxy l = i \<and> (l_bucket l = Bk_pending \<or> l_bucket l = Bk_available)
            \<and> cred \<le> l_start l) (ledger s)))"

definition latest_end :: "span list \<Rightarrow> time option" where
  "latest_end merged = (if merged = [] then None else Some (snd (last merged)))"

text \<open>The running interval of a row that passes the guards of the last loop.\<close>

definition running_start :: "proxy_row \<Rightarrow> time option \<Rightarrow> time \<Rightarrow> time \<Rightarrow> time" where
  "running_start p ledger_end cursor online =
     (let base = (case p_probation p of None \<Rightarrow> max online cursor | Some t \<Rightarrow> max (max online cursor) t)
      in max base (case ledger_end of None \<Rightarrow> cursor | Some e \<Rightarrow> e))"

definition online_step ::
  "time \<Rightarrow> int \<Rightarrow> (int \<Rightarrow> span list) \<Rightarrow> (int \<Rightarrow> int option) \<Rightarrow> proxy_row \<Rightarrow> (int \<Rightarrow> int option)" where
  "online_step current stale merged totals p =
     (if \<not> earning_eligible (p_eligibility p) then totals(p_id p \<mapsto> 0)
      else if p_duplicate_of p \<noteq> None then totals(p_id p \<mapsto> 0)
      else if \<not> trusted p \<or> strip (or_empty (p_exit_ip p)) = '''' then totals(p_id p \<mapsto> 0)
      else if p_status p \<noteq> Px_online \<and> p_status p \<noteq> Px_suspect then totals
      else case (p_cursor p, p_last_success p, p_online_since p) of
        (Some cursor, Some last_success, Some online) \<Rightarrow>
          (let current_end = min current (last_success + minutes (max 0 stale));
               start = running_start p (latest_end (merged (p_id p))) cursor online
           in if start < current_end
              then totals(p_id p \<mapsto> (case totals (p_id p) of None \<Rightarrow> 0 | Some n \<Rightarrow> n)
                                     + whole_seconds (current_end - start))
              else totals)
      | _ \<Rightarrow> totals)"

text \<open>The dictionary of credential starts: a later row of the same id wins.\<close>

definition credential_start :: "proxy_row list \<Rightarrow> int \<Rightarrow> time" where
  "credential_start ps i = (case List.find (\<lambda>p. p_id p = i) (rev ps) of None \<Rightarrow> 0 | Some p \<Rightarrow> p_cred_started p)"

definition earning_online_seconds_for_proxies ::
  "store \<Rightarrow> proxy_row list \<Rightarrow> time \<Rightarrow> int \<Rightarrow> (int \<Rightarrow> int option)" where
  "earning_online_seconds_for_proxies s ps current stale =
     (let merged = (\<lambda>i. merge_spans (ledger_intervals current (credential_start ps i) s i));
          totals = (\<lambda>i. if i \<in> p_id ` set ps then Some (span_seconds (merged i)) else None)
      in foldl (online_step current stale merged) totals ps)"

subsection \<open>Merging\<close>

definition covered :: "span list \<Rightarrow> time set" where
  "covered xs = (\<Union>(a, b) \<in> set xs. {a..<b})"

lemma covered_simps [simp]: "covered [] = {}" "covered ((a, b) # xs) = {a..<b} \<union> covered xs"
  "covered (xs @ ys) = covered xs \<union> covered ys"
  by (auto simp: covered_def)

lemma covered_set: "set xs = set ys \<Longrightarrow> covered xs = covered ys"
  by (simp add: covered_def)

lemma finite_covered [simp]: "finite (covered xs)"
  by (auto simp: covered_def)

text \<open>Separated intervals, in order.\<close>

fun separated :: "span list \<Rightarrow> bool" where
  "separated [] = True"
| "separated [(a, b)] = (a < b)"
| "separated ((a, b) # (c, d) # xs) = (a < b \<and> b < c \<and> separated ((c, d) # xs))"

lemma merge_from_shape: "\<exists>e ys. merge_from (a, b) xs = (a, e) # ys \<and> b \<le> e"
proof (induction "(a, b)" xs arbitrary: a b rule: merge_from.induct)
  case (2 a b c d xs)
  then show ?case by (cases "c \<le> b") auto
qed simp

lemma merge_from_covered:
  assumes "sorted (map fst ((a, b) # xs))" and "a < b" and "\<forall>(c, d) \<in> set xs. c < d"
  shows "covered (merge_from (a, b) xs) = {a..<b} \<union> covered xs"
  using assms
proof (induction "(a, b)" xs arbitrary: a b rule: merge_from.induct)
  case (1 a b)
  then show ?case by simp
next
  case (2 a b c d xs)
  show ?case
  proof (cases "c \<le> b")
    case True
    then have "covered (merge_from (a, max b d) xs) = {a..<max b d} \<union> covered xs"
      using 2(3-5) by (intro 2(1)) auto
    moreover have "{a..<max b d} = {a..<b} \<union> {c..<d}" using True 2(3) by auto
    ultimately show ?thesis using True by (simp add: Un_assoc)
  next
    case False
    then have "covered (merge_from (c, d) xs) = {c..<d} \<union> covered xs"
      using 2(3-5) by (intro 2(2)) auto
    then show ?thesis using False by simp
  qed
qed

lemma merge_from_separated:
  assumes "a < b" and "\<forall>(c, d) \<in> set xs. c < d"
  shows "separated (merge_from (a, b) xs)"
  using assms
proof (induction "(a, b)" xs arbitrary: a b rule: merge_from.induct)
  case (1 a b)
  then show ?case by simp
next
  case (2 a b c d xs)
  show ?case
  proof (cases "c \<le> b")
    case True
    then show ?thesis using 2 by (auto simp: less_max_iff_disj)
  next
    case False
    then have "separated (merge_from (c, d) xs)" using 2(3,4) by (intro 2(2)) auto
    then show ?thesis using False 2(3) merge_from_shape [of c d xs] by auto
  qed
qed

lemma separated_last: "separated xs \<Longrightarrow> xs \<noteq> [] \<Longrightarrow> fst (hd xs) \<le> snd (last xs)"
  by (induction xs rule: separated.induct) auto

lemma merge_from_latest:
  "(x, y) \<in> set ((a, b) # xs) \<Longrightarrow> separated (merge_from (a, b) xs) \<Longrightarrow> y \<le> snd (last (merge_from (a, b) xs))"
proof (induction "(a, b)" xs arbitrary: a b x y rule: merge_from.induct)
  case (1 a b)
  then show ?case by simp
next
  case (2 a b c d xs)
  show ?case
  proof (cases "c \<le> b")
    case True
    have "max b d \<le> snd (last (merge_from (a, max b d) xs))"
      using 2(1) [OF True, of a "max b d"] 2(4) True by simp
    moreover have "y \<le> snd (last (merge_from (a, max b d) xs))" if "(x, y) \<in> set xs"
      using 2(1) [OF True, of x y] 2(4) True that by simp
    ultimately show ?thesis using 2(3) True by auto
  next
    case False
    obtain e ys where ys: "merge_from (c, d) xs = (c, e) # ys" "d \<le> e" using merge_from_shape by blast
    have sep: "separated (merge_from (c, d) xs)" "b < c" using 2(4) False ys by auto
    have "snd (last (merge_from (c, d) xs)) \<ge> d" using 2(2) [OF False, of c d] sep by simp
    moreover have "c < e" using sep ys by (cases ys) auto
    moreover have "c \<le> snd (last (merge_from (c, d) xs))"
      using separated_last [of "merge_from (c, d) xs"] sep ys by simp
    moreover have "y \<le> snd (last (merge_from (c, d) xs))" if "(x, y) \<in> set ((c, d) # xs)"
      using 2(2) [OF False that] sep by simp
    ultimately show ?thesis using 2(3) False sep ys by auto
  qed
qed

lemma separated_ge: "separated xs \<Longrightarrow> t \<in> covered xs \<Longrightarrow> fst (hd xs) \<le> t"
  by (induction xs rule: separated.induct) auto

lemma separated_measure:
  "separated xs \<Longrightarrow> sum_list (map (\<lambda>(a, b). b - a) xs) = int (card (covered xs))"
proof (induction xs rule: separated.induct)
  case (3 a b c d xs)
  have sum: "sum_list (map (\<lambda>(a, b). b - a) ((c, d) # xs)) = int (card (covered ((c, d) # xs)))"
    using 3 by simp
  have "b \<le> t" if "t \<in> covered ((c, d) # xs)" for t
    using separated_ge [OF _ that] 3(2) by simp
  then have "card ({a..<b} \<union> covered ((c, d) # xs)) = card {a..<b} + card (covered ((c, d) # xs))"
    by (intro card_Un_disjoint) (fastforce simp del: covered_simps(2))+
  then show ?case
    using sum 3(2) by (simp del: covered_simps(2) add: covered_simps(2) [of a b])
qed auto

lemma merge_spans_spec:
  assumes "\<forall>(a, b) \<in> set xs. a < b"
  shows "covered (merge_spans xs) = covered xs" "separated (merge_spans xs)"
    "xs \<noteq> [] \<Longrightarrow> \<forall>(a, b) \<in> set xs. b \<le> snd (last (merge_spans xs))"
    "merge_spans xs = [] \<longleftrightarrow> xs = []"
proof -
  have *: "covered (merge_spans xs) = covered xs \<and> separated (merge_spans xs)
    \<and> (xs \<noteq> [] \<longrightarrow> (\<forall>(a, b) \<in> set xs. b \<le> snd (last (merge_spans xs)))) \<and> (merge_spans xs = [] \<longleftrightarrow> xs = [])"
  proof (cases "sort xs")
    case Nil
    then have "xs = []" by (metis set_sort set_empty)
    then show ?thesis by (simp add: merge_spans_def)
  next
    case (Cons x r)
    obtain a b where x: "x = (a, b)" by (cases x)
    have "sorted (x # r)" using Cons by (metis sorted_sort)
    then have s: "sorted (map fst (x # r))"
      unfolding sorted_map by (rule sorted_wrt_mono_rel [rotated]) (auto simp: less_eq_prod_def)
    have set: "set xs = set (x # r)" using Cons by (metis set_sort)
    then have lt: "a < b" "\<forall>(c, d) \<in> set r. c < d" using assms x by auto
    note m = merge_from_covered [OF s [unfolded x] lt] merge_from_separated [OF lt]
    have "covered xs = {a..<b} \<union> covered r" using covered_set [OF set] x by simp
    moreover have "\<forall>(c, d) \<in> set xs. d \<le> snd (last (merge_from x r))"
      using merge_from_latest [OF _ m(2)] unfolding set x by blast
    moreover have "merge_from x r \<noteq> []" using merge_from_shape [of a b r] x by auto
    moreover have "xs \<noteq> []" using set by auto
    ultimately show ?thesis
      using Cons m x by (simp add: merge_spans_def)
  qed
  then show "covered (merge_spans xs) = covered xs" "separated (merge_spans xs)"
    "xs \<noteq> [] \<Longrightarrow> \<forall>(a, b) \<in> set xs. b \<le> snd (last (merge_spans xs))"
    "merge_spans xs = [] \<longleftrightarrow> xs = []" by blast+
qed

subsection \<open>What is counted\<close>

lemma span_seconds_le:
  "separated xs \<Longrightarrow> 0 \<le> span_seconds xs \<and> span_seconds xs * 1000000 \<le> sum_list (map (\<lambda>(a, b). b - a) xs)"
proof (induction xs rule: separated.induct)
  case (3 a b c d xs)
  then show ?case using whole_seconds_le [of "b - a"] by (simp add: span_seconds_def)
qed (use whole_seconds_le in \<open>auto simp: span_seconds_def\<close>)

definition counts :: "proxy_row \<Rightarrow> bool" where
  "counts p \<longleftrightarrow> earning_eligible (p_eligibility p) \<and> p_duplicate_of p = None \<and> trusted p
     \<and> strip (or_empty (p_exit_ip p)) \<noteq> ''''"

definition running_time :: "time \<Rightarrow> int \<Rightarrow> span list \<Rightarrow> proxy_row \<Rightarrow> span option" where
  "running_time current stale merged p =
     (if p_status p \<noteq> Px_online \<and> p_status p \<noteq> Px_suspect then None
      else case (p_cursor p, p_last_success p, p_online_since p) of
        (Some cursor, Some last_success, Some online) \<Rightarrow>
          (let e = min current (last_success + minutes (max 0 stale));
               b = running_start p (latest_end merged) cursor online
           in if b < e then Some (b, e) else None)
      | _ \<Rightarrow> None)"

definition counted :: "store \<Rightarrow> time \<Rightarrow> int \<Rightarrow> proxy_row \<Rightarrow> span list" where
  "counted s current stale p =
     (let xs = ledger_intervals current (p_cred_started p) s (p_id p)
      in case running_time current stale (merge_spans xs) p of None \<Rightarrow> xs | Some i \<Rightarrow> i # xs)"

lemma online_step_at:
  "online_step current stale merged totals p (p_id p) =
     (if \<not> counts p then Some 0
      else case running_time current stale (merged (p_id p)) p of
        None \<Rightarrow> totals (p_id p)
      | Some (b, e) \<Rightarrow> Some ((case totals (p_id p) of None \<Rightarrow> 0 | Some n \<Rightarrow> n) + whole_seconds (e - b)))"
  by (auto simp: online_step_def counts_def running_time_def Let_def split: option.splits)

lemma online_step_other: "i \<noteq> p_id p \<Longrightarrow> online_step current stale merged totals p i = totals i"
  by (auto simp: online_step_def Let_def split: option.splits)

lemma online_fold_other:
  "i \<notin> p_id ` set ps \<Longrightarrow> foldl (online_step current stale merged) totals ps i = totals i"
  by (induction ps arbitrary: totals) (auto simp: online_step_other)

lemma online_step_cong:
  "totals (p_id p) = totals' (p_id p) \<Longrightarrow>
     online_step c st m totals p (p_id p) = online_step c st m totals' p (p_id p)"
  by (simp add: online_step_at split: option.splits)

lemma online_fold_at:
  "distinct (map p_id ps) \<Longrightarrow> p \<in> set ps \<Longrightarrow>
     foldl (online_step c st m) totals ps (p_id p) = online_step c st m totals p (p_id p)"
proof (induction ps arbitrary: totals)
  case Nil
  then show ?case by simp
next
  case (Cons q ps)
  show ?case
  proof (cases "q = p")
    case True
    then show ?thesis using Cons.prems(1) by (simp add: online_fold_other)
  next
    case False
    then have "p \<in> set ps" "p_id p \<noteq> p_id q" using Cons.prems by (auto simp: image_iff)
    then have "online_step c st m (online_step c st m totals q) p (p_id p) = online_step c st m totals p (p_id p)"
      by (intro online_step_cong) (simp add: online_step_other)
    then show ?thesis using Cons \<open>p \<in> set ps\<close> by simp
  qed
qed

lemma credential_start_distinct:
  assumes "distinct (map p_id ps)" and "p \<in> set ps"
  shows "credential_start ps (p_id p) = p_cred_started p"
proof -
  have "wf_table p_id \<lparr>rows = rev ps, seq = Max (p_id ` set ps)\<rparr>"
    using assms by (simp add: wf_table_def rev_map [symmetric])
  from wf_table_find [OF this, of p] assms show ?thesis
    by (simp add: credential_start_def select_one_def)
qed

lemma ledger_intervals_ok: "\<forall>(a, b) \<in> set (ledger_intervals current cred s i). a < b"
  by (auto simp: ledger_intervals_def)

lemma running_time_after:
  assumes "running_time current stale (merge_spans xs) p = Some (b, e)" and xs: "\<forall>(a, b) \<in> set xs. a < b"
  shows "b < e" "{b..<e} \<inter> covered xs = {}"
proof -
  show "b < e" using assms(1) by (auto simp: running_time_def Let_def split: if_splits option.splits)
  have "y \<le> b" if "(x, y) \<in> set xs" for x y
  proof -
    have "merge_spans xs \<noteq> []" "y \<le> snd (last (merge_spans xs))"
      using merge_spans_spec(3,4) [OF xs] that by fastforce+
    then show ?thesis
      using assms(1) by (auto simp: running_time_def running_start_def latest_end_def Let_def
          split: if_splits option.splits)
  qed
  then show "{b..<e} \<inter> covered xs = {}" by (fastforce simp: covered_def)
qed



end
