(* ===== verification/Payout_Check.thy ===== *)
theory Payout_Check
  imports Payouts
begin

text \<open>
  \<open>verify_bsc_payout\<close> of \<open>app/services/payout_verification.py\<close>: the independent check of a payout
  transaction over JSON-RPC. The RPC endpoint is the parameter \<open>call\<close>: it answers a method with a
  JSON value or raises one of the exceptions that the function catches, of which only the text is
  kept. A dictionary is its list of items, with distinct keys; a float is its \<open>repr\<close>.
\<close>

datatype json =
    J_null
  | J_bool bool
  | J_int int
  | J_float string
  | J_text string
  | J_list "json list"
  | J_object "(string \<times> json) list"

type_synonym 'a caught = "string + 'a"

definition j_get :: "(string \<times> json) list \<Rightarrow> string \<Rightarrow> json" where
  "j_get d k = (case map_of d k of None \<Rightarrow> J_null | Some v \<Rightarrow> v)"

text \<open>
  \<open>str(value or "")\<close>. The \<open>repr\<close> of a list or dictionary is cut down to its brackets: the patterns
  it is matched against start with a digit.
\<close>

fun text_or_empty :: "json \<Rightarrow> string" where
  "text_or_empty J_null = ''''"
| "text_or_empty (J_bool b) = (if b then ''True'' else '''')"
| "text_or_empty (J_int n) = (if n = 0 then '''' else show_int n)"
| "text_or_empty (J_float r) = (if r = ''0.0'' \<or> r = ''-0.0'' then '''' else r)"
| "text_or_empty (J_text t) = t"
| "text_or_empty (J_list xs) = (if xs = [] then '''' else ''[]'')"
| "text_or_empty (J_object d) = (if d = [] then '''' else ''{}'')"

text \<open>\<open>str(topics[0])\<close>, as above.\<close>

fun py_str :: "json \<Rightarrow> string" where
  "py_str J_null = ''None''"
| "py_str (J_bool b) = (if b then ''True'' else ''False'')"
| "py_str (J_int n) = show_int n"
| "py_str (J_float r) = r"
| "py_str (J_text t) = t"
| "py_str (J_list xs) = ''[]''"
| "py_str (J_object d) = ''{}''"

text \<open>Iterating over \<open>value or []\<close>: a dictionary gives its keys, a text its characters.\<close>

fun items_or_empty :: "json \<Rightarrow> json list caught" where
  "items_or_empty J_null = Inr []"
| "items_or_empty (J_bool b) = (if b then Inl (CHR 0x27 # ''bool' object is not iterable'') else Inr [])"
| "items_or_empty (J_int n) = (if n = 0 then Inr [] else Inl (CHR 0x27 # ''int' object is not iterable''))"
| "items_or_empty (J_float r) =
     (if r = ''0.0'' \<or> r = ''-0.0'' then Inr [] else Inl (CHR 0x27 # ''float' object is not iterable''))"
| "items_or_empty (J_text t) = Inr (map (\<lambda>c. J_text [c]) t)"
| "items_or_empty (J_list xs) = Inr xs"
| "items_or_empty (J_object d) = Inr (map (J_text \<circ> fst) d)"

definition normalize_address :: "string \<Rightarrow> string \<Rightarrow> string caught" where
  "normalize_address v label =
     (let t = lower (strip v) in
      if is_address t then Inr t else Inl (label @ '' must be a valid EVM address''))"

fun parse_quantity :: "json \<Rightarrow> string \<Rightarrow> int caught" where
  "parse_quantity (J_text v) label =
     (if \<not> starts_with ''0x'' v then Inl (''RPC returned an invalid '' @ label)
      else case py_int16 v of
        None \<Rightarrow> Inl (''RPC returned an invalid '' @ label)
      | Some n \<Rightarrow> if n < 0 then Inl (''RPC returned an invalid '' @ label) else Inr n)"
| "parse_quantity _ label = Inl (''RPC returned an invalid '' @ label)"

definition topic_to_address :: "json \<Rightarrow> string option" where
  "topic_to_address v =
     (let t = lower (text_or_empty v) in
      if length t = 66 \<and> take 2 t = ''0x'' \<and> list_all is_hex (drop 2 t)
      then (let a = ''0x'' @ drop 26 t in if is_address a then Some a else None)
      else None)"

definition transfer_topic :: string where
  "transfer_topic = ''0xddf252ad1be2c89b69c2b068fc378daa952ba7f163c4a11628f55a4df523b3ef''"

text \<open>One round of the loop over the logs.\<close>

datatype log_match = No_match | Contract_match | Recipient_match | Full_match

definition log_matches :: "string \<Rightarrow> string \<Rightarrow> int \<Rightarrow> json \<Rightarrow> log_match" where
  "log_matches contract destination expected entry =
     (case entry of
        J_object d \<Rightarrow>
          (case normalize_address (text_or_empty (j_get d ''address'')) ''Log contract'' of
             Inl _ \<Rightarrow> No_match
           | Inr c \<Rightarrow>
               if c \<noteq> contract then No_match
               else (case j_get d ''topics'' of
                 J_list topics \<Rightarrow>
                   if length topics < 3 \<or> lower (py_str (topics ! 0)) \<noteq> transfer_topic then Contract_match
                   else if topic_to_address (topics ! 2) \<noteq> Some destination then Contract_match
                   else (case parse_quantity (j_get d ''data'') ''transfer amount'' of
                           Inl _ \<Rightarrow> Recipient_match
                         | Inr amount \<Rightarrow> if amount = expected then Full_match else Recipient_match)
               | _ \<Rightarrow> Contract_match))
      | _ \<Rightarrow> No_match)"

text \<open>The loop with its flags \<open>matching_contract\<close> and \<open>matching_recipient\<close>; \<open>None\<close> is the early return.\<close>

fun scan_logs :: "string \<Rightarrow> string \<Rightarrow> int \<Rightarrow> bool \<Rightarrow> bool \<Rightarrow> json list \<Rightarrow> (bool \<times> bool) option" where
  "scan_logs c d e mc mr [] = Some (mc, mr)"
| "scan_logs c d e mc mr (x # xs) =
     (case log_matches c d e x of
        No_match \<Rightarrow> scan_logs c d e mc mr xs
      | Contract_match \<Rightarrow> scan_logs c d e True mr xs
      | Recipient_match \<Rightarrow> scan_logs c d e True True xs
      | Full_match \<Rightarrow> None)"

definition expected_units :: "payout_row \<Rightarrow> int \<Rightarrow> int" where
  "expected_units p decimals =
     (let micro = (if po_net p \<le> 0 then po_amount p else po_net p)
      in micro * 10 ^ nat decimals div 1000000)"

text \<open>The verdict on a receipt whose quantities have been read.\<close>

definition receipt_verdict ::
  "int \<Rightarrow> int \<Rightarrow> string \<Rightarrow> string \<Rightarrow> int \<Rightarrow> json \<Rightarrow> int \<Rightarrow> int \<Rightarrow> verification_result caught" where
  "receipt_verdict status confirmations destination contract expected logs_json required block =
     (let res = (\<lambda>st err. \<lparr>vr_status = st, vr_error = err, vr_confirmations = confirmations, vr_block = Some block\<rparr>)
      in if status \<noteq> 1 then Inr (res ''failed'' ''Transaction reverted on-chain'')
         else if confirmations < required
         then Inr (res ''pending'' (''Waiting for '' @ show_int required @ '' confirmations''))
         else bindR (items_or_empty logs_json) (\<lambda>logs.
           case scan_logs contract destination expected False False logs of
             None \<Rightarrow> Inr (res ''confirmed'' '''')
           | Some (mc, mr) \<Rightarrow> Inr (res ''failed''
               (if \<not> mc then ''Transaction has no transfer from the configured USDT contract''
                else if \<not> mr then ''USDT transfer recipient does not match the payout wallet''
                else ''USDT transfer amount does not match the approved payout''))))"

definition check_receipt ::
  "(string \<Rightarrow> json list \<Rightarrow> json caught) \<Rightarrow> payout_row \<Rightarrow> string \<Rightarrow> string \<Rightarrow> int \<Rightarrow> int
     \<Rightarrow> (string \<times> json) list \<Rightarrow> verification_result caught" where
  "check_receipt call p destination contract decimals required d =
     bindR (parse_quantity (j_get d ''status'') ''receipt status'') (\<lambda>status.
     bindR (parse_quantity (j_get d ''blockNumber'') ''receipt block'') (\<lambda>block.
     bindR (call ''eth_blockNumber'' []) (\<lambda>head.
     bindR (parse_quantity head ''current block'') (\<lambda>current.
       receipt_verdict status (max 0 (current - block + 1)) destination contract
         (expected_units p decimals) (j_get d ''logs'') required block))))"

definition pending_result :: "string \<Rightarrow> verification_result" where
  "pending_result e = \<lparr>vr_status = ''pending'', vr_error = e, vr_confirmations = 0, vr_block = None\<rparr>"

definition exn_text :: "'a result \<Rightarrow> 'a caught" where
  "exn_text r = (case r of Inr x \<Rightarrow> Inr x | Inl (ValueError m) \<Rightarrow> Inl m | Inl _ \<Rightarrow> Inl '''')"

definition read_receipt ::
  "(string \<Rightarrow> json list \<Rightarrow> json caught) \<Rightarrow> payout_row \<Rightarrow> string \<Rightarrow> string \<Rightarrow> int \<Rightarrow> int
     \<Rightarrow> json \<Rightarrow> verification_result caught" where
  "read_receipt call p destination contract decimals required receipt =
     (case receipt of
        J_null \<Rightarrow> Inr (pending_result ''Transaction receipt is not available yet'')
      | J_object d \<Rightarrow> check_receipt call p destination contract decimals required d
      | _ \<Rightarrow> Inr (pending_result ''RPC returned an invalid receipt''))"

definition check_chain ::
  "(string \<Rightarrow> json list \<Rightarrow> json caught) \<Rightarrow> payout_row \<Rightarrow> string \<Rightarrow> string \<Rightarrow> string \<Rightarrow> int \<Rightarrow> int
     \<Rightarrow> verification_result caught" where
  "check_chain call p tx destination contract decimals required =
     bindR (call ''eth_chainId'' []) (\<lambda>chain.
     bindR (parse_quantity chain ''chain id'') (\<lambda>chain_id.
       if chain_id \<noteq> 56 then Inr (pending_result ''RPC endpoint is not BNB Smart Chain'')
       else bindR (call ''eth_getTransactionReceipt'' [J_text tx])
              (read_receipt call p destination contract decimals required)))"

definition verify_bsc_payout ::
  "(string \<Rightarrow> json list \<Rightarrow> json caught) \<Rightarrow> string \<Rightarrow> int \<Rightarrow> int \<Rightarrow> payout_row \<Rightarrow> verification_result" where
  "verify_bsc_payout call token_contract token_decimals min_confirmations p =
     (case
        bindR (exn_text (normalize_tx_hash (po_tx p))) (\<lambda>tx.
        bindR (normalize_address (po_address p) ''Payout wallet'') (\<lambda>destination.
        bindR (normalize_address token_contract ''USDT contract'') (\<lambda>contract.
          if token_decimals < 0 \<or> 36 < token_decimals
          then Inl ''Token decimals are outside the supported range''
          else check_chain call p tx destination contract token_decimals (clamp 1 1000 min_confirmations))))
      of Inr r \<Rightarrow> r
       | Inl e \<Rightarrow> pending_result (take 500 e))"

subsection \<open>Facts\<close>

lemma scan_logs_None:
  "scan_logs c d e mc mr xs = None \<longleftrightarrow> (\<exists>x \<in> set xs. log_matches c d e x = Full_match)"
  by (induction xs arbitrary: mc mr) (auto split: log_match.splits)

lemma scan_logs_Some:
  "scan_logs c d e mc mr xs = Some (mc', mr') \<Longrightarrow>
     mc' = (mc \<or> (\<exists>x \<in> set xs. log_matches c d e x \<noteq> No_match))
     \<and> mr' = (mr \<or> (\<exists>x \<in> set xs. log_matches c d e x = Recipient_match))"
  by (induction xs arbitrary: mc mr) (auto split: log_match.splits)

lemma log_matches_Full:
  "log_matches c d e x = Full_match \<longleftrightarrow> (\<exists>o1 topics. x = J_object o1
     \<and> normalize_address (text_or_empty (j_get o1 ''address'')) ''Log contract'' = Inr c
     \<and> j_get o1 ''topics'' = J_list topics \<and> 3 \<le> length topics
     \<and> lower (py_str (topics ! 0)) = transfer_topic \<and> topic_to_address (topics ! 2) = Some d
     \<and> parse_quantity (j_get o1 ''data'') ''transfer amount'' = Inr e)"
  by (auto simp: log_matches_def split: json.splits sum.splits if_splits)

text \<open>What the chain must show: a mined, successful, deep enough transaction that transfers exactly
  the payout's units of the configured token to the payout's wallet.\<close>

definition paid_on_chain ::
  "(string \<Rightarrow> json list \<Rightarrow> json caught) \<Rightarrow> string \<Rightarrow> int \<Rightarrow> int \<Rightarrow> payout_row \<Rightarrow> bool" where
  "paid_on_chain call token decimals min_conf p \<longleftrightarrow>
     (\<exists>tx wallet contract chain d block head current logs x.
        normalize_tx_hash (po_tx p) = Inr tx
      \<and> normalize_address (po_address p) ''Payout wallet'' = Inr wallet
      \<and> normalize_address token ''USDT contract'' = Inr contract
      \<and> 0 \<le> decimals \<and> decimals \<le> 36
      \<and> call ''eth_chainId'' [] = Inr chain \<and> parse_quantity chain ''chain id'' = Inr 56
      \<and> call ''eth_getTransactionReceipt'' [J_text tx] = Inr (J_object d)
      \<and> parse_quantity (j_get d ''status'') ''receipt status'' = Inr 1
      \<and> parse_quantity (j_get d ''blockNumber'') ''receipt block'' = Inr block
      \<and> call ''eth_blockNumber'' [] = Inr head \<and> parse_quantity head ''current block'' = Inr current
      \<and> clamp 1 1000 min_conf \<le> current - block + 1
      \<and> items_or_empty (j_get d ''logs'') = Inr logs \<and> x \<in> set logs
      \<and> log_matches contract wallet (expected_units p decimals) x = Full_match)"

lemma exn_text_iff: "exn_text (normalize_tx_hash h) = Inr v \<longleftrightarrow> normalize_tx_hash h = Inr v"
  by (simp add: exn_text_def normalize_tx_hash_def Let_def)

lemma pending_result_status [simp]: "vr_status (pending_result e) = ''pending''"
  by (simp add: pending_result_def)

lemma status_texts [simp]:
  "''failed'' \<noteq> ''confirmed''" "''pending'' \<noteq> ''confirmed''" "''pending'' \<noteq> ''failed''"
  "''confirmed'' \<noteq> ''failed''" "''confirmed'' \<noteq> ''pending''" "''failed'' \<noteq> ''pending''"
  by simp_all

lemma receipt_verdict_cases:
  assumes "receipt_verdict status conf w c ex lj required block = Inr r"
  obtains (reverted) "status \<noteq> 1" "vr_status r = ''failed''"
  | (young) "status = 1" "conf < required" "vr_status r = ''pending''"
  | (paid) logs x where "status = 1" "required \<le> conf" "items_or_empty lj = Inr logs" "x \<in> set logs"
      "log_matches c w ex x = Full_match" "vr_status r = ''confirmed''"
  | (unpaid) logs where "status = 1" "required \<le> conf" "items_or_empty lj = Inr logs"
      "\<forall>x \<in> set logs. log_matches c w ex x \<noteq> Full_match" "vr_status r = ''failed''"
      "vr_confirmations r = conf"
proof (cases "status = 1 \<and> required \<le> conf")
  case False
  then show ?thesis using assms reverted young by (auto simp: receipt_verdict_def Let_def split: if_splits)
next
  case True
  then obtain logs where logs: "items_or_empty lj = Inr logs"
    using assms by (auto simp: receipt_verdict_def Let_def bindR_Inr_iff)
  show ?thesis
  proof (cases "scan_logs c w ex False False logs")
    case None
    then obtain x where "x \<in> set logs" "log_matches c w ex x = Full_match" by (auto simp: scan_logs_None)
    then show ?thesis
      using paid [OF _ _ logs] assms True logs None by (auto simp: receipt_verdict_def Let_def)
  next
    case (Some mm)
    then have "\<forall>x \<in> set logs. log_matches c w ex x \<noteq> Full_match"
      using scan_logs_None [of c w ex False False logs] by auto
    then show ?thesis
      using unpaid [OF _ _ logs] assms True logs Some by (auto simp: receipt_verdict_def Let_def split: prod.splits)
  qed
qed

lemma receipt_verdict_paid:
  assumes "required \<le> conf" "items_or_empty lj = Inr logs" "x \<in> set logs" "log_matches c w ex x = Full_match"
  shows "\<exists>r. receipt_verdict 1 conf w c ex lj required block = Inr r \<and> vr_status r = ''confirmed''"
proof -
  have "scan_logs c w ex False False logs = None" using assms by (auto simp: scan_logs_None)
  then show ?thesis using assms by (simp add: receipt_verdict_def Let_def)
qed

lemma check_receiptD:
  assumes "check_receipt call p w c dec required d = Inr r"
  obtains status block head current where
    "parse_quantity (j_get d ''status'') ''receipt status'' = Inr status"
    "parse_quantity (j_get d ''blockNumber'') ''receipt block'' = Inr block"
    "call ''eth_blockNumber'' [] = Inr head" "parse_quantity head ''current block'' = Inr current"
    "receipt_verdict status (max 0 (current - block + 1)) w c (expected_units p dec) (j_get d ''logs'') required block
       = Inr r"
  using assms unfolding check_receipt_def bindR_Inr_iff by blast

lemma verify_result_cases:
  obtains (pending) e where "verify_bsc_payout call token decimals min_conf p = pending_result e"
  | (checked) tx wallet contract chain d where
      "normalize_tx_hash (po_tx p) = Inr tx"
      "normalize_address (po_address p) ''Payout wallet'' = Inr wallet"
      "normalize_address token ''USDT contract'' = Inr contract" "0 \<le> decimals" "decimals \<le> 36"
      "call ''eth_chainId'' [] = Inr chain" "parse_quantity chain ''chain id'' = Inr 56"
      "call ''eth_getTransactionReceipt'' [J_text tx] = Inr (J_object d)"
      "check_receipt call p wallet contract decimals (clamp 1 1000 min_conf) d
         = Inr (verify_bsc_payout call token decimals min_conf p)"
proof -
  let ?v = "verify_bsc_payout call token decimals min_conf p"
  let ?req = "clamp 1 1000 min_conf"
  let ?m = "bindR (exn_text (normalize_tx_hash (po_tx p))) (\<lambda>tx.
     bindR (normalize_address (po_address p) ''Payout wallet'') (\<lambda>w.
     bindR (normalize_address token ''USDT contract'') (\<lambda>c.
       if decimals < 0 \<or> 36 < decimals then Inl ''Token decimals are outside the supported range''
       else check_chain call p tx w c decimals ?req)))"
  have v: "?v = (case ?m of Inr r \<Rightarrow> r | Inl e \<Rightarrow> pending_result (take 500 e))"
    unfolding verify_bsc_payout_def ..
  show ?thesis
  proof (cases ?m)
    case (Inl e)
    then show ?thesis using v pending by simp
  next
    case (Inr r)
    then obtain tx w c where m: "normalize_tx_hash (po_tx p) = Inr tx"
      "normalize_address (po_address p) ''Payout wallet'' = Inr w"
      "normalize_address token ''USDT contract'' = Inr c"
      "(if decimals < 0 \<or> 36 < decimals then Inl ''Token decimals are outside the supported range''
       else check_chain call p tx w c decimals ?req) = Inr r"
      unfolding bindR_Inr_iff exn_text_iff by blast
    have vr: "?v = r" using v Inr by simp
    have dec: "0 \<le> decimals" "decimals \<le> 36" and ck: "check_chain call p tx w c decimals ?req = Inr r"
      using m(4) by (auto split: if_splits)
    from ck obtain chain id where ch: "call ''eth_chainId'' [] = Inr chain"
      "parse_quantity chain ''chain id'' = Inr id"
      "(if id \<noteq> 56 then Inr (pending_result ''RPC endpoint is not BNB Smart Chain'')
        else bindR (call ''eth_getTransactionReceipt'' [J_text tx]) (read_receipt call p w c decimals ?req)) = Inr r"
      unfolding check_chain_def bindR_Inr_iff by blast
    show ?thesis
    proof (cases "id = 56")
      case False
      then show ?thesis using ch(3) vr pending by auto
    next
      case True
      then obtain receipt where rc: "call ''eth_getTransactionReceipt'' [J_text tx] = Inr receipt"
        "read_receipt call p w c decimals ?req receipt = Inr r"
        using ch(3) by (auto simp: bindR_Inr_iff)
      then show ?thesis
        using checked [OF m(1-3) dec ch(1)] ch(2) True vr pending by (cases receipt) (auto simp: read_receipt_def)
    qed
  qed
qed

lemma confirmed_iff_paid:
  "vr_status (verify_bsc_payout call token decimals min_conf p) = ''confirmed''
     \<longleftrightarrow> paid_on_chain call token decimals min_conf p"
proof
  assume conf: "vr_status (verify_bsc_payout call token decimals min_conf p) = ''confirmed''"
  show "paid_on_chain call token decimals min_conf p"
  proof (rule verify_result_cases [of call token decimals min_conf p])
    fix tx w c chain d
    assume h: "normalize_tx_hash (po_tx p) = Inr tx"
      "normalize_address (po_address p) ''Payout wallet'' = Inr w"
      "normalize_address token ''USDT contract'' = Inr c" "0 \<le> decimals" "decimals \<le> 36"
      "call ''eth_chainId'' [] = Inr chain" "parse_quantity chain ''chain id'' = Inr 56"
      "call ''eth_getTransactionReceipt'' [J_text tx] = Inr (J_object d)"
      and ck: "check_receipt call p w c decimals (clamp 1 1000 min_conf) d
         = Inr (verify_bsc_payout call token decimals min_conf p)"
    from ck obtain status block head current where q:
      "parse_quantity (j_get d ''status'') ''receipt status'' = Inr status"
      "parse_quantity (j_get d ''blockNumber'') ''receipt block'' = Inr block"
      "call ''eth_blockNumber'' [] = Inr head" "parse_quantity head ''current block'' = Inr current"
      and verdict: "receipt_verdict status (max 0 (current - block + 1)) w c (expected_units p decimals)
         (j_get d ''logs'') (clamp 1 1000 min_conf) block = Inr (verify_bsc_payout call token decimals min_conf p)"
      by (rule check_receiptD)
    from verdict obtain logs x where "status = 1" "clamp 1 1000 min_conf \<le> max 0 (current - block + 1)"
      "items_or_empty (j_get d ''logs'') = Inr logs" "x \<in> set logs"
      "log_matches c w (expected_units p decimals) x = Full_match"
      by (rule receipt_verdict_cases) (use conf in \<open>simp_all only: status_texts\<close>)
    moreover have "1 \<le> clamp 1 1000 min_conf" by (rule clamp_ge)
    ultimately have "status = 1" "clamp 1 1000 min_conf \<le> current - block + 1"
      "items_or_empty (j_get d ''logs'') = Inr logs" "x \<in> set logs"
      "log_matches c w (expected_units p decimals) x = Full_match" by linarith+
    then show ?thesis using h q unfolding paid_on_chain_def by blast
  qed (use conf in simp)
next
  assume "paid_on_chain call token decimals min_conf p"
  then obtain tx w c chain d block head current logs x where h: "normalize_tx_hash (po_tx p) = Inr tx"
    "normalize_address (po_address p) ''Payout wallet'' = Inr w"
    "normalize_address token ''USDT contract'' = Inr c" "0 \<le> decimals" "decimals \<le> 36"
    "call ''eth_chainId'' [] = Inr chain" "parse_quantity chain ''chain id'' = Inr 56"
    "call ''eth_getTransactionReceipt'' [J_text tx] = Inr (J_object d)"
    "parse_quantity (j_get d ''status'') ''receipt status'' = Inr 1"
    "parse_quantity (j_get d ''blockNumber'') ''receipt block'' = Inr block"
    "call ''eth_blockNumber'' [] = Inr head" "parse_quantity head ''current block'' = Inr current"
    and l: "clamp 1 1000 min_conf \<le> current - block + 1"
    "items_or_empty (j_get d ''logs'') = Inr logs" "x \<in> set logs"
    "log_matches c w (expected_units p decimals) x = Full_match"
    unfolding paid_on_chain_def by blast
  obtain r where r: "receipt_verdict 1 (max 0 (current - block + 1)) w c (expected_units p decimals)
      (j_get d ''logs'') (clamp 1 1000 min_conf) block = Inr r" "vr_status r = ''confirmed''"
    using receipt_verdict_paid [OF _ l(2-4)] l(1) by (metis max.coboundedI2)
  have "check_receipt call p w c decimals (clamp 1 1000 min_conf) d = Inr r"
    unfolding check_receipt_def h(9-12) bindR.simps by (rule r(1))
  then have "check_chain call p tx w c decimals (clamp 1 1000 min_conf) = Inr r"
    unfolding check_chain_def h(6-8) bindR.simps by (simp add: read_receipt_def)
  moreover have "exn_text (normalize_tx_hash (po_tx p)) = Inr tx" by (rule iffD2 [OF exn_text_iff h(1)])
  moreover have "\<not> (decimals < 0 \<or> 36 < decimals)" using h(4,5) by simp
  ultimately have "verify_bsc_payout call token decimals min_conf p = r"
    unfolding verify_bsc_payout_def h(2,3) by (simp only: bindR.simps if_False sum.case)
  then show "vr_status (verify_bsc_payout call token decimals min_conf p) = ''confirmed''" using r(2) by simp
qed

subsection \<open>Properties\<close>


text \<open>A payout fails only on evidence from the chain: an endpoint that is unreachable, on another
  chain, or answers nonsense leaves it pending. When the result is failed, a receipt for the
  payout's own hash was read on chain 56, and the transaction was reverted or, with the required
  confirmations, none of its logs is the expected transfer.\<close>

lemma verify_failed_evidence:
  assumes "vr_status (verify_bsc_payout call token decimals min_conf p) = ''failed''"
  shows "\<exists>tx chain d status. normalize_tx_hash (po_tx p) = Inr tx
     \<and> call ''eth_chainId'' [] = Inr chain \<and> parse_quantity chain ''chain id'' = Inr 56
     \<and> call ''eth_getTransactionReceipt'' [J_text tx] = Inr (J_object d)
     \<and> parse_quantity (j_get d ''status'') ''receipt status'' = Inr status
     \<and> (status \<noteq> 1
        \<or> clamp 1 1000 min_conf \<le> vr_confirmations (verify_bsc_payout call token decimals min_conf p)
          \<and> \<not> paid_on_chain call token decimals min_conf p)"
proof (rule verify_result_cases [of call token decimals min_conf p])
  fix e
  assume "verify_bsc_payout call token decimals min_conf p = pending_result e"
  then show ?thesis using assms by simp
next
  fix tx w c chain d
  assume h: "normalize_tx_hash (po_tx p) = Inr tx"
    "call ''eth_chainId'' [] = Inr chain" "parse_quantity chain ''chain id'' = Inr 56"
    "call ''eth_getTransactionReceipt'' [J_text tx] = Inr (J_object d)"
    and ck: "check_receipt call p w c decimals (clamp 1 1000 min_conf) d
       = Inr (verify_bsc_payout call token decimals min_conf p)"
  obtain status block head current where
    q: "parse_quantity (j_get d ''status'') ''receipt status'' = Inr status"
    and verdict: "receipt_verdict status (max 0 (current - block + 1)) w c (expected_units p decimals)
       (j_get d ''logs'') (clamp 1 1000 min_conf) block = Inr (verify_bsc_payout call token decimals min_conf p)"
    using ck by (rule check_receiptD)
  have "\<not> paid_on_chain call token decimals min_conf p"
    using assms confirmed_iff_paid [of call token decimals min_conf p] by (metis status_texts(1))
  moreover have "status \<noteq> 1 \<or> clamp 1 1000 min_conf
      \<le> vr_confirmations (verify_bsc_payout call token decimals min_conf p)"
    by (rule receipt_verdict_cases [OF verdict]) (use assms in \<open>simp_all only: status_texts\<close>, simp_all)
  ultimately show ?thesis using h q by blast
qed

text \<open>An endpoint that answers with a reverted transaction.\<close>

definition reverting_rpc :: "string \<Rightarrow> json list \<Rightarrow> json caught" where
  "reverting_rpc m ps =
     (if m = ''eth_chainId'' then Inr (J_text ''0x38'')
      else if m = ''eth_blockNumber'' then Inr (J_text ''0x20'')
      else if m = ''eth_getTransactionReceipt''
      then Inr (J_object [(''status'', J_text ''0x0''), (''blockNumber'', J_text ''0x10'')])
      else Inl ''unknown method'')"

definition sample_payout :: payout_row where
  "sample_payout = \<lparr>po_id = 1, po_user = 1, po_wallet = 1, po_address = ''0x'' @ replicate 40 (CHR ''a''),
     po_amount = 10000000, po_fee_bps = 1000, po_fee = 1000000, po_net = 9000000, po_due = 0,
     po_status = Po_verifying, po_tx = ''0x'' @ replicate 64 (CHR ''b''), po_error = '''', po_attempts = 0,
     po_next = None, po_verified = None, po_confirmations = 0, po_block = None,
     po_claimed_until = None, po_token = None, po_created = 0, po_updated = 0\<rparr>"

lemma verify_failed_evidence_witness:
  "\<exists>tx d. normalize_tx_hash (po_tx sample_payout) = Inr tx
     \<and> reverting_rpc ''eth_getTransactionReceipt'' [J_text tx] = Inr (J_object d)"
proof -
  have "vr_status (verify_bsc_payout reverting_rpc (''0x'' @ replicate 40 (CHR ''c'')) 18 12 sample_payout) = ''failed''"
    by code_simp
  from verify_failed_evidence [OF this] show ?thesis by blast
qed

end
