(* ===== verification/Sync_Runs.thy ===== *)
theory Sync_Runs
  imports Systems Schema
begin

text \<open>
  The runs of the inventory sync in \<open>app/services/proxiware.py\<close>: queueing, the lease on the one
  running sync, its renewal, its cancellation. \<open>tok\<close> is the fresh token of \<open>secrets.token_urlsafe\<close>.
\<close>

definition open_run :: "run_row \<Rightarrow> bool" where
  "open_run r \<longleftrightarrow> rn_status r = Rn_queued \<or> rn_status r = Rn_running"

text \<open>\<open>ORDER BY id DESC LIMIT 1\<close>.\<close>

definition last_run :: "(run_row \<Rightarrow> bool) \<Rightarrow> store \<Rightarrow> run_row option" where
  "last_run P s = (case rev (sort_key rn_id (select_where P (runs s))) of [] \<Rightarrow> None | r # _ \<Rightarrow> Some r)"

definition new_run :: "time \<Rightarrow> run_status \<Rightarrow> string option \<Rightarrow> time option \<Rightarrow> int \<Rightarrow> run_row" where
  "new_run now st tok until i = \<lparr>rn_id = i, rn_started = now, rn_finished = None, rn_added = 0, rn_updated = 0,
     rn_missing = 0, rn_errors = 0, rn_status = st, rn_error = '''', rn_message = '''', rn_token = tok,
     rn_claimed_until = until, rn_cancel = False, rn_total = 0, rn_processed = 0\<rparr>"

definition insert_run :: "(int \<Rightarrow> run_row) \<Rightarrow> store \<Rightarrow> store" where
  "insert_run mk s = s\<lparr>runs := insert_row mk (runs s)\<rparr>"

definition update_runs :: "(run_row \<Rightarrow> bool) \<Rightarrow> (run_row \<Rightarrow> run_row) \<Rightarrow> store \<Rightarrow> store" where
  "update_runs P f s = s\<lparr>runs := update_where P f (runs s)\<rparr>"

definition enqueue_sync_run :: "time \<Rightarrow> bool \<Rightarrow> store \<Rightarrow> store \<times> int option" where
  "enqueue_sync_run now allow_during_running s =
     (let queue = (insert_run (new_run now Rn_queued None None) s, Some (seq (runs s) + 1)) in
      case last_run open_run s of
        None \<Rightarrow> queue
      | Some r \<Rightarrow>
          if \<not> (allow_during_running \<and> rn_status r = Rn_running) then (s, None)
          else if last_run (\<lambda>q. rn_status q = Rn_queued) s \<noteq> None then (s, None)
          else queue)"

text \<open>A running sync without a lease that is still good was abandoned.\<close>

definition abandoned :: "time \<Rightarrow> run_row \<Rightarrow> bool" where
  "abandoned now r \<longleftrightarrow> rn_status r = Rn_running \<and> elapsed (rn_claimed_until r) now"

definition expire_runs :: "time \<Rightarrow> store \<Rightarrow> store" where
  "expire_runs now s = update_runs (abandoned now)
     (\<lambda>r. r\<lparr>rn_status := Rn_failed, rn_finished := Some now, rn_error := ''lease_expired'',
            rn_message := ''Sync lease expired'', rn_token := None, rn_claimed_until := None\<rparr>) s"

definition lease_length :: "int \<Rightarrow> time" where
  "lease_length secs = seconds (max 60 secs)"

definition first_queued :: "store \<Rightarrow> run_row option" where
  "first_queued s = (case sort_key rn_id (select_where (\<lambda>q. rn_status q = Rn_queued) (runs s)) of
     [] \<Rightarrow> None | q # _ \<Rightarrow> Some q)"

text \<open>The claimed run, if any; a refusal rolls the expiry of old leases back.\<close>

definition claim_sync_run :: "time \<Rightarrow> int \<Rightarrow> bool \<Rightarrow> string \<Rightarrow> store \<Rightarrow> store \<times> int option" where
  "claim_sync_run now secs create_if_missing tok s =
     (let s1 = expire_runs now s; until = now + lease_length secs in
      if exists_where (\<lambda>r. rn_status r = Rn_running \<and> \<not> elapsed (rn_claimed_until r) now) (runs s1) then (s, None)
      else case first_queued s1 of
        Some q \<Rightarrow>
          (update_runs (\<lambda>r. rn_id r = rn_id q)
             (\<lambda>r. r\<lparr>rn_status := Rn_running, rn_token := Some tok, rn_claimed_until := Some until\<rparr>) s1,
           Some (rn_id q))
      | None \<Rightarrow>
          if create_if_missing
          then (insert_run (new_run now Rn_running (Some tok) (Some until)) s1, Some (seq (runs s1) + 1))
          else (s, None))"

definition cancelable :: "int \<Rightarrow> run_row \<Rightarrow> bool" where
  "cancelable i r \<longleftrightarrow> rn_id r = i \<and> open_run r \<and> \<not> rn_cancel r"

text \<open>\<open>datetime('now')\<close> has whole seconds.\<close>

definition request_sync_cancel :: "time \<Rightarrow> int \<Rightarrow> store \<Rightarrow> store \<times> bool" where
  "request_sync_cancel wall i s =
     (update_runs (cancelable i)
        (\<lambda>r. if rn_status r = Rn_queued
             then r\<lparr>rn_cancel := True, rn_status := Rn_canceled, rn_finished := Some (seconds (wall div 1000000)),
                    rn_error := ''canceled''\<rparr>
             else r\<lparr>rn_cancel := True\<rparr>) s,
      count_where (cancelable i) (runs s) = 1)"

definition owned :: "int \<Rightarrow> string \<Rightarrow> run_row \<Rightarrow> bool" where
  "owned i tok r \<longleftrightarrow> rn_id r = i \<and> rn_status r = Rn_running \<and> rn_token r = Some tok"

definition owned_at :: "time \<Rightarrow> int \<Rightarrow> string \<Rightarrow> run_row \<Rightarrow> bool" where
  "owned_at now i tok r \<longleftrightarrow> owned i tok r \<and> \<not> elapsed (rn_claimed_until r) now"

definition renew_sync_lease :: "time \<Rightarrow> int \<Rightarrow> string \<Rightarrow> int \<Rightarrow> store \<Rightarrow> store result" where
  "renew_sync_lease now i tok secs s =
     (if count_where (owned_at now i tok) (runs s) = 1
      then Inr (update_runs (owned_at now i tok)
             (\<lambda>r. r\<lparr>rn_claimed_until := Some (now + lease_length secs)\<rparr>) s)
      else Inl SyncLeaseLost)"

definition assert_sync_owner :: "time \<Rightarrow> int \<Rightarrow> string \<Rightarrow> store \<Rightarrow> unit result" where
  "assert_sync_owner now i tok s =
     (case select_one (\<lambda>r. rn_id r = i) (runs s) of
        None \<Rightarrow> Inl SyncLeaseLost
      | Some r \<Rightarrow> guardR (owned_at now i tok r) SyncLeaseLost)"

text \<open>The renewed lease and the recorded cancellation are committed before the exception is raised.\<close>

definition raise_if_sync_cancelled :: "time \<Rightarrow> int \<Rightarrow> string \<Rightarrow> int \<Rightarrow> store \<Rightarrow> store \<times> (exn + unit)" where
  "raise_if_sync_cancelled now i tok secs s =
     (case renew_sync_lease now i tok secs s of
        Inl e \<Rightarrow> (s, Inl e)
      | Inr s1 \<Rightarrow>
          (case select_one (owned i tok) (runs s1) of
             None \<Rightarrow> (s1, Inl SyncLeaseLost)
           | Some r \<Rightarrow>
               if rn_cancel r
               then (update_runs (owned i tok) (\<lambda>r. r\<lparr>rn_status := Rn_canceled, rn_finished := Some now,
                       rn_error := ''canceled'', rn_token := None, rn_claimed_until := None\<rparr>) s1, Inl SyncCancelled)
               else (s1, Inr ())))"

subsection \<open>At most one sync is running\<close>

definition is_running :: "run_row \<Rightarrow> bool" where
  "is_running r \<longleftrightarrow> rn_status r = Rn_running"

definition runs_ok :: "store \<Rightarrow> bool" where
  "runs_ok s \<longleftrightarrow> wf_table rn_id (runs s) \<and> (\<exists>i. \<forall>r \<in> set (rows (runs s)). is_running r \<longrightarrow> rn_id r = i)"

lemma runs_insert_run [simp]: "runs (insert_run mk s) = insert_row mk (runs s)"
  by (simp add: insert_run_def)

lemma runs_update_runs [simp]: "runs (update_runs P f s) = update_where P f (runs s)"
  by (simp add: update_runs_def)

lemma insert_run_frame [simp]:
  "jobs (insert_run mk s) = jobs s" "mappings (insert_run mk s) = mappings s" "subs (insert_run mk s) = subs s"
  "asgs (insert_run mk s) = asgs s" "settings (insert_run mk s) = settings s" "proxies (insert_run mk s) = proxies s"
  by (simp_all add: insert_run_def)

lemma update_runs_frame [simp]:
  "jobs (update_runs P f s) = jobs s" "mappings (update_runs P f s) = mappings s" "subs (update_runs P f s) = subs s"
  "asgs (update_runs P f s) = asgs s" "settings (update_runs P f s) = settings s" "proxies (update_runs P f s) = proxies s"
  by (simp_all add: update_runs_def)

lemma enqueue_frame [simp]:
  "jobs (fst (enqueue_sync_run now b s)) = jobs s" "mappings (fst (enqueue_sync_run now b s)) = mappings s"
  "subs (fst (enqueue_sync_run now b s)) = subs s" "asgs (fst (enqueue_sync_run now b s)) = asgs s"
  "settings (fst (enqueue_sync_run now b s)) = settings s" "proxies (fst (enqueue_sync_run now b s)) = proxies s"
  by (simp_all add: enqueue_sync_run_def Let_def split: option.split)

lemma runs_okD: "runs_ok s \<Longrightarrow> wf_table rn_id (runs s)"
  by (simp add: runs_ok_def)

lemma one_running:
  assumes "runs_ok s" "r \<in> set (rows (runs s))" "q \<in> set (rows (runs s))" "is_running r" "is_running q"
  shows "r = q"
proof -
  have "rn_id r = rn_id q" using assms unfolding runs_ok_def by metis
  then show ?thesis by (rule wf_table_unique [OF runs_okD [OF assms(1)] assms(2,3)])
qed

text \<open>An update that makes nothing running, and one that starts a run where none is running.\<close>

lemma runs_ok_update:
  assumes "runs_ok s" "\<And>r. rn_id (f r) = rn_id r" "\<And>r. P r \<Longrightarrow> is_running (f r) \<Longrightarrow> is_running r"
  shows "runs_ok (update_runs P f s)"
proof -
  obtain i where i: "\<forall>r \<in> set (rows (runs s)). is_running r \<longrightarrow> rn_id r = i" using assms(1) by (auto simp: runs_ok_def)
  have "\<forall>r \<in> set (rows (runs (update_runs P f s))). is_running r \<longrightarrow> rn_id r = i"
    using i assms(2,3) by auto
  then show ?thesis unfolding runs_ok_def runs_update_runs
    using wf_table_update [OF runs_okD [OF assms(1)] assms(2)] by blast
qed

lemma runs_ok_start:
  assumes "wf_table rn_id (runs s)" "\<And>r. r \<in> set (rows (runs s)) \<Longrightarrow> \<not> is_running r" "\<And>r. rn_id (f r) = rn_id r"
  shows "runs_ok (update_runs (\<lambda>r. rn_id r = i) f s)"
proof -
  have "\<forall>r \<in> set (rows (runs (update_runs (\<lambda>r. rn_id r = i) f s))). is_running r \<longrightarrow> rn_id r = i"
    using assms(2,3) by auto
  then show ?thesis unfolding runs_ok_def runs_update_runs using wf_table_update [OF assms(1,3)] by blast
qed

lemma runs_ok_insert:
  assumes "runs_ok s" "\<And>i. rn_id (mk i) = i" "\<And>i. is_running (mk i) \<Longrightarrow> \<forall>r \<in> set (rows (runs s)). \<not> is_running r"
  shows "runs_ok (insert_run mk s)"
proof -
  obtain i where i: "\<forall>r \<in> set (rows (runs s)). is_running r \<longrightarrow> rn_id r = i" using assms(1) by (auto simp: runs_ok_def)
  have "\<forall>r \<in> set (rows (runs (insert_run mk s))). is_running r \<longrightarrow> rn_id r = (if is_running (mk (seq (runs s) + 1)) then seq (runs s) + 1 else i)"
    using i assms(2,3) by auto
  then show ?thesis unfolding runs_ok_def runs_insert_run
    using wf_table_insert [OF runs_okD [OF assms(1)], of mk] assms(2) by blast
qed

lemma expired_none_running:
  assumes "\<not> exists_where (\<lambda>r. rn_status r = Rn_running \<and> \<not> elapsed (rn_claimed_until r) now) (runs (expire_runs now s))"
    and "r \<in> set (rows (runs (expire_runs now s)))"
  shows "\<not> is_running r"
  using assms by (auto simp: exists_where_iff expire_runs_def is_running_def abandoned_def split: if_splits)

lemma expire_ok: "runs_ok s \<Longrightarrow> runs_ok (expire_runs now s)"
  unfolding expire_runs_def by (rule runs_ok_update) (simp_all add: is_running_def)

lemma new_run_simps [simp]:
  "rn_id (new_run now st tok u i) = i" "rn_status (new_run now st tok u i) = st"
  "rn_claimed_until (new_run now st tok u i) = u" "rn_token (new_run now st tok u i) = tok"
  by (simp_all add: new_run_def)

lemma claim_keeps_runs:
  assumes "claim_sync_run now secs create tok s = (s', r)" "runs_ok s"
  shows "runs_ok s'"
proof (cases "exists_where (\<lambda>r. rn_status r = Rn_running \<and> \<not> elapsed (rn_claimed_until r) now) (runs (expire_runs now s))")
  case True
  then show ?thesis using assms by (simp add: claim_sync_run_def Let_def)
next
  case False
  note none = expired_none_running [OF False] and ok1 = expire_ok [OF assms(2), of now]
  show ?thesis
  proof (cases "first_queued (expire_runs now s)")
    case None
    then have "s' = s \<or> s' = insert_run (new_run now Rn_running (Some tok) (Some (now + lease_length secs))) (expire_runs now s)"
      using assms(1) False by (auto simp: claim_sync_run_def Let_def split: if_splits)
    then show ?thesis using assms(2) none runs_ok_insert [OF ok1] by auto
  next
    case (Some q)
    then have "s' = update_runs (\<lambda>r. rn_id r = rn_id q) (\<lambda>r. r\<lparr>rn_status := Rn_running, rn_token := Some tok,
        rn_claimed_until := Some (now + lease_length secs)\<rparr>) (expire_runs now s)"
      using assms(1) False by (simp add: claim_sync_run_def Let_def)
    then show ?thesis using runs_ok_start [OF runs_okD [OF ok1] none] by simp
  qed
qed

lemma enqueue_keeps_runs: "runs_ok s \<Longrightarrow> runs_ok (fst (enqueue_sync_run now b s))"
  by (auto simp: enqueue_sync_run_def Let_def is_running_def split: option.split intro!: runs_ok_insert)

lemma cancel_keeps_runs: "runs_ok s \<Longrightarrow> runs_ok (fst (request_sync_cancel now i s))"
  by (auto simp: request_sync_cancel_def is_running_def intro!: runs_ok_update split: if_splits)

lemma renew_keeps_runs: "renew_sync_lease now i tok secs s = Inr s' \<Longrightarrow> runs_ok s \<Longrightarrow> runs_ok s'"
  by (auto simp: renew_sync_lease_def is_running_def split: if_splits intro!: runs_ok_update)

lemma raise_if_keeps_runs: "runs_ok s \<Longrightarrow> runs_ok (fst (raise_if_sync_cancelled now i tok secs s))"
  by (auto simp: raise_if_sync_cancelled_def is_running_def intro!: runs_ok_update intro: renew_keeps_runs
      split: sum.split option.split)

text \<open>A claim is refused while some run holds a good lease.\<close>

lemma claim_refused:
  assumes "r \<in> set (rows (runs s))" "rn_status r = Rn_running" "\<not> elapsed (rn_claimed_until r) now"
  shows "claim_sync_run now secs create tok s = (s, None)"
proof -
  have "r \<in> set (rows (runs (expire_runs now s)))"
    using assms by (force simp: expire_runs_def abandoned_def image_iff)
  then have "exists_where (\<lambda>r. rn_status r = Rn_running \<and> \<not> elapsed (rn_claimed_until r) now) (runs (expire_runs now s))"
    using assms(2,3) by (auto simp: exists_where_iff)
  then show ?thesis by (simp add: claim_sync_run_def Let_def)
qed

text \<open>What the run that a claim returns looks like.\<close>

lemma claimed_run:
  assumes "claim_sync_run now secs create tok s = (s', Some i)" "runs_ok s"
  shows "\<exists>r. select_one (\<lambda>r. rn_id r = i) (runs s') = Some r \<and> owned i tok r
     \<and> rn_claimed_until r = Some (now + lease_length secs)"
proof -
  let ?s1 = "expire_runs now s"
  have wf: "wf_table rn_id (runs s')" by (rule runs_okD [OF claim_keeps_runs [OF assms]])
  have "\<exists>r \<in> set (rows (runs s')). owned i tok r \<and> rn_claimed_until r = Some (now + lease_length secs)"
  proof (cases "first_queued ?s1")
    case None
    then show ?thesis
      using assms(1) by (auto simp: claim_sync_run_def Let_def owned_def split: if_splits)
  next
    case (Some q)
    let ?f = "\<lambda>r. r\<lparr>rn_status := Rn_running, rn_token := Some tok, rn_claimed_until := Some (now + lease_length secs)\<rparr>"
    have q: "q \<in> set (rows (runs ?s1))"
      using Some by (auto simp: first_queued_def split: list.splits dest!: arg_cong [where f = set])
    have s': "s' = update_runs (\<lambda>r. rn_id r = rn_id q) ?f ?s1" "i = rn_id q"
      using assms(1) Some by (auto simp: claim_sync_run_def Let_def split: if_splits)
    have "?f q \<in> set (rows (runs s'))"
      unfolding s' runs_update_runs rows_update_where set_map by (rule image_eqI [OF _ q]) simp
    then show ?thesis by (intro bexI [of _ "?f q"]) (simp_all add: owned_def s'(2))
  qed
  then obtain r where r: "r \<in> set (rows (runs s'))" "owned i tok r" "rn_claimed_until r = Some (now + lease_length secs)" by blast
  then show ?thesis using wf_table_find [OF wf r(1)] by (auto simp: owned_def)
qed

text \<open>The lease as a claim: of the running row, not of a queued one.\<close>

definition run_lease :: "store \<Rightarrow> int \<Rightarrow> time option" where
  "run_lease s i = (case select_one (\<lambda>r. rn_id r = i) (runs s) of
     None \<Rightarrow> None | Some r \<Rightarrow> if is_running r then rn_claimed_until r else None)"

definition claim_run :: "int \<Rightarrow> bool \<Rightarrow> time \<Rightarrow> string \<Rightarrow> store \<Rightarrow> store \<times> int list" where
  "claim_run secs create now tok s =
     (case claim_sync_run now secs create tok s of (s', None) \<Rightarrow> (s', []) | (s', Some i) \<Rightarrow> (s', [i]))"

lemma claim_run_Some:
  "claim_run secs create now tok s = (s', ks) \<Longrightarrow> k \<in> set ks \<Longrightarrow> claim_sync_run now secs create tok s = (s', Some k)"
  by (auto simp: claim_run_def split: prod.splits option.splits)

lemma claim_run_keeps: "claim_run secs create now tok s = (s', ks) \<Longrightarrow> runs_ok s \<Longrightarrow> runs_ok s'"
  by (auto simp: claim_run_def split: prod.splits option.splits intro: claim_keeps_runs)

interpretation sync_claims: claim_lease "claim_run secs create" run_lease runs_ok "lease_length secs"
proof
  show "0 < lease_length secs" by (simp add: lease_length_def seconds_def)
  fix now tok s s' ks k
  assume ok: "runs_ok s" and c: "claim_run secs create now tok s = (s', ks)"
  show "runs_ok s'" by (rule claim_run_keeps [OF c ok])
  assume k: "k \<in> set ks"
  note c = claim_run_Some [OF c k]
  show "run_lease s' k = Some (now + lease_length secs)"
    using claimed_run [OF c ok] by (auto simp: run_lease_def is_running_def owned_def)
  show "elapsed (run_lease s k) now"
  proof (rule ccontr)
    assume "\<not> elapsed (run_lease s k) now"
    then obtain r where "select_one (\<lambda>r. rn_id r = k) (runs s) = Some r" "is_running r" "\<not> elapsed (rn_claimed_until r) now"
      by (auto simp: run_lease_def split: option.splits if_splits)
    then have "claim_sync_run now secs create tok s = (s, None)"
      using claim_refused [of r s now] by (auto simp: is_running_def dest: select_one_SomeD)
    then show False using c by simp
  qed
qed

end
