(* ===== verification/Dashboard.thy ===== *)
theory Dashboard
  imports Provider_Egress
begin

text \<open>
  \<open>app/services/proxiware_dashboard.py\<close>: the addresses of a dashboard row and its optional columns,
  and applying the observation of one row or of a whole subscription. A raised
  \<open>DashboardObservationError\<close> is a \<open>ValueError\<close> with its message.
\<close>

subsection \<open>Texts\<close>

text \<open>\<open>str.isdigit\<close> accepts the three superscript digits too, \<open>int\<close> rejects them.\<close>

definition py_isdigit :: "char \<Rightarrow> bool" where
  "py_isdigit c \<longleftrightarrow> is_digit c \<or> code c \<in> {178, 179, 185}"

definition all_digits :: "string \<Rightarrow> bool" where
  "all_digits s \<longleftrightarrow> s \<noteq> [] \<and> list_all py_isdigit s"

definition required_text :: "string \<Rightarrow> string \<Rightarrow> nat \<Rightarrow> string result" where
  "required_text v label limit =
     (let t = strip v in
      if t = '''' \<or> limit < length t \<or> list_ex (\<lambda>c. code c < 32) t
      then Inl (ValueError (''invalid dashboard '' @ label)) else Inr t)"

definition host_label_char :: "char \<Rightarrow> bool" where
  "host_label_char c = (let n = code c in is_digit c \<or> (97 \<le> n \<and> n \<le> 122) \<or> (65 \<le> n \<and> n \<le> 90))"

definition host_label :: "string \<Rightarrow> bool" where
  "host_label l \<longleftrightarrow> l \<noteq> [] \<and> length l \<le> 63 \<and> host_label_char (hd l) \<and> host_label_char (last l)
     \<and> list_all (\<lambda>c. host_label_char c \<or> c = CHR ''-'') l"

definition bad_address :: "'a result" where
  "bad_address = Inl (ValueError ''invalid dashboard address'')"

definition port_of :: "string \<Rightarrow> (int option) result" where
  "port_of t = (case py_int t of
     None \<Rightarrow> Inl (ValueError ''invalid literal for int()'')
   | Some p \<Rightarrow> if 1 \<le> p \<and> p \<le> 65535 then Inr (Some p) else bad_address)"

subsection \<open>Addresses\<close>

definition split_address :: "string \<Rightarrow> (string \<times> int option) result" where
  "split_address v =
     (if starts_with ''['' v then
        (let inner = takeWhile (\<lambda>c. c \<noteq> CHR '']'') v;
             host = drop 1 inner;
             suffix = drop 1 (dropWhile (\<lambda>c. c \<noteq> CHR '']'') v)
         in if CHR '']'' \<notin> set v \<or> length inner < 2 then bad_address
            else if suffix = '''' then Inr (host, None)
            else if \<not> starts_with '':'' suffix \<or> \<not> all_digits (drop 1 suffix) then bad_address
            else bindR (port_of (drop 1 suffix)) (\<lambda>p. Inr (host, p)))
      else if count_list v CHR '':'' = 1 then
        (let (host, candidate) = split_last CHR '':'' v in
         if all_digits candidate
         then bindR (port_of candidate) (\<lambda>p. if host = '''' then bad_address else Inr (host, p))
         else Inr (v, None))
      else Inr (v, None))"

definition normal_host :: "string \<Rightarrow> string result" where
  "normal_host h =
     (let host = lower (strip h) in
      case ip_address host of
        Some a \<Rightarrow> Inr (show_ip a)
      | None \<Rightarrow>
          if 253 < length host \<or> (host \<noteq> '''' \<and> last host = CHR ''.'')
             \<or> \<not> list_all host_label (split_on CHR ''.'' host)
          then bad_address else Inr host)"

definition dashboard_address_endpoint :: "string \<Rightarrow> (string \<times> int option) result" where
  "dashboard_address_endpoint address =
     bindR (required_text address ''address'' 512) (\<lambda>v.
     bindR (split_address v) (\<lambda>(h, port).
     bindR (normal_host h) (\<lambda>host. Inr (host, port))))"

definition normalize_dashboard_address :: "string \<Rightarrow> string result" where
  "normalize_dashboard_address address =
     bindR (dashboard_address_endpoint address) (\<lambda>(host, port).
       Inr (case port of
          None \<Rightarrow> host
        | Some p \<Rightarrow> if CHR '':'' \<in> set host then ''['' @ host @ '']:'' @ show_int p
                    else host @ '':'' @ show_int p))"

end
