(* ===== verification/Swap.thy ===== *)
theory Swap
  imports Sync_Runs Dashboard
begin

text \<open>
  \<open>app/services/proxiware_swap.py\<close>, first part: the decision whether a subscription may swap an
  assignment, queueing, claiming and revalidating swap jobs. Timestamps are NULL or instants, so the
  branches for malformed timestamps do not exist; the column \<open>provider\<close> is always 'proxiware'.
\<close>

subsection \<open>Codes and settings\<close>

definition safe_error_codes :: "string list" where
  "safe_error_codes = [''captcha_required'', ''captcha_provider_error'', ''captcha_timeout'', ''csrf_failed'',
     ''fingerprint_failed'', ''login_failed'', ''manual_action_required'', ''session_expired'',
     ''subscription_scope_mismatch'', ''quota_exhausted'', ''stock_unavailable'', ''provider_forbidden'',
     ''provider_conflict'', ''provider_mutation_rejected'', ''provider_response_unconfirmed'',
     ''provider_timeout'', ''provider_error'', ''dashboard_stale'', ''reconciliation_required'',
     ''reconciled_no_provider_change'']"

definition guard_error_codes :: "string list" where
  "guard_error_codes = [''not_live'', ''not_risk'', ''provider_ineligible'', ''connections_limit'',
     ''quota_exhausted'', ''cooldown'', ''duplicate_egress'', ''subscription_mutation_in_progress'',
     ''manual_action_required'']"

definition manual_action_codes :: "string list" where
  "manual_action_codes = [''captcha_required'', ''captcha_provider_error'', ''captcha_timeout'', ''csrf_failed'',
     ''fingerprint_failed'', ''login_failed'', ''manual_action_required'', ''session_expired'',
     ''subscription_scope_mismatch'', ''quota_exhausted'', ''stock_unavailable'', ''provider_forbidden'']"

text \<open>\<open>re.sub('[^a-z0-9_:-]+', '_', text)\<close>: a run of other characters becomes one underscore.\<close>

definition code_char :: "char \<Rightarrow> bool" where
  "code_char c \<longleftrightarrow> is_digit c \<or> (let n = code c in 97 \<le> n \<and> n \<le> 122) \<or> c \<in> {CHR ''_'', CHR '':'', CHR ''-''}"

fun sub_code :: "bool \<Rightarrow> string \<Rightarrow> string" where
  "sub_code run [] = []"
| "sub_code run (c # s) =
     (if code_char c then c # sub_code False s
      else if run then sub_code True s else CHR ''_'' # sub_code True s)"

definition code_candidate :: "string \<Rightarrow> string" where
  "code_candidate v = take 64 (strip_by (\<lambda>c. c = CHR ''_'') (sub_code False (lower (strip v))))"

definition safe_code :: "string \<Rightarrow> string \<Rightarrow> string" where
  "safe_code v dflt = (let c = code_candidate v in if c \<in> set safe_error_codes then c else dflt)"

definition safe_guard_code :: "string \<Rightarrow> string" where
  "safe_guard_code v = (let c = code_candidate v in
     if c \<in> set guard_error_codes \<or> c = ''dashboard_stale'' then c else ''manual_action_required'')"

text \<open>\<open>INSERT INTO settings ... ON CONFLICT(key) DO UPDATE\<close> is \<open>set_setting\<close> without its commit.\<close>

definition pause_auto_swap :: "store \<Rightarrow> store" where
  "pause_auto_swap s =
     (let s1 = (if settings s ''proxiware_auto_swap_intent'' = None
                then set_setting ''proxiware_auto_swap_intent''
                       (if settings s ''proxiware_auto_swap'' = Some ''1'' then ''1'' else ''0'') s
                else s)
      in set_setting ''proxiware_auto_swap'' ''0'' s1)"

definition automation_paused :: "store \<Rightarrow> bool" where
  "automation_paused s \<longleftrightarrow> (case settings s ''proxiware_automation_paused'' of
     None \<Rightarrow> False | Some v \<Rightarrow> strip v = ''1'')"

definition swap_worker_paused :: "store \<Rightarrow> bool" where
  "swap_worker_paused s \<longleftrightarrow> get_setting s ''proxiware_swap_worker_paused'' ''0'' = ''1''"

definition auto_swap_on :: "store \<Rightarrow> bool" where
  "auto_swap_on s \<longleftrightarrow> get_setting s ''proxiware_auto_swap'' ''0'' = ''1''"

definition eligible_threshold :: "store \<Rightarrow> int" where
  "eligible_threshold s = (case py_int (get_setting s ''proxiware_eligible_threshold'' ''1000'') of
     None \<Rightarrow> 1000 | Some n \<Rightarrow> n)"

definition dashboard_max_age :: "store \<Rightarrow> int" where
  "dashboard_max_age s = (case py_int (get_setting s ''proxiware_dashboard_max_age_seconds'' ''900'') of
     None \<Rightarrow> 900 | Some n \<Rightarrow> max 60 n)"

subsection \<open>States of a job\<close>

definition active_swap :: "swap_state \<Rightarrow> bool" where
  "active_swap st \<longleftrightarrow> st \<in> {Sw_pending, Sw_running, Sw_mutating, Sw_provider_applied, Sw_reconciliation_required}"

definition mutation_swap :: "swap_state \<Rightarrow> bool" where
  "mutation_swap st \<longleftrightarrow> st \<in> {Sw_mutating, Sw_provider_applied, Sw_reconciliation_required}"

definition busy_swap :: "swap_state \<Rightarrow> bool" where
  "busy_swap st \<longleftrightarrow> st \<in> {Sw_running, Sw_mutating, Sw_provider_applied, Sw_reconciliation_required}"

text \<open>The two partial unique indexes, checked by every statement that may break them.\<close>

definition index_keys :: "job_row list \<Rightarrow> int option list" where
  "index_keys js = map j_old (filter (\<lambda>j. j_old j \<noteq> None \<and> active_swap (j_state j)) js)"

definition mutation_keys :: "job_row list \<Rightarrow> int list" where
  "mutation_keys js = map j_sub (filter (\<lambda>j. mutation_swap (j_state j)) js)"

definition put_jobs :: "job_row table \<Rightarrow> store \<Rightarrow> store result" where
  "put_jobs t s =
     (if distinct (index_keys (rows t)) \<and> distinct (mutation_keys (rows t)) then Inr (s\<lparr>jobs := t\<rparr>)
      else Inl (IntegrityError ''UNIQUE constraint failed: swap_jobs''))"

definition update_job :: "int \<Rightarrow> (job_row \<Rightarrow> job_row) \<Rightarrow> store \<Rightarrow> store" where
  "update_job i f s = s\<lparr>jobs := update_where (\<lambda>j. j_id j = i) f (jobs s)\<rparr>"

definition update_sub :: "int \<Rightarrow> (sub_row \<Rightarrow> sub_row) \<Rightarrow> store \<Rightarrow> store" where
  "update_sub i f s = s\<lparr>subs := update_where (\<lambda>x. s_id x = i) f (subs s)\<rparr>"

definition update_asg :: "int \<Rightarrow> (asg_row \<Rightarrow> asg_row) \<Rightarrow> store \<Rightarrow> store" where
  "update_asg i f s = s\<lparr>asgs := update_where (\<lambda>a. a_id a = i) f (asgs s)\<rparr>"

subsection \<open>The decision\<close>

record swap_decision =
  d_allowed :: bool
  d_reason :: string
  d_sub :: int
  d_asg :: "int option"

definition clean :: "string \<Rightarrow> string" where
  "clean t = lower (strip t)"

definition current_asg :: "asg_row \<Rightarrow> bool" where
  "current_asg a \<longleftrightarrow> a_status a = ''active'' \<or> a_status a = ''current''"

definition swap_target :: "store \<Rightarrow> int \<Rightarrow> int option \<Rightarrow> asg_row option" where
  "swap_target s sub asg = (case asg of
     None \<Rightarrow> (case rev (sort_key a_id (select_where (\<lambda>a. a_sub a = sub \<and> current_asg a) (asgs s))) of
                [] \<Rightarrow> None | a # _ \<Rightarrow> Some a)
   | Some i \<Rightarrow> select_one (\<lambda>a. a_id a = i \<and> a_sub a = sub \<and> current_asg a \<and> a_missing a = None) (asgs s))"

text \<open>An expiry after the year 9999 cannot be read and counts as past.\<close>

definition expiry_is_past :: "time option \<Rightarrow> time \<Rightarrow> bool" where
  "expiry_is_past t now = (case t of None \<Rightarrow> False | Some x \<Rightarrow> x \<le> now \<or> seconds 253402300800 \<le> x)"

text \<open>Fresh dashboard rows stand in for an aggregate the official API leaves out.\<close>

definition observed_eligible :: "store \<Rightarrow> time \<Rightarrow> int \<Rightarrow> int \<Rightarrow> int" where
  "observed_eligible s now max_age sub =
     count_where (\<lambda>a. a_sub a = sub \<and> current_asg a \<and> a_missing a = None \<and> a_dash_eligible a = Some True
       \<and> (case a_dash_observed a of None \<Rightarrow> False
          | Some t \<Rightarrow> now - seconds (max 60 max_age) \<le> t \<and> t \<le> now + seconds 60)) (asgs s)"

definition reserved_swaps :: "store \<Rightarrow> int \<Rightarrow> int option \<Rightarrow> int" where
  "reserved_swaps s sub excl =
     count_where (\<lambda>j. j_sub j = sub \<and> active_swap (j_state j) \<and> excl \<noteq> Some (j_id j)) (jobs s)"

text \<open>The evidence of the dashboard row: a reason to refuse, or nothing.\<close>

definition dashboard_guard :: "store \<Rightarrow> time \<Rightarrow> asg_row \<Rightarrow> string + int" where
  "dashboard_guard s now a =
     bindR (guardR (strip (or_empty (a_dash_id a)) \<noteq> '''' \<and> a_dash_observed a \<noteq> None) ''dashboard_stale'') (\<lambda>_.
     bindR (case (a_dash_observed a, py_int (get_setting s ''proxiware_dashboard_max_age_seconds'' ''900'')) of
              (Some t, Some age) \<Rightarrow>
                if seconds (max 60 age) < now - t \<or> seconds 60 < t - now then Inl ''dashboard_stale'' else Inr age
            | _ \<Rightarrow> Inl ''dashboard_stale'') (\<lambda>max_age.
     bindR (guardR (a_dash_eligible a \<noteq> None) ''dashboard_stale'') (\<lambda>_.
     bindR (guardR (a_dash_eligible a = Some True) ''provider_ineligible'') (\<lambda>_.
     bindR (case a_dash_connections a of
              None \<Rightarrow> Inl ''dashboard_stale''
            | Some n \<Rightarrow> if n < 0 then Inl ''dashboard_stale'' else if 1000 \<le> n then Inl ''connections_limit'' else Inr ()) (\<lambda>_.
     Inr max_age)))))"

definition assignment_guard :: "store \<Rightarrow> time \<Rightarrow> asg_row \<Rightarrow> string + int" where
  "assignment_guard s now a =
     bindR (guardR (clean (a_live a) = ''live'' \<or> clean (a_live a) = ''online'') ''not_live'') (\<lambda>_.
     bindR (guardR (\<not> a_duplicate a) ''duplicate_egress'') (\<lambda>_.
     bindR (guardR (clean (a_qualification a) = ''risk'') ''not_risk'') (\<lambda>_.
     bindR (guardR (a_provider_eligible a) ''provider_ineligible'') (\<lambda>_.
     dashboard_guard s now a))))"

definition quota_guard ::
  "store \<Rightarrow> time \<Rightarrow> int \<Rightarrow> sub_row \<Rightarrow> int \<Rightarrow> int option \<Rightarrow> asg_row \<Rightarrow> string + unit" where
  "quota_guard s now thr x max_age excl a =
     bindR (case s_eligible_count x of
              Some n \<Rightarrow> Inr n
            | None \<Rightarrow> (let n = observed_eligible s now max_age (s_id x) in
                       if n \<le> 0 then Inl ''manual_action_required'' else Inr n)) (\<lambda>eligible.
     bindR (guardR (eligible < max 1 thr) ''provider_ineligible'') (\<lambda>_.
     bindR (guardR (s_quota x < 0 \<or> s_used x + reserved_swaps s (s_id x) excl < s_quota x) ''quota_exhausted'') (\<lambda>_.
     case a_ready a of None \<Rightarrow> Inr () | Some t \<Rightarrow> if now < t then Inl ''cooldown'' else Inr ())))"

definition subscription_open :: "time \<Rightarrow> sub_row \<Rightarrow> bool" where
  "subscription_open now x \<longleftrightarrow> (clean (s_status x) = ''active'' \<or> clean (s_status x) = ''ready'')
     \<and> s_missing x = None \<and> \<not> expiry_is_past (s_expires x) now"

definition swap_decide :: "store \<Rightarrow> time \<Rightarrow> int \<Rightarrow> int option \<Rightarrow> int option \<Rightarrow> int \<Rightarrow> swap_decision" where
  "swap_decide s now thr asg excl sub =
     (case find_sub s sub of
        None \<Rightarrow> \<lparr>d_allowed = False, d_reason = ''manual_action_required'', d_sub = sub, d_asg = None\<rparr>
      | Some x \<Rightarrow>
          if \<not> subscription_open now x
          then \<lparr>d_allowed = False, d_reason = ''manual_action_required'', d_sub = sub, d_asg = None\<rparr>
          else (case swap_target s sub asg of
             None \<Rightarrow> \<lparr>d_allowed = False, d_reason = ''manual_action_required'', d_sub = sub, d_asg = None\<rparr>
           | Some a \<Rightarrow>
               (case bindR (assignment_guard s now a) (\<lambda>age. quota_guard s now thr x age excl a) of
                  Inl r \<Rightarrow> \<lparr>d_allowed = False, d_reason = r, d_sub = sub, d_asg = Some (a_id a)\<rparr>
                | Inr _ \<Rightarrow> \<lparr>d_allowed = True, d_reason = ''ready'', d_sub = sub, d_asg = Some (a_id a)\<rparr>)))"

definition remember_decision :: "time \<Rightarrow> swap_decision \<Rightarrow> store \<Rightarrow> store" where
  "remember_decision now d s = update_sub (d_sub d)
     (\<lambda>x. x\<lparr>s_reason := d_reason d, s_checked := Some now, s_updated := now\<rparr>) s"

subsection \<open>Queueing\<close>

definition swap_candidate :: "store \<Rightarrow> time \<Rightarrow> int \<Rightarrow> asg_row \<Rightarrow> bool" where
  "swap_candidate s now thr a \<longleftrightarrow>
     (case find_sub s (a_sub a) of
        None \<Rightarrow> False
      | Some x \<Rightarrow> current_asg a \<and> a_missing a = None
          \<and> (s_status x = ''active'' \<or> s_status x = ''ready'') \<and> s_missing x = None
          \<and> a_qualification a = ''risk'' \<and> (a_live a = ''live'' \<or> a_live a = ''online'')
          \<and> a_provider_eligible a \<and> \<not> a_duplicate a
          \<and> sql_trim (or_empty (a_dash_id a)) \<noteq> ''''
          \<and> a_dash_eligible a = Some True
          \<and> (case a_dash_connections a of None \<Rightarrow> False | Some n \<Rightarrow> 0 \<le> n \<and> n < 1000)
          \<and> (case a_dash_observed a of None \<Rightarrow> False
             | Some t \<Rightarrow> now - seconds (dashboard_max_age s) \<le> t \<and> t \<le> now + seconds 60)
          \<and> elapsed (a_ready a) now
          \<and> (case s_eligible_count x of None \<Rightarrow> True | Some n \<Rightarrow> n < thr)
          \<and> (s_quota x < 0 \<or> s_used x < s_quota x)
          \<and> \<not> exists_where (\<lambda>j. j_old j = Some (a_id a) \<and> active_swap (j_state j)) (jobs s))"

definition swap_order :: "store \<Rightarrow> asg_row \<Rightarrow> time \<times> time \<times> int" where
  "swap_order s a = (case find_sub s (a_sub a) of None \<Rightarrow> 0 | Some x \<Rightarrow> s_updated x, a_updated a, a_id a)"

definition new_swap_job :: "time \<Rightarrow> int \<Rightarrow> int option \<Rightarrow> int \<Rightarrow> job_row" where
  "new_swap_job now sub asg i = \<lparr>j_id = i, j_sub = sub, j_old = asg, j_new = None, j_state = Sw_pending,
     j_reason = ''queued'', j_error = '''', j_attempts = 0, j_token = None, j_claimed_until = None, j_blocked = None,
     j_mutation_started = None, j_applied = None, j_reconcile_at = None, j_mut_old_external = None,
     j_mut_old_address = None, j_mut_dash_id = None, j_mut_sub_external = None, j_mut_new_external = None,
     j_mut_new_address = None, j_created = now, j_updated = now\<rparr>"

definition queue_one :: "time \<Rightarrow> int \<Rightarrow> store \<times> int \<Rightarrow> int \<times> int \<Rightarrow> store \<times> int" where
  "queue_one now thr sn row =
     (let (s, n) = sn; (asg, sub) = row;
          d = swap_decide s now thr (Some asg) None sub;
          s1 = remember_decision now d s
      in if \<not> d_allowed d then (s1, n)
         else case put_jobs (insert_row (new_swap_job now sub (d_asg d)) (jobs s1)) s1 of
           Inl _ \<Rightarrow> (s1, n)
         | Inr s2 \<Rightarrow> (s2, n + 1))"

definition queue_eligible_swaps :: "time \<Rightarrow> int \<Rightarrow> int option \<Rightarrow> store \<Rightarrow> store \<times> int" where
  "queue_eligible_swaps now lim threshold s =
     (if \<not> auto_swap_on s \<or> automation_paused s \<or> swap_worker_paused s then (s, 0)
      else
        (let thr = max 1 (case threshold of None \<Rightarrow> eligible_threshold s
                          | Some n \<Rightarrow> if n = 0 then eligible_threshold s else n);
             picked = take (nat (max 0 lim)) (sort_key (swap_order s) (select_where (swap_candidate s now thr) (asgs s)))
         in foldl (queue_one now thr) (s, 0) (map (\<lambda>a. (a_id a, a_sub a)) picked)))"

subsection \<open>Claiming\<close>

definition recover_leases :: "time \<Rightarrow> store \<Rightarrow> store" where
  "recover_leases now s = s\<lparr>jobs := update_where
     (\<lambda>j. j_state j = Sw_running \<and> (case j_claimed_until j of None \<Rightarrow> False | Some t \<Rightarrow> t \<le> now))
     (\<lambda>j. j\<lparr>j_state := Sw_pending, j_token := None, j_claimed_until := None, j_updated := now\<rparr>) (jobs s)\<rparr>"

definition other_busy :: "store \<Rightarrow> int \<Rightarrow> int \<Rightarrow> bool" where
  "other_busy s sub i = exists_where (\<lambda>k. j_sub k = sub \<and> j_id k \<noteq> i \<and> busy_swap (j_state k)) (jobs s)"

definition claimable :: "store \<Rightarrow> time \<Rightarrow> job_row \<Rightarrow> bool" where
  "claimable s now j \<longleftrightarrow> j_state j = Sw_pending \<and> elapsed (j_claimed_until j) now \<and> \<not> other_busy s (j_sub j) (j_id j)"

definition next_job :: "store \<Rightarrow> time \<Rightarrow> int option \<Rightarrow> job_row option" where
  "next_job s now job = (case job of
     None \<Rightarrow> (case sort_key (\<lambda>j. (j_created j, j_id j)) (select_where (claimable s now) (jobs s)) of
                [] \<Rightarrow> None | j # _ \<Rightarrow> Some j)
   | Some i \<Rightarrow> select_one (\<lambda>j. j_id j = i \<and> claimable s now j) (jobs s))"

definition running_row :: "time \<Rightarrow> string \<Rightarrow> int \<Rightarrow> job_row \<Rightarrow> job_row" where
  "running_row now tok secs k =
     (if j_state k = Sw_pending \<and> elapsed (j_claimed_until k) now
      then k\<lparr>j_state := Sw_running, j_token := Some tok, j_claimed_until := Some (now + seconds (max 30 secs)),
             j_attempts := j_attempts k + 1, j_updated := now\<rparr> else k)"

definition claim_next_swap ::
  "time \<Rightarrow> string \<Rightarrow> int \<Rightarrow> int option \<Rightarrow> store \<Rightarrow> store \<times> job_row option" where
  "claim_next_swap now tok claim_seconds job s =
     (let s1 = recover_leases now s in
      case next_job s1 now job of
        None \<Rightarrow> (s1, None)
      | Some j \<Rightarrow>
          (let s2 = update_job (j_id j) (running_row now tok claim_seconds) s1 in
            (s2, find_job s2 (j_id j))))"

subsection \<open>Revalidation and the mutation fence\<close>

definition swap_stopped :: "bool \<Rightarrow> store \<Rightarrow> bool" where
  "swap_stopped manual s \<longleftrightarrow> (automation_paused s \<and> \<not> manual) \<or> swap_worker_paused s \<or> (\<not> manual \<and> \<not> auto_swap_on s)"

definition revalidated_decision :: "bool \<Rightarrow> time \<Rightarrow> job_row \<Rightarrow> store \<Rightarrow> swap_decision" where
  "revalidated_decision manual now j s =
     (if swap_stopped manual s
      then \<lparr>d_allowed = False, d_reason = ''manual_action_required'', d_sub = j_sub j, d_asg = None\<rparr>
      else if other_busy s (j_sub j) (j_id j)
      then \<lparr>d_allowed = False, d_reason = ''subscription_mutation_in_progress'', d_sub = j_sub j, d_asg = j_old j\<rparr>
      else swap_decide s now (max 1 (eligible_threshold s)) (j_old j) (Some (j_id j)) (j_sub j))"

text \<open>\<open>UPDATE provider_assignments\<close>: dashboard evidence is withdrawn and distribution stops.\<close>

definition withdraw_evidence :: "time \<Rightarrow> asg_row \<Rightarrow> asg_row" where
  "withdraw_evidence now a = a\<lparr>a_dash_id := None, a_dash_eligible := None, a_dash_connections := None,
     a_dash_observed := None, a_dash_source := '''', a_dash_error := ''reconciliation_required'',
     a_distribution := False, a_updated := now\<rparr>"

definition fence_row :: "time \<Rightarrow> asg_row \<Rightarrow> sub_row \<Rightarrow> job_row \<Rightarrow> job_row" where
  "fence_row now a x j = j\<lparr>j_state := Sw_mutating, j_mutation_started := Some now, j_claimed_until := None,
     j_reason := ''provider_mutation'', j_mut_old_external := Some (a_external a),
     j_mut_old_address := Some (strip (a_host a) @ '':'' @ show_int (a_port a)),
     j_mut_dash_id := Some (or_empty (a_dash_id a)), j_mut_sub_external := Some (s_external x), j_updated := now\<rparr>"

definition enter_mutation :: "time \<Rightarrow> string option \<Rightarrow> job_row \<Rightarrow> store \<Rightarrow> store result" where
  "enter_mutation now tok j s =
     (let token = strip (if or_empty (j_token j) = '''' then or_empty tok else or_empty (j_token j)) in
      bindR (guardR (token \<noteq> '''') (ValueError ''Swap mutation requires a claim token'')) (\<lambda>_.
      case (case j_old j of None \<Rightarrow> None | Some i \<Rightarrow> find_asg s i, find_sub s (j_sub j)) of
        (Some a, Some x) \<Rightarrow>
          bindR (guardR (strip (a_external a) \<noteq> '''' \<and> strip (or_empty (a_dash_id a)) \<noteq> '''' \<and> strip (s_external x) \<noteq> '''')
                   (ValueError ''Swap mutation identity is missing'')) (\<lambda>_.
          bindR (guardR (j_state j = Sw_running \<and> j_token j = Some token) (ValueError ''Swap job claim is stale'')) (\<lambda>_.
          bindR (put_jobs (update_where (\<lambda>k. j_id k = j_id j \<and> j_state k = Sw_running \<and> j_token k = Some token)
                   (fence_row now a x) (jobs s)) s) (\<lambda>s1.
          Inr (s1\<lparr>asgs := update_where (\<lambda>b. a_id b = a_id a \<and> a_sub b = j_sub j) (withdraw_evidence now) (asgs s1)\<rparr>))))
      | _ \<Rightarrow> Inl (ValueError ''Swap mutation identity is missing'')))"

definition await_dashboard :: "time \<Rightarrow> job_row \<Rightarrow> store \<Rightarrow> store" where
  "await_dashboard now j s =
     update_sub (j_sub j) (\<lambda>x. x\<lparr>s_next_observe := Some now, s_updated := now\<rparr>)
       (update_job (j_id j) (\<lambda>k. if j_state k = Sw_running
          then k\<lparr>j_state := Sw_pending, j_reason := ''awaiting_dashboard'', j_error := ''dashboard_stale'', j_blocked := None,
                 j_token := None, j_claimed_until := Some (now + seconds 30), j_updated := now\<rparr> else k) s)"

definition block_guarded :: "time \<Rightarrow> string \<Rightarrow> job_row \<Rightarrow> store \<Rightarrow> store" where
  "block_guarded now reason j s =
     update_job (j_id j) (\<lambda>k. if j_state k = Sw_running
       then k\<lparr>j_state := Sw_blocked, j_reason := ''guard_failed'', j_error := safe_guard_code reason,
              j_blocked := Some now, j_token := None, j_claimed_until := None, j_updated := now\<rparr> else k) s"

definition claim_current :: "time \<Rightarrow> job_row \<Rightarrow> bool" where
  "claim_current now j \<longleftrightarrow> (case j_claimed_until j of None \<Rightarrow> False | Some t \<Rightarrow> now < t)"

definition revalidate_swap_job ::
  "time \<Rightarrow> int \<Rightarrow> bool \<Rightarrow> string option \<Rightarrow> bool \<Rightarrow> store \<Rightarrow> (store \<times> swap_decision) result" where
  "revalidate_swap_job now i manual tok enter s =
     (case find_job s i of
        None \<Rightarrow> Inl (LookupError ''Swap job not found'')
      | Some j \<Rightarrow>
          bindR (guardR (tok = None \<or> or_empty (j_token j) = or_empty tok) (ValueError ''Swap job claim is stale'')) (\<lambda>_.
          bindR (guardR (j_state j = Sw_running) (ValueError ''Swap job is not running'')) (\<lambda>_.
          bindR (guardR (\<not> enter \<or> strip (or_empty tok) \<noteq> '''') (ValueError ''Swap mutation requires a claim token'')) (\<lambda>_.
          bindR (guardR (\<not> enter \<or> claim_current now j) (ValueError ''Swap job claim is stale'')) (\<lambda>_.
          (let d = revalidated_decision manual now j s in
           if d_allowed d \<and> d_asg d = j_old j
           then (if enter then bindR (enter_mutation now tok j s) (\<lambda>s'. Inr (s', d)) else Inr (s, d))
           else
             (let reason = (if \<not> d_allowed d then d_reason d else ''manual_action_required'');
                  verdict = \<lparr>d_allowed = False, d_reason = reason, d_sub = j_sub j, d_asg = d_asg d\<rparr>
              in if reason = ''dashboard_stale'' \<and> \<not> manual
                 then Inr (await_dashboard now j s, verdict)
                 else Inr (block_guarded now reason j s, verdict))))))))"

end
