(* ===== verification/Swap_Marks.thy ===== *)
theory Swap_Marks
  imports Swap
begin

text \<open>
  \<open>app/services/proxiware_swap.py\<close>, second part: recording what the provider did with a job under its
  claim, reconciling it with the official inventory and the dashboard, and the actions of an admin.
  \<open>reveal\<close> is \<open>decrypt_assignment_secret\<close> (\<open>None\<close> where it raises).
\<close>

subsection \<open>A mutation was applied\<close>

definition resolve_assignment :: "store \<Rightarrow> string \<Rightarrow> asg_row option" where
  "resolve_assignment s e = select_one (\<lambda>a. a_external a = e) (asgs s)"

definition validated_address :: "string \<Rightarrow> (string \<times> int option \<times> string) result" where
  "validated_address v =
     (case (dashboard_address_endpoint v, normalize_dashboard_address v) of
        (Inr (host, port), Inr n) \<Rightarrow> Inr (host, port, n)
      | _ \<Rightarrow> Inl (ValueError ''Swap replacement address is invalid''))"

definition require_claim :: "job_row \<Rightarrow> string option \<Rightarrow> unit result" where
  "require_claim j tok =
     guardR (strip (or_empty tok) \<noteq> '''' \<and> strip (or_empty (j_token j)) \<noteq> '''' \<and> or_empty (j_token j) = or_empty tok)
       (ValueError ''Swap job claim is stale'')"

text \<open>The old row of a job: it has the subscription and, where the job names one, the id of the job.\<close>

definition match_old :: "job_row \<Rightarrow> asg_row \<Rightarrow> unit result" where
  "match_old j old =
     bindR (guardR (a_sub old = j_sub j) (ValueError ''Swap old assignment subscription mismatch'')) (\<lambda>_.
     guardR (j_old j = None \<or> j_old j = Some (a_id old)) (ValueError ''Swap old assignment does not match job''))"

definition blank_replacement :: "time \<Rightarrow> asg_row \<Rightarrow> asg_row" where
  "blank_replacement now a = a\<lparr>a_host := '''', a_port := 0, a_username := '''', a_password := '''', a_country := '''',
     a_status := ''pending'', a_qualification := ''pending'', a_provider_eligible := False, a_live := ''pending'',
     a_exit_ip := None, a_egress_verified := None, a_last_checked := None, a_duplicate := False,
     a_distribution := False, a_dash_id := None, a_dash_eligible := None, a_dash_connections := None,
     a_dash_observed := None, a_dash_source := '''', a_dash_error := ''reconciliation_required'',
     a_ready := None, a_updated := now\<rparr>"

definition none_if_empty :: "string \<Rightarrow> string option" where
  "none_if_empty t = (if t = '''' then None else Some t)"

text \<open>The old row leaves the distribution; a known replacement waits for the inventory.\<close>

definition settle_assignments :: "time \<Rightarrow> job_row \<Rightarrow> string \<Rightarrow> string \<Rightarrow> store \<Rightarrow> store result" where
  "settle_assignments now j old_external new_external s =
     (case resolve_assignment s old_external of
        None \<Rightarrow> Inl (ValueError ''Swap old assignment subscription mismatch'')
      | Some old \<Rightarrow>
          bindR (match_old j old) (\<lambda>_.
          (let s1 = update_asg (a_id old) (withdraw_evidence now) s in
           case (if new_external = '''' then None else resolve_assignment s1 new_external) of
             None \<Rightarrow> Inr s1
           | Some r \<Rightarrow> if a_sub r = j_sub j then Inr (update_asg (a_id r) (blank_replacement now) s1)
                       else Inl (ValueError ''Swap new assignment subscription mismatch''))))"

definition applied_row :: "time \<Rightarrow> string \<Rightarrow> string \<Rightarrow> string option \<Rightarrow> job_row \<Rightarrow> job_row" where
  "applied_row now old_external new_external normalized k =
     (if j_state k = Sw_mutating
      then k\<lparr>j_state := Sw_provider_applied, j_reason := ''provider_applied'', j_error := '''',
             j_applied := Some now, j_mut_old_external := Some old_external,
             j_mut_new_external := none_if_empty new_external, j_mut_new_address := normalized,
             j_claimed_until := None, j_updated := now\<rparr>
      else k)"

definition mark_provider_applied ::
  "time \<Rightarrow> int \<Rightarrow> string \<Rightarrow> string option \<Rightarrow> string option \<Rightarrow> string option \<Rightarrow> store \<Rightarrow> store result" where
  "mark_provider_applied now i old_ext new_ext addr tok s =
     (let old_external = strip old_ext; new_external = strip (or_empty new_ext); address = strip (or_empty addr) in
      bindR (guardR (old_external \<noteq> '''' \<and> (new_external \<noteq> '''' \<or> address \<noteq> '''') \<and> old_external \<noteq> new_external)
               (ValueError ''Swap assignment mapping is invalid'')) (\<lambda>_.
      bindR (if address = '''' then Inr None else bindR (validated_address address) (\<lambda>(h, p, n). Inr (Some n))) (\<lambda>normalized.
      bindR (guardR (strip (or_empty tok) \<noteq> '''') (ValueError ''Swap mutation requires a claim token'')) (\<lambda>_.
      case find_job s i of
        None \<Rightarrow> Inl (LookupError ''Swap job not found'')
      | Some j \<Rightarrow>
          bindR (guardR (j_state j = Sw_mutating) (ValueError ''Swap job is not mutating'')) (\<lambda>_.
          bindR (require_claim j tok) (\<lambda>_.
          (let frozen = strip (or_empty (j_mut_old_external j)) in
          bindR (guardR (frozen = '''' \<or> frozen = old_external)
                   (ValueError ''Swap old assignment does not match mutation fence'')) (\<lambda>_.
          bindR (settle_assignments now j old_external new_external s) (\<lambda>s2.
          Inr (fst (enqueue_sync_run now True
            (update_job i (applied_row now old_external new_external normalized) s2))))))))))))"

definition uncertain_row :: "time \<Rightarrow> string \<Rightarrow> job_row \<Rightarrow> job_row" where
  "uncertain_row now err k =
     (if mutation_swap (j_state k)
      then k\<lparr>j_state := Sw_reconciliation_required, j_reason := ''reconciliation_required'', j_error := err,
             j_reconcile_at := Some now, j_claimed_until := None, j_updated := now\<rparr>
      else k)"

definition mark_reconciliation_required ::
  "time \<Rightarrow> int \<Rightarrow> string \<Rightarrow> string option \<Rightarrow> store \<Rightarrow> store result" where
  "mark_reconciliation_required now i error tok s =
     bindR (guardR (strip (or_empty tok) \<noteq> '''') (ValueError ''Swap reconciliation requires a claim token'')) (\<lambda>_.
     case find_job s i of
       None \<Rightarrow> Inl (LookupError ''Swap job not found'')
     | Some j \<Rightarrow>
         bindR (guardR (mutation_swap (j_state j)) (ValueError ''Swap job is not in a mutation state'')) (\<lambda>_.
         bindR (require_claim j tok) (\<lambda>_.
         Inr (pause_auto_swap (update_job i (uncertain_row now (safe_code error ''provider_timeout'')) s)))))"

subsection \<open>Reconciliation succeeded\<close>

definition sql_lower :: "string \<Rightarrow> string" where
  "sql_lower t = map (\<lambda>c. if 65 \<le> code c \<and> code c \<le> 90 then char_of (code c + 32) else c) t"

definition after :: "time option \<Rightarrow> time \<Rightarrow> bool" where
  "after t m \<longleftrightarrow> (case t of None \<Rightarrow> False | Some x \<Rightarrow> m < x)"

definition mutation_time :: "job_row \<Rightarrow> time option" where
  "mutation_time j = (if j_applied j \<noteq> None then j_applied j else j_mutation_started j)"

definition resolve_replacement_by_address ::
  "store \<Rightarrow> int \<Rightarrow> int option \<Rightarrow> string \<Rightarrow> time \<Rightarrow> asg_row result" where
  "resolve_replacement_by_address s sub old address m =
     bindR (validated_address address) (\<lambda>(host, port, n).
     (let found = (if find_sub s sub = None then [] else
            filter (\<lambda>a. after (a_last_seen a) m)
              (sort_key a_id (select_where (\<lambda>a. a_sub a = sub \<and> sql_lower (a_host a) = host \<and> a_missing a = None
                \<and> a_status a \<noteq> ''replaced'' \<and> (port = None \<or> port = Some (a_port a)) \<and> old \<noteq> Some (a_id a)) (asgs s))))
      in case found of
           [] \<Rightarrow> Inl (SwapReconciliationPending ''Replacement address reconciliation is missing'')
         | [a] \<Rightarrow> Inr a
         | _ \<Rightarrow> Inl (SwapReconciliationPending ''Replacement address reconciliation is ambiguous'')))"

definition replacement_row :: "store \<Rightarrow> job_row \<Rightarrow> string \<Rightarrow> string \<Rightarrow> time \<Rightarrow> asg_row result" where
  "replacement_row s j expected address m =
     (if expected = '''' then resolve_replacement_by_address s (j_sub j) (j_old j) address m
      else case resolve_assignment s expected of
        None \<Rightarrow> Inl (SwapReconciliationPending ''Replacement assignment is not present in official sync'')
      | Some a \<Rightarrow>
          if address = '''' then Inr a
          else bindR (validated_address address) (\<lambda>(host, port, n).
            if lower (strip (a_host a)) \<noteq> host \<or> (port \<noteq> None \<and> port \<noteq> Some (a_port a))
            then Inl (SwapReconciliationPending ''Replacement address does not match official sync'') else Inr a))"

text \<open>The evidence for the new row.\<close>

definition replacement_evidence ::
  "(asg_row \<Rightarrow> string \<Rightarrow> string option) \<Rightarrow> store \<Rightarrow> time \<Rightarrow> time \<Rightarrow> asg_row \<Rightarrow> unit result" where
  "replacement_evidence reveal s now m a =
     (let pending = (\<lambda>t. SwapReconciliationPending t) in
      case (a_last_seen a, a_dash_observed a) of
        (Some synced, Some observed) \<Rightarrow>
          bindR (guardR (m < synced) (pending ''Replacement official sync evidence is stale'')) (\<lambda>_.
          bindR (guardR (m < observed) (pending ''Replacement dashboard evidence is stale'')) (\<lambda>_.
          bindR (guardR (a_dash_source a = ''provider_dashboard'') (ValueError ''Replacement dashboard evidence is untrusted'')) (\<lambda>_.
          bindR (guardR (strip (or_empty (a_dash_id a)) \<noteq> '''') (ValueError ''Replacement dashboard identity is missing'')) (\<lambda>_.
          bindR (guardR (now - observed \<le> seconds (dashboard_max_age s) \<and> observed - now \<le> seconds 60)
                   (pending ''Replacement dashboard evidence is stale'')) (\<lambda>_.
          bindR (guardR (strip (a_host a) \<noteq> '''' \<and> 0 < a_port a) (pending ''Replacement credential evidence is missing'')) (\<lambda>_.
          guardR (\<forall>c \<in> set [''username_encrypted'', ''password_encrypted''].
                    case reveal a c of None \<Rightarrow> False | Some t \<Rightarrow> strip t \<noteq> '''')
                 (pending ''Replacement credential evidence is invalid'')))))))
      | _ \<Rightarrow> Inl (pending ''Replacement reconciliation evidence is missing''))"

definition cooldown_seconds :: "store \<Rightarrow> int" where
  "cooldown_seconds s = (case py_int (get_setting s ''proxiware_cooldown_seconds'' ''60'') of
     None \<Rightarrow> 60 | Some n \<Rightarrow> max 60 n)"

definition activate_replacement :: "time \<Rightarrow> time \<Rightarrow> asg_row \<Rightarrow> asg_row" where
  "activate_replacement now ready a = a\<lparr>a_ready := Some ready, a_status := ''active'', a_qualification := ''pending'',
     a_live := ''pending'', a_q_next := Some ready, a_q_claimed_until := None, a_q_token := None, a_q_attempts := 0,
     a_distribution := False, a_egress_verified := None, a_last_checked := None, a_updated := now\<rparr>"

definition success_row :: "time \<Rightarrow> asg_row \<Rightarrow> asg_row \<Rightarrow> job_row \<Rightarrow> job_row" where
  "success_row now old new k = k\<lparr>j_state := Sw_success, j_reason := ''swapped'', j_error := '''',
     j_old := Some (a_id old), j_new := Some (a_id new), j_token := None, j_claimed_until := None, j_updated := now\<rparr>"

definition swapped_sub :: "time \<Rightarrow> sub_row \<Rightarrow> sub_row" where
  "swapped_sub now x = x\<lparr>s_used := s_used x + 1, s_reason := ''swapped'', s_checked := Some now,
     s_success := Some now, s_updated := now\<rparr>"

definition finish_swap :: "time \<Rightarrow> time \<Rightarrow> job_row \<Rightarrow> string \<Rightarrow> string \<Rightarrow> asg_row \<Rightarrow> asg_row \<Rightarrow> store \<Rightarrow> store result" where
  "finish_swap now m j old_ext new_ext old new s =
     (let ready = max now m + seconds (cooldown_seconds s);
          s1 = update_asg (a_id new) (activate_replacement now ready) s
      in if exists_where (\<lambda>x. m_job x = j_id j) (mappings s1)
         then Inl (IntegrityError ''UNIQUE constraint failed: swap_mappings.swap_job_id'')
         else
           (let s2 = s1\<lparr>mappings := insert_row (\<lambda>k. \<lparr>m_id = k, m_job = j_id j, m_old_external = old_ext,
                      m_new_external = new_ext, m_success = now\<rparr>) (mappings s1),
                    asgs := delete_where (\<lambda>a. a_id a = a_id old) (asgs s1)\<rparr>;
                s3 = update_job (j_id j) (success_row now old new) s2
            in Inr (update_sub (j_sub j) (swapped_sub now) s3)))"

text \<open>The provider's evidence in the job: what was replaced by what.\<close>

definition match_evidence :: "job_row \<Rightarrow> string \<Rightarrow> string \<Rightarrow> string \<Rightarrow> unit result" where
  "match_evidence j old_external new_external supplied =
     (let expected = strip (or_empty (j_mut_new_external j)); address = strip (or_empty (j_mut_new_address j)) in
      bindR (guardR (strip (or_empty (j_mut_old_external j)) = old_external)
               (ValueError ''Swap old assignment does not match provider evidence'')) (\<lambda>_.
      bindR (guardR (new_external = '''' \<or> expected = '''' \<or> expected = new_external)
               (ValueError ''Swap new assignment does not match provider evidence'')) (\<lambda>_.
      bindR (guardR (new_external = '''' \<or> new_external \<noteq> old_external)
               (ValueError ''Swap assignment mapping is invalid'')) (\<lambda>_.
      bindR (if supplied = '''' \<or> address = '''' then Inr ()
             else bindR (validated_address supplied) (\<lambda>(h1, p1, n1). bindR (validated_address address) (\<lambda>(h2, p2, n2).
               guardR (n1 = n2) (ValueError ''Swap replacement address does not match provider evidence'')))) (\<lambda>_.
      guardR (expected \<noteq> '''' \<or> address \<noteq> '''') (SwapReconciliationPending ''Provider replacement address is missing''))))))"

definition mark_swap_success ::
  "(asg_row \<Rightarrow> string \<Rightarrow> string option) \<Rightarrow> time \<Rightarrow> int \<Rightarrow> string \<Rightarrow> string option \<Rightarrow> string option \<Rightarrow> string option
     \<Rightarrow> store \<Rightarrow> store result" where
  "mark_swap_success reveal now i old_ext new_ext addr tok s =
     (let old_external = strip old_ext in
      bindR (guardR (old_external \<noteq> '''') (ValueError ''Swap assignment mapping is invalid'')) (\<lambda>_.
      case find_job s i of
        None \<Rightarrow> Inl (LookupError ''Swap job not found'')
      | Some j \<Rightarrow>
          bindR (guardR (j_state j = Sw_provider_applied \<or> j_state j = Sw_reconciliation_required)
                   (ValueError ''Swap job is not awaiting reconciliation'')) (\<lambda>_.
          bindR (require_claim j tok) (\<lambda>_.
          bindR (match_evidence j old_external (strip (or_empty new_ext)) (strip (or_empty addr))) (\<lambda>_.
          case resolve_assignment s old_external of
            None \<Rightarrow> Inl (LookupError ''Old assignment not found'')
          | Some old \<Rightarrow>
              bindR (match_old j old) (\<lambda>_.
              case mutation_time j of
                None \<Rightarrow> Inl (SwapReconciliationPending ''Replacement mutation timestamp is missing'')
              | Some m \<Rightarrow>
                  (let expected = strip (or_empty (j_mut_new_external j)) in
                  bindR (replacement_row s j expected (strip (or_empty (j_mut_new_address j))) m) (\<lambda>new.
                  (let new_external = (if expected = '''' then strip (a_external new) else expected) in
                  bindR (guardR (new_external \<noteq> '''' \<and> new_external \<noteq> old_external)
                           (ValueError ''Swap assignment mapping is invalid'')) (\<lambda>_.
                  bindR (guardR (a_sub new = j_sub j) (ValueError ''Swap new assignment subscription mismatch'')) (\<lambda>_.
                  bindR (replacement_evidence reveal s now m new) (\<lambda>_.
                  finish_swap now m j old_external new_external old new s))))))))))))"

subsection \<open>Read-only reconciliation\<close>

definition live_asgs :: "store \<Rightarrow> int \<Rightarrow> asg_row list" where
  "live_asgs s sub = select_where (\<lambda>a. a_sub a = sub \<and> a_missing a = None \<and> current_asg a) (asgs s)"

definition fresh_row :: "store \<Rightarrow> time \<Rightarrow> time \<Rightarrow> asg_row \<Rightarrow> bool" where
  "fresh_row s m now a \<longleftrightarrow>
     (case (a_last_seen a, a_dash_observed a) of
        (Some synced, Some observed) \<Rightarrow> m < synced \<and> m < observed \<and> a_dash_source a = ''provider_dashboard''
          \<and> now - observed \<le> seconds (dashboard_max_age s) \<and> observed - now \<le> seconds 60
          \<and> now - synced \<le> seconds (dashboard_max_age s) \<and> synced - now \<le> seconds 60
      | _ \<Rightarrow> False)"

definition snapshot_covers :: "store \<Rightarrow> int \<Rightarrow> time \<Rightarrow> time \<Rightarrow> bool" where
  "snapshot_covers s sub m now \<longleftrightarrow> live_asgs s sub \<noteq> [] \<and> list_all (fresh_row s m now) (live_asgs s sub)"

definition provider_unchanged :: "store \<Rightarrow> time \<Rightarrow> job_row \<Rightarrow> bool" where
  "provider_unchanged s now j =
     (let old_external = strip (or_empty (j_mut_old_external j));
          old_address = strip (or_empty (j_mut_old_address j));
          old_dash = strip (or_empty (j_mut_dash_id j))
      in case mutation_time j of
           None \<Rightarrow> False
         | Some m \<Rightarrow> old_external \<noteq> '''' \<and> old_address \<noteq> '''' \<and> old_dash \<noteq> '''' \<and> snapshot_covers s (j_sub j) m now
             \<and> (case (validated_address old_address, resolve_assignment s old_external) of
                  (Inr (host, port, n), Some old) \<Rightarrow>
                    a_missing old = None \<and> lower (a_status old) \<noteq> ''replaced''
                      \<and> lower (strip (a_host old)) = host \<and> Some (a_port old) = port
                      \<and> strip (or_empty (a_dash_id old)) = old_dash \<and> a_dash_source old = ''provider_dashboard''
                | _ \<Rightarrow> False))"

definition reconcile_no_provider_change :: "time \<Rightarrow> job_row \<Rightarrow> store \<Rightarrow> store \<times> bool" where
  "reconcile_no_provider_change now j s =
     (if provider_unchanged s now j
         \<and> exists_where (\<lambda>k. j_id k = j_id j \<and> j_state k = Sw_reconciliation_required) (jobs s)
      then (update_sub (j_sub j) (\<lambda>x. x\<lparr>s_reason := ''reconciled_no_provider_change'', s_checked := Some now, s_updated := now\<rparr>)
             (update_job (j_id j) (\<lambda>k. if j_state k = Sw_reconciliation_required
                then k\<lparr>j_state := Sw_blocked, j_reason := ''reconciled_no_provider_change'', j_token := None,
                       j_claimed_until := None, j_blocked := Some now, j_updated := now\<rparr> else k) s), True)
      else (s, False))"

definition inferred_candidates :: "store \<Rightarrow> time \<Rightarrow> job_row \<Rightarrow> asg_row list" where
  "inferred_candidates s m j =
     (let old_external = strip (or_empty (j_mut_old_external j)); old_dash = strip (or_empty (j_mut_dash_id j)) in
      filter (\<lambda>a. after (a_last_seen a) m \<and> after (a_dash_observed a) m \<and> a_dash_source a = ''provider_dashboard''
                \<and> strip (or_empty (a_dash_id a)) = old_dash)
        (sort_key a_id (filter (\<lambda>a. a_external a \<noteq> old_external \<and> a_dash_id a = Some old_dash) (live_asgs s (j_sub j)))))"

definition old_is_gone :: "store \<Rightarrow> string \<Rightarrow> bool" where
  "old_is_gone s e = (case resolve_assignment s e of
     None \<Rightarrow> True | Some old \<Rightarrow> a_missing old \<noteq> None \<or> lower (a_status old) = ''replaced'')"

definition inferred_replacement :: "store \<Rightarrow> time \<Rightarrow> job_row \<Rightarrow> asg_row option" where
  "inferred_replacement s now j =
     (let old_external = strip (or_empty (j_mut_old_external j)); old_dash = strip (or_empty (j_mut_dash_id j)) in
      case (mutation_time j, find_sub s (j_sub j)) of
        (Some m, Some x) \<Rightarrow>
          if old_external \<noteq> '''' \<and> old_dash \<noteq> '''' \<and> old_is_gone s old_external \<and> after (s_last_seen x) m
             \<and> snapshot_covers s (j_sub j) m now
          then (case inferred_candidates s m j of [a] \<Rightarrow> Some a | _ \<Rightarrow> None) else None
      | _ \<Rightarrow> None)"

definition lacks_replacement :: "int \<Rightarrow> job_row \<Rightarrow> bool" where
  "lacks_replacement i k \<longleftrightarrow> j_id k = i \<and> j_state k = Sw_reconciliation_required
     \<and> j_mut_new_external k = None \<and> j_mut_new_address k = None"

definition record_inferred_replacement :: "time \<Rightarrow> time \<Rightarrow> job_row \<Rightarrow> store \<Rightarrow> store \<times> bool" where
  "record_inferred_replacement wall now j s =
     (case inferred_replacement s now j of
        None \<Rightarrow> (s, False)
      | Some a \<Rightarrow>
          (s\<lparr>jobs := update_where (lacks_replacement (j_id j))
                (\<lambda>k. k\<lparr>j_mut_new_external := Some (a_external a), j_updated := wall\<rparr>) (jobs s)\<rparr>,
           exists_where (lacks_replacement (j_id j)) (jobs s)))"

record reconcile_counts =
  rc_success :: int
  rc_pending :: int
  rc_required :: int
  rc_unchanged :: int

definition no_counts :: reconcile_counts where
  "no_counts = \<lparr>rc_success = 0, rc_pending = 0, rc_required = 0, rc_unchanged = 0\<rparr>"

definition has_replacement :: "job_row \<Rightarrow> bool" where
  "has_replacement j \<longleftrightarrow> strip (or_empty (j_mut_new_external j)) \<noteq> '''' \<or> strip (or_empty (j_mut_new_address j)) \<noteq> ''''"

text \<open>An exception that leaves the loop keeps what the earlier transactions have committed.\<close>

type_synonym reconciled = "store \<times> (exn + reconcile_counts)"

definition close_or_wait :: "time \<Rightarrow> job_row \<Rightarrow> reconcile_counts \<Rightarrow> store \<Rightarrow> reconciled" where
  "close_or_wait now j c s =
     (case reconcile_no_provider_change now j s of
        (s', True) \<Rightarrow> (s', Inr (c\<lparr>rc_unchanged := rc_unchanged c + 1\<rparr>))
      | (s', False) \<Rightarrow> (s', Inr (c\<lparr>rc_pending := rc_pending c + 1\<rparr>)))"

definition complete_job ::
  "(asg_row \<Rightarrow> string \<Rightarrow> string option) \<Rightarrow> time \<Rightarrow> job_row \<Rightarrow> reconcile_counts \<Rightarrow> store \<Rightarrow> reconciled" where
  "complete_job reveal now j c s =
     (case find_job s (j_id j) of
        None \<Rightarrow> (s, Inl (RuntimeError ''NoneType object is not subscriptable''))
      | Some k \<Rightarrow>
          (case mark_swap_success reveal now (j_id j) (or_empty (j_mut_old_external k))
                  (none_if_empty (or_empty (j_mut_new_external k))) (none_if_empty (or_empty (j_mut_new_address k)))
                  (none_if_empty (or_empty (j_token k))) s of
             Inr s' \<Rightarrow> (s', Inr (c\<lparr>rc_success := rc_success c + 1\<rparr>))
           | Inl e \<Rightarrow>
               (case e of
                  SwapReconciliationPending t \<Rightarrow>
                    if j_state j = Sw_reconciliation_required then close_or_wait now j c s
                    else (s, Inr (c\<lparr>rc_pending := rc_pending c + 1\<rparr>))
                | IntegrityError t \<Rightarrow> (s, Inl e)
                | _ \<Rightarrow>
                    if j_state j = Sw_reconciliation_required then close_or_wait now j c s
                    else (case mark_reconciliation_required now (j_id j) ''reconciliation_required''
                                 (none_if_empty (or_empty (j_token j))) s of
                            Inl e' \<Rightarrow> (s, Inl e')
                          | Inr s' \<Rightarrow> (s', Inr (c\<lparr>rc_required := rc_required c + 1\<rparr>))))))"

definition reconcile_job ::
  "(asg_row \<Rightarrow> string \<Rightarrow> string option) \<Rightarrow> time \<Rightarrow> time \<Rightarrow> job_row \<Rightarrow> reconcile_counts \<Rightarrow> store \<Rightarrow> reconciled" where
  "reconcile_job reveal wall now j c s =
     (if j_state j = Sw_reconciliation_required \<and> \<not> has_replacement j then
        (case reconcile_no_provider_change now j s of
           (s1, True) \<Rightarrow> (s1, Inr (c\<lparr>rc_unchanged := rc_unchanged c + 1\<rparr>))
         | (s1, False) \<Rightarrow>
             (case record_inferred_replacement wall now j s1 of
                (s2, False) \<Rightarrow> (s2, Inr (c\<lparr>rc_pending := rc_pending c + 1\<rparr>))
              | (s2, True) \<Rightarrow> complete_job reveal now j c s2))
      else complete_job reveal now j c s)"

fun reconcile_jobs ::
  "(asg_row \<Rightarrow> string \<Rightarrow> string option) \<Rightarrow> time \<Rightarrow> time \<Rightarrow> job_row list \<Rightarrow> reconcile_counts \<Rightarrow> store \<Rightarrow> reconciled" where
  "reconcile_jobs reveal wall now [] c s = (s, Inr c)"
| "reconcile_jobs reveal wall now (j # js) c s =
     (case reconcile_job reveal wall now j c s of
        (s', Inl e) \<Rightarrow> (s', Inl e)
      | (s', Inr c') \<Rightarrow> reconcile_jobs reveal wall now js c' s')"

definition awaiting_jobs :: "store \<Rightarrow> int \<Rightarrow> job_row list" where
  "awaiting_jobs s lim = take (nat (max 0 lim)) (sort_key (\<lambda>j. (j_updated j, j_id j))
     (select_where (\<lambda>j. j_state j = Sw_provider_applied \<or> j_state j = Sw_reconciliation_required) (jobs s)))"

definition reconcile_provider_applied_swaps ::
  "(asg_row \<Rightarrow> string \<Rightarrow> string option) \<Rightarrow> time \<Rightarrow> time \<Rightarrow> int \<Rightarrow> store \<Rightarrow> reconciled" where
  "reconcile_provider_applied_swaps reveal wall now lim s =
     reconcile_jobs reveal wall now (awaiting_jobs s lim) no_counts s"

subsection \<open>Blocking, failing and the actions of an admin\<close>

definition pre_mutation :: "swap_state \<Rightarrow> bool" where
  "pre_mutation st \<longleftrightarrow> st = Sw_pending \<or> st = Sw_running"

definition blocked_reason :: "string \<Rightarrow> string" where
  "blocked_reason error = (if error \<in> set manual_action_codes then ''manual_action_required'' else ''provider_blocked'')"

definition swap_blocked_row :: "time \<Rightarrow> string \<Rightarrow> job_row \<Rightarrow> job_row" where
  "swap_blocked_row now err k =
     (if pre_mutation (j_state k)
      then k\<lparr>j_state := Sw_blocked, j_reason := blocked_reason err, j_error := err, j_blocked := Some now,
             j_token := None, j_claimed_until := None, j_updated := now\<rparr>
      else k)"

definition mark_swap_blocked :: "time \<Rightarrow> int \<Rightarrow> string \<Rightarrow> string option \<Rightarrow> store \<Rightarrow> store result" where
  "mark_swap_blocked now i error tok s =
     (let code = safe_code error ''provider_error'';
          stale = (case find_job s i of None \<Rightarrow> True
                   | Some j \<Rightarrow> \<not> pre_mutation (j_state j) \<or> or_empty (j_token j) \<noteq> or_empty tok)
      in bindR (guardR (tok = None \<or> \<not> stale) (ValueError ''Swap job claim is stale'')) (\<lambda>_.
         bindR (guardR (exists_where (\<lambda>j. j_id j = i \<and> pre_mutation (j_state j)) (jobs s))
                  (LookupError ''Swap job not found or already terminal'')) (\<lambda>_.
         (let s1 = update_job i (swap_blocked_row now code) s in
          Inr (if code \<in> set manual_action_codes then pause_auto_swap s1 else s1)))))"

definition retry_limit :: "store \<Rightarrow> int option \<Rightarrow> int" where
  "retry_limit s lim =
     (let configured = (case py_int (get_setting s ''proxiware_retry_limit'' ''3'') of None \<Rightarrow> 3 | Some n \<Rightarrow> n)
      in max 1 (case lim of None \<Rightarrow> configured | Some n \<Rightarrow> if n = 0 then configured else n))"

definition swap_failed_row :: "time \<Rightarrow> string \<Rightarrow> bool \<Rightarrow> job_row \<Rightarrow> job_row" where
  "swap_failed_row now err terminal k = k\<lparr>j_state := (if terminal then Sw_blocked else Sw_pending),
     j_reason := (if terminal then blocked_reason err else ''retry_scheduled''), j_error := err,
     j_blocked := (if terminal then Some now else None), j_token := None, j_claimed_until := None,
     j_updated := now\<rparr>"

definition mark_swap_failed ::
  "time \<Rightarrow> int \<Rightarrow> string \<Rightarrow> bool \<Rightarrow> int option \<Rightarrow> string option \<Rightarrow> store \<Rightarrow> (store \<times> swap_state) result" where
  "mark_swap_failed now i error retryable lim tok s =
     (let code = safe_code error ''provider_error'' in
      case find_job s i of
        None \<Rightarrow> Inl (LookupError ''Swap job not found'')
      | Some j \<Rightarrow>
          bindR (guardR (pre_mutation (j_state j)) (ValueError ''Swap job is not active'')) (\<lambda>_.
          bindR (guardR (tok = None \<or> or_empty (j_token j) = or_empty tok) (ValueError ''Swap job claim is stale'')) (\<lambda>_.
          (let terminal = (\<not> retryable \<or> retry_limit s lim \<le> j_attempts j);
               s1 = update_job i (swap_failed_row now code terminal) s
           in Inr (if terminal \<and> code \<in> set manual_action_codes then pause_auto_swap s1 else s1,
                   if terminal then Sw_blocked else Sw_pending)))))"

definition cancel_swap :: "time \<Rightarrow> int \<Rightarrow> store \<Rightarrow> store result" where
  "cancel_swap now i s =
     bindR (guardR (exists_where (\<lambda>j. j_id j = i \<and> pre_mutation (j_state j)) (jobs s))
              (LookupError ''Swap job not found or already terminal'')) (\<lambda>_.
     Inr (update_job i (\<lambda>k. if pre_mutation (j_state k)
       then k\<lparr>j_state := Sw_canceled, j_reason := ''canceled'', j_token := None, j_claimed_until := None,
              j_updated := now\<rparr> else k) s))"

definition requeue :: "time \<Rightarrow> int \<Rightarrow> string \<Rightarrow> store \<Rightarrow> store result" where
  "requeue now i reason s =
     put_jobs (update_where (\<lambda>k. j_id k = i) (\<lambda>k. k\<lparr>j_state := Sw_pending, j_reason := reason, j_error := '''',
       j_blocked := None, j_token := None, j_claimed_until := None, j_updated := now\<rparr>) (jobs s)) s"

definition retry_swap :: "time \<Rightarrow> int \<Rightarrow> store \<Rightarrow> store result" where
  "retry_swap now i s =
     (case find_job s i of
        None \<Rightarrow> Inl (LookupError ''Swap job not found'')
      | Some j \<Rightarrow>
          bindR (guardR (j_state j = Sw_failed \<or> j_state j = Sw_blocked \<or> j_state j = Sw_canceled)
                   (ValueError ''Swap job is not retryable'')) (\<lambda>_. requeue now i ''manual_retry'' s))"

definition request_manual_swap :: "time \<Rightarrow> int \<Rightarrow> store \<Rightarrow> store result" where
  "request_manual_swap now i s =
     bindR (guardR (\<not> swap_worker_paused s) (ValueError ''Swap worker is paused'')) (\<lambda>_.
     case find_job s i of
       None \<Rightarrow> Inl (LookupError ''Swap job not found'')
     | Some j \<Rightarrow>
         bindR (guardR (j_state j \<in> {Sw_pending, Sw_failed, Sw_blocked, Sw_canceled})
                  (ValueError ''Swap job is not available for manual execution'')) (\<lambda>_.
         (let d = swap_decide s now (max 1 (eligible_threshold s)) (j_old j) (Some i) (j_sub j) in
          bindR (guardR (d_allowed d \<and> d_asg d = j_old j) (ValueError (''Swap guards no longer pass: '' @ d_reason d))) (\<lambda>_.
          requeue now i ''manual_requested'' s))))"

end
