(* ===== verification/Swap_Jobs.thy ===== *)
theory Swap_Jobs
  imports Swap_Marks
begin

text \<open>
  The invariant of the swap jobs, and that every operation keeps it: one active job per assignment,
  one running or mutating job per subscription, and a job holds what its state needs. \<open>jobs_moved\<close>
  says how one operation may move the jobs.
\<close>

subsection \<open>The invariant\<close>

definition job_ok :: "job_row \<Rightarrow> bool" where
  "job_ok j \<longleftrightarrow>
     (busy_swap (j_state j) \<longrightarrow> strip (or_empty (j_token j)) \<noteq> '''')
   \<and> (j_state j = Sw_running \<longrightarrow> j_claimed_until j \<noteq> None)
   \<and> (mutation_swap (j_state j) \<longrightarrow> j_claimed_until j = None \<and> j_mutation_started j \<noteq> None
        \<and> strip (or_empty (j_mut_old_external j)) \<noteq> '''')
   \<and> (j_state j = Sw_provider_applied \<longrightarrow> j_applied j \<noteq> None)"

definition busy_keys :: "job_row list \<Rightarrow> int list" where
  "busy_keys js = map j_sub (filter (\<lambda>j. busy_swap (j_state j)) js)"

definition lineage_ok :: "store \<Rightarrow> bool" where
  "lineage_ok s \<longleftrightarrow> distinct (map m_job (rows (mappings s)))
     \<and> m_job ` set (rows (mappings s)) = j_id ` {j \<in> set (rows (jobs s)). j_state j = Sw_success}"

definition swaps_ok :: "store \<Rightarrow> bool" where
  "swaps_ok s \<longleftrightarrow> wf_table j_id (jobs s) \<and> distinct (index_keys (rows (jobs s)))
     \<and> distinct (busy_keys (rows (jobs s))) \<and> (\<forall>j \<in> set (rows (jobs s)). job_ok j) \<and> lineage_ok s"

lemma swaps_okD:
  assumes "swaps_ok s"
  shows "wf_table j_id (jobs s)" "distinct (index_keys (rows (jobs s)))" "distinct (busy_keys (rows (jobs s)))"
    "lineage_ok s" "\<And>j. j \<in> set (rows (jobs s)) \<Longrightarrow> job_ok j"
  using assms by (auto simp: swaps_ok_def)

lemma swaps_okI:
  assumes "wf_table j_id (jobs s)" "distinct (index_keys (rows (jobs s)))" "distinct (busy_keys (rows (jobs s)))"
    "lineage_ok s" "\<And>j. j \<in> set (rows (jobs s)) \<Longrightarrow> job_ok j"
  shows "swaps_ok s"
  using assms by (auto simp: swaps_ok_def)

lemma empty_swaps_ok [simp]: "swaps_ok empty_store"
  by (simp add: swaps_ok_def empty_store_def index_keys_def busy_keys_def lineage_ok_def)

lemma distinct_keys_map:
  assumes "distinct (map key (filter Q xs))"
    and "\<And>x. x \<in> set xs \<Longrightarrow> Q (f x) \<Longrightarrow> Q x \<and> key (f x) = key x"
  shows "distinct (map key (filter Q (map f xs)))"
  using assms
proof (induction xs)
  case Nil
  then show ?case by simp
next
  case (Cons x xs)
  have ih: "distinct (map key (filter Q (map f xs)))"
    by (rule Cons.IH) (use Cons.prems in \<open>auto split: if_splits\<close>)
  show ?case
  proof (cases "Q (f x)")
    case True
    then have "Q x" "key (f x) = key x" using Cons.prems(2) by auto
    moreover have "key x \<notin> key ` {y \<in> set xs. Q y}" using Cons.prems(1) \<open>Q x\<close> by simp
    moreover have "key ` {y \<in> f ` set xs. Q y} \<subseteq> key ` {y \<in> set xs. Q y}"
      using Cons.prems(2) by fastforce
    ultimately show ?thesis using ih True by auto
  next
    case False
    then show ?thesis using ih by simp
  qed
qed

lemma mutation_is_busy: "mutation_swap st \<Longrightarrow> busy_swap st"
  by (auto simp: mutation_swap_def busy_swap_def)

lemma busy_is_active: "busy_swap st \<Longrightarrow> active_swap st"
  by (auto simp: active_swap_def busy_swap_def)

lemma pre_mutation_not_mutation: "pre_mutation st \<Longrightarrow> \<not> mutation_swap st"
  by (auto simp: pre_mutation_def mutation_swap_def)

text \<open>The index on mutations never fires: it is weaker than the busy keys.\<close>

lemma mutation_keys_distinct:
  assumes "distinct (busy_keys js)"
  shows "distinct (mutation_keys js)"
proof -
  have "filter (\<lambda>j. mutation_swap (j_state j)) js
      = filter (\<lambda>j. mutation_swap (j_state j)) (filter (\<lambda>j. busy_swap (j_state j)) js)"
    by (auto simp: mutation_is_busy intro: filter_cong)
  then show ?thesis
    using assms by (simp only: mutation_keys_def busy_keys_def distinct_map_filter)
qed

lemma busy_unique:
  assumes "swaps_ok s" "j \<in> set (rows (jobs s))" "k \<in> set (rows (jobs s))"
    "busy_swap (j_state j)" "busy_swap (j_state k)" "j_sub j = j_sub k"
  shows "j = k"
  using swaps_okD(3) [OF assms(1)] assms(2-6)
  unfolding busy_keys_def distinct_map inj_on_def by auto

lemma wf_table_ids:
  assumes "wf_table rid t" "map rid (rows t') = map rid (rows t)" "seq t' = seq t"
  shows "wf_table rid t'"
proof -
  have "rid ` set (rows t') = rid ` set (rows t)" by (metis assms(2) list.set_map)
  then have "\<forall>r \<in> set (rows t'). rid r \<le> seq t'"
    using assms(1,3) by (metis (no_types, lifting) image_iff wf_table_def)
  then show ?thesis using assms by (simp add: wf_table_def)
qed

subsection \<open>How an operation moves the jobs\<close>

definition job_step :: "job_row \<Rightarrow> job_row \<Rightarrow> bool" where
  "job_step j k \<longleftrightarrow> j_id k = j_id j \<and> j_sub k = j_sub j
     \<and> (active_swap (j_state k) \<longrightarrow> active_swap (j_state j) \<and> j_old k = j_old j)
     \<and> (busy_swap (j_state k) \<longrightarrow> busy_swap (j_state j))
     \<and> (j_state k = Sw_success \<longleftrightarrow> j_state j = Sw_success)
     \<and> (job_ok j \<longrightarrow> job_ok k)
     \<and> (mutation_swap (j_state j) \<longrightarrow> mutation_swap (j_state k)
          \<or> (j_state k = Sw_blocked \<and> j_reason k = ''reconciled_no_provider_change''))"

lemma job_step_refl [simp]: "job_step j j"
  by (simp add: job_step_def)

definition jobs_moved :: "store \<Rightarrow> store \<Rightarrow> bool" where
  "jobs_moved s s' \<longleftrightarrow> mappings s' = mappings s \<and> seq (jobs s') = seq (jobs s)
     \<and> (\<exists>f. rows (jobs s') = map f (rows (jobs s)) \<and> (\<forall>j \<in> set (rows (jobs s)). job_step j (f j)))"

lemma jobs_moved_same [simp]: "jobs s' = jobs s \<Longrightarrow> mappings s' = mappings s \<Longrightarrow> jobs_moved s s'"
  unfolding jobs_moved_def by (auto intro: exI [of _ id])

lemma jobs_moved_update:
  assumes "jobs s' = update_where P f (jobs s)" "mappings s' = mappings s"
    and "\<And>j. j \<in> set (rows (jobs s)) \<Longrightarrow> P j \<Longrightarrow> job_step j (f j)"
  shows "jobs_moved s s'"
  unfolding jobs_moved_def using assms by (auto intro!: exI [of _ "\<lambda>j. if P j then f j else j"])

lemma jobs_moved_ok:
  assumes "jobs_moved s s'" "swaps_ok s"
  shows "swaps_ok s'"
proof -
  obtain f where f: "rows (jobs s') = map f (rows (jobs s))" "seq (jobs s') = seq (jobs s)" "mappings s' = mappings s"
    and st: "\<And>j. j \<in> set (rows (jobs s)) \<Longrightarrow> job_step j (f j)"
    using assms(1) unfolding jobs_moved_def by blast
  have ids: "map j_id (rows (jobs s')) = map j_id (rows (jobs s))"
    using st by (simp add: f(1) job_step_def)
  have "wf_table j_id (jobs s')"
    by (rule wf_table_ids [OF swaps_okD(1) [OF assms(2)] ids f(2)])
  moreover have "distinct (index_keys (rows (jobs s')))"
    unfolding index_keys_def f(1)
    by (rule distinct_keys_map [OF swaps_okD(2) [OF assms(2), unfolded index_keys_def]])
      (use st in \<open>auto simp: job_step_def\<close>)
  moreover have "distinct (busy_keys (rows (jobs s')))"
    unfolding busy_keys_def f(1)
    by (rule distinct_keys_map [OF swaps_okD(3) [OF assms(2), unfolded busy_keys_def]])
      (use st in \<open>auto simp: job_step_def\<close>)
  moreover have "j_id ` {j \<in> set (rows (jobs s')). j_state j = Sw_success}
      = j_id ` {j \<in> set (rows (jobs s)). j_state j = Sw_success}"
    using st unfolding f(1) by (force simp: job_step_def image_iff)
  then have "lineage_ok s'" using swaps_okD(4) [OF assms(2)] by (simp add: lineage_ok_def f)
  moreover have "\<And>j. j \<in> set (rows (jobs s')) \<Longrightarrow> job_ok j"
    using st swaps_okD(5) [OF assms(2)] by (auto simp: f(1) job_step_def)
  ultimately show ?thesis by (intro swaps_okI)
qed

text \<open>Operations that work through other tables.\<close>

lemma jobs_update_job [simp]: "jobs (update_job i f s) = update_where (\<lambda>j. j_id j = i) f (jobs s)"
  by (simp add: update_job_def)

lemma update_job_frame [simp]:
  "mappings (update_job i f s) = mappings s" "subs (update_job i f s) = subs s" "asgs (update_job i f s) = asgs s"
  "settings (update_job i f s) = settings s"
  by (simp_all add: update_job_def)

lemma update_sub_frame [simp]:
  "jobs (update_sub i f s) = jobs s" "mappings (update_sub i f s) = mappings s" "asgs (update_sub i f s) = asgs s"
  "settings (update_sub i f s) = settings s"
  by (simp_all add: update_sub_def)

lemma update_asg_frame [simp]:
  "jobs (update_asg i f s) = jobs s" "mappings (update_asg i f s) = mappings s" "subs (update_asg i f s) = subs s"
  "settings (update_asg i f s) = settings s"
  by (simp_all add: update_asg_def)

lemma pause_auto_swap_frame [simp]:
  "jobs (pause_auto_swap s) = jobs s" "mappings (pause_auto_swap s) = mappings s"
  "subs (pause_auto_swap s) = subs s" "asgs (pause_auto_swap s) = asgs s"
  by (simp_all add: pause_auto_swap_def Let_def)

lemma find_job_same: "jobs s' = jobs s \<Longrightarrow> find_job s' i = find_job s i"
  by (simp add: find_job_def)

lemma find_jobD:
  "find_job s i = Some j \<Longrightarrow> j \<in> set (rows (jobs s)) \<and> j_id j = i"
  unfolding find_job_def by (drule select_one_SomeD) simp

lemma find_jobI:
  "swaps_ok s \<Longrightarrow> j \<in> set (rows (jobs s)) \<Longrightarrow> find_job s (j_id j) = Some j"
  unfolding find_job_def by (rule wf_table_find [OF swaps_okD(1)])

lemma job_by_id:
  assumes "swaps_ok s" "find_job s i = Some j" "k \<in> set (rows (jobs s))" "j_id k = i"
  shows "k = j"
  using wf_table_unique [OF swaps_okD(1) [OF assms(1)] assms(3)] find_jobD [OF assms(2)] assms(4) by auto

lemma jobs_moved_put:
  "(\<And>j. j \<in> set (rows (jobs s)) \<Longrightarrow> P j \<Longrightarrow> job_step j (f j))
     \<Longrightarrow> jobs_moved s (s\<lparr>jobs := update_where P f (jobs s)\<rparr>)"
  by (rule jobs_moved_update [where P = P and f = f]) simp_all

lemma jobs_moved_update_job:
  "(\<And>j. j \<in> set (rows (jobs s)) \<Longrightarrow> j_id j = i \<Longrightarrow> job_step j (f j)) \<Longrightarrow> jobs_moved s (update_job i f s)"
  unfolding update_job_def by (rule jobs_moved_put)

lemma jobs_moved_other [simp]:
  "jobs_moved s (update_sub i g s') \<longleftrightarrow> jobs_moved s s'"
  "jobs_moved s (update_asg i h s') \<longleftrightarrow> jobs_moved s s'"
  "jobs_moved s (pause_auto_swap s') \<longleftrightarrow> jobs_moved s s'"
  "jobs_moved (update_asg i h s') s \<longleftrightarrow> jobs_moved s' s"
  by (simp_all add: jobs_moved_def)

subsection \<open>Moves of the single operations\<close>

lemmas swap_states = active_swap_def busy_swap_def mutation_swap_def pre_mutation_def

lemma recover_moved: "jobs_moved s (recover_leases now s)"
  unfolding recover_leases_def
  by (rule jobs_moved_put) (simp add: job_step_def job_ok_def swap_states)

lemma await_moved: "jobs_moved s (await_dashboard now j s)"
  unfolding await_dashboard_def jobs_moved_other
  by (rule jobs_moved_update_job) (simp add: job_step_def job_ok_def swap_states)

lemma block_guarded_moved: "jobs_moved s (block_guarded now r j s)"
  unfolding block_guarded_def
  by (rule jobs_moved_update_job) (simp add: job_step_def job_ok_def swap_states)

lemma put_jobsD:
  "put_jobs t s = Inr s' \<Longrightarrow> s' = s\<lparr>jobs := t\<rparr> \<and> distinct (index_keys (rows t)) \<and> distinct (mutation_keys (rows t))"
  by (simp add: put_jobs_def split: if_splits)

lemma enter_mutationD:
  assumes "enter_mutation now tok j s = Inr s'"
  obtains a x where "j_old j = Some (a_id a)" "find_asg s (a_id a) = Some a" "find_sub s (j_sub j) = Some x"
    "strip (a_external a) \<noteq> ''''" "strip (or_empty (a_dash_id a)) \<noteq> ''''" "strip (s_external x) \<noteq> ''''"
    "j_state j = Sw_running" "\<exists>t. j_token j = Some t \<and> strip t = t \<and> t \<noteq> ''''"
    "s' = s\<lparr>jobs := update_where (\<lambda>k. j_id k = j_id j \<and> j_state k = Sw_running \<and> j_token k = j_token j)
              (fence_row now a x) (jobs s),
            asgs := update_where (\<lambda>b. a_id b = a_id a \<and> a_sub b = j_sub j) (withdraw_evidence now) (asgs s)\<rparr>"
proof -
  define token where "token = strip (if or_empty (j_token j) = '''' then or_empty tok else or_empty (j_token j))"
  obtain i a x where ix: "j_old j = Some i" "find_asg s i = Some a" "find_sub s (j_sub j) = Some x"
    using assms unfolding enter_mutation_def Let_def
    by (cases "j_old j"; cases "find_sub s (j_sub j)") (auto simp: bindR_Inr_iff split: option.splits)
  have run: "bindR (guardR (token \<noteq> '''') (ValueError ''Swap mutation requires a claim token'')) (\<lambda>_.
          bindR (guardR (strip (a_external a) \<noteq> '''' \<and> strip (or_empty (a_dash_id a)) \<noteq> '''' \<and> strip (s_external x) \<noteq> '''')
                   (ValueError ''Swap mutation identity is missing'')) (\<lambda>_.
          bindR (guardR (j_state j = Sw_running \<and> j_token j = Some token) (ValueError ''Swap job claim is stale'')) (\<lambda>_.
          bindR (put_jobs (update_where (\<lambda>k. j_id k = j_id j \<and> j_state k = Sw_running \<and> j_token k = Some token)
                   (fence_row now a x) (jobs s)) s) (\<lambda>s1.
          Inr (s1\<lparr>asgs := update_where (\<lambda>b. a_id b = a_id a \<and> a_sub b = j_sub j) (withdraw_evidence now) (asgs s1)\<rparr>))))) = Inr s'"
    using assms unfolding enter_mutation_def Let_def token_def ix by (simp only: ix option.case prod.case)
  obtain s1 where g: "token \<noteq> ''''" "strip (a_external a) \<noteq> ''''" "strip (or_empty (a_dash_id a)) \<noteq> ''''"
      "strip (s_external x) \<noteq> ''''" "j_state j = Sw_running" "j_token j = Some token"
    and p: "put_jobs (update_where (\<lambda>k. j_id k = j_id j \<and> j_state k = Sw_running \<and> j_token k = Some token)
                   (fence_row now a x) (jobs s)) s = Inr s1"
    and s': "s' = s1\<lparr>asgs := update_where (\<lambda>b. a_id b = a_id a \<and> a_sub b = j_sub j) (withdraw_evidence now) (asgs s1)\<rparr>"
    using run by (auto simp: bindR_Inr_iff guardR_Inr_iff)
  have ai: "a_id a = i" using ix(2) unfolding find_asg_def by (drule_tac select_one_SomeD) simp
  have "strip token = token" by (simp add: token_def)
  then show ?thesis
    using that [of a x] ix g s' put_jobsD [OF p] by (simp add: ai)
qed

lemma enter_mutation_moved:
  assumes "enter_mutation now tok j s = Inr s'"
  shows "jobs_moved s s'"
  using assms
proof (rule enter_mutationD)
  fix a x
  assume tok: "\<exists>t. j_token j = Some t \<and> strip t = t \<and> t \<noteq> ''''" and ext: "strip (a_external a) \<noteq> ''''"
    and s': "s' = s\<lparr>jobs := update_where (\<lambda>k. j_id k = j_id j \<and> j_state k = Sw_running \<and> j_token k = j_token j)
              (fence_row now a x) (jobs s),
            asgs := update_where (\<lambda>b. a_id b = a_id a \<and> a_sub b = j_sub j) (withdraw_evidence now) (asgs s)\<rparr>"
  show ?thesis
    by (rule jobs_moved_update [where f = "fence_row now a x"
          and P = "\<lambda>k. j_id k = j_id j \<and> j_state k = Sw_running \<and> j_token k = j_token j"])
      (use tok ext in \<open>auto simp: s' job_step_def job_ok_def swap_states fence_row_def\<close>)
qed

lemma revalidate_moved:
  assumes "revalidate_swap_job now i manual tok enter s = Inr (s', d)"
  shows "jobs_moved s s'"
  using assms unfolding revalidate_swap_job_def
  by (auto simp: bindR_Inr_iff guardR_Inr_iff Let_def await_moved block_guarded_moved
      split: option.splits if_splits intro: enter_mutation_moved)

lemma settle_frame:
  "settle_assignments now j e n s = Inr s' \<Longrightarrow>
     jobs s' = jobs s \<and> mappings s' = mappings s \<and> subs s' = subs s \<and> settings s' = settings s"
  unfolding settle_assignments_def Let_def
  by (auto simp: bindR_Inr_iff split: option.splits if_splits)

lemma mark_provider_appliedD:
  assumes "mark_provider_applied now i old_ext new_ext addr tok s = Inr s'"
  obtains n s2 j where
    "s' = fst (enqueue_sync_run now True (update_job i (applied_row now (strip old_ext) (strip (or_empty new_ext)) n) s2))"
    "settle_assignments now j (strip old_ext) (strip (or_empty new_ext)) s = Inr s2"
    "find_job s i = Some j" "j_state j = Sw_mutating" "require_claim j tok = Inr ()" "strip old_ext \<noteq> ''''"
  using assms unfolding mark_provider_applied_def Let_def
  by (auto simp: bindR_Inr_iff guardR_Inr_iff split: option.splits)

lemma applied_step:
  "strip e \<noteq> '''' \<Longrightarrow> job_step j (applied_row now e n a j)"
  by (auto simp: applied_row_def job_step_def job_ok_def swap_states)

lemma mark_provider_applied_moved:
  assumes "mark_provider_applied now i old_ext new_ext addr tok s = Inr s'"
  shows "jobs_moved s s'"
  using assms
  by (rule mark_provider_appliedD)
    (use settle_frame in \<open>auto intro!: jobs_moved_update [where P = "\<lambda>k. j_id k = i"] applied_step\<close>)

lemma uncertain_step: "job_step j (uncertain_row now c j)"
  by (auto simp: uncertain_row_def job_step_def job_ok_def swap_states)

lemma mark_reconciliation_required_moved:
  assumes "mark_reconciliation_required now i e tok s = Inr s'"
  shows "jobs_moved s s'"
proof -
  have "s' = pause_auto_swap (update_job i (uncertain_row now (safe_code e ''provider_timeout'')) s)"
    using assms unfolding mark_reconciliation_required_def
    by (auto simp: bindR_Inr_iff split: option.splits)
  then show ?thesis by (simp add: jobs_moved_update_job uncertain_step)
qed

lemma pre_step:
  assumes "pre_mutation (j_state j)" "j_id k = j_id j" "j_sub k = j_sub j" "j_old k = j_old j"
    "j_state k = Sw_pending \<or> j_state k = Sw_blocked \<or> j_state k = Sw_canceled"
  shows "job_step j k"
proof -
  have "active_swap (j_state j)" "\<not> mutation_swap (j_state j)" "j_state j \<noteq> Sw_success"
    using assms(1) by (auto simp: swap_states)
  moreover have "\<not> busy_swap (j_state k)" "\<not> mutation_swap (j_state k)" "j_state k \<noteq> Sw_success"
    "j_state k \<noteq> Sw_running" "j_state k \<noteq> Sw_provider_applied"
    using assms(5) by (auto simp: swap_states)
  ultimately show ?thesis by (simp add: job_step_def job_ok_def assms(2-4))
qed

lemma blocked_step: "job_step j (swap_blocked_row now c j)"
  unfolding swap_blocked_row_def by (auto intro: pre_step)

lemma failed_step: "pre_mutation (j_state j) \<Longrightarrow> job_step j (swap_failed_row now c t j)"
  unfolding swap_failed_row_def by (rule pre_step) auto

lemma mark_swap_blocked_moved:
  assumes "mark_swap_blocked now i e tok s = Inr s'"
  shows "jobs_moved s s'"
proof -
  obtain c where "s' = update_job i (swap_blocked_row now c) s \<or> s' = pause_auto_swap (update_job i (swap_blocked_row now c) s)"
    using assms unfolding mark_swap_blocked_def Let_def
    by (auto simp: bindR_Inr_iff simp del: update_job_frame split: if_splits)
  then show ?thesis by (auto simp: jobs_moved_update_job blocked_step)
qed

lemma cancel_swap_moved:
  assumes "cancel_swap now i s = Inr s'"
  shows "jobs_moved s s'"
  using assms unfolding cancel_swap_def
  by (auto simp: bindR_Inr_iff guardR_Inr_iff intro!: jobs_moved_update_job)
    (rule pre_step; simp)+

lemma mark_swap_failedD:
  assumes "mark_swap_failed now i e retryable lim tok s = Inr (s', st)"
  obtains j c t where "find_job s i = Some j" "pre_mutation (j_state j)" "t = (\<not> retryable \<or> retry_limit s lim \<le> j_attempts j)"
    "st = (if t then Sw_blocked else Sw_pending)"
    "s' = update_job i (swap_failed_row now c t) s \<or> s' = pause_auto_swap (update_job i (swap_failed_row now c t) s)"
proof -
  obtain j where j: "find_job s i = Some j" "pre_mutation (j_state j)"
    using assms by (auto simp: mark_swap_failed_def Let_def bindR_Inr_iff guardR_Inr_iff split: option.splits)
  show thesis
    by (rule that [OF j refl, where c = "safe_code e ''provider_error''"])
      (use assms j in \<open>simp_all add: mark_swap_failed_def Let_def bindR_guardR split: if_splits\<close>)
qed

lemma mark_swap_failed_moved:
  assumes "mark_swap_failed now i e retryable lim tok s = Inr (s', st)" "swaps_ok s"
  shows "jobs_moved s s'"
  using assms(1)
proof (rule mark_swap_failedD)
  fix j c t
  assume j: "find_job s i = Some j" "pre_mutation (j_state j)"
    and s': "s' = update_job i (swap_failed_row now c t) s \<or> s' = pause_auto_swap (update_job i (swap_failed_row now c t) s)"
  have "jobs_moved s (update_job i (swap_failed_row now c t) s)"
    by (rule jobs_moved_update_job, rule failed_step) (metis job_by_id [OF assms(2) j(1)] j(2))
  with s' show ?thesis by auto
qed

lemma no_change_moved: "jobs_moved s (fst (reconcile_no_provider_change now j s))"
  unfolding reconcile_no_provider_change_def
  by (auto intro!: jobs_moved_update_job simp: job_step_def job_ok_def swap_states)

lemma inferred_moved: "jobs_moved s (fst (record_inferred_replacement wall now j s))"
  unfolding record_inferred_replacement_def
  by (auto split: option.splits intro!: jobs_moved_put simp: lacks_replacement_def job_step_def job_ok_def swap_states)

subsection \<open>Operations that make jobs active, busy or done\<close>

text \<open>A table that the indexes accept and that adds no busy job.\<close>

lemma put_jobs_ok:
  assumes "put_jobs t s = Inr s'" "swaps_ok s" "wf_table j_id t" "\<And>j. j \<in> set (rows t) \<Longrightarrow> job_ok j"
    and "distinct (busy_keys (rows t))"
    and "j_id ` {j \<in> set (rows t). j_state j = Sw_success} = j_id ` {j \<in> set (rows (jobs s)). j_state j = Sw_success}"
  shows "swaps_ok s'"
proof -
  have s': "s' = s\<lparr>jobs := t\<rparr>" and "distinct (index_keys (rows t))" using put_jobsD [OF assms(1)] by auto
  then show ?thesis
    using assms(3-5) swaps_okD(4) [OF assms(2)] by (intro swaps_okI) (auto simp: lineage_ok_def assms(6))
qed

lemma requeue_keeps:
  assumes "requeue now i r s = Inr s'" "swaps_ok s" "find_job s i = Some j" "j_state j \<noteq> Sw_success"
  shows "swaps_ok s'"
proof -
  let ?f = "\<lambda>k. k\<lparr>j_state := Sw_pending, j_reason := r, j_error := '''', j_blocked := None, j_token := None,
       j_claimed_until := None, j_updated := now\<rparr>"
  let ?t = "update_where (\<lambda>k. j_id k = i) ?f (jobs s)"
  have put: "put_jobs ?t s = Inr s'" using assms(1) by (simp add: requeue_def)
  have hit: "k = j" if "k \<in> set (rows (jobs s))" "j_id k = i" for k
    by (rule job_by_id [OF assms(2,3) that])
  show ?thesis
  proof (rule put_jobs_ok [OF put assms(2)])
    show "wf_table j_id ?t" by (rule wf_table_update [OF swaps_okD(1) [OF assms(2)]]) simp
    show "job_ok k" if "k \<in> set (rows ?t)" for k
      using that swaps_okD(5) [OF assms(2)] by (auto simp: job_ok_def swap_states)
    show "distinct (busy_keys (rows ?t))"
      unfolding busy_keys_def rows_update_where
      by (rule distinct_keys_map [OF swaps_okD(3) [OF assms(2), unfolded busy_keys_def]])
        (auto simp: swap_states split: if_splits)
    show "j_id ` {k \<in> set (rows ?t). j_state k = Sw_success} = j_id ` {k \<in> set (rows (jobs s)). j_state k = Sw_success}"
      using hit assms(4) by (force simp: image_iff split: if_splits)
  qed
qed

lemma retry_swap_keeps:
  assumes "retry_swap now i s = Inr s'" "swaps_ok s"
  shows "swaps_ok s'"
  using assms(1) unfolding retry_swap_def
  by (auto simp: bindR_Inr_iff guardR_Inr_iff split: option.splits intro: requeue_keeps [OF _ assms(2)])

lemma request_manual_keeps:
  assumes "request_manual_swap now i s = Inr s'" "swaps_ok s"
  shows "swaps_ok s'"
  using assms(1) unfolding request_manual_swap_def Let_def
  by (auto simp: bindR_Inr_iff guardR_Inr_iff split: option.splits intro: requeue_keeps [OF _ assms(2)])

lemma swaps_ok_cong:
  "jobs s' = jobs s \<Longrightarrow> mappings s' = mappings s \<Longrightarrow> swaps_ok s \<Longrightarrow> swaps_ok s'"
  by (rule jobs_moved_ok [OF jobs_moved_same])

lemma new_job_simps [simp]:
  "j_id (new_swap_job now sub a i) = i" "j_state (new_swap_job now sub a i) = Sw_pending"
  "j_sub (new_swap_job now sub a i) = sub" "j_old (new_swap_job now sub a i) = a"
  by (simp_all add: new_swap_job_def)

lemma queue_one_keeps:
  assumes "queue_one now thr (s, n) row = (s', n')" "swaps_ok s"
  shows "swaps_ok s'"
proof -
  obtain a sub where row: "row = (a, sub)" by (cases row)
  let ?d = "swap_decide s now thr (Some a) None sub"
  let ?s1 = "remember_decision now ?d s"
  have ok1: "swaps_ok ?s1" by (rule swaps_ok_cong [OF _ _ assms(2)]) (simp_all add: remember_decision_def)
  show ?thesis
  proof (cases "s' = ?s1")
    case True
    with ok1 show ?thesis by simp
  next
    case False
    let ?t = "insert_row (new_swap_job now sub (d_asg ?d)) (jobs ?s1)"
    have put: "put_jobs ?t ?s1 = Inr s'"
      using assms(1) False by (auto simp: queue_one_def row Let_def split: if_splits sum.splits)
    have sets: "set (rows ?t) = insert (new_swap_job now sub (d_asg ?d) (seq (jobs ?s1) + 1)) (set (rows (jobs ?s1)))"
      by simp
    show ?thesis
    proof (rule put_jobs_ok [OF put ok1])
      show "wf_table j_id ?t" by (rule wf_table_insert [OF swaps_okD(1) [OF ok1]]) simp
      show "job_ok k" if "k \<in> set (rows ?t)" for k
        using that swaps_okD(5) [OF ok1] unfolding sets by (auto simp: job_ok_def swap_states)
      show "distinct (busy_keys (rows ?t))"
        using swaps_okD(3) [OF ok1] by (simp add: busy_keys_def swap_states)
      show "j_id ` {k \<in> set (rows ?t). j_state k = Sw_success} = j_id ` {k \<in> set (rows (jobs ?s1)). j_state k = Sw_success}"
        unfolding sets by (simp add: Collect_conj_eq insert_Collect) (auto simp: image_iff)
    qed
  qed
qed

lemma queue_keeps:
  assumes "swaps_ok s"
  shows "swaps_ok (fst (queue_eligible_swaps now lim thr s))"
proof -
  have "swaps_ok (fst (foldl (queue_one now t) (s, n) xs))" for t n xs
    using assms
  proof (induction xs arbitrary: s n)
    case Nil
    then show ?case by simp
  next
    case (Cons x xs)
    obtain s1 n1 where q: "queue_one now t (s, n) x = (s1, n1)" by (cases "queue_one now t (s, n) x")
    show ?case using Cons.IH [OF queue_one_keeps [OF q Cons.prems]] by (simp add: q)
  qed
  then show ?thesis using assms by (simp add: queue_eligible_swaps_def Let_def)
qed

lemma busy_keys_iff:
  assumes "distinct (map j_id js)"
  shows "distinct (busy_keys js) \<longleftrightarrow> (\<forall>j \<in> set js. \<forall>k \<in> set js. busy_swap (j_state j) \<longrightarrow> busy_swap (j_state k)
     \<longrightarrow> j_sub j = j_sub k \<longrightarrow> j = k)"
proof -
  have "distinct js" using assms by (simp add: distinct_map)
  then show ?thesis by (auto simp: busy_keys_def distinct_map inj_on_def)
qed

text \<open>One more job of a subscription may become busy when no other one is.\<close>

lemma busy_keys_one_more:
  assumes "distinct (map j_id js)" "distinct (busy_keys js)" "j \<in> set js"
    and free: "\<And>k. k \<in> set js \<Longrightarrow> j_sub k = j_sub j \<Longrightarrow> j_id k \<noteq> j_id j \<Longrightarrow> \<not> busy_swap (j_state k)"
    and fid: "\<And>k. j_id (f k) = j_id k" "\<And>k. j_sub (f k) = j_sub k"
  shows "distinct (busy_keys (map (\<lambda>k. if j_id k = j_id j then f k else k) js))"
proof -
  let ?g = "\<lambda>k. if j_id k = j_id j then f k else k"
  have hit: "k = j" if "k \<in> set js" "j_id k = j_id j" for k
    using assms(1,3) that by (auto simp: distinct_map inj_on_def)
  have old: "\<forall>a \<in> set js. \<forall>b \<in> set js. busy_swap (j_state a) \<longrightarrow> busy_swap (j_state b) \<longrightarrow> j_sub a = j_sub b \<longrightarrow> a = b"
    using assms(1,2) by (simp only: busy_keys_iff)
  have "?g a = ?g b"
    if a: "a \<in> set js" "busy_swap (j_state (?g a))" and b: "b \<in> set js" "busy_swap (j_state (?g b))"
      and sub: "j_sub (?g a) = j_sub (?g b)" for a b
  proof (cases "j_id a = j_id j \<or> j_id b = j_id j")
    case True
    have "j_sub a = j_sub b" using sub by (simp add: fid split: if_splits)
    with True have "j_sub a = j_sub j" "j_sub b = j_sub j" using hit a(1) b(1) by metis+
    then have "j_id a = j_id j \<and> j_id b = j_id j"
      using True a b free by (metis (full_types))
    then show ?thesis using hit a(1) b(1) by metis
  next
    case False
    then show ?thesis using old a b sub by simp
  qed
  moreover have "distinct (map j_id (map ?g js))" using assms(1) by (simp add: map_if_key fid)
  ultimately show ?thesis by (auto simp only: busy_keys_iff set_map ball_simps)
qed

lemma next_jobD:
  assumes "next_job s now job = Some j"
  shows "j \<in> set (rows (jobs s)) \<and> claimable s now j"
proof (cases job)
  case None
  then obtain js where "sort_key (\<lambda>j. (j_created j, j_id j)) (select_where (claimable s now) (jobs s)) = j # js"
    using assms by (auto simp: next_job_def split: list.splits)
  then have "j \<in> set (sort_key (\<lambda>j. (j_created j, j_id j)) (select_where (claimable s now) (jobs s)))" by simp
  then show ?thesis by simp
next
  case (Some i)
  then show ?thesis using assms by (auto simp: next_job_def dest: select_one_SomeD)
qed

lemma running_row_ids [simp]:
  "j_id (running_row now tok secs k) = j_id k" "j_sub (running_row now tok secs k) = j_sub k"
  "j_old (running_row now tok secs k) = j_old k"
  by (simp_all add: running_row_def)

lemma claim_next_swap_cases:
  assumes "claim_next_swap now tok secs job s = (s', r)" "wf_table j_id (jobs s)"
  obtains (idle) "s' = recover_leases now s" "r = None"
  | (claimed) j where "j \<in> set (rows (jobs (recover_leases now s)))" "claimable (recover_leases now s) now j"
      "s' = update_job (j_id j) (running_row now tok secs) (recover_leases now s)" "r = Some (running_row now tok secs j)"
proof (cases "next_job (recover_leases now s) now job")
  case None
  then show ?thesis using assms by (intro idle) (simp_all add: claim_next_swap_def Let_def)
next
  case (Some j)
  let ?s1 = "recover_leases now s"
  let ?s2 = "update_job (j_id j) (running_row now tok secs) ?s1"
  have j: "j \<in> set (rows (jobs ?s1))" "claimable ?s1 now j" using next_jobD [OF Some] by auto
  have ok1: "wf_table j_id (jobs ?s1)"
    unfolding recover_leases_def by (simp, rule wf_table_update [OF assms(2)]) simp
  have s': "s' = ?s2" "r = find_job ?s2 (j_id j)"
    using assms(1) Some by (auto simp: claim_next_swap_def Let_def)
  have wf: "wf_table j_id (jobs ?s2)"
    unfolding jobs_update_job by (rule wf_table_update [OF ok1]) simp
  have "running_row now tok secs j \<in> set (rows (jobs ?s2))" using j(1) by force
  from wf_table_find [OF wf this] have "r = Some (running_row now tok secs j)"
    by (simp add: s'(2) find_job_def)
  then show ?thesis by (intro claimed [OF j s'(1)])
qed

lemma running_update_ok:
  assumes ok: "swaps_ok s" and j: "j \<in> set (rows (jobs s))" "claimable s now j" and tok: "strip tok \<noteq> ''''"
  shows "swaps_ok (update_job (j_id j) (running_row now tok secs) s)"
    (is "swaps_ok ?s")
proof (rule swaps_okI)
  let ?f = "running_row now tok secs"
  have pend: "j_state j = Sw_pending" and run: "j_state (?f j) = Sw_running"
    and free: "\<And>k. k \<in> set (rows (jobs s)) \<Longrightarrow> j_sub k = j_sub j \<Longrightarrow> j_id k \<noteq> j_id j \<Longrightarrow> \<not> busy_swap (j_state k)"
    using j(2) by (auto simp: claimable_def other_busy_def exists_where_iff running_row_def)
  have hit: "k = j" if "k \<in> set (rows (jobs s))" "j_id k = j_id j" for k
    by (rule wf_table_unique [OF swaps_okD(1) [OF ok] that(1) j(1) that(2)])
  show "wf_table j_id (jobs ?s)"
    unfolding jobs_update_job by (rule wf_table_update [OF swaps_okD(1) [OF ok]]) simp
  show "distinct (index_keys (rows (jobs ?s)))"
    unfolding jobs_update_job rows_update_where index_keys_def
    by (rule distinct_keys_map [OF swaps_okD(2) [OF ok, unfolded index_keys_def]])
      (use pend hit in \<open>auto simp: running_row_def swap_states split: if_splits\<close>)
  show "distinct (busy_keys (rows (jobs ?s)))"
    unfolding jobs_update_job rows_update_where
    by (rule busy_keys_one_more [OF _ swaps_okD(3) [OF ok] j(1) free])
      (use swaps_okD(1) [OF ok] in \<open>simp_all add: wf_table_def\<close>)
  have "j_id ` {k \<in> set (rows (jobs ?s)). j_state k = Sw_success} = j_id ` {k \<in> set (rows (jobs s)). j_state k = Sw_success}"
    using hit pend run by (force simp: image_iff split: if_splits)
  then show "lineage_ok ?s" using swaps_okD(4) [OF ok] by (simp add: lineage_ok_def)
  show "job_ok k" if "k \<in> set (rows (jobs ?s))" for k
    using that swaps_okD(5) [OF ok] tok by (auto simp: running_row_def job_ok_def swap_states split: if_splits)
qed

lemma claim_keeps:
  assumes "claim_next_swap now tok secs job s = (s', r)" "swaps_ok s" "strip tok \<noteq> ''''"
  shows "swaps_ok s'"
  using assms(1) swaps_okD(1) [OF assms(2)]
  by (cases rule: claim_next_swap_cases)
    (use jobs_moved_ok [OF recover_moved assms(2)] running_update_ok [OF _ _ _ assms(3)] in auto)

subsection \<open>A reconciled swap\<close>

lemma bindR_InrE: "bindR m f = Inr b \<Longrightarrow> (\<And>a. m = Inr a \<Longrightarrow> f a = Inr b \<Longrightarrow> P) \<Longrightarrow> P"
  by (cases m) auto

lemma guardR_InrE: "guardR c e = Inr u \<Longrightarrow> (c \<Longrightarrow> P) \<Longrightarrow> P"
  by (simp add: guardR_Inr_iff)

lemma match_evidenceD:
  "match_evidence j old_external new_external supplied = Inr u \<Longrightarrow> strip (or_empty (j_mut_old_external j)) = old_external"
  by (auto simp: match_evidence_def Let_def bindR_Inr_iff guardR_Inr_iff)

lemma mark_swap_successD:
  assumes "mark_swap_success reveal now i old_ext new_ext addr tok s = Inr s'"
  obtains j old new m new_external where
    "find_job s i = Some j" "j_state j = Sw_provider_applied \<or> j_state j = Sw_reconciliation_required"
    "require_claim j tok = Inr ()" "match_old j old = Inr ()" "mutation_time j = Some m"
    "strip (or_empty (j_mut_old_external j)) = strip old_ext" "strip old_ext \<noteq> ''''"
    "resolve_assignment s (strip old_ext) = Some old"
    "replacement_row s j (strip (or_empty (j_mut_new_external j))) (strip (or_empty (j_mut_new_address j))) m = Inr new"
    "new_external = (if strip (or_empty (j_mut_new_external j)) = '''' then strip (a_external new)
       else strip (or_empty (j_mut_new_external j)))"
    "new_external \<noteq> ''''" "new_external \<noteq> strip old_ext" "a_sub new = j_sub j"
    "replacement_evidence reveal s now m new = Inr ()"
    "finish_swap now m j (strip old_ext) new_external old new s = Inr s'"
proof -
  obtain j where j: "find_job s i = Some j"
    using assms by (auto simp: mark_swap_success_def Let_def bindR_Inr_iff split: option.splits)
  obtain old where old: "resolve_assignment s (strip old_ext) = Some old"
    using assms j by (auto simp: mark_swap_success_def Let_def bindR_Inr_iff split: option.splits)
  obtain m where m: "mutation_time j = Some m"
    using assms j old by (cases "mutation_time j") (auto simp: mark_swap_success_def Let_def bindR_Inr_iff)
  show thesis
    using assms unfolding mark_swap_success_def Let_def j old m option.case
    by (elim bindR_InrE guardR_InrE) (rule that [OF j _ _ _ m _ _ old _ refl]; simp add: match_evidenceD)
qed

lemma finish_swapD:
  assumes "finish_swap now m j e1 e2 old new s = Inr s'"
  shows "jobs s' = update_where (\<lambda>k. j_id k = j_id j) (success_row now old new) (jobs s)"
    "mappings s' = insert_row (\<lambda>k. \<lparr>m_id = k, m_job = j_id j, m_old_external = e1, m_new_external = e2, m_success = now\<rparr>)
       (mappings s)"
    "asgs s' = delete_where (\<lambda>a. a_id a = a_id old) (update_where (\<lambda>a. a_id a = a_id new)
       (activate_replacement now (max now m + seconds (cooldown_seconds s))) (asgs s))"
    "subs s' = update_where (\<lambda>x. s_id x = j_sub j) (swapped_sub now) (subs s)"
    "settings s' = settings s"
    "\<not> exists_where (\<lambda>x. m_job x = j_id j) (mappings s)"
  using assms by (auto simp: finish_swap_def Let_def update_job_def update_sub_def update_asg_def split: if_splits)

lemma success_row_simps [simp]:
  "j_id (success_row now old new k) = j_id k" "j_sub (success_row now old new k) = j_sub k"
  "j_state (success_row now old new k) = Sw_success"
  by (simp_all add: success_row_def)

lemma ids_of_map:
  "(\<And>k. rid (g k) = rid k) \<Longrightarrow> rid ` {k \<in> set (map g xs). S k} = rid ` {k \<in> set xs. S (g k)}"
proof (intro set_eqI iffI)
  fix y
  assume g: "\<And>k. rid (g k) = rid k"
  show "y \<in> rid ` {k \<in> set xs. S (g k)}" if "y \<in> rid ` {k \<in> set (map g xs). S k}"
    using that g by (auto simp: image_iff)
  show "y \<in> rid ` {k \<in> set (map g xs). S k}" if y: "y \<in> rid ` {k \<in> set xs. S (g k)}"
  proof -
    obtain k where "k \<in> set xs" "S (g k)" "y = rid (g k)" using y g by auto
    then show ?thesis by auto
  qed
qed

lemma finish_keeps:
  assumes fin: "finish_swap now m j e1 e2 old new s = Inr s'" and ok: "swaps_ok s" and j: "find_job s (j_id j) = Some j"
  shows "swaps_ok s'"
proof (rule swaps_okI)
  note d = finish_swapD [OF fin]
  have hit: "k = j" if "k \<in> set (rows (jobs s))" "j_id k = j_id j" for k
    by (rule job_by_id [OF ok j that])
  show "wf_table j_id (jobs s')"
    unfolding d by (rule wf_table_update [OF swaps_okD(1) [OF ok]]) simp
  show "distinct (index_keys (rows (jobs s')))"
    unfolding d index_keys_def rows_update_where
    by (rule distinct_keys_map [OF swaps_okD(2) [OF ok, unfolded index_keys_def]])
      (auto simp: swap_states split: if_splits)
  show "distinct (busy_keys (rows (jobs s')))"
    unfolding d busy_keys_def rows_update_where
    by (rule distinct_keys_map [OF swaps_okD(3) [OF ok, unfolded busy_keys_def]])
      (auto simp: swap_states split: if_splits)
  have "j_id ` {k \<in> set (rows (jobs s')). j_state k = Sw_success}
      = j_id ` {k \<in> set (rows (jobs s)). j_id k = j_id j \<or> j_state k = Sw_success}"
    unfolding d rows_update_where by (subst ids_of_map) (auto intro!: arg_cong [where f = "image j_id"])
  also have "\<dots> = insert (j_id j) (j_id ` {k \<in> set (rows (jobs s)). j_state k = Sw_success})"
    using find_jobD [OF j] by auto
  finally have ids: "j_id ` {k \<in> set (rows (jobs s')). j_state k = Sw_success}
      = insert (j_id j) (j_id ` {k \<in> set (rows (jobs s)). j_state k = Sw_success})" .
  have "j_id j \<notin> m_job ` set (rows (mappings s))" using d(6) by (auto simp: exists_where_iff)
  with ids show "lineage_ok s'"
    using swaps_okD(4) [OF ok] by (simp add: lineage_ok_def d(2))
  show "job_ok k" if "k \<in> set (rows (jobs s'))" for k
    using that swaps_okD(5) [OF ok] unfolding d by (auto simp: job_ok_def swap_states split: if_splits)
qed

lemma mark_swap_success_keeps:
  assumes "mark_swap_success reveal now i old_ext new_ext addr tok s = Inr s'" "swaps_ok s"
  shows "swaps_ok s'"
  using assms(1)
proof (rule mark_swap_successD)
  fix j old new m e
  assume "find_job s i = Some j" "finish_swap now m j (strip old_ext) e old new s = Inr s'"
  then show ?thesis using finish_keeps [OF _ assms(2)] find_jobD by metis
qed

text \<open>The mapping table has no row for a job that is not done, so a success never fails on its index.\<close>

lemma finish_total:
  assumes "swaps_ok s" "find_job s (j_id j) = Some j" "j_state j \<noteq> Sw_success"
  shows "\<exists>s'. finish_swap now m j e1 e2 old new s = Inr s'"
proof -
  have "j_id j \<notin> m_job ` set (rows (mappings s))"
    using swaps_okD(4) [OF assms(1)] job_by_id [OF assms(1,2)] assms(3) by (auto simp: lineage_ok_def)
  then have "\<not> exists_where (\<lambda>x. m_job x = j_id j) (mappings s)" by (auto simp: exists_where_iff intro: rev_image_eqI)
  then show ?thesis by (simp add: finish_swap_def Let_def)
qed

end
