(* ===== verification/Swap_Run.thy ===== *)
theory Swap_Run
  imports Swap_Jobs
begin

text \<open>
  The reconciliation loop never fails, and the swap operations as one transition system.
\<close>

subsection \<open>The errors of a success\<close>

fun swap_error :: "exn \<Rightarrow> bool" where
  "swap_error (ValueError t) = True"
| "swap_error (LookupError t) = True"
| "swap_error (SwapReconciliationPending t) = True"
| "swap_error _ = False"

definition raises_only :: "'a result \<Rightarrow> bool" where
  "raises_only m \<longleftrightarrow> (case m of Inl e \<Rightarrow> swap_error e | Inr _ \<Rightarrow> True)"

lemma raises_only_simps [simp]: "raises_only (Inr a)" "raises_only (Inl e) \<longleftrightarrow> swap_error e"
  by (simp_all add: raises_only_def)

lemma raises_bind: "raises_only m \<Longrightarrow> (\<And>a. m = Inr a \<Longrightarrow> raises_only (f a)) \<Longrightarrow> raises_only (bindR m f)"
  by (cases m) auto

lemma raises_guard [simp]: "raises_only (guardR c e) \<longleftrightarrow> c \<or> swap_error e"
  by (cases c) simp_all

lemma raises_validated [simp]: "raises_only (validated_address v)"
  by (auto simp: validated_address_def split: sum.splits)

lemma raises_claim [simp]: "raises_only (require_claim j tok)"
  by (simp add: require_claim_def)

lemma raises_match_old [simp]: "raises_only (match_old j old)"
  unfolding match_old_def by (rule raises_bind) simp_all

lemma raises_match_evidence [simp]: "raises_only (match_evidence j a b c)"
  unfolding match_evidence_def Let_def
  by (auto intro!: raises_bind split: prod.splits)

lemma raises_resolve [simp]: "raises_only (resolve_replacement_by_address s sub old address m)"
  unfolding resolve_replacement_by_address_def Let_def
  by (rule raises_bind) (auto split: prod.splits list.splits)

lemma raises_replacement [simp]: "raises_only (replacement_row s j e a m)"
  unfolding replacement_row_def by (auto intro!: raises_bind split: option.splits prod.splits)

lemma raises_evidence [simp]: "raises_only (replacement_evidence reveal s now m a)"
  unfolding replacement_evidence_def Let_def by (auto intro!: raises_bind split: option.splits)

lemma raises_success:
  assumes "swaps_ok s"
  shows "raises_only (mark_swap_success reveal now i old_ext new_ext addr tok s)"
proof -
  have fin: "raises_only (finish_swap now m j e1 e2 old new s)"
    if "find_job s i = Some j" "j_state j = Sw_provider_applied \<or> j_state j = Sw_reconciliation_required" for m j e1 e2 old new
  proof -
    have "find_job s (j_id j) = Some j" "j_state j \<noteq> Sw_success" using that find_jobD [OF that(1)] by auto
    from finish_total [OF assms this] show ?thesis by (metis raises_only_simps(1))
  qed
  show ?thesis
    unfolding mark_swap_success_def Let_def
    by (auto intro!: raises_bind fin simp: guardR_Inr_iff split: option.splits)
qed

subsection \<open>The reconciliation loop\<close>

definition others_kept :: "int \<Rightarrow> store \<Rightarrow> store \<Rightarrow> bool" where
  "others_kept i s s' \<longleftrightarrow> (\<forall>k \<in> set (rows (jobs s)). j_id k \<noteq> i \<longrightarrow> k \<in> set (rows (jobs s')))"

lemma others_kept_same [simp]: "jobs s' = jobs s \<Longrightarrow> others_kept i s s'"
  by (simp add: others_kept_def)

lemma others_kept_update:
  "jobs s' = update_where P f (jobs s) \<Longrightarrow> (\<And>j. P j \<Longrightarrow> j_id j = i) \<Longrightarrow> others_kept i s s'"
  by (auto simp: others_kept_def image_iff)

lemma others_kept_trans: "others_kept i a b \<Longrightarrow> others_kept i b c \<Longrightarrow> others_kept i a c"
  by (simp add: others_kept_def)

lemma no_change_others: "others_kept (j_id j) s (fst (reconcile_no_provider_change now j s))"
  unfolding reconcile_no_provider_change_def
  by (auto intro!: others_kept_update [where P = "\<lambda>k. j_id k = j_id j"])

lemma inferred_others: "others_kept (j_id j) s (fst (record_inferred_replacement wall now j s))"
  unfolding record_inferred_replacement_def
  by (auto split: option.splits simp: lacks_replacement_def
      intro!: others_kept_update [where P = "lacks_replacement (j_id j)"])

definition tally :: "reconcile_counts \<Rightarrow> int" where
  "tally c = rc_success c + rc_pending c + rc_required c + rc_unchanged c"

text \<open>What one iteration must give: a next state with its count, and the other jobs untouched.\<close>

definition settles :: "int \<Rightarrow> reconcile_counts \<Rightarrow> store \<Rightarrow> reconciled \<Rightarrow> bool" where
  "settles i c s r \<longleftrightarrow> (\<exists>s' c'. r = (s', Inr c') \<and> tally c' = tally c + 1 \<and> swaps_ok s' \<and> others_kept i s s')"

lemma close_or_wait_settles:
  assumes "swaps_ok s"
  shows "settles (j_id j) c s (close_or_wait now j c s)"
proof -
  obtain s' b where r: "reconcile_no_provider_change now j s = (s', b)" by (cases "reconcile_no_provider_change now j s")
  have "swaps_ok s'" "others_kept (j_id j) s s'"
    using jobs_moved_ok [OF no_change_moved assms, of now j] no_change_others [of j s now] by (simp_all add: r)
  then show ?thesis by (cases b) (simp_all add: close_or_wait_def r settles_def tally_def)
qed

lemma success_settles:
  assumes "mark_swap_success reveal now i a b d tok s = Inr s'" "swaps_ok s"
  shows "swaps_ok s' \<and> others_kept i s s'"
proof
  show "swaps_ok s'" by (rule mark_swap_success_keeps [OF assms])
  show "others_kept i s s'"
    using assms(1)
  proof (rule mark_swap_successD)
    fix j old new m e
    assume "find_job s i = Some j" "finish_swap now m j (strip a) e old new s = Inr s'"
    then have "jobs s' = update_where (\<lambda>k. j_id k = i) (success_row now old new) (jobs s)"
      using finish_swapD(1) find_jobD by metis
    then show ?thesis by (rule others_kept_update) simp
  qed
qed

lemma required_settles:
  assumes "find_job s i = Some j" "mutation_swap (j_state j)" "swaps_ok s"
  shows "\<exists>s'. mark_reconciliation_required now i e (none_if_empty (or_empty (j_token j))) s = Inr s'
     \<and> swaps_ok s' \<and> others_kept i s s'"
proof -
  have tok: "strip (or_empty (j_token j)) \<noteq> ''''"
    using swaps_okD(5) [OF assms(3)] find_jobD [OF assms(1)] assms(2) mutation_is_busy by (auto simp: job_ok_def)
  then have "or_empty (none_if_empty (or_empty (j_token j))) = or_empty (j_token j)"
    by (cases "or_empty (j_token j)") (auto simp: none_if_empty_def)
  then obtain s' where s': "mark_reconciliation_required now i e (none_if_empty (or_empty (j_token j))) s = Inr s'"
    using assms tok by (simp add: mark_reconciliation_required_def require_claim_def)
  have "others_kept i s s'"
    using s' unfolding mark_reconciliation_required_def
    by (auto simp: bindR_Inr_iff split: option.splits intro!: others_kept_update [where P = "\<lambda>k. j_id k = i"])
  then show ?thesis using s' jobs_moved_ok [OF mark_reconciliation_required_moved [OF s'] assms(3)] by blast
qed

lemma complete_job_settles:
  assumes ok: "swaps_ok s" and k: "find_job s (j_id j) = Some k"
    and st: "j_state j = Sw_reconciliation_required \<or> (j_state j = Sw_provider_applied \<and> k = j)"
  shows "settles (j_id j) c s (complete_job reveal now j c s)"
proof -
  define r where "r = mark_swap_success reveal now (j_id j) (or_empty (j_mut_old_external k))
      (none_if_empty (or_empty (j_mut_new_external k))) (none_if_empty (or_empty (j_mut_new_address k)))
      (none_if_empty (or_empty (j_token k))) s"
  show ?thesis
  proof (cases r)
    case (Inr s')
    then show ?thesis
      using success_settles [OF _ ok] by (fastforce simp: complete_job_def k r_def settles_def tally_def)
  next
    case (Inl e)
    then have e: "swap_error e"
      using raises_success [OF ok] unfolding r_def by (metis raises_only_simps(2))
    show ?thesis
    proof (cases "j_state j = Sw_reconciliation_required")
      case True
      then have "complete_job reveal now j c s = close_or_wait now j c s"
        using Inl e by (cases e) (simp_all add: complete_job_def k r_def)
      then show ?thesis by (simp add: close_or_wait_settles [OF ok])
    next
      case False
      with st have "k = j" and "mutation_swap (j_state k)" by (auto simp: mutation_swap_def)
      then obtain s' where s': "mark_reconciliation_required now (j_id j) ''reconciliation_required''
          (none_if_empty (or_empty (j_token j))) s = Inr s'" "swaps_ok s'" "others_kept (j_id j) s s'"
        using required_settles [OF k _ ok] by blast
      show ?thesis
        using Inl e False s' ok by (cases e) (simp_all add: complete_job_def k r_def settles_def tally_def)
    qed
  qed
qed

lemma settlesI: "swaps_ok s' \<Longrightarrow> others_kept i s s' \<Longrightarrow> tally c' = tally c + 1 \<Longrightarrow> settles i c s (s', Inr c')"
  by (simp add: settles_def)

lemma settles_after:
  "settles i c s1 r \<Longrightarrow> others_kept i s s1 \<Longrightarrow> settles i c s r"
  by (auto simp: settles_def intro: others_kept_trans)

lemma inferred_found:
  assumes "record_inferred_replacement wall now j s = (s', True)" "swaps_ok s'"
  shows "\<exists>k. find_job s' (j_id j) = Some k"
proof -
  let ?hit = "lacks_replacement (j_id j)"
  obtain a where ia: "inferred_replacement s now j = Some a"
    using assms(1) by (auto simp: record_inferred_replacement_def split: option.splits)
  have a: "exists_where ?hit (jobs s)"
      "jobs s' = update_where ?hit (\<lambda>k. k\<lparr>j_mut_new_external := Some (a_external a), j_updated := wall\<rparr>) (jobs s)"
    using assms(1) by (auto simp: record_inferred_replacement_def ia)
  then obtain k where k: "k \<in> set (rows (jobs s))" "?hit k" unfolding exists_where_iff by blast
  let ?k = "k\<lparr>j_mut_new_external := Some (a_external a), j_updated := wall\<rparr>"
  have "?k \<in> set (rows (jobs s'))"
    unfolding a(2) rows_update_where set_map by (rule image_eqI [OF _ k(1)]) (simp add: k(2))
  from find_jobI [OF assms(2) this] have "find_job s' (j_id k) = Some ?k" by simp
  moreover have "j_id k = j_id j" using k(2) unfolding lacks_replacement_def by blast
  ultimately show ?thesis by metis
qed

lemma reconcile_job_settles:
  assumes ok: "swaps_ok s" and j: "j \<in> set (rows (jobs s))"
    and st: "j_state j = Sw_provider_applied \<or> j_state j = Sw_reconciliation_required"
  shows "settles (j_id j) c s (reconcile_job reveal wall now j c s)"
proof (cases "j_state j = Sw_reconciliation_required \<and> \<not> has_replacement j")
  case False
  have "find_job s (j_id j) = Some j" by (rule find_jobI [OF ok j])
  then show ?thesis
    using False complete_job_settles [OF ok, of j j c reveal now] st by (auto simp: reconcile_job_def)
next
  case True
  obtain s1 b where n: "reconcile_no_provider_change now j s = (s1, b)" by (cases "reconcile_no_provider_change now j s")
  have s1: "swaps_ok s1" "others_kept (j_id j) s s1"
    using jobs_moved_ok [OF no_change_moved ok, of now j] no_change_others [of j s now] by (simp_all add: n)
  show ?thesis
  proof (cases b)
    case True
    then show ?thesis
      using \<open>j_state j = Sw_reconciliation_required \<and> \<not> has_replacement j\<close> n s1
      by (simp add: reconcile_job_def settlesI tally_def)
  next
    case False
    obtain s2 d where i: "record_inferred_replacement wall now j s1 = (s2, d)"
      by (cases "record_inferred_replacement wall now j s1")
    have s2: "swaps_ok s2" "others_kept (j_id j) s s2"
      using jobs_moved_ok [OF inferred_moved s1(1), of wall now j]
        others_kept_trans [OF s1(2) inferred_others [of j s1 wall now]] by (simp_all add: i)
    have step: "reconcile_job reveal wall now j c s =
        (if d then complete_job reveal now j c s2 else (s2, Inr (c\<lparr>rc_pending := rc_pending c + 1\<rparr>)))"
      using True False n i by (cases d) (simp_all add: reconcile_job_def)
    show ?thesis
    proof (cases d)
      case True
      then obtain k where "find_job s2 (j_id j) = Some k"
        using inferred_found [of wall now j s1 s2] s2(1) i by auto
      then show ?thesis
        using complete_job_settles [OF s2(1)] True \<open>j_state j = _ \<and> _\<close> step settles_after [OF _ s2(2)] by simp
    next
      case False
      then show ?thesis using s2 by (simp add: step settlesI tally_def)
    qed
  qed
qed

lemma reconcile_jobs_total:
  assumes "swaps_ok s" "\<forall>j \<in> set js. j \<in> set (rows (jobs s))
      \<and> (j_state j = Sw_provider_applied \<or> j_state j = Sw_reconciliation_required)" "distinct (map j_id js)"
  shows "\<exists>s' c'. reconcile_jobs reveal wall now js c s = (s', Inr c') \<and> swaps_ok s' \<and> tally c' = tally c + int (length js)"
  using assms
proof (induction js arbitrary: c s)
  case Nil
  then show ?case by simp
next
  case (Cons j js)
  then obtain s1 c1 where s1: "reconcile_job reveal wall now j c s = (s1, Inr c1)" "tally c1 = tally c + 1"
      "swaps_ok s1" "others_kept (j_id j) s s1"
    using reconcile_job_settles [OF Cons.prems(1), of j c reveal wall now] by (auto simp: settles_def)
  have "\<forall>k \<in> set js. k \<in> set (rows (jobs s1))
      \<and> (j_state k = Sw_provider_applied \<or> j_state k = Sw_reconciliation_required)"
    using Cons.prems(2,3) s1(4) by (auto simp: others_kept_def image_iff)
  with Cons.IH [OF s1(3)] Cons.prems(3) s1 show ?case by fastforce
qed

lemma awaiting_jobs_facts:
  assumes "swaps_ok s"
  shows "\<forall>j \<in> set (awaiting_jobs s lim). j \<in> set (rows (jobs s))
      \<and> (j_state j = Sw_provider_applied \<or> j_state j = Sw_reconciliation_required)"
    and "distinct (map j_id (awaiting_jobs s lim))"
proof -
  let ?js = "sort_key (\<lambda>j. (j_updated j, j_id j))
     (select_where (\<lambda>j. j_state j = Sw_provider_applied \<or> j_state j = Sw_reconciliation_required) (jobs s))"
  show "\<forall>j \<in> set (awaiting_jobs s lim). j \<in> set (rows (jobs s))
      \<and> (j_state j = Sw_provider_applied \<or> j_state j = Sw_reconciliation_required)"
    unfolding awaiting_jobs_def by (auto dest!: in_set_takeD)
  have "distinct (map j_id ?js)"
    using swaps_okD(1) [OF assms]
    by (simp add: distinct_map distinct_map_filter wf_table_def select_where_def inj_on_def)
  then show "distinct (map j_id (awaiting_jobs s lim))"
    unfolding awaiting_jobs_def by (simp add: take_map [symmetric] distinct_take)
qed

lemma reconcile_total:
  assumes "swaps_ok s"
  shows "\<exists>s' c. reconcile_provider_applied_swaps reveal wall now lim s = (s', Inr c) \<and> swaps_ok s'
     \<and> tally c = int (length (awaiting_jobs s lim))"
  using reconcile_jobs_total [OF assms awaiting_jobs_facts [OF assms], of reveal wall now lim no_counts]
  by (simp add: reconcile_provider_applied_swaps_def tally_def no_counts_def)

text \<open>
  What holds of the four operations of the loop holds of the whole loop, when it is reflexive and transitive.
\<close>

locale reconcile_relation =
  fixes R :: "store \<Rightarrow> store \<Rightarrow> bool"
  assumes refl: "R s s" and trans: "R s s1 \<Longrightarrow> R s1 s2 \<Longrightarrow> R s s2"
    and no_change: "swaps_ok s \<Longrightarrow> R s (fst (reconcile_no_provider_change now j s))"
    and inferred: "swaps_ok s \<Longrightarrow> R s (fst (record_inferred_replacement wall now j s))"
    and required: "swaps_ok s \<Longrightarrow> mark_reconciliation_required now i e tok s = Inr s' \<Longrightarrow> R s s'"
    and success: "swaps_ok s \<Longrightarrow> mark_swap_success reveal now i a b d tok s = Inr s' \<Longrightarrow> R s s'"
begin

lemma complete_job_rel:
  assumes "swaps_ok s"
  shows "R s (fst (complete_job reveal now j c s))"
proof -
  have cw: "R s (fst (close_or_wait now j c s))"
    using no_change [OF assms, of now j] by (auto simp: close_or_wait_def split: prod.splits bool.splits)
  show ?thesis
    using success [OF assms] required [OF assms] cw refl
    by (auto simp: complete_job_def split: option.splits sum.splits exn.splits)
qed

lemma reconcile_job_rel:
  assumes "swaps_ok s"
  shows "R s (fst (reconcile_job reveal wall now j c s))"
proof -
  obtain s1 b where n: "reconcile_no_provider_change now j s = (s1, b)" by (cases "reconcile_no_provider_change now j s")
  obtain s2 d where i: "record_inferred_replacement wall now j s1 = (s2, d)" by (cases "record_inferred_replacement wall now j s1")
  have ok1: "swaps_ok s1" using jobs_moved_ok [OF no_change_moved assms, of now j] by (simp add: n)
  then have ok2: "swaps_ok s2" using jobs_moved_ok [OF inferred_moved, of s1 wall now j] by (simp add: i)
  have f1: "R s s1" using no_change [OF assms, of now j] by (simp add: n)
  have f2: "R s s2" using trans [OF f1] inferred [OF ok1, of wall now j] by (simp add: i)
  have "R s (fst (complete_job reveal now j c s2))" by (rule trans [OF f2 complete_job_rel [OF ok2]])
  then show ?thesis
    using f1 f2 complete_job_rel [OF assms, of reveal now j c]
    by (cases b; cases d) (simp_all add: reconcile_job_def n i)
qed

lemma reconcile_jobs_rel:
  assumes "swaps_ok s" "\<forall>j \<in> set js. j \<in> set (rows (jobs s))
      \<and> (j_state j = Sw_provider_applied \<or> j_state j = Sw_reconciliation_required)" "distinct (map j_id js)"
  shows "R s (fst (reconcile_jobs reveal wall now js c s))"
  using assms
proof (induction js arbitrary: c s)
  case Nil
  then show ?case by (simp add: refl)
next
  case (Cons j js)
  then obtain s1 c1 where s1: "reconcile_job reveal wall now j c s = (s1, Inr c1)" "swaps_ok s1" "others_kept (j_id j) s s1"
    using reconcile_job_settles [OF Cons.prems(1), of j c reveal wall now] by (auto simp: settles_def)
  have "\<forall>k \<in> set js. k \<in> set (rows (jobs s1))
      \<and> (j_state k = Sw_provider_applied \<or> j_state k = Sw_reconciliation_required)"
    using Cons.prems(2,3) s1(3) by (auto simp: others_kept_def image_iff)
  from Cons.IH [OF s1(2) this] Cons.prems(3)
  have "R s1 (fst (reconcile_jobs reveal wall now js c1 s1))" by simp
  moreover have "R s s1"
    using reconcile_job_rel [OF Cons.prems(1), of reveal wall now j c] by (simp add: s1(1))
  ultimately show ?case using trans by (simp add: s1(1))
qed

lemma reconcile_rel:
  assumes "swaps_ok s"
  shows "R s (fst (reconcile_provider_applied_swaps reveal wall now lim s))"
  unfolding reconcile_provider_applied_swaps_def
  by (rule reconcile_jobs_rel [OF assms awaiting_jobs_facts [OF assms]])

end

subsection \<open>Swaps as a transition system\<close>

text \<open>
  A swap event is one call of a swap operation; \<open>Sw_other\<close> is a statement of another part of the program
  that leaves the jobs, their lineage and the quota of the subscriptions alone, and adds at most subscriptions
  without jobs: an inventory sync, a dashboard observation, a qualification, a changed setting. The claim tokens
  are not blank.
\<close>

datatype swap_event =
    Sw_queue int "int option"
  | Sw_claim string int "int option"
  | Sw_revalidate int bool "string option" bool
  | Sw_applied int string "string option" "string option" "string option"
  | Sw_uncertain int string "string option"
  | Sw_swapped int string "string option" "string option" "string option"
  | Sw_reconcile time int
  | Sw_block int string "string option"
  | Sw_fail int string bool "int option" "string option"
  | Sw_cancel int
  | Sw_retry int
  | Sw_manual int

fun swap_run :: "(asg_row \<Rightarrow> string \<Rightarrow> string option) \<Rightarrow> swap_event \<Rightarrow> time \<Rightarrow> store \<Rightarrow> store result" where
  "swap_run reveal (Sw_queue lim thr) t s = Inr (fst (queue_eligible_swaps t lim thr s))"
| "swap_run reveal (Sw_claim tok secs job) t s = Inr (fst (claim_next_swap t tok secs job s))"
| "swap_run reveal (Sw_revalidate i manual tok enter) t s =
     bindR (revalidate_swap_job t i manual tok enter s) (\<lambda>(s', d). Inr s')"
| "swap_run reveal (Sw_applied i old new addr tok) t s = mark_provider_applied t i old new addr tok s"
| "swap_run reveal (Sw_uncertain i e tok) t s = mark_reconciliation_required t i e tok s"
| "swap_run reveal (Sw_swapped i old new addr tok) t s = mark_swap_success reveal t i old new addr tok s"
| "swap_run reveal (Sw_reconcile wall lim) t s = Inr (fst (reconcile_provider_applied_swaps reveal wall t lim s))"
| "swap_run reveal (Sw_block i e tok) t s = mark_swap_blocked t i e tok s"
| "swap_run reveal (Sw_fail i e retryable lim tok) t s =
     bindR (mark_swap_failed t i e retryable lim tok s) (\<lambda>(s', st). Inr s')"
| "swap_run reveal (Sw_cancel i) t s = cancel_swap t i s"
| "swap_run reveal (Sw_retry i) t s = retry_swap t i s"
| "swap_run reveal (Sw_manual i) t s = request_manual_swap t i s"

definition fresh_token :: "swap_event \<Rightarrow> bool" where
  "fresh_token e \<longleftrightarrow> (case e of Sw_claim tok secs job \<Rightarrow> strip tok \<noteq> '''' | _ \<Rightarrow> True)"

text \<open>Quota and used swaps of a subscription.\<close>

definition quota_of :: "store \<Rightarrow> int \<Rightarrow> (int \<times> int) option" where
  "quota_of s u = map_option (\<lambda>x. (s_quota x, s_used x)) (find_sub s u)"

definition quotas_kept :: "store \<Rightarrow> store \<Rightarrow> bool" where
  "quotas_kept s s' \<longleftrightarrow> (\<forall>u. quota_of s' u = quota_of s u
     \<or> (quota_of s u = None \<and> (\<forall>j \<in> set (rows (jobs s)). j_sub j \<noteq> u)
          \<and> (\<forall>q n. quota_of s' u = Some (q, n) \<longrightarrow> n = 0)))"

inductive swap_step :: "(asg_row \<Rightarrow> string \<Rightarrow> string option) \<Rightarrow> swap_event option \<Rightarrow> store \<Rightarrow> store \<Rightarrow> bool"
  for reveal where
  swap: "fresh_token e \<Longrightarrow> swap_run reveal e t s = Inr s' \<Longrightarrow> swap_step reveal (Some e) s s'"
| other: "jobs s' = jobs s \<Longrightarrow> mappings s' = mappings s \<Longrightarrow> quotas_kept s s' \<Longrightarrow> swap_step reveal None s s'"

inductive_cases swap_stepE: "swap_step reveal e s s'"

lemma swap_run_keeps:
  assumes "swap_run reveal e t s = Inr s'" "fresh_token e" "swaps_ok s"
  shows "swaps_ok s'"
  using assms(1)
proof (cases e)
  case (Sw_claim tok secs job)
  then show ?thesis
    using assms claim_keeps [OF prod.collapse [symmetric] assms(3)] by (auto simp: fresh_token_def)
next
  case (Sw_reconcile wall lim)
  then show ?thesis using assms(1) reconcile_total [OF assms(3), of reveal wall t lim] by auto
next
  case (Sw_swapped i old new addr tok)
  then show ?thesis using assms(1) mark_swap_success_keeps [OF _ assms(3)] by simp
qed (use assms in \<open>auto simp: bindR_Inr_iff queue_keeps
    intro: retry_swap_keeps request_manual_keeps jobs_moved_ok [OF revalidate_moved] jobs_moved_ok [OF mark_provider_applied_moved]
      jobs_moved_ok [OF mark_reconciliation_required_moved] jobs_moved_ok [OF mark_swap_blocked_moved]
      jobs_moved_ok [OF mark_swap_failed_moved] jobs_moved_ok [OF cancel_swap_moved]\<close>)

interpretation swaps: invariant_system "swap_step reveal" swaps_ok
  by unfold_locales (auto elim!: swap_stepE intro: swap_run_keeps swaps_ok_cong)

end
