(* ===== verification/Json.thy ===== *)
theory Json
  imports Schema
begin

text \<open>
  JSON objects as the payload readers see them: an association list from keys to values, with Python's
  truth values, \<open>str\<close> and \<open>int\<close> of a value.
\<close>

type_synonym json_object = "(string \<times> json) list"

text \<open>\<open>payload.get(key)\<close>.\<close>

definition json_get :: "json_object \<Rightarrow> string \<Rightarrow> json" where
  "json_get d k = (case map_of d k of None \<Rightarrow> J_null | Some v \<Rightarrow> v)"

definition json_has :: "json_object \<Rightarrow> string \<Rightarrow> bool" where
  "json_has d k \<longleftrightarrow> map_of d k \<noteq> None"

fun json_true :: "json \<Rightarrow> bool" where
  "json_true J_null = False"
| "json_true (J_bool b) = b"
| "json_true (J_int n) = (n \<noteq> 0)"
| "json_true (J_str t) = (t \<noteq> '''')"

fun json_str :: "json \<Rightarrow> string" where
  "json_str J_null = ''None''"
| "json_str (J_bool b) = (if b then ''True'' else ''False'')"
| "json_str (J_int n) = show_int n"
| "json_str (J_str t) = t"

text \<open>\<open>str(value or dflt)\<close>.\<close>

definition json_text :: "json \<Rightarrow> string \<Rightarrow> string" where
  "json_text v dflt = (if json_true v then json_str v else dflt)"

text \<open>\<open>int(value)\<close>, \<open>None\<close> where it raises.\<close>

fun json_int :: "json \<Rightarrow> int option" where
  "json_int J_null = None"
| "json_int (J_bool b) = Some (if b then 1 else 0)"
| "json_int (J_int n) = Some n"
| "json_int (J_str t) = py_int t"

end
