(* ===== verification/Observations.thy ===== *)
theory Observations
  imports Swap_Run Json
begin

text \<open>
  Reading and applying the dashboard: \<open>app/services/proxiware_dashboard.py\<close>. The transport is a
  parameter of its caller; here is what is made of its payload. \<open>reveal\<close> and \<open>wall\<close> are those of the
  reconciliation that follows every observation.
\<close>

subsection \<open>The payload\<close>

record dashboard_assignment =
  da_assignment :: string
  da_subscription :: string
  da_address :: string
  da_eligible :: "bool option"
  da_connections :: "int option"
  da_observed :: time

fun optional_bool :: "json \<Rightarrow> bool option result" where
  "optional_bool J_null = Inr None"
| "optional_bool (J_bool b) = Inr (Some b)"
| "optional_bool (J_int n) =
     (if n = 0 \<or> n = 1 then Inr (Some (n = 1)) else Inl (ValueError ''invalid dashboard eligibility''))"
| "optional_bool (J_str t) =
     (if t = '''' then Inr None
      else if lower (strip t) = ''true'' then Inr (Some True)
      else if lower (strip t) = ''false'' then Inr (Some False)
      else Inl (ValueError ''invalid dashboard eligibility''))"

definition optional_connections :: "json \<Rightarrow> int option result" where
  "optional_connections v =
     (if v = J_null \<or> v = J_str '''' then Inr None
      else case json_int v of
        None \<Rightarrow> Inl (ValueError ''invalid dashboard connections'')
      | Some n \<Rightarrow> if n < 0 \<or> 1000000 < n then Inl (ValueError ''invalid dashboard connections'') else Inr (Some n))"

definition read_assignment :: "time \<Rightarrow> string \<Rightarrow> json_object \<Rightarrow> dashboard_assignment result" where
  "read_assignment observed_at sub raw =
     bindR (required_text (json_text (json_get raw ''assignment_id'') '''') ''assignment id'' 128) (\<lambda>i.
     bindR (normalize_dashboard_address (json_text (json_get raw ''addr'') '''')) (\<lambda>address.
     bindR (optional_bool (json_get raw ''eligible'')) (\<lambda>eligible.
     bindR (optional_connections (json_get raw ''connections'')) (\<lambda>connections.
     Inr \<lparr>da_assignment = i, da_subscription = sub, da_address = address, da_eligible = eligible,
          da_connections = connections, da_observed = observed_at\<rparr>))))"

fun observe_rows :: "time \<Rightarrow> string \<Rightarrow> json_object list \<Rightarrow> dashboard_assignment list result" where
  "observe_rows observed_at requested [] = Inr []"
| "observe_rows observed_at requested (raw # raws) =
     bindR (required_text (json_text (json_get raw ''subscription_id'') '''') ''subscription id'' 128) (\<lambda>current.
     if current \<noteq> requested then observe_rows observed_at requested raws
     else bindR (read_assignment observed_at current raw) (\<lambda>r.
          bindR (observe_rows observed_at requested raws) (\<lambda>rs. Inr (r # rs))))"

text \<open>\<open>payload\<close> is the list under \<open>proxies\<close>, or \<open>None\<close> where the response has another shape.\<close>

definition observe :: "time \<Rightarrow> string \<Rightarrow> json_object list option \<Rightarrow> dashboard_assignment list result" where
  "observe observed_at subscription payload =
     bindR (required_text subscription ''subscription id'' 128) (\<lambda>requested.
     case payload of
       None \<Rightarrow> Inl (ValueError ''invalid dashboard response'')
     | Some raws \<Rightarrow> observe_rows observed_at requested raws)"

subsection \<open>The row of an observation\<close>

definition in_subscription :: "store \<Rightarrow> string \<Rightarrow> asg_row \<Rightarrow> bool" where
  "in_subscription s external a \<longleftrightarrow> exists_where (\<lambda>x. s_id x = a_sub a \<and> s_external x = external) (subs s)"

definition address_rows :: "store \<Rightarrow> string \<Rightarrow> string \<Rightarrow> int option \<Rightarrow> asg_row list" where
  "address_rows s external host port = sort_key a_id (select_where (\<lambda>a. in_subscription s external a
     \<and> sql_lower (a_host a) = host \<and> a_missing a = None \<and> (port = None \<or> port = Some (a_port a))) (asgs s))"

definition resolved_observation :: "store \<Rightarrow> time \<Rightarrow> int \<Rightarrow> dashboard_assignment \<Rightarrow> asg_row result" where
  "resolved_observation s current max_age d =
     bindR (guardR (\<not> (current - da_observed d < - seconds 60 \<or> seconds (max 1 max_age) < current - da_observed d))
              (ValueError ''stale dashboard observation'')) (\<lambda>_.
     bindR (dashboard_address_endpoint (da_address d)) (\<lambda>(host, port).
     case address_rows s (da_subscription d) host port of
       [] \<Rightarrow> Inl (ValueError ''dashboard assignment not found'')
     | [a] \<Rightarrow> bindR (guardR (case a_dash_observed a of None \<Rightarrow> True | Some t \<Rightarrow> t \<le> da_observed d)
                        (ValueError ''older dashboard observation'')) (\<lambda>_. Inr a)
     | _ \<Rightarrow> Inl (ValueError ''ambiguous dashboard assignment'')))"

definition observed_row :: "time \<Rightarrow> dashboard_assignment \<Rightarrow> asg_row \<Rightarrow> asg_row" where
  "observed_row current d a = a\<lparr>a_dash_id := Some (da_assignment d), a_dash_eligible := da_eligible d,
     a_dash_connections := da_connections d, a_dash_observed := Some (da_observed d),
     a_dash_source := ''provider_dashboard'',
     a_provider_eligible := (case da_eligible d of None \<Rightarrow> a_provider_eligible a | Some b \<Rightarrow> b),
     a_dash_error := '''', a_updated := current\<rparr>"

text \<open>An observation is committed before the reconciliation of the swaps runs.\<close>

definition then_reconcile ::
  "(asg_row \<Rightarrow> string \<Rightarrow> string option) \<Rightarrow> time \<Rightarrow> time \<Rightarrow> 'a \<Rightarrow> store \<Rightarrow> store \<times> (exn + 'a)" where
  "then_reconcile reveal wall now a s =
     (case reconcile_provider_applied_swaps reveal wall now 20 s of
        (s', Inl e) \<Rightarrow> (s', Inl e) | (s', Inr c) \<Rightarrow> (s', Inr a))"

definition apply_dashboard_observation ::
  "(asg_row \<Rightarrow> string \<Rightarrow> string option) \<Rightarrow> time \<Rightarrow> time \<Rightarrow> int \<Rightarrow> dashboard_assignment \<Rightarrow> store \<Rightarrow> store \<times> (exn + int)" where
  "apply_dashboard_observation reveal wall now max_age d s =
     (case resolved_observation s now max_age d of
        Inl e \<Rightarrow> (s, Inl e)
      | Inr a \<Rightarrow> then_reconcile reveal wall now (a_id a) (update_asg (a_id a) (observed_row now d) s))"

subsection \<open>A whole subscription\<close>

definition unobserved_row :: "time \<Rightarrow> string \<Rightarrow> asg_row \<Rightarrow> asg_row" where
  "unobserved_row current err a = a\<lparr>a_dash_id := None, a_dash_eligible := None, a_dash_connections := None,
     a_dash_observed := None, a_dash_source := '''', a_dash_error := err, a_distribution := False, a_updated := current\<rparr>"

definition clear_subscription :: "time \<Rightarrow> string \<Rightarrow> string \<Rightarrow> store \<Rightarrow> store" where
  "clear_subscription current err external s =
     s\<lparr>asgs := update_where (in_subscription s external) (unobserved_row current err) (asgs s)\<rparr>"

fun resolve_all ::
  "store \<Rightarrow> time \<Rightarrow> int \<Rightarrow> string \<Rightarrow> string list \<Rightarrow> int list \<Rightarrow> dashboard_assignment list
     \<Rightarrow> (dashboard_assignment \<times> int) list result" where
  "resolve_all s current max_age requested seen ids [] = Inr []"
| "resolve_all s current max_age requested seen ids (d # ds) =
     bindR (guardR (da_subscription d = requested) (ValueError ''dashboard subscription scope mismatch'')) (\<lambda>_.
     bindR (guardR (da_assignment d \<notin> set seen) (ValueError ''duplicate dashboard assignment'')) (\<lambda>_.
     bindR (resolved_observation s current max_age d) (\<lambda>a.
     bindR (guardR (a_id a \<notin> set ids) (ValueError ''ambiguous dashboard assignment'')) (\<lambda>_.
     bindR (resolve_all s current max_age requested (da_assignment d # seen) (a_id a # ids) ds) (\<lambda>rs.
     Inr ((d, a_id a) # rs))))))"

definition observe_rows_in :: "time \<Rightarrow> (dashboard_assignment \<times> int) list \<Rightarrow> store \<Rightarrow> store" where
  "observe_rows_in current rs s = foldl (\<lambda>t (d, i). update_asg i (observed_row current d) t) s rs"

text \<open>The transaction of a snapshot, before the reconciliation.\<close>

definition record_snapshot ::
  "time \<Rightarrow> int \<Rightarrow> string \<Rightarrow> dashboard_assignment list \<Rightarrow> store \<Rightarrow> (store \<times> int list) result" where
  "record_snapshot current max_age requested ds s =
     bindR (resolve_all s current max_age requested [] [] ds) (\<lambda>rs.
     Inr (observe_rows_in current rs (clear_subscription current ''not_observed'' requested s), map snd rs))"

definition apply_dashboard_snapshot ::
  "(asg_row \<Rightarrow> string \<Rightarrow> string option) \<Rightarrow> time \<Rightarrow> time \<Rightarrow> int \<Rightarrow> string \<Rightarrow> dashboard_assignment list
     \<Rightarrow> store \<Rightarrow> store \<times> (exn + int list)" where
  "apply_dashboard_snapshot reveal wall now max_age subscription ds s =
     (case required_text subscription ''subscription id'' 128 of
        Inl e \<Rightarrow> (s, Inl e)
      | Inr requested \<Rightarrow>
          if ds = [] then (clear_subscription now ''empty_snapshot'' requested s, Inl (ValueError ''empty dashboard snapshot''))
          else (case record_snapshot now max_age requested ds s of
                  Inl e \<Rightarrow> (s, Inl e)
                | Inr (s', ids) \<Rightarrow> then_reconcile reveal wall now ids s'))"

subsection \<open>What an observation changes\<close>

lemma observed_simps [simp]:
  "a_id (observed_row t d a) = a_id a" "a_sub (observed_row t d a) = a_sub a" "a_missing (observed_row t d a) = a_missing a"
  "a_dash_id (observed_row t d a) = Some (da_assignment d)" "a_dash_observed (observed_row t d a) = Some (da_observed d)"
  "a_dash_connections (observed_row t d a) = da_connections d" "a_dash_eligible (observed_row t d a) = da_eligible d"
  "a_distribution (observed_row t d a) = a_distribution a"
  by (simp_all add: observed_row_def)

lemma unobserved_simps [simp]:
  "a_id (unobserved_row t e a) = a_id a" "a_sub (unobserved_row t e a) = a_sub a" "a_dash_id (unobserved_row t e a) = None"
  "a_dash_observed (unobserved_row t e a) = None" "a_distribution (unobserved_row t e a) = False"
  by (simp_all add: unobserved_row_def)

lemma clear_frame [simp]:
  "jobs (clear_subscription t e x s) = jobs s" "mappings (clear_subscription t e x s) = mappings s"
  "subs (clear_subscription t e x s) = subs s"
  by (simp_all add: clear_subscription_def)

lemma observe_rows_in_Cons:
  "observe_rows_in t ((d, i) # rs) s = observe_rows_in t rs (update_asg i (observed_row t d) s)"
  by (simp add: observe_rows_in_def)

lemma observe_rows_in_frame [simp]:
  "jobs (observe_rows_in t rs s) = jobs s" "mappings (observe_rows_in t rs s) = mappings s" "subs (observe_rows_in t rs s) = subs s"
  by (induction rs arbitrary: s) (auto simp: observe_rows_in_def)

definition observed_by :: "time \<Rightarrow> (dashboard_assignment \<times> int) list \<Rightarrow> asg_row \<Rightarrow> asg_row" where
  "observed_by t rs a = (case List.find (\<lambda>(d, i). i = a_id a) rs of None \<Rightarrow> a | Some (d, i) \<Rightarrow> observed_row t d a)"

lemma find_in_set: "List.find P xs = Some x \<Longrightarrow> x \<in> set xs \<and> P x"
  by (auto simp: find_Some_iff)

lemma observed_by_other:
  assumes "a_id a \<notin> set (map snd rs)"
  shows "observed_by t rs a = a"
proof -
  have "List.find (\<lambda>(d, i). i = a_id a) rs = None"
    unfolding find_None_iff using assms by force
  then show ?thesis by (simp add: observed_by_def)
qed

lemma observe_rows_in_rows:
  assumes "distinct (map snd rs)"
  shows "rows (asgs (observe_rows_in t rs s)) = map (observed_by t rs) (rows (asgs s))"
  using assms
proof (induction rs arbitrary: s)
  case Nil
  then show ?case by (simp add: observe_rows_in_def observed_by_def)
next
  case (Cons x rs)
  obtain d i where x: "x = (d, i)" by (cases x)
  have keep: "observed_by t rs (observed_row t d a) = observed_row t d a" if "a_id a = i" for a
    by (rule observed_by_other) (use Cons.prems that x in simp)
  have "observed_by t rs (if a_id a = i then observed_row t d a else a) = observed_by t (x # rs) a" for a
    using keep [of a] by (auto simp: observed_by_def x)
  then show ?case
    using Cons by (simp add: x observe_rows_in_Cons update_asg_def)
qed

lemma resolved_observationD:
  assumes "resolved_observation s current max_age d = Inr a"
  shows "a \<in> set (rows (asgs s))" "in_subscription s (da_subscription d) a"
    "\<And>t. a_dash_observed a = Some t \<Longrightarrow> t \<le> da_observed d"
    "current - da_observed d \<le> seconds (max 1 max_age)"
proof -
  have age: "current - da_observed d \<le> seconds (max 1 max_age)"
    using assms by (simp add: resolved_observation_def bindR_Inr_iff guardR_Inr_iff not_less)
  obtain h p where "dashboard_address_endpoint (da_address d) = Inr (h, p)"
    and c: "(case address_rows s (da_subscription d) h p of
       [] \<Rightarrow> Inl (ValueError ''dashboard assignment not found'')
     | [a] \<Rightarrow> bindR (guardR (case a_dash_observed a of None \<Rightarrow> True | Some t \<Rightarrow> t \<le> da_observed d)
                        (ValueError ''older dashboard observation'')) (\<lambda>_. Inr a)
     | _ \<Rightarrow> Inl (ValueError ''ambiguous dashboard assignment'')) = Inr a"
    using assms unfolding resolved_observation_def bindR_Inr_iff by auto
  obtain b bs where bs: "address_rows s (da_subscription d) h p = b # bs" using c by (cases "address_rows s (da_subscription d) h p") auto
  have "bs = []" using c bs by (cases bs) auto
  then have r: "address_rows s (da_subscription d) h p = [a]"
    and g: "case a_dash_observed a of None \<Rightarrow> True | Some t \<Rightarrow> t \<le> da_observed d"
    using c bs by (auto simp: bindR_Inr_iff guardR_Inr_iff)
  have "a \<in> set (address_rows s (da_subscription d) h p)" by (simp add: r)
  then show "a \<in> set (rows (asgs s))" "in_subscription s (da_subscription d) a"
    by (simp_all add: address_rows_def)
  show "\<And>t. a_dash_observed a = Some t \<Longrightarrow> t \<le> da_observed d" using g by simp
  show "current - da_observed d \<le> seconds (max 1 max_age)" by (rule age)
qed

definition resolves :: "store \<Rightarrow> time \<Rightarrow> int \<Rightarrow> string \<Rightarrow> dashboard_assignment \<times> int \<Rightarrow> bool" where
  "resolves s current max_age requested x \<longleftrightarrow> da_subscription (fst x) = requested
     \<and> map_sum id a_id (resolved_observation s current max_age (fst x)) = Inr (snd x)"

lemma resolve_allD:
  assumes "resolve_all s current max_age requested seen ids ds = Inr rs"
  shows "map fst rs = ds" "distinct (map snd rs)" "\<And>x. x \<in> set rs \<Longrightarrow> resolves s current max_age requested x"
proof -
  have "map fst rs = ds \<and> distinct (map snd rs) \<and> set (map snd rs) \<inter> set ids = {}
      \<and> (\<forall>x \<in> set rs. resolves s current max_age requested x)"
    using assms
  proof (induction ds arbitrary: seen ids rs)
    case Nil
    then show ?case by simp
  next
    case (Cons d ds)
    then obtain a rs' where a: "da_subscription d = requested" "resolved_observation s current max_age d = Inr a"
        "a_id a \<notin> set ids"
      and rs': "resolve_all s current max_age requested (da_assignment d # seen) (a_id a # ids) ds = Inr rs'"
      and rs: "rs = (d, a_id a) # rs'"
      by (auto simp: bindR_Inr_iff guardR_Inr_iff)
    have "resolves s current max_age requested (d, a_id a)" using a by (simp add: resolves_def)
    with Cons.IH [OF rs'] show ?case using a(3) by (auto simp: rs)
  qed
  then show "map fst rs = ds" "distinct (map snd rs)" "\<And>x. x \<in> set rs \<Longrightarrow> resolves s current max_age requested x"
    by blast+
qed

text \<open>A dashboard snapshot replaces the evidence of its subscription at once. Every observation is attached to
  one row of the subscription, different observations to different rows, never an older one over a newer one;
  a row of the subscription that the snapshot does not mention loses its evidence and its distribution; rows of other
  subscriptions are untouched.\<close>

theorem snapshot_replaces_evidence:
  assumes "record_snapshot current max_age requested ds s = Inr (s', ids)" "wf_table a_id (asgs s)"
    and "a \<in> set (rows (asgs s))"
  shows "length ids = length ds \<and> distinct ids \<and> (\<exists>a' \<in> set (rows (asgs s')). a_id a' = a_id a
     \<and> (\<not> in_subscription s requested a \<longrightarrow> a' = a)
     \<and> (in_subscription s requested a \<and> a_id a \<notin> set ids \<longrightarrow> a_dash_id a' = None \<and> a_dash_observed a' = None \<and> \<not> a_distribution a')
     \<and> (\<forall>d. (d, a_id a) \<in> set (zip ds ids) \<longrightarrow> in_subscription s requested a
          \<and> a_dash_id a' = Some (da_assignment d) \<and> a_dash_observed a' = Some (da_observed d)
          \<and> a_dash_connections a' = da_connections d \<and> a_dash_eligible a' = da_eligible d \<and> \<not> a_distribution a'
          \<and> (\<forall>t. a_dash_observed a = Some t \<longrightarrow> t \<le> da_observed d)))"
proof -
  obtain rs where rs: "resolve_all s current max_age requested [] [] ds = Inr rs"
    and s': "s' = observe_rows_in current rs (clear_subscription current ''not_observed'' requested s)" "ids = map snd rs"
    using assms(1) by (auto simp: record_snapshot_def bindR_Inr_iff)
  note r = resolve_allD [OF rs]
  have zip: "zip ds ids = rs" using r(1) s'(2) by (auto simp: zip_map_fst_snd)
  have in_rs: "in_subscription s requested b \<and> (\<forall>t. a_dash_observed b = Some t \<longrightarrow> t \<le> da_observed d)"
    if hit: "(d, a_id b) \<in> set rs" and b: "b \<in> set (rows (asgs s))" for d b
  proof -
    obtain c where c: "da_subscription d = requested" "resolved_observation s current max_age d = Inr c" "a_id c = a_id b"
      using r(3) [OF hit] by (cases "resolved_observation s current max_age d") (auto simp: resolves_def)
    have "c = b" by (rule wf_table_unique [OF assms(2) resolved_observationD(1) [OF c(2)] b c(3)])
    then show ?thesis using resolved_observationD(2,3) [OF c(2)] c(1) by simp
  qed
  let ?a1 = "if in_subscription s requested a then unobserved_row current ''not_observed'' a else a"
  let ?a = "observed_by current rs ?a1"
  have "?a \<in> set (rows (asgs s'))"
    unfolding s'(1) observe_rows_in_rows [OF r(2)] using assms(3) by (simp add: clear_subscription_def)
  moreover have id1: "a_id ?a1 = a_id a" by simp
  moreover have "a_id ?a = a_id a" by (simp add: observed_by_def split: option.split)
  moreover have "?a = ?a1" if "a_id a \<notin> set ids"
    by (rule observed_by_other) (use that s'(2) in simp)
  moreover have "?a = a" if n: "\<not> in_subscription s requested a"
  proof -
    have "a_id a \<notin> set (map snd rs)" using n in_rs [OF _ assms(3)] by auto
    then have "observed_by current rs a = a" by (rule observed_by_other)
    then show ?thesis using n by simp
  qed
  moreover have "?a = observed_row current d ?a1" if d: "(d, a_id a) \<in> set rs" for d
  proof -
    have "List.find (\<lambda>(d, i). i = a_id a) rs \<noteq> None" using d by (auto simp: find_None_iff)
    then obtain e i where e: "List.find (\<lambda>(d, i). i = a_id a) rs = Some (e, i)" by auto
    have "(e, i) \<in> set rs" "i = a_id a" using find_in_set [OF e] by auto
    then have "(e, i) = (d, a_id a)" by (intro inj_onD [of snd "set rs"]) (use d r(2) in \<open>auto simp: distinct_map\<close>)
    then have "e = d" by simp
    then show ?thesis using e by (simp add: observed_by_def)
  qed
  ultimately show ?thesis
    using in_rs [OF _ assms(3)] r(2) unfolding zip by (auto simp: s'(2) intro!: bexI [of _ ?a] simp: r(1) [symmetric])
qed

text \<open>An observation of a whole subscription is one transaction: when it is refused, because a row of it is stale,
  of another subscription, unknown, ambiguous, observed twice or older than what is stored, the database is as before.
  The reconciliation of swaps that follows an accepted snapshot does not fail.\<close>

theorem snapshot_all_or_nothing:
  assumes "apply_dashboard_snapshot reveal wall now max_age subscription ds s = (s', Inl e)" "ds \<noteq> []" "swaps_ok s"
  shows "s' = s"
proof (cases "required_text subscription ''subscription id'' 128")
  case (Inl e)
  then show ?thesis using assms(1) by (simp add: apply_dashboard_snapshot_def)
next
  case (Inr requested)
  show ?thesis
  proof (cases "record_snapshot now max_age requested ds s")
    case (Inl e)
    then show ?thesis using assms(1,2) Inr by (simp add: apply_dashboard_snapshot_def)
  next
    case (Inr p)
    obtain s1 ids where p: "p = (s1, ids)" by (cases p)
    have "jobs s1 = jobs s \<and> mappings s1 = mappings s"
      using Inr by (auto simp: record_snapshot_def bindR_Inr_iff p)
    then have "swaps_ok s1" using swaps_ok_cong [OF _ _ assms(3)] by blast
    then obtain s2 c where "reconcile_provider_applied_swaps reveal wall now 20 s1 = (s2, Inr c)"
      using reconcile_total by blast
    then show ?thesis
      using assms(1,2) Inr \<open>required_text _ _ _ = Inr requested\<close>
      by (simp add: apply_dashboard_snapshot_def then_reconcile_def p)
  qed
qed

text \<open>A recorded observation is a statement of another part of the program for the swaps.\<close>

lemma snapshot_is_other_step:
  "record_snapshot now max_age requested ds s = Inr (s', ids) \<Longrightarrow> swap_step rv None s s'"
  by (auto simp: record_snapshot_def bindR_Inr_iff quotas_kept_def quota_of_def find_sub_def intro!: swap_step.other)

subsection \<open>A concrete snapshot\<close>

definition observed_sub :: sub_row where
  "observed_sub = \<lparr>s_id = 1, s_external = ''7'', s_network = ''isp'', s_location = '''', s_quantity = 2, s_expires = None,
     s_auto_renew = False, s_status = ''active'', s_eligible_count = None, s_connections = None, s_metadata = [],
     s_quota = 2, s_used = 0, s_reason = '''', s_checked = None, s_success = None, s_first_seen = Some 0,
     s_last_seen = Some 0, s_missing = None, s_next_observe = None, s_created = 0, s_updated = 0\<rparr>"

definition two_asgs :: store where
  "two_asgs = empty_store\<lparr>subs := \<lparr>rows = [observed_sub], seq = 1\<rparr>,
     asgs := \<lparr>rows = [sample_asg 1 ''8.8.8.8'', (sample_asg 2 ''8.8.4.4'')\<lparr>a_host := ''px''\<rparr>], seq = 2\<rparr>\<rparr>"

definition one_seen :: dashboard_assignment where
  "one_seen = \<lparr>da_assignment = ''x'', da_subscription = ''7'', da_address = ''px'', da_eligible = Some True,
     da_connections = Some 3, da_observed = 5\<rparr>"

lemma one_seen_resolved: "resolved_observation two_asgs 6 900 one_seen = Inr ((sample_asg 2 ''8.8.4.4'')\<lparr>a_host := ''px''\<rparr>)"
  by code_simp

lemma one_seen_recorded: "\<exists>s'. record_snapshot 6 900 ''7'' [one_seen] two_asgs = Inr (s', [2])"
  by (simp add: record_snapshot_def one_seen_resolved bindR_guardR)
    (simp add: one_seen_def sample_asg_def)

theorem snapshot_replaces_evidence_witness:
  "\<exists>s' a' b'. record_snapshot 6 900 ''7'' [one_seen] two_asgs = Inr (s', [2])
     \<and> a' \<in> set (rows (asgs s')) \<and> a_id a' = 1 \<and> a_dash_id a' = None
     \<and> b' \<in> set (rows (asgs s')) \<and> a_id b' = 2 \<and> a_dash_id b' = Some ''x''"
proof -
  obtain s' where r: "record_snapshot 6 900 ''7'' [one_seen] two_asgs = Inr (s', [2])" using one_seen_recorded by blast
  have wf: "wf_table a_id (asgs two_asgs)" by (simp add: wf_table_def two_asgs_def sample_asg_def)
  let ?a = "sample_asg 1 ''8.8.8.8''" and ?b = "(sample_asg 2 ''8.8.4.4'')\<lparr>a_host := ''px''\<rparr>"
  have ab: "?a \<in> set (rows (asgs two_asgs))" "?b \<in> set (rows (asgs two_asgs))" by (simp_all add: two_asgs_def)
  have ids: "a_id ?a = 1" "a_id ?b = 2" "in_subscription two_asgs ''7'' ?a" "da_assignment one_seen = ''x''"
    by (simp_all add: sample_asg_def in_subscription_def exists_where_iff two_asgs_def observed_sub_def one_seen_def)
  obtain a' where a': "a' \<in> set (rows (asgs s'))" "a_id a' = 1" "a_dash_id a' = None"
    using snapshot_replaces_evidence [OF r wf ab(1)] ids by auto
  obtain b' where b': "b' \<in> set (rows (asgs s'))" "a_id b' = 2" "a_dash_id b' = Some ''x''"
    using snapshot_replaces_evidence [OF r wf ab(2)] ids by auto
  show ?thesis using r a' b' by blast
qed

theorem snapshot_all_or_nothing_witness:
  "fst (apply_dashboard_snapshot (\<lambda>a c. None) 0 0 900 ''7'' [one_seen\<lparr>da_subscription := ''8''\<rparr>] two_asgs) = two_asgs"
proof -
  have e: "apply_dashboard_snapshot (\<lambda>a c. None) 0 0 900 ''7'' [one_seen\<lparr>da_subscription := ''8''\<rparr>] two_asgs
      = (two_asgs, Inl (ValueError ''dashboard subscription scope mismatch''))"
  proof -
    have "required_text ''7'' ''subscription id'' 128 = Inr ''7''" by code_simp
    then show ?thesis by (simp add: apply_dashboard_snapshot_def record_snapshot_def bindR_guardR)
  qed
  have "swaps_ok two_asgs" by (rule swaps_ok_cong [OF _ _ empty_swaps_ok]) (simp_all add: two_asgs_def)
  from snapshot_all_or_nothing [OF e _ this] show ?thesis by (simp add: e)
qed

end
