(* ===== verification/Provider_Client.thy ===== *)
theory Provider_Client
  imports Json
begin

text \<open>
  The provider's API as \<open>ProxiwareClient\<close> of \<open>app/services/proxiware.py\<close> reads it. The HTTP session is the
  parameter \<open>http\<close>: what a GET of a path gives. A JSON payload is a list, an object whose fields may be lists, or
  something else; a list has objects, texts and other items.
\<close>

datatype item = It_object json_object | It_text string | It_other
datatype payload = Pl_list "item list" | Pl_object "(string \<times> item list option) list" | Pl_other
datatype http_response = Http_timeout | Http_failed | Http_status int "payload option"

definition status_code :: "int \<Rightarrow> string" where
  "status_code n =
     (if n = 400 then ''bad_request'' else if n = 401 then ''authentication_error'' else if n = 403 then ''forbidden''
      else if n = 404 then ''not_found'' else if n = 409 then ''conflict'' else if n = 429 then ''rate_limited''
      else if 500 \<le> n then ''provider_error'' else ''http_error'')"

definition payload_error :: "'a result" where
  "payload_error = Inl (ProxiwareAPIError ''payload_error'')"

definition api_get :: "(string \<Rightarrow> http_response) \<Rightarrow> string \<Rightarrow> payload result" where
  "api_get http path = (case http path of
     Http_timeout \<Rightarrow> Inl (ProxiwareAPIError ''timeout'')
   | Http_failed \<Rightarrow> Inl (ProxiwareAPIError ''network_error'')
   | Http_status n body \<Rightarrow>
       if n < 200 \<or> 300 \<le> n then Inl (ProxiwareAPIError (status_code n))
       else (case body of None \<Rightarrow> payload_error | Some p \<Rightarrow> Inr p))"

text \<open>The list itself, or the first of the keys that the object has.\<close>

definition payload_items :: "string list \<Rightarrow> payload \<Rightarrow> item list option" where
  "payload_items keys p = (case p of
     Pl_list xs \<Rightarrow> Some xs
   | Pl_object d \<Rightarrow> (case List.find (\<lambda>k. map_of d k \<noteq> None) keys of None \<Rightarrow> None | Some k \<Rightarrow> the (map_of d k))
   | Pl_other \<Rightarrow> None)"

fun only_objects :: "item list \<Rightarrow> json_object list option" where
  "only_objects [] = Some []"
| "only_objects (It_object d # xs) = map_option ((#) d) (only_objects xs)"
| "only_objects (_ # xs) = None"

definition list_payload :: "payload \<Rightarrow> json_object list result" where
  "list_payload p = (case payload_items [''data'', ''items'', ''results'', ''proxies'', ''subscriptions''] p of
     None \<Rightarrow> payload_error
   | Some xs \<Rightarrow> (case only_objects xs of None \<Rightarrow> payload_error | Some ds \<Rightarrow> Inr ds))"

definition list_subscriptions :: "(string \<Rightarrow> http_response) \<Rightarrow> string \<Rightarrow> json_object list result" where
  "list_subscriptions http network =
     bindR (guardR (lower (strip network) = ''isp'') (ValueError ''Only the ISP static network is supported'')) (\<lambda>_.
     bindR (api_get http (''/static/networks/'' @ network @ ''/subscriptions'')) list_payload)"

text \<open>\<open>host:http:socks:user:password\<close>; the id is derived from the endpoints and the user name only.\<close>

definition text_proxy :: "(string \<Rightarrow> string) \<Rightarrow> int \<Rightarrow> string \<Rightarrow> json_object result" where
  "text_proxy sha256 i t = (case split_on CHR '':'' (strip t) of
     [host, http_text, socks_text, user, password] \<Rightarrow>
       if host = '''' \<or> user = '''' \<or> password = '''' then payload_error
       else (case (py_int http_text, py_int socks_text) of
         (Some http_port, Some socks_port) \<Rightarrow>
           if http_port < 1 \<or> 65535 < http_port \<or> socks_port < 1 \<or> 65535 < socks_port then payload_error
           else Inr [(''id'', J_str (''proxy-'' @ take 32 (sha256 (join_with [CHR 0x00]
                       [show_int i, host, show_int http_port, show_int socks_port, user])))),
                     (''host'', J_str host), (''port'', J_int socks_port), (''http_port'', J_int http_port),
                     (''socks_port'', J_int socks_port), (''username'', J_str user), (''password'', J_str password),
                     (''protocol'', J_str ''socks5'')]
       | _ \<Rightarrow> payload_error)
   | _ \<Rightarrow> payload_error)"

fun normalized_items :: "(string \<Rightarrow> string) \<Rightarrow> int \<Rightarrow> item list \<Rightarrow> json_object list result" where
  "normalized_items sha256 i [] = Inr []"
| "normalized_items sha256 i (It_object d # xs) = bindR (normalized_items sha256 i xs) (\<lambda>ds. Inr (d # ds))"
| "normalized_items sha256 i (It_text t # xs) =
     bindR (text_proxy sha256 i t) (\<lambda>d. bindR (normalized_items sha256 i xs) (\<lambda>ds. Inr (d # ds)))"
| "normalized_items sha256 i (It_other # xs) = payload_error"

definition list_subscription_proxies ::
  "(string \<Rightarrow> string) \<Rightarrow> (string \<Rightarrow> http_response) \<Rightarrow> int \<Rightarrow> json_object list result" where
  "list_subscription_proxies sha256 http i =
     bindR (guardR (0 < i) (ValueError ''Subscription ID must be positive'')) (\<lambda>_.
     bindR (api_get http (''/static/subscriptions/'' @ show_int i @ ''/proxies'')) (\<lambda>p.
     case payload_items [''data'', ''items'', ''results'', ''proxies''] p of
       None \<Rightarrow> payload_error | Some xs \<Rightarrow> normalized_items sha256 i xs))"

end
