(* ===== verification/Qualification.thy ===== *)
theory Qualification
  imports Checks Swap_Run
begin

text \<open>
  The qualification of provider assignments: \<open>qualify_proxiware_assignment\<close> of
  \<open>app/services/proxiware_qualification.py\<close> and the claims of its worker in
  \<open>app/services/proxiware_qualification_service.py\<close>. The probe and the eligibility adapter run between
  the read of the row and the write of the result; other parts of the program may run in between, so the
  two halves are two operations. \<open>reveal\<close> is \<open>decrypt_assignment_secret\<close> (\<open>None\<close> where it raises),
  \<open>sha256\<close> the digest of hashlib, \<open>wall\<close> the clock where the code does not take \<open>now\<close>.
\<close>

subsection \<open>The identity of an assignment\<close>

type_synonym identity = "string \<times> int \<times> string \<times> string"

definition assignment_identity :: "string \<Rightarrow> int \<Rightarrow> string \<Rightarrow> string \<Rightarrow> identity" where
  "assignment_identity host port username password = (lower (strip host), port, username, password)"

definition identity_of_row :: "(asg_row \<Rightarrow> string \<Rightarrow> string option) \<Rightarrow> asg_row \<Rightarrow> identity" where
  "identity_of_row reveal a = assignment_identity (a_host a) (a_port a)
     (or_empty (reveal a ''username_encrypted'')) (or_empty (reveal a ''password_encrypted''))"

definition identity_fingerprint :: "(string \<Rightarrow> string) \<Rightarrow> identity \<Rightarrow> string" where
  "identity_fingerprint sha256 d = (case d of (host, port, username, password) \<Rightarrow>
     sha256 (join_with [CHR 0x00] [host, show_int port, username, password]))"

definition generation :: "asg_row \<Rightarrow> int" where
  "generation a = (if a_identity_gen a = 0 then 1 else a_identity_gen a)"

definition identity_is_current ::
  "(asg_row \<Rightarrow> string \<Rightarrow> string option) \<Rightarrow> store \<Rightarrow> int \<Rightarrow> int \<Rightarrow> identity \<Rightarrow> bool" where
  "identity_is_current reveal s i g d =
     (case select_one (\<lambda>a. a_id a = i \<and> a_missing a = None) (asgs s) of
        None \<Rightarrow> False | Some a \<Rightarrow> generation a = g \<and> identity_of_row reveal a = d)"

subsection \<open>What is answer\<close>

record probe_target =
  pt_host :: string
  pt_port :: int
  pt_username :: string
  pt_password :: string
  pt_protocol :: string

text \<open>A secret column is decrypted unless it is empty; a failure aborts the probe.\<close>

definition open_column :: "(asg_row \<Rightarrow> string \<Rightarrow> string option) \<Rightarrow> asg_row \<Rightarrow> string \<Rightarrow> string \<Rightarrow> string option" where
  "open_column reveal a column stored = (if stored = '''' then Some '''' else reveal a column)"

definition proxy_from_row :: "(asg_row \<Rightarrow> string \<Rightarrow> string option) \<Rightarrow> asg_row \<Rightarrow> probe_target option" where
  "proxy_from_row reveal a =
     (case (open_column reveal a ''username_encrypted'' (a_username a), open_column reveal a ''password_encrypted'' (a_password a)) of
        (Some u, Some p) \<Rightarrow>
          (let protocol = lower (strip (if a_protocol a = '''' then ''auto'' else a_protocol a)) in
           Some \<lparr>pt_host = a_host a, pt_port = a_port a, pt_username = u, pt_password = p,
                 pt_protocol = (if protocol = ''http'' \<or> protocol = ''socks5'' then protocol else ''auto'')\<rparr>)
      | _ \<Rightarrow> None)"

record probe_result =
  pr_status :: "string option"
  pr_protocol :: "string option"
  pr_exit_ip :: "string option"
  pr_trusted :: bool
  pr_failure :: "string option"

text \<open>\<open>str(value or dflt).strip().lower()\<close>.\<close>

definition word_or :: "string option \<Rightarrow> string \<Rightarrow> string" where
  "word_or v dflt = lower (strip (text_or v dflt))"

subsection \<open>The start: the row and what is remembered of it\<close>

record started =
  st_row :: asg_row
  st_current :: time
  st_interval :: int
  st_token :: "string option"
  st_retry :: time
  st_fresh :: bool

definition token_matches :: "string option \<Rightarrow> asg_row \<Rightarrow> bool" where
  "token_matches tok a \<longleftrightarrow> or_empty tok = '''' \<or> a_q_token a = tok"

definition qualify_start :: "time \<Rightarrow> int \<Rightarrow> string option \<Rightarrow> int \<Rightarrow> store \<Rightarrow> started result" where
  "qualify_start now i tok interval s =
     (case select_one (\<lambda>a. a_id a = i \<and> a_missing a = None \<and> token_matches tok a) (asgs s) of
        None \<Rightarrow> Inl (LookupError ''Provider assignment not found'')
      | Some a \<Rightarrow>
          (case py_int (get_setting s ''proxiware_replacement_retry_seconds'' ''60'') of
             None \<Rightarrow> Inl (ValueError ''invalid literal for int() with base 10'')
           | Some n \<Rightarrow> Inr \<lparr>st_row = a, st_current = now, st_interval = interval, st_token = tok,
                 st_retry = now + seconds (max 60 (min 300 n)),
                 st_fresh = (case a_ready a of None \<Rightarrow> False
                   | Some t \<Rightarrow> lower (strip (a_qualification a)) = ''pending'' \<and> t \<le> now)\<rparr>))"

definition normal_next :: "started \<Rightarrow> time" where
  "normal_next q = st_current q + seconds (max 60 (st_interval q))"

text \<open>A fresh replacement is tried again soon, up to three times.\<close>

definition quick_retry :: "started \<Rightarrow> bool" where
  "quick_retry q \<longleftrightarrow> st_fresh q \<and> a_q_attempts (st_row q) + 1 < 3"

text \<open>\<open>WHERE id=? AND identity_generation=?\<close>, with the claim clause.\<close>

definition still_ours :: "started \<Rightarrow> asg_row \<Rightarrow> bool" where
  "still_ours q b \<longleftrightarrow> a_id b = a_id (st_row q) \<and> a_identity_gen b = generation (st_row q) \<and> token_matches (st_token q) b"

definition write_result :: "started \<Rightarrow> (asg_row \<Rightarrow> asg_row) \<Rightarrow> store \<Rightarrow> store result" where
  "write_result q f s =
     (if count_where (still_ours q) (asgs s) = 1 then Inr (s\<lparr>asgs := update_where (still_ours q) f (asgs s)\<rparr>)
      else Inl (LookupError ''Provider assignment identity changed''))"

subsection \<open>The verdict\<close>

definition live_status :: "probe_result \<Rightarrow> string" where
  "live_status r =
     (let status = word_or (pr_status r) ''inconclusive'' in
      if (status = ''live'' \<or> status = ''online'') \<and> provider_ip (or_empty (pr_exit_ip r)) \<noteq> '''' \<and> pr_trusted r then ''live''
      else if status = ''live'' \<or> status = ''online'' \<or> status = ''live_unverified'' then ''live_unverified''
      else if status = ''blocked'' then ''blocked''
      else if status = ''dead'' then ''dead''
      else ''inconclusive'')"

fun eligibility_name :: "eligibility \<Rightarrow> string" where
  "eligibility_name El_allow = ''allow''"
| "eligibility_name El_risk = ''risk''"
| "eligibility_name El_pending = ''pending''"

text \<open>The eligibility adapter answers a verdict and a reason; \<open>None\<close> where it raises.\<close>

type_synonym verdict = "string option \<times> string option"

definition adapter_verdict :: "verdict option \<Rightarrow> verdict" where
  "adapter_verdict v = (case v of None \<Rightarrow> (Some ''UNKNOWN'', Some ''eligibility_error'') | Some w \<Rightarrow> w)"

definition qualification_of :: "probe_result \<Rightarrow> verdict option \<Rightarrow> string" where
  "qualification_of r v =
     (let live = live_status r; (verdict, reason) = adapter_verdict v in
      if live = ''live'' then eligibility_name (classify_verdict (text_or verdict ''UNKNOWN'') (or_empty reason))
      else if live = ''dead'' then ''dead''
      else if live = ''blocked'' then ''risk'' else ''pending'')"

definition or_text :: "string \<Rightarrow> string \<Rightarrow> string" where
  "or_text t dflt = (if t = '''' then dflt else t)"

definition reason_of :: "probe_result \<Rightarrow> verdict option \<Rightarrow> bool \<Rightarrow> string" where
  "reason_of r v duplicate =
     (let live = live_status r; (verdict, reason) = adapter_verdict v in
      if live = ''live'' then (if duplicate then ''duplicate_egress'' else word_or reason (qualification_of r v))
      else if live = ''dead'' then or_text (word_or (pr_failure r) ''dead'') ''dead''
      else if live = ''blocked'' then ''provider_blocked''
      else or_text (word_or (pr_failure r) ''probe_pending'') ''probe_pending'')"

subsection \<open>The end: the result is written\<close>

record qualification_result =
  qr_assignment :: int
  qr_live :: string
  qr_qualification :: string
  qr_reason :: string
  qr_exit_ip :: string
  qr_protocol :: string
  qr_distribution :: bool

definition failed_probe_row :: "started \<Rightarrow> string \<Rightarrow> asg_row \<Rightarrow> asg_row" where
  "failed_probe_row q fingerprint b = b\<lparr>a_live := ''inconclusive'', a_qualification := ''pending'', a_distribution := False,
     a_last_error := ''probe_error'', a_last_checked := Some (st_current q),
     a_q_next := Some (if quick_retry q then st_retry q else normal_next q), a_q_claimed_until := None, a_q_token := None,
     a_q_attempts := a_q_attempts b + 1, a_identity_fp := fingerprint, a_updated := st_current q\<rparr>"

definition probed_row ::
  "started \<Rightarrow> string \<Rightarrow> probe_result \<Rightarrow> verdict option \<Rightarrow> bool \<Rightarrow> bool \<Rightarrow> asg_row \<Rightarrow> asg_row" where
  "probed_row q fingerprint r v duplicate distribution b = b\<lparr>a_protocol := word_or (pr_protocol r) ''unknown'',
     a_live := live_status r, a_qualification := qualification_of r v,
     a_exit_ip := none_if_empty (provider_ip (or_empty (pr_exit_ip r))),
     a_egress_verified := (if live_status r = ''live'' then Some (st_current q) else None),
     a_duplicate := duplicate, a_distribution := distribution, a_last_checked := Some (st_current q),
     a_last_error := (if live_status r = ''live'' then '''' else reason_of r v duplicate),
     a_q_next := Some (if quick_retry q \<and> qualification_of r v = ''pending'' then st_retry q else normal_next q),
     a_q_claimed_until := None, a_q_token := None, a_q_attempts := a_q_attempts b + 1,
     a_identity_fp := fingerprint, a_updated := st_current q\<rparr>"

text \<open>The probe (\<open>None\<close> where it raises or the secrets cannot be read) and the eligibility answer.\<close>

definition qualify_finish ::
  "(string \<Rightarrow> string) \<Rightarrow> (asg_row \<Rightarrow> string \<Rightarrow> string option) \<Rightarrow> time \<Rightarrow> started \<Rightarrow> probe_result option \<Rightarrow> verdict option
     \<Rightarrow> store \<Rightarrow> (store \<times> qualification_result) result" where
  "qualify_finish sha256 reveal wall q answer v s =
     (let a = st_row q; i = a_id a; d = identity_of_row reveal a; fp = identity_fingerprint sha256 d in
      bindR (guardR (identity_is_current reveal s i (generation a) d)
               (LookupError ''Provider assignment identity changed'')) (\<lambda>_.
      case (if proxy_from_row reveal a = None then None else answer) of
        None \<Rightarrow>
          bindR (write_result q (failed_probe_row q fp) s) (\<lambda>s'.
          Inr (s', \<lparr>qr_assignment = i, qr_live = ''inconclusive'', qr_qualification = ''pending'', qr_reason = ''probe_error'',
                    qr_exit_ip = '''', qr_protocol = ''unknown'', qr_distribution = False\<rparr>))
      | Some r \<Rightarrow>
          (let ip = provider_ip (or_empty (pr_exit_ip r));
               live = (live_status r = ''live'');
               duplicate = (live \<and> duplicate_egress s i ip);
               distribution = (live \<and> qualification_of r v = ''allow'' \<and> \<not> duplicate \<and> a_provider_eligible a
                  \<and> dashboard_ready s (st_current q) a)
           in bindR (write_result q (probed_row q fp r v duplicate distribution) s) (\<lambda>s'.
              Inr (fst (reconcile_proxiware_duplicates wall s'),
                   \<lparr>qr_assignment = i, qr_live = live_status r, qr_qualification = qualification_of r v,
                    qr_reason = reason_of r v duplicate, qr_exit_ip = ip, qr_protocol = word_or (pr_protocol r) ''unknown'',
                    qr_distribution = distribution\<rparr>)))))"

text \<open>The whole call when nothing else runs during the probe.\<close>

definition qualify_proxiware_assignment ::
  "(string \<Rightarrow> string) \<Rightarrow> (asg_row \<Rightarrow> string \<Rightarrow> string option) \<Rightarrow> time \<Rightarrow> time \<Rightarrow> int \<Rightarrow> string option \<Rightarrow> int
     \<Rightarrow> (probe_target \<Rightarrow> probe_result option) \<Rightarrow> (probe_target \<Rightarrow> verdict option)
     \<Rightarrow> store \<Rightarrow> (store \<times> qualification_result) result" where
  "qualify_proxiware_assignment sha256 reveal wall now i tok interval probe eligibility s =
     bindR (qualify_start now i tok interval s) (\<lambda>q.
     case proxy_from_row reveal (st_row q) of
       None \<Rightarrow> qualify_finish sha256 reveal wall q None None s
     | Some t \<Rightarrow> qualify_finish sha256 reveal wall q (probe t) (eligibility t) s)"

subsection \<open>The worker\<close>

definition worker_settings :: "int option \<Rightarrow> int \<Rightarrow> store \<Rightarrow> int \<times> int" where
  "worker_settings concurrency interval s =
     (let c = (case concurrency of Some c \<Rightarrow> c
                | None \<Rightarrow> (case py_int (get_setting s ''proxiware_worker_concurrency'' ''1'') of None \<Rightarrow> 1 | Some n \<Rightarrow> n));
          n = (case py_int (get_setting s ''proxiware_qualification_interval_seconds'' (show_int interval)) of
                 None \<Rightarrow> interval | Some n \<Rightarrow> n)
      in (max 1 (min 20 c), max 60 n))"

definition qualification_due :: "time \<Rightarrow> asg_row \<Rightarrow> bool" where
  "qualification_due now a \<longleftrightarrow> a_missing a = None \<and> (a_status a = ''active'' \<or> a_status a = ''current'')
     \<and> elapsed (a_ready a) now
     \<and> (elapsed (a_q_next a) now \<or> (a_q_claimed_until a \<noteq> None \<and> elapsed (a_q_claimed_until a) now))
     \<and> elapsed (a_q_claimed_until a) now"

definition qualification_order :: "asg_row \<Rightarrow> time \<times> int" where
  "qualification_order a = (case a_q_next a of None \<Rightarrow> a_created a | Some t \<Rightarrow> t, a_id a)"

definition claim_qualifications :: "int \<Rightarrow> int \<Rightarrow> time \<Rightarrow> string \<Rightarrow> store \<Rightarrow> store \<times> int list" where
  "claim_qualifications lim secs now tok s =
     (let ids = map a_id (take (nat (max 1 lim)) (sort_key qualification_order (select_where (qualification_due now) (asgs s))))
      in (s\<lparr>asgs := update_where (\<lambda>a. a_id a \<in> set ids)
            (\<lambda>a. a\<lparr>a_q_token := Some tok, a_q_claimed_until := Some (now + seconds (max 60 secs)), a_updated := now\<rparr>) (asgs s)\<rparr>,
          ids))"

definition release_qualification :: "time \<Rightarrow> int \<Rightarrow> string \<Rightarrow> store \<Rightarrow> store \<times> bool" where
  "release_qualification now i tok s =
     (let hit = (\<lambda>a. a_id a = i \<and> a_q_token a = Some tok) in
      (s\<lparr>asgs := update_where hit (\<lambda>a. a\<lparr>a_q_claimed_until := None, a_q_token := None, a_updated := now\<rparr>) (asgs s)\<rparr>,
       count_where hit (asgs s) = 1))"

definition worker_error_row :: "time \<Rightarrow> asg_row \<Rightarrow> asg_row" where
  "worker_error_row now a = a\<lparr>a_live := ''inconclusive'', a_qualification := ''pending'', a_distribution := False,
     a_last_error := ''worker_error'', a_last_checked := Some now, a_q_next := Some (now + minutes 5),
     a_q_claimed_until := None, a_q_token := None, a_q_attempts := a_q_attempts a + 1, a_updated := now\<rparr>"

datatype outcome_status = Oc_checked | Oc_error | Oc_stale_claim

text \<open>The isolation of one assignment: what the worker makes of the result of a qualification.\<close>

definition process_one ::
  "time \<Rightarrow> int \<Rightarrow> string \<Rightarrow> (store \<times> qualification_result) result \<Rightarrow> store \<Rightarrow> store \<times> outcome_status" where
  "process_one wall i tok r s =
     (case r of
        Inr (s', q) \<Rightarrow>
          (s', if qr_live q = ''inconclusive'' \<or> qr_reason q \<in> {''probe_error'', ''credential_error'', ''eligibility_error''}
               then Oc_error else Oc_checked)
      | Inl (LookupError t) \<Rightarrow> (s, Oc_stale_claim)
      | Inl e \<Rightarrow> (s\<lparr>asgs := update_where (\<lambda>a. a_id a = i \<and> a_q_token a = Some tok) (worker_error_row wall) (asgs s)\<rparr>, Oc_error))"

definition handoff_pending :: "store \<Rightarrow> bool" where
  "handoff_pending s \<longleftrightarrow>
     exists_where (\<lambda>j. j_state j = Sw_provider_applied \<or> j_state j = Sw_reconciliation_required) (jobs s)
   \<or> exists_where (\<lambda>a. a_missing a = None \<and> (a_status a = ''active'' \<or> a_status a = ''current'') \<and> a_ready a \<noteq> None
        \<and> a_qualification a = ''pending'' \<and> a_q_attempts a < 3) (asgs s)"

subsection \<open>The claims of the worker\<close>

definition qualification_lease :: "store \<Rightarrow> int \<Rightarrow> time option" where
  "qualification_lease s i = (case find_asg s i of None \<Rightarrow> None | Some a \<Rightarrow> a_q_claimed_until a)"

lemma claimed_due:
  assumes "claim_qualifications lim secs now tok s = (s', ks)" "k \<in> set ks"
  shows "\<exists>a \<in> set (rows (asgs s)). a_id a = k \<and> qualification_due now a"
proof -
  have "k \<in> a_id ` set (take (nat (max 1 lim)) (sort_key qualification_order (select_where (qualification_due now) (asgs s))))"
    using assms by (auto simp: claim_qualifications_def Let_def)
  then show ?thesis using set_take_subset by fastforce
qed

interpretation qualification_claims: claim_lease "claim_qualifications lim secs" qualification_lease
    "\<lambda>s. wf_table a_id (asgs s)" "seconds (max 60 secs)"
proof
  show "0 < seconds (max 60 secs)" by (simp add: seconds_def)
  fix now tok s s' ks k
  assume wf: "wf_table a_id (asgs s)" and c: "claim_qualifications lim secs now tok s = (s', ks)"
  let ?f = "\<lambda>a. a\<lparr>a_q_token := Some tok, a_q_claimed_until := Some (now + seconds (max 60 secs)), a_updated := now\<rparr>"
  have s': "asgs s' = update_where (\<lambda>a. a_id a \<in> set ks) ?f (asgs s)"
    using c by (auto simp: claim_qualifications_def Let_def)
  show wf': "wf_table a_id (asgs s')" unfolding s' by (rule wf_table_update [OF wf]) simp
  assume k: "k \<in> set ks"
  obtain a where a: "a \<in> set (rows (asgs s))" "a_id a = k" "qualification_due now a"
    using claimed_due [OF c k] by blast
  have "find_asg s k = Some a"
    using wf_table_find [OF wf a(1)] by (simp add: find_asg_def a(2))
  then show "elapsed (qualification_lease s k) now"
    using a(3) by (simp add: qualification_lease_def qualification_due_def)
  have "?f a \<in> set (rows (asgs s'))"
    unfolding s' rows_update_where set_map by (rule image_eqI [OF _ a(1)]) (simp add: a(2) k)
  from wf_table_find [OF wf' this] have "find_asg s' k = Some (?f a)"
    by (simp add: find_asg_def a(2))
  then show "qualification_lease s' k = Some (now + seconds (max 60 secs))"
    by (simp add: qualification_lease_def)
qed

subsection \<open>What a qualification may change\<close>

lemma write_resultD:
  "write_result q f s = Inr s' \<Longrightarrow>
     s' = s\<lparr>asgs := update_where (still_ours q) f (asgs s)\<rparr> \<and> count_where (still_ours q) (asgs s) = 1"
  by (simp add: write_result_def split: if_splits)

lemma identity_is_currentD:
  "identity_is_current reveal s i g d \<Longrightarrow> \<exists>a \<in> set (rows (asgs s)). a_id a = i \<and> a_missing a = None
     \<and> generation a = g \<and> identity_of_row reveal a = d"
  unfolding identity_is_current_def by (auto split: option.splits dest: select_one_SomeD)

lemma qualify_finishD:
  assumes "qualify_finish sha256 reveal wall q answer v s = Inr (s', r)"
  obtains (failed) f where "identity_is_current reveal s (a_id (st_row q)) (generation (st_row q)) (identity_of_row reveal (st_row q))"
      "write_result q (failed_probe_row q f) s = Inr s'"
  | (probed) p f ip dup dist s1 where
      "identity_is_current reveal s (a_id (st_row q)) (generation (st_row q)) (identity_of_row reveal (st_row q))"
      "answer = Some p" "ip = provider_ip (or_empty (pr_exit_ip p))"
      "write_result q (probed_row q f p v dup dist) s = Inr s1" "s' = fst (reconcile_proxiware_duplicates wall s1)"
  using assms unfolding qualify_finish_def Let_def
  by (auto simp: bindR_Inr_iff guardR_Inr_iff split: option.splits if_splits)

lemma probed_ids [simp]:
  "a_id (probed_row q f p v dup dist b) = a_id b" "a_missing (probed_row q f p v dup dist b) = a_missing b"
  "a_id (failed_probe_row q f b) = a_id b" "a_distribution (failed_probe_row q f b) = False"
  "a_live (probed_row q f p v dup dist b) = live_status p"
  "a_qualification (probed_row q f p v dup dist b) = qualification_of p v"
  "a_exit_ip (probed_row q f p v dup dist b) = none_if_empty (provider_ip (or_empty (pr_exit_ip p)))"
  by (simp_all add: probed_row_def failed_probe_row_def)

text \<open>Exactly one row is written, the one that was started.\<close>

lemma written_row:
  assumes "write_result q f s = Inr s1" "wf_table a_id (asgs s)" "\<And>b. a_id (f b) = a_id b"
    and "a \<in> set (rows (asgs s1))" "a_id a = a_id (st_row q)"
  shows "\<exists>b \<in> set (rows (asgs s)). still_ours q b \<and> a = f b"
proof -
  have s1: "asgs s1 = update_where (still_ours q) f (asgs s)" and one: "count_where (still_ours q) (asgs s) = 1"
    using write_resultD [OF assms(1)] by auto
  from one have "filter (still_ours q) (rows (asgs s)) \<noteq> []" by (auto simp: count_where_def)
  then obtain c where c: "c \<in> set (rows (asgs s))" "still_ours q c" by (auto simp: filter_empty_conv)
  obtain b where b: "b \<in> set (rows (asgs s))" "a = (if still_ours q b then f b else b)"
    using assms(4) by (auto simp: s1)
  then have "a_id b = a_id c" using assms(3,5) c(2) by (auto simp: still_ours_def split: if_splits)
  then have "b = c" by (rule wf_table_unique [OF assms(2) b(1) c(1)])
  then show ?thesis using b c by auto
qed

lemma live_status_live:
  "live_status p = ''live'' \<longleftrightarrow> word_or (pr_status p) ''inconclusive'' \<in> {''live'', ''online''}
     \<and> provider_ip (or_empty (pr_exit_ip p)) \<noteq> '''' \<and> pr_trusted p"
  by (simp add: live_status_def Let_def)

lemma lower_live: "lower (live_status p) = ''live'' \<longleftrightarrow> live_status p = ''live''"
proof -
  have "lower ''live'' = ''live''" "lower ''live_unverified'' \<noteq> ''live''" "lower ''blocked'' \<noteq> ''live''"
    "lower ''dead'' \<noteq> ''live''" "lower ''inconclusive'' \<noteq> ''live''" by code_simp+
  moreover have "live_status p \<in> {''live'', ''live_unverified'', ''blocked'', ''dead'', ''inconclusive''}"
    by (simp add: live_status_def Let_def)
  ultimately show ?thesis by auto
qed

lemma lower_allow: "lower (qualification_of p v) = ''allow'' \<longleftrightarrow>
   live_status p = ''live'' \<and> (case adapter_verdict v of (verdict, reason) \<Rightarrow>
     classify_verdict (text_or verdict ''UNKNOWN'') (or_empty reason) = El_allow)"
proof -
  have l: "lower ''allow'' = ''allow''" "lower ''risk'' \<noteq> ''allow''" "lower ''pending'' \<noteq> ''allow''"
    "lower ''dead'' \<noteq> ''allow''" by code_simp+
  have "lower (eligibility_name e) = ''allow'' \<longleftrightarrow> e = El_allow" for e
    using l by (cases e) simp_all
  then show ?thesis using l by (simp add: qualification_of_def Let_def split: prod.splits)
qed

lemma no_verdict: "classify_verdict (text_or (Some ''UNKNOWN'') ''UNKNOWN'') (or_empty (Some ''eligibility_error'')) \<noteq> El_allow"
  by code_simp

lemma dashboard_ready_flags [simp]:
  "dashboard_ready (fst (reconcile_proxiware_duplicates w s)) now (a\<lparr>a_duplicate := x, a_distribution := y\<rparr>) = dashboard_ready s now a"
  by (simp add: dashboard_ready_def get_setting_def)


subsection \<open>Qualifications and the swap machinery\<close>

lemma quotas_kept_same: "subs s' = subs s \<Longrightarrow> quotas_kept s s'"
  by (simp add: quotas_kept_def quota_of_def find_sub_def)

lemma qualify_finish_frame:
  assumes "qualify_finish sha256 reveal wall q answer v s = Inr (s', r)"
  shows "jobs s' = jobs s \<and> mappings s' = mappings s \<and> subs s' = subs s \<and> proxies s' = proxies s"
  using assms by (cases rule: qualify_finishD) (auto dest!: write_resultD)

lemma qualification_is_other_step:
  assumes "qualify_finish sha256 reveal wall q answer v s = Inr (s', r)"
  shows "swap_step rv None s s'"
  using qualify_finish_frame [OF assms] by (auto intro: swap_step.other quotas_kept_same)

subsection \<open>A concrete qualification\<close>

definition one_asg :: store where
  "one_asg = empty_store\<lparr>asgs := \<lparr>rows = [sample_asg 1 ''8.8.8.8''], seq = 1\<rparr>\<rparr>"

definition one_started :: started where
  "one_started = \<lparr>st_row = sample_asg 1 ''8.8.8.8'', st_current = 0, st_interval = 60, st_token = None, st_retry = 0,
     st_fresh = False\<rparr>"

definition live_answer :: probe_result where
  "live_answer = \<lparr>pr_status = Some ''live'', pr_protocol = Some ''http'', pr_exit_ip = Some ''8.8.8.8'', pr_trusted = True,
     pr_failure = None\<rparr>"

lemma one_qualified:
  "\<exists>r. qualify_finish (\<lambda>t. t) (\<lambda>a c. Some '''') 0 one_started (Some live_answer) (Some (Some ''CID_SET'', None)) one_asg
     = Inr (fst (reconcile_proxiware_duplicates 0
         (one_asg\<lparr>asgs := update_where (still_ours one_started)
            (probed_row one_started (identity_fingerprint (\<lambda>t. t) (identity_of_row (\<lambda>a c. Some '''') (sample_asg 1 ''8.8.8.8'')))
               live_answer (Some (Some ''CID_SET'', None)) False True) (asgs one_asg)\<rparr>)), r)"
proof -
  let ?v = "Some (Some ''CID_SET'', None :: string option)"
  have live: "live_status live_answer = ''live''" and ip: "provider_ip ''8.8.8.8'' = ''8.8.8.8''" by code_simp+
  have age: "py_int (get_setting one_asg ''proxiware_dashboard_max_age_seconds'' ''900'') = Some 900" by code_simp
  have st: "strip ''d'' = ''d''" and cl: "classify_verdict (text_or (Some ''CID_SET'') ''UNKNOWN'') '''' = El_allow"
    by code_simp+
  have al: "qualification_of live_answer ?v = ''allow''" by (simp add: qualification_of_def live adapter_verdict_def cl)
  have cur: "identity_is_current (\<lambda>a c. Some '''') one_asg 1 1 (identity_of_row (\<lambda>a c. Some '''') (sample_asg 1 ''8.8.8.8''))"
    by (simp add: identity_is_current_def select_one_def one_asg_def sample_asg_def generation_def)
  obtain t where px: "proxy_from_row (\<lambda>a c. Some '''') (sample_asg 1 ''8.8.8.8'') = Some t"
    by (simp add: proxy_from_row_def open_column_def sample_asg_def Let_def)
  have nd: "\<not> duplicate_egress one_asg 1 ''8.8.8.8''"
    by (simp add: duplicate_egress_def exists_where_def one_asg_def empty_store_def sample_asg_def)
  have rd: "dashboard_ready one_asg 0 (sample_asg 1 ''8.8.8.8'')"
    using age by (simp add: dashboard_ready_def sample_asg_def st seconds_def)
  have f: "a_id (sample_asg 1 ''8.8.8.8'') = 1" "generation (sample_asg 1 ''8.8.8.8'') = 1"
    "a_provider_eligible (sample_asg 1 ''8.8.8.8'')" by (simp_all add: sample_asg_def generation_def)
  have one: "count_where (still_ours one_started) (asgs one_asg) = 1"
    by (simp add: count_where_def still_ours_def one_started_def one_asg_def token_matches_def f) (simp add: sample_asg_def)
  show ?thesis
    using cur px nd rd one
    by (simp add: qualify_finish_def Let_def one_started_def [THEN arg_cong, where f = st_row]
        one_started_def [THEN arg_cong, where f = st_current] f live al write_result_def bindR_guardR
        live_answer_def [THEN arg_cong, where f = pr_exit_ip] ip)
qed


end
