(* ===== verification/Swap_Properties.thy ===== *)
theory Swap_Properties
  imports Swap_Run
begin

text \<open>
  What the swap machinery promises: when a swap is allowed, the fence in front of the provider call,
  exclusive claims, no retry of an uncertain mutation, the quota, and the lineage of a success.
\<close>

subsection \<open>When a swap is allowed\<close>

text \<open>The guards as one condition on the subscription and the assignment.\<close>

definition dashboard_evidence :: "store \<Rightarrow> time \<Rightarrow> asg_row \<Rightarrow> bool" where
  "dashboard_evidence s now a \<longleftrightarrow> strip (or_empty (a_dash_id a)) \<noteq> '''' \<and> a_dash_eligible a = Some True
     \<and> (\<exists>n. a_dash_connections a = Some n \<and> 0 \<le> n \<and> n < 1000)
     \<and> (\<exists>t age. a_dash_observed a = Some t \<and> py_int (get_setting s ''proxiware_dashboard_max_age_seconds'' ''900'') = Some age
          \<and> now - t \<le> seconds (max 60 age) \<and> t - now \<le> seconds 60)"

definition may_swap :: "store \<Rightarrow> time \<Rightarrow> int \<Rightarrow> int option \<Rightarrow> sub_row \<Rightarrow> asg_row \<Rightarrow> bool" where
  "may_swap s now thr excl x a \<longleftrightarrow>
     subscription_open now x
   \<and> clean (a_live a) \<in> {''live'', ''online''} \<and> clean (a_qualification a) = ''risk''
   \<and> \<not> a_duplicate a \<and> a_provider_eligible a \<and> dashboard_evidence s now a
   \<and> (\<exists>age. py_int (get_setting s ''proxiware_dashboard_max_age_seconds'' ''900'') = Some age
        \<and> (case s_eligible_count x of
             Some n \<Rightarrow> n < max 1 thr
           | None \<Rightarrow> 0 < observed_eligible s now age (s_id x) \<and> observed_eligible s now age (s_id x) < max 1 thr))
   \<and> (s_quota x < 0 \<or> s_used x + reserved_swaps s (s_id x) excl < s_quota x)
   \<and> elapsed (a_ready a) now"

lemma dashboard_guard_Inr:
  "dashboard_guard s now a = Inr age \<longleftrightarrow>
     dashboard_evidence s now a \<and> py_int (get_setting s ''proxiware_dashboard_max_age_seconds'' ''900'') = Some age"
  unfolding dashboard_guard_def dashboard_evidence_def bindR_Inr_iff
  by (auto simp: guardR_Inr_iff not_less split: option.splits if_splits)

lemma quota_guard_Inr:
  "quota_guard s now thr x age excl a = Inr u \<longleftrightarrow>
     (case s_eligible_count x of
        Some n \<Rightarrow> n < max 1 thr
      | None \<Rightarrow> 0 < observed_eligible s now age (s_id x) \<and> observed_eligible s now age (s_id x) < max 1 thr)
   \<and> (s_quota x < 0 \<or> s_used x + reserved_swaps s (s_id x) excl < s_quota x) \<and> elapsed (a_ready a) now"
  unfolding quota_guard_def bindR_Inr_iff Let_def
  by (auto simp: guardR_Inr_iff not_less elapsed_def split: option.splits)

lemma guards_Inr:
  "(\<exists>u. bindR (assignment_guard s now a) (\<lambda>age. quota_guard s now thr x age excl a) = Inr u) \<and> subscription_open now x
     \<longleftrightarrow> may_swap s now thr excl x a"
  unfolding bindR_Inr_iff assignment_guard_def quota_guard_Inr guardR_Inr_iff dashboard_guard_Inr may_swap_def
  by blast


subsection \<open>One swap at a time\<close>

lemma unique_image: "inj_on f A \<Longrightarrow> x \<in> f ` A \<longleftrightarrow> (\<exists>!a. a \<in> A \<and> f a = x)"
  by (auto simp: inj_on_def)

text \<open>C15. However the swap operations, the admin actions, crashed workers and the other parts of the program
  interleave, no two jobs of one subscription are running or inside a provider mutation, no two active jobs
  replace the same assignment, and a job is recorded as a success exactly when its replacement is in
  \<open>swap_mappings\<close>, once.\<close>

theorem one_swap_at_a_time:
  assumes "steps (swap_step reveal) s es s'" "swaps_ok s"
    and "j \<in> set (rows (jobs s'))" "k \<in> set (rows (jobs s'))"
  shows "(busy_swap (j_state j) \<and> busy_swap (j_state k) \<and> j_sub j = j_sub k \<longrightarrow> j = k)
     \<and> (active_swap (j_state j) \<and> active_swap (j_state k) \<and> j_old j = Some a \<and> j_old k = Some a \<longrightarrow> j = k)
     \<and> (j_state j = Sw_success \<longleftrightarrow> (\<exists>!m. m \<in> set (rows (mappings s')) \<and> m_job m = j_id j))"
proof (intro conjI impI)
  have ok: "swaps_ok s'" by (rule swaps.steps_inv [OF assms(1,2)])
  show "j = k" if "busy_swap (j_state j) \<and> busy_swap (j_state k) \<and> j_sub j = j_sub k"
    using busy_unique [OF ok assms(3,4)] that by blast
  show "j = k" if "active_swap (j_state j) \<and> active_swap (j_state k) \<and> j_old j = Some a \<and> j_old k = Some a"
    using swaps_okD(2) [OF ok] assms(3,4) that unfolding index_keys_def distinct_map inj_on_def by auto
  have "j_state j = Sw_success \<longleftrightarrow> j_id j \<in> j_id ` {k \<in> set (rows (jobs s')). j_state k = Sw_success}"
    using assms(3) wf_table_unique [OF swaps_okD(1) [OF ok] assms(3)] by auto
  also have "\<dots> \<longleftrightarrow> (\<exists>!m. m \<in> set (rows (mappings s')) \<and> m_job m = j_id j)"
    using swaps_okD(4) [OF ok] unique_image [of m_job "set (rows (mappings s'))" "j_id j"]
    by (simp add: lineage_ok_def distinct_map)
  finally show "j_state j = Sw_success \<longleftrightarrow> (\<exists>!m. m \<in> set (rows (mappings s')) \<and> m_job m = j_id j)" .
qed

subsection \<open>The fence before the provider call\<close>

lemma swap_target_SomeD:
  "swap_target s sub (Some i) = Some a \<Longrightarrow> a \<in> set (rows (asgs s)) \<and> a_id a = i \<and> a_sub a = sub \<and> a_missing a = None"
  by (auto simp: swap_target_def dest: select_one_SomeD)

lemma revalidated_allowed:
  "d_allowed (revalidated_decision manual now j s) \<Longrightarrow>
     \<not> swap_stopped manual s \<and> \<not> other_busy s (j_sub j) (j_id j)
     \<and> d_allowed (swap_decide s now (max 1 (eligible_threshold s)) (j_old j) (Some (j_id j)) (j_sub j))
     \<and> revalidated_decision manual now j s = swap_decide s now (max 1 (eligible_threshold s)) (j_old j) (Some (j_id j)) (j_sub j)"
  by (auto simp: revalidated_decision_def split: if_splits)

lemma allowedD:
  assumes "d_allowed (swap_decide s now thr asg excl sub)"
  obtains x a where "find_sub s sub = Some x" "swap_target s sub asg = Some a" "may_swap s now thr excl x a"
    "d_asg (swap_decide s now thr asg excl sub) = Some (a_id a)"
  using assms
proof (cases "find_sub s sub"; cases "swap_target s sub asg")
  fix x a
  assume x: "find_sub s sub = Some x" and a: "swap_target s sub asg = Some a"
  have "subscription_open now x" and "\<exists>u. bindR (assignment_guard s now a) (\<lambda>age. quota_guard s now thr x age excl a) = Inr u"
    using assms by (auto simp: swap_decide_def x a split: if_splits sum.splits)
  then have "may_swap s now thr excl x a" using guards_Inr by blast
  then show thesis
    using that [OF x a] assms by (auto simp: swap_decide_def x a split: if_splits sum.splits)
qed (auto simp: swap_decide_def split: if_splits)

lemma revalidate_enterD:
  assumes "revalidate_swap_job now i manual tok True s = Inr (s', d)" "d_allowed d"
  obtains j x a where "find_job s i = Some j" "j_state j = Sw_running" "claim_current now j"
    "tok = None \<or> or_empty (j_token j) = or_empty tok" "strip (or_empty tok) \<noteq> ''''"
    "\<not> swap_stopped manual s" "\<not> other_busy s (j_sub j) (j_id j)"
    "find_sub s (j_sub j) = Some x" "swap_target s (j_sub j) (j_old j) = Some a" "j_old j = Some (a_id a)"
    "may_swap s now (max 1 (eligible_threshold s)) (Some i) x a" "enter_mutation now tok j s = Inr s'"
proof -
  obtain j where j: "find_job s i = Some j"
    using assms(1) by (auto simp: revalidate_swap_job_def split: option.splits)
  let ?d = "revalidated_decision manual now j s"
  have g: "j_state j = Sw_running" "claim_current now j" "tok = None \<or> or_empty (j_token j) = or_empty tok"
      "strip (or_empty tok) \<noteq> ''''"
    and d: "d_allowed ?d" "d_asg ?d = j_old j" and e: "enter_mutation now tok j s = Inr s'"
    using assms unfolding revalidate_swap_job_def j
    by (auto simp: bindR_Inr_iff guardR_Inr_iff Let_def split: if_splits)
  have i: "j_id j = i" using find_jobD [OF j] by simp
  note r = revalidated_allowed [OF d(1)]
  then have al: "d_allowed (swap_decide s now (max 1 (eligible_threshold s)) (j_old j) (Some (j_id j)) (j_sub j))" by simp
  show thesis
    using al
  proof (rule allowedD)
    fix x a
    assume x: "find_sub s (j_sub j) = Some x" "swap_target s (j_sub j) (j_old j) = Some a"
      "may_swap s now (max 1 (eligible_threshold s)) (Some (j_id j)) x a"
      "d_asg (swap_decide s now (max 1 (eligible_threshold s)) (j_old j) (Some (j_id j)) (j_sub j)) = Some (a_id a)"
    then have "j_old j = Some (a_id a)" using d(2) r by simp
    then show thesis using that [OF j g] r x e i by simp
  qed
qed

lemma enter_mutation_exact:
  assumes "enter_mutation now tok j s = Inr s'" "j_old j = Some (a_id a)" "find_asg s (a_id a) = Some a"
    "find_sub s (j_sub j) = Some x"
  shows "s' = s\<lparr>jobs := update_where (\<lambda>k. j_id k = j_id j \<and> j_state k = Sw_running \<and> j_token k = j_token j)
              (fence_row now a x) (jobs s),
            asgs := update_where (\<lambda>b. a_id b = a_id a \<and> a_sub b = j_sub j) (withdraw_evidence now) (asgs s)\<rparr>"
  using assms(1)
proof (rule enter_mutationD)
  fix b y
  assume b: "j_old j = Some (a_id b)" "find_asg s (a_id b) = Some b" and y: "find_sub s (j_sub j) = Some y"
    and s': "s' = s\<lparr>jobs := update_where (\<lambda>k. j_id k = j_id j \<and> j_state k = Sw_running \<and> j_token k = j_token j)
              (fence_row now b y) (jobs s),
            asgs := update_where (\<lambda>c. a_id c = a_id b \<and> a_sub c = j_sub j) (withdraw_evidence now) (asgs s)\<rparr>"
  have "b = a" using b assms(2,3) by (metis option.inject)
  moreover have "y = x" using y assms(4) by simp
  ultimately show ?thesis using s' by (simp only:)
qed

lemma withdraw_ids [simp]:
  "a_id (withdraw_evidence now a) = a_id a" "a_sub (withdraw_evidence now a) = a_sub a"
  by (simp_all add: withdraw_evidence_def)

lemma fence_result:
  assumes ok: "swaps_ok s" and j: "find_job s i = Some j" "j_state j = Sw_running"
    and s': "jobs s' = update_where (\<lambda>k. j_id k = j_id j \<and> j_state k = Sw_running \<and> j_token k = j_token j) (fence_row now a x) (jobs s)"
    and moved: "jobs_moved s s'"
  shows "find_job s' i = Some (fence_row now a x j)"
proof -
  have mem: "j \<in> set (rows (jobs s))" "j_id j = i" using find_jobD [OF j(1)] by auto
  have "fence_row now a x j \<in> set (rows (jobs s'))"
    unfolding s' rows_update_where set_map by (rule image_eqI [OF _ mem(1)]) (simp add: j(2))
  from find_jobI [OF jobs_moved_ok [OF moved ok] this] show ?thesis by (simp add: fence_row_def mem(2))
qed


subsection \<open>Claims\<close>

definition job_lease :: "store \<Rightarrow> int \<Rightarrow> time option" where
  "job_lease s i = (case find_job s i of None \<Rightarrow> None | Some j \<Rightarrow> j_claimed_until j)"

definition claim_ids :: "int \<Rightarrow> int option \<Rightarrow> time \<Rightarrow> string \<Rightarrow> store \<Rightarrow> store \<times> int list" where
  "claim_ids secs job now tok s =
     (case claim_next_swap now tok secs job s of (s', None) \<Rightarrow> (s', []) | (s', Some j) \<Rightarrow> (s', [j_id j]))"

lemma claim_ids_cases:
  assumes "claim_ids secs job now tok s = (s', ks)" "k \<in> set ks" "wf_table j_id (jobs s)"
  obtains j where "j \<in> set (rows (jobs (recover_leases now s)))" "claimable (recover_leases now s) now j" "k = j_id j"
    "s' = update_job (j_id j) (running_row now tok secs) (recover_leases now s)"
proof -
  obtain r where c: "claim_next_swap now tok secs job s = (s', r)" "k \<in> set (case r of None \<Rightarrow> [] | Some j \<Rightarrow> [j_id j])"
    using assms(1,2) by (auto simp: claim_ids_def split: prod.splits option.splits)
  from c(1) assms(3) show thesis
    by (cases rule: claim_next_swap_cases) (use c(2) that in auto)
qed

lemma recovered_lease:
  assumes "j \<in> set (rows (jobs (recover_leases now s)))" "wf_table j_id (jobs s)" "elapsed (j_claimed_until j) now"
  shows "elapsed (job_lease s (j_id j)) now"
proof -
  obtain j0 where j0: "j0 \<in> set (rows (jobs s))" "j_id j = j_id j0"
      "j_claimed_until j = j_claimed_until j0 \<or> (\<exists>t. j_claimed_until j0 = Some t \<and> t \<le> now)"
    using assms(1) by (auto simp: recover_leases_def split: if_splits option.splits)
  have "find_job s (j_id j0) = Some j0"
    unfolding find_job_def by (rule wf_table_find [OF assms(2) j0(1)])
  then have "job_lease s (j_id j) = j_claimed_until j0" unfolding job_lease_def j0(2) by simp
  then show ?thesis using j0(3) assms(3) by auto
qed

lemma claim_ids_wf:
  assumes "claim_ids secs job now tok s = (s', ks)" "wf_table j_id (jobs s)"
  shows "wf_table j_id (jobs s')"
proof -
  have rec: "wf_table j_id (jobs (recover_leases now s))"
    unfolding recover_leases_def by (simp, rule wf_table_update [OF assms(2)]) simp
  obtain r where "claim_next_swap now tok secs job s = (s', r)"
    using assms(1) by (auto simp: claim_ids_def split: prod.splits option.splits)
  then show ?thesis
    using assms(2)
  proof (cases rule: claim_next_swap_cases)
    case (claimed j)
    show ?thesis unfolding claimed(3) jobs_update_job by (rule wf_table_update [OF rec]) simp
  qed (simp add: rec)
qed

interpretation swap_claims: claim_lease "claim_ids secs job" job_lease "\<lambda>s. wf_table j_id (jobs s)" "seconds (max 30 secs)"
proof
  show "0 < seconds (max 30 secs)" by (simp add: seconds_def)
next
  fix s now tok s' ks k
  assume wf: "wf_table j_id (jobs s)" and c: "claim_ids secs job now tok s = (s', ks)" and k: "k \<in> set ks"
  from c k wf show "elapsed (job_lease s k) now"
    by (rule claim_ids_cases) (auto simp: claimable_def intro: recovered_lease [OF _ wf])
  from c k wf show "job_lease s' k = Some (now + seconds (max 30 secs))"
  proof (rule claim_ids_cases)
    fix j
    assume j: "j \<in> set (rows (jobs (recover_leases now s)))" "claimable (recover_leases now s) now j" "k = j_id j"
      "s' = update_job (j_id j) (running_row now tok secs) (recover_leases now s)"
    have "running_row now tok secs j \<in> set (rows (jobs s'))"
      unfolding j(4) jobs_update_job rows_update_where set_map by (rule image_eqI [OF _ j(1)]) simp
    from wf_table_find [OF claim_ids_wf [OF c wf] this]
    have "find_job s' k = Some (running_row now tok secs j)" by (simp add: find_job_def j(3))
    then show ?thesis using j(2) by (simp add: job_lease_def running_row_def claimable_def)
  qed
qed (rule claim_ids_wf)

lemma swap_claims_disjoint:
  assumes "wf_table j_id (jobs s)" "claim_ids secs job t1 a s = (s1, ks)" "claim_ids secs job t2 b s1 = (s2, ls)"
    "t2 < t1 + seconds (max 30 secs)"
  shows "set ks \<inter> set ls = {}"
  by (rule swap_claims.claims_disjoint [OF assms])

subsection \<open>An uncertain mutation is never retried\<close>

definition closed_job :: "job_row \<Rightarrow> bool" where
  "closed_job k \<longleftrightarrow> j_state k = Sw_success
     \<or> (j_state k = Sw_blocked \<and> j_reason k = ''reconciled_no_provider_change'')"

text \<open>A job in a mutation stays there or is closed, and a closed job is left alone.\<close>

definition follows :: "job_row \<Rightarrow> job_row \<Rightarrow> bool" where
  "follows j k \<longleftrightarrow> j_id k = j_id j
     \<and> (mutation_swap (j_state j) \<longrightarrow> mutation_swap (j_state k) \<or> closed_job k) \<and> (closed_job j \<longrightarrow> k = j)"

definition mutations_follow :: "store \<Rightarrow> store \<Rightarrow> bool" where
  "mutations_follow s s' \<longleftrightarrow> (\<forall>j \<in> set (rows (jobs s)). \<exists>k \<in> set (rows (jobs s')). follows j k)"

lemma closed_not_mutation: "closed_job j \<Longrightarrow> \<not> mutation_swap (j_state j)"
  by (auto simp: closed_job_def swap_states)

lemma follows_refl [simp]: "follows j j"
  by (simp add: follows_def)

lemma follows_trans: "follows i j \<Longrightarrow> follows j k \<Longrightarrow> follows i k"
  unfolding follows_def by (metis (full_types))

lemma mutations_follow_same [simp]: "jobs s' = jobs s \<Longrightarrow> mutations_follow s s'"
  unfolding mutations_follow_def by (metis follows_refl)

lemma mutations_follow_trans: "mutations_follow a b \<Longrightarrow> mutations_follow b c \<Longrightarrow> mutations_follow a c"
  unfolding mutations_follow_def by (meson follows_trans)

lemma mutations_follow_update:
  assumes "jobs s' = update_where P f (jobs s)" "\<And>j. j \<in> set (rows (jobs s)) \<Longrightarrow> P j \<Longrightarrow> follows j (f j)"
  shows "mutations_follow s s'"
  unfolding mutations_follow_def
proof
  fix j
  assume j: "j \<in> set (rows (jobs s))"
  have "(if P j then f j else j) \<in> set (rows (jobs s'))"
    unfolding assms(1) rows_update_where set_map by (rule image_eqI [OF _ j]) simp
  moreover have "follows j (if P j then f j else j)" using assms(2) [OF j] by simp
  ultimately show "\<exists>k \<in> set (rows (jobs s')). follows j k" by blast
qed

lemma no_change_follows: "mutations_follow s (fst (reconcile_no_provider_change now j s))"
  unfolding reconcile_no_provider_change_def
  by (auto intro!: mutations_follow_update [where P = "\<lambda>k. j_id k = j_id j"] simp: follows_def closed_job_def swap_states)

lemma inferred_follows: "mutations_follow s (fst (record_inferred_replacement wall now j s))"
  unfolding record_inferred_replacement_def
  by (auto split: option.splits intro!: mutations_follow_update [where P = "lacks_replacement (j_id j)"]
      simp: follows_def closed_job_def swap_states lacks_replacement_def)

lemma required_follows:
  assumes "mark_reconciliation_required now i e tok s = Inr s'"
  shows "mutations_follow s s'"
proof -
  have "s' = pause_auto_swap (update_job i (uncertain_row now (safe_code e ''provider_timeout'')) s)"
    using assms unfolding mark_reconciliation_required_def by (auto simp: bindR_Inr_iff split: option.splits)
  then show ?thesis
    by (auto intro!: mutations_follow_update [where P = "\<lambda>k. j_id k = i"]
        simp: follows_def uncertain_row_def closed_job_def swap_states)
qed

lemma success_follows:
  assumes "mark_swap_success reveal now i a b d tok s = Inr s'" "swaps_ok s"
  shows "mutations_follow s s'"
  using assms(1)
proof (rule mark_swap_successD)
  fix j old new m e
  assume j: "find_job s i = Some j" "j_state j = Sw_provider_applied \<or> j_state j = Sw_reconciliation_required"
    and fin: "finish_swap now m j (strip a) e old new s = Inr s'"
  have s': "jobs s' = update_where (\<lambda>k. j_id k = j_id j) (success_row now old new) (jobs s)" by (rule finish_swapD(1) [OF fin])
  have "mutation_swap (j_state k)" if "k \<in> set (rows (jobs s))" "j_id k = j_id j" for k
    using job_by_id [OF assms(2) j(1) that(1)] that(2) find_jobD [OF j(1)] j(2) by (auto simp: mutation_swap_def)
  then show ?thesis
    using closed_not_mutation
    by (intro mutations_follow_update [OF s']) (auto simp: follows_def closed_job_def [of "success_row _ _ _ _"])
qed

interpretation follow: reconcile_relation mutations_follow
  by unfold_locales
    (use mutations_follow_trans no_change_follows inferred_follows required_follows success_follows in \<open>auto simp: mutations_follow_same\<close>)

text \<open>One step of any kind.\<close>

definition not_retried :: "store \<Rightarrow> store \<Rightarrow> bool" where
  "not_retried s s' \<longleftrightarrow> (\<forall>j \<in> set (rows (jobs s)). mutation_swap (j_state j) \<longrightarrow>
     (\<exists>k \<in> set (rows (jobs s')). j_id k = j_id j \<and> (mutation_swap (j_state k) \<or> closed_job k)))"

lemma not_retried_follow: "mutations_follow s s' \<Longrightarrow> not_retried s s'"
  unfolding mutations_follow_def not_retried_def follows_def by blast

lemma not_retried_same: "jobs s' = jobs s \<Longrightarrow> not_retried s s'"
  by (rule not_retried_follow) simp

lemma not_retried_moved: "jobs_moved s s' \<Longrightarrow> not_retried s s'"
  unfolding jobs_moved_def not_retried_def job_step_def closed_job_def by fastforce

lemma not_retried_untouched:
  assumes "\<And>j. j \<in> set (rows (jobs s)) \<Longrightarrow> mutation_swap (j_state j) \<Longrightarrow> j \<in> set (rows (jobs s'))"
  shows "not_retried s s'"
  using assms unfolding not_retried_def by blast

lemma kept_by_update:
  "jobs s' = update_where P f (jobs s) \<Longrightarrow> j \<in> set (rows (jobs s)) \<Longrightarrow> \<not> P j \<or> f j = j \<Longrightarrow> j \<in> set (rows (jobs s'))"
  by (simp only: rows_update_where set_map) (rule image_eqI [of _ _ j], auto)

lemma requeue_not_retried:
  assumes "requeue now i r s = Inr s'" "find_job s i = Some j" "\<not> mutation_swap (j_state j)" "swaps_ok s"
  shows "not_retried s s'"
proof (rule not_retried_untouched)
  fix k
  assume k: "k \<in> set (rows (jobs s))" "mutation_swap (j_state k)"
  then have "j_id k \<noteq> i" using job_by_id [OF assms(4,2) k(1)] assms(3) by auto
  have "jobs s' = update_where (\<lambda>k. j_id k = i) (\<lambda>k. k\<lparr>j_state := Sw_pending, j_reason := r, j_error := '''',
       j_blocked := None, j_token := None, j_claimed_until := None, j_updated := now\<rparr>) (jobs s)"
    using conjunct1 [OF put_jobsD [OF assms(1) [unfolded requeue_def]]] by simp
  then show "k \<in> set (rows (jobs s'))"
    by (rule kept_by_update [OF _ k(1)]) (simp add: \<open>j_id k \<noteq> i\<close>)
qed

lemma queue_keeps_rows: "set (rows (jobs s)) \<subseteq> set (rows (jobs (fst (queue_eligible_swaps now lim thr s))))"
proof -
  have one: "set (rows (jobs s)) \<subseteq> set (rows (jobs (fst (queue_one now t (s, n) row))))" for t s n row
    by (cases row) (auto simp: queue_one_def Let_def remember_decision_def split: sum.splits dest!: put_jobsD)
  have "set (rows (jobs s)) \<subseteq> set (rows (jobs (fst (foldl (queue_one now t) (s, n) xs))))" for t s n xs
  proof (induction xs arbitrary: s n)
    case Nil
    then show ?case by simp
  next
    case (Cons x xs)
    obtain s1 n1 where q: "queue_one now t (s, n) x = (s1, n1)" by (cases "queue_one now t (s, n) x")
    show ?case using one [of s t n x] Cons.IH [of s1 n1] by (auto simp: q)
  qed
  then show ?thesis by (simp add: queue_eligible_swaps_def Let_def)
qed

lemma claim_not_retried:
  assumes "claim_next_swap now tok secs job s = (s', r)" "swaps_ok s"
  shows "not_retried s s'"
  using assms(1) swaps_okD(1) [OF assms(2)]
proof (cases rule: claim_next_swap_cases)
  case idle
  then show ?thesis using not_retried_moved [OF recover_moved] by simp
next
  case (claimed j)
  show ?thesis
  proof (rule not_retried_untouched)
    fix k
    assume k: "k \<in> set (rows (jobs s))" "mutation_swap (j_state k)"
    have "k \<in> set (rows (jobs (recover_leases now s)))"
      by (rule kept_by_update [OF _ k(1)], simp add: recover_leases_def)
        (use k(2) in \<open>auto simp: swap_states\<close>)
    then show "k \<in> set (rows (jobs s'))"
      by (rule kept_by_update [rotated], simp_all only: claimed(3) jobs_update_job)
        (use k(2) in \<open>auto simp: running_row_def swap_states\<close>)
  qed
qed

lemma swap_run_not_retried:
  assumes "swap_run reveal e t s = Inr s'" "swaps_ok s"
  shows "not_retried s s'"
  using assms(1)
proof (cases e)
  case (Sw_queue lim thr)
  then show ?thesis using assms(1) queue_keeps_rows [of s t lim thr] by (auto intro!: not_retried_untouched)
next
  case (Sw_claim tok secs job)
  then show ?thesis using assms(1) claim_not_retried [OF prod.collapse [symmetric] assms(2)] by auto
next
  case (Sw_swapped i old new addr tok)
  then show ?thesis using assms(1) not_retried_follow [OF success_follows [OF _ assms(2)]] by simp
next
  case (Sw_reconcile wall lim)
  then show ?thesis using assms(1) not_retried_follow [OF follow.reconcile_rel [OF assms(2)]] by auto
next
  case (Sw_retry i)
  then show ?thesis
    using assms by (auto simp: retry_swap_def bindR_Inr_iff guardR_Inr_iff swap_states split: option.splits
        intro!: requeue_not_retried)
next
  case (Sw_manual i)
  then show ?thesis
    using assms by (auto simp: request_manual_swap_def Let_def bindR_Inr_iff guardR_Inr_iff swap_states split: option.splits
        intro!: requeue_not_retried)
qed (use assms in \<open>auto simp: bindR_Inr_iff
    intro!: not_retried_moved intro: revalidate_moved mark_provider_applied_moved mark_reconciliation_required_moved
      mark_swap_blocked_moved mark_swap_failed_moved cancel_swap_moved\<close>)

lemma success_has_mapping:
  assumes "lineage_ok s" "k \<in> set (rows (jobs s))" "j_state k = Sw_success"
  shows "\<exists>m \<in> set (rows (mappings s)). m_job m = j_id k"
proof -
  have "j_id k \<in> j_id ` {j \<in> set (rows (jobs s)). j_state j = Sw_success}" using assms(2,3) by blast
  then have "j_id k \<in> m_job ` set (rows (mappings s))" using assms(1) unfolding lineage_ok_def by blast
  then obtain m where "j_id k = m_job m" "m \<in> set (rows (mappings s))" by (rule imageE)
  then show ?thesis by (intro bexI [of _ m]) simp_all
qed

text \<open>C16. Once a job has entered the mutation of the provider, no operation, no crash recovery and no admin action
  makes it pending or running again: it stays in the mutation states until it is either a success with its
  recorded mapping, or blocked because later read-only evidence proved that the provider changed nothing.\<close>

theorem uncertain_mutation_never_retried:
  assumes "swap_step reveal e s s'" "swaps_ok s" "j \<in> set (rows (jobs s))" "mutation_swap (j_state j)"
  shows "\<exists>k \<in> set (rows (jobs s')). j_id k = j_id j \<and>
     (mutation_swap (j_state k)
      \<or> (j_state k = Sw_success \<and> (\<exists>m \<in> set (rows (mappings s')). m_job m = j_id k))
      \<or> (j_state k = Sw_blocked \<and> j_reason k = ''reconciled_no_provider_change''))"
proof -
  have "not_retried s s'"
    using assms(1) by (cases rule: swap_stepE) (auto intro: swap_run_not_retried [OF _ assms(2)] not_retried_same)
  then obtain k where k: "k \<in> set (rows (jobs s'))" "j_id k = j_id j" "mutation_swap (j_state k) \<or> closed_job k"
    using assms(3,4) unfolding not_retried_def by blast
  have "lineage_ok s'" by (rule swaps_okD(4) [OF swaps.inv_step [OF assms(2,1)]])
  then have "\<exists>m \<in> set (rows (mappings s')). m_job m = j_id k" if "j_state k = Sw_success"
    by (rule success_has_mapping [OF _ k(1) that])
  then show ?thesis using k unfolding closed_job_def by blast
qed


end
