(* ===== verification/Swap_Outcomes.thy ===== *)
theory Swap_Outcomes
  imports Swap_Properties
begin

text \<open>
  The swap quota of a subscription as a reservation, the evidence behind a success, and concrete runs.
\<close>

subsection \<open>Reserved swaps\<close>

definition quotas :: "store \<Rightarrow> (int \<times> int \<times> int) list" where
  "quotas s = map (\<lambda>x. (s_id x, s_quota x, s_used x)) (rows (subs s))"

definition mutating :: "store \<Rightarrow> int \<Rightarrow> int" where
  "mutating s u = count_where (\<lambda>j. j_sub j = u \<and> mutation_swap (j_state j)) (jobs s)"

text \<open>A negative quota is no limit.\<close>

definition swaps_allowed :: "store \<Rightarrow> int \<Rightarrow> int" where
  "swaps_allowed s u = (case quota_of s u of None \<Rightarrow> 0 | Some (q, n) \<Rightarrow> if q < 0 then 0 else q)"

definition swaps_taken :: "store \<Rightarrow> int \<Rightarrow> int" where
  "swaps_taken s u = (case quota_of s u of None \<Rightarrow> 0 | Some (q, n) \<Rightarrow> if q < 0 then 0 else n + mutating s u)"

definition within :: "store \<Rightarrow> store \<Rightarrow> bool" where
  "within s s' \<longleftrightarrow> (\<forall>u. swaps_allowed s' u = swaps_allowed s u \<and> swaps_taken s' u \<le> swaps_taken s u)"

lemma within_refl [simp]: "within s s"
  by (simp add: within_def)

lemma within_trans: "within s s1 \<Longrightarrow> within s1 s2 \<Longrightarrow> within s s2"
  unfolding within_def by (metis order_trans)

lemma find_map_key: "List.find (\<lambda>p. fst p = u) (map (\<lambda>x. (k x, g x)) xs) = map_option (\<lambda>x. (k x, g x)) (List.find (\<lambda>x. k x = u) xs)"
  by (induction xs) auto

lemma quota_of_quotas: "quota_of s u = map_option snd (List.find (\<lambda>p. fst p = u) (quotas s))"
  by (simp add: quota_of_def find_sub_def select_one_def quotas_def find_map_key option.map_comp comp_def)

lemma quotas_update_sub:
  "(\<And>x. s_id (f x) = s_id x \<and> s_quota (f x) = s_quota x \<and> s_used (f x) = s_used x) \<Longrightarrow> quotas (update_sub i f s) = quotas s"
  by (simp add: quotas_def update_sub_def)

lemma quotas_other [simp]:
  "quotas (update_job i f s) = quotas s" "quotas (update_asg i g s) = quotas s" "quotas (pause_auto_swap s) = quotas s"
  "quotas (s\<lparr>jobs := t\<rparr>) = quotas s" "quotas (s\<lparr>asgs := v\<rparr>) = quotas s"
  by (simp_all add: quotas_def)

lemma withinI:
  assumes "quotas s' = quotas s" "\<And>u. mutating s' u \<le> mutating s u"
  shows "within s s'"
  unfolding within_def swaps_allowed_def swaps_taken_def quota_of_quotas assms(1)
  by (auto simp: assms(2) split: option.splits)

lemma length_filter_le: "(\<And>x. x \<in> set xs \<Longrightarrow> Q x \<Longrightarrow> P x) \<Longrightarrow> length (filter Q xs) \<le> length (filter P xs)"
  by (induction xs) (auto simp: le_SucI)

lemma count_where_mono:
  "(\<And>r. r \<in> set (rows t) \<Longrightarrow> Q r \<Longrightarrow> P r) \<Longrightarrow> count_where Q t \<le> count_where P t"
  unfolding count_where_def by (simp add: length_filter_le)

lemma count_where_update: "count_where P (update_where Q f t) = count_where (\<lambda>r. P (if Q r then f r else r)) t"
  by (simp add: count_where_def filter_map comp_def)

lemma within_update:
  assumes "jobs s' = update_where P f (jobs s)" "quotas s' = quotas s"
    and "\<And>j. P j \<Longrightarrow> j_sub (f j) = j_sub j \<and> (mutation_swap (j_state (f j)) \<longrightarrow> mutation_swap (j_state j))"
  shows "within s s'"
  by (rule withinI [OF assms(2)])
    (unfold mutating_def assms(1) count_where_update, rule count_where_mono, use assms(3) in \<open>auto split: if_splits\<close>)

lemma within_update_job:
  "(\<And>j. j_sub (f j) = j_sub j \<and> (mutation_swap (j_state (f j)) \<longrightarrow> mutation_swap (j_state j)))
     \<Longrightarrow> within s (update_job i f s)"
  by (rule within_update [where P = "\<lambda>j. j_id j = i" and f = f]) simp_all

lemma mutating_other [simp]:
  "mutating (pause_auto_swap s) = mutating s" "mutating (update_asg i g s) = mutating s"
  "mutating (update_sub i f s) = mutating s" "mutating (s\<lparr>asgs := v\<rparr>) = mutating s"
  by (simp_all add: mutating_def fun_eq_iff)

lemma within_cong: "quotas s2 = quotas s1 \<Longrightarrow> mutating s2 = mutating s1 \<Longrightarrow> within s s2 \<longleftrightarrow> within s s1"
  unfolding within_def swaps_allowed_def swaps_taken_def quota_of_quotas by (simp only:)

lemma within_other [simp]:
  "within s (pause_auto_swap s') \<longleftrightarrow> within s s'"
  "within s (update_asg i g s') \<longleftrightarrow> within s s'"
  by (rule within_cong; simp)+

lemma within_update_sub:
  "(\<And>x. s_id (f x) = s_id x \<and> s_quota (f x) = s_quota x \<and> s_used (f x) = s_used x)
     \<Longrightarrow> within s (update_sub i f s') \<longleftrightarrow> within s s'"
  by (rule within_cong) (simp_all add: quotas_update_sub)

subsection \<open>One row of a table\<close>

lemma select_one_update:
  assumes "\<And>r. rid (f r) = rid r"
  shows "select_one (\<lambda>r. rid r = i) (update_where (\<lambda>r. rid r = k) f t)
    = map_option (\<lambda>r. if rid r = k then f r else r) (select_one (\<lambda>r. rid r = i) t)"
proof -
  have "List.find (\<lambda>r. rid r = i) (map (\<lambda>r. if rid r = k then f r else r) xs)
      = map_option (\<lambda>r. if rid r = k then f r else r) (List.find (\<lambda>r. rid r = i) xs)" for xs
    by (induction xs) (auto simp: assms)
  then show ?thesis by (simp add: select_one_def)
qed

lemma count_update_row:
  assumes "wf_table rid t" "j \<in> set (rows t)" "\<And>r. C r \<Longrightarrow> rid r = rid j" "C j"
  shows "count_where P (update_where C f t)
    = count_where P t - (if P j then 1 else 0) + (if P (f j) then 1 else 0)"
proof -
  have hit: "C r \<longleftrightarrow> r = j" if "r \<in> set (rows t)" for r
    using assms(3,4) wf_table_unique [OF assms(1) that assms(2)] by blast
  define g where "g r = (if r = j then f r else r)" for r
  have g: "g j = f j" "\<And>r. r \<noteq> j \<Longrightarrow> g r = r" by (simp_all add: g_def)
  have "int (length (filter (\<lambda>r. P (g r)) xs))
      = int (length (filter P xs)) - (if P j then 1 else 0) + (if P (f j) then 1 else 0)"
    if "distinct xs" "j \<in> set xs" for xs
    using that
  proof (induction xs)
    case (Cons x xs)
    show ?case
    proof (cases "x = j")
      case True
      then have "g r = r" if "r \<in> set xs" for r
        using Cons.prems(1) g(2) that by (metis distinct.simps(2))
      then have "filter (\<lambda>r. P (g r)) xs = filter P xs"
        by (intro filter_cong) simp_all
      then show ?thesis by (simp add: True g)
    next
      case False
      then show ?thesis using Cons g(2) by (cases "P j"; cases "P (f j)") simp_all
    qed
  qed simp
  moreover have "distinct (rows t)" using assms(1) by (simp add: wf_table_def distinct_map)
  moreover have "filter (\<lambda>r. P (if C r then f r else r)) (rows t) = filter (\<lambda>r. P (g r)) (rows t)"
    by (rule filter_cong) (use hit in \<open>auto simp: g_def\<close>)
  ultimately show ?thesis using assms(2) by (subst count_where_update) (simp add: count_where_def)
qed

subsection \<open>What each operation takes from the quota\<close>

lemma recover_within: "within s (recover_leases now s)"
  unfolding recover_leases_def
  by (rule within_update [where f = "\<lambda>j. j\<lparr>j_state := Sw_pending, j_token := None, j_claimed_until := None, j_updated := now\<rparr>"])
    (simp_all add: quotas_def swap_states)

lemma claim_within:
  assumes "claim_next_swap now tok secs job s = (s', r)" "swaps_ok s"
  shows "within s s'"
  using assms(1) swaps_okD(1) [OF assms(2)]
proof (cases rule: claim_next_swap_cases)
  case idle
  then show ?thesis by (simp add: recover_within)
next
  case (claimed j)
  have "within (recover_leases now s) s'"
    unfolding claimed(3) by (rule within_update_job) (simp add: running_row_def swap_states)
  then show ?thesis by (rule within_trans [OF recover_within])
qed

lemma requeue_within:
  assumes "requeue now i r s = Inr s'"
  shows "within s s'"
proof -
  let ?f = "\<lambda>k. k\<lparr>j_state := Sw_pending, j_reason := r, j_error := '''', j_blocked := None, j_token := None,
       j_claimed_until := None, j_updated := now\<rparr>"
  have "s' = s\<lparr>jobs := update_where (\<lambda>k. j_id k = i) ?f (jobs s)\<rparr>"
    using conjunct1 [OF put_jobsD [OF assms [unfolded requeue_def]]] .
  then show ?thesis
    by (intro within_update [where f = ?f and P = "\<lambda>k. j_id k = i"]) (simp_all add: quotas_def swap_states)
qed

lemma no_change_within: "within s (fst (reconcile_no_provider_change now j s))"
  unfolding reconcile_no_provider_change_def
  by (auto simp: within_update_sub swap_states intro!: within_update_job)

lemma inferred_within: "within s (fst (record_inferred_replacement wall now j s))"
  unfolding record_inferred_replacement_def
  by (auto split: option.splits simp: lacks_replacement_def quotas_def
      intro!: within_update [where P = "lacks_replacement (j_id j)"])

lemma required_within:
  assumes "mark_reconciliation_required now i e tok s = Inr s'"
  shows "within s s'"
proof -
  have "s' = pause_auto_swap (update_job i (uncertain_row now (safe_code e ''provider_timeout'')) s)"
    using assms unfolding mark_reconciliation_required_def by (auto simp: bindR_Inr_iff split: option.splits)
  then show ?thesis by (auto intro!: within_update_job simp: uncertain_row_def swap_states split: if_splits)
qed

lemma applied_within:
  assumes "mark_provider_applied now i old_ext new_ext addr tok s = Inr s'"
  shows "within s s'"
  using assms
proof (rule mark_provider_appliedD)
  fix n s2 j
  assume s': "s' = fst (enqueue_sync_run now True (update_job i (applied_row now (strip old_ext) (strip (or_empty new_ext)) n) s2))"
    and "settle_assignments now j (strip old_ext) (strip (or_empty new_ext)) s = Inr s2"
  then have fr: "jobs s2 = jobs s" "subs s2 = subs s" using settle_frame by blast+
  show ?thesis
    by (rule within_update [where P = "\<lambda>k. j_id k = i" and f = "applied_row now (strip old_ext) (strip (or_empty new_ext)) n"])
      (auto simp: s' fr quotas_def applied_row_def swap_states)
qed

text \<open>A success frees the reservation of its job and counts it as used.\<close>

lemma success_within:
  assumes "mark_swap_success reveal now i a b d tok s = Inr s'" "swaps_ok s"
  shows "within s s'"
  using assms(1)
proof (rule mark_swap_successD)
  fix j old new m e
  assume j: "find_job s i = Some j" "j_state j = Sw_provider_applied \<or> j_state j = Sw_reconciliation_required"
    and fin: "finish_swap now m j (strip a) e old new s = Inr s'"
  note d = finish_swapD [OF fin]
  have mem: "j \<in> set (rows (jobs s))" using find_jobD [OF j(1)] by simp
  have mut: "mutation_swap (j_state j)" using j(2) by (auto simp: mutation_swap_def)
  have q: "quota_of s' u = map_option (\<lambda>(q, n). (q, if u = j_sub j then n + 1 else n)) (quota_of s u)" for u
  proof -
    have "find_sub s' u = map_option (\<lambda>x. if s_id x = j_sub j then swapped_sub now x else x) (find_sub s u)"
      unfolding find_sub_def d(4) by (rule select_one_update) (simp add: swapped_sub_def)
    moreover have "s_id x = u" if "find_sub s u = Some x" for x
      using that by (auto simp: find_sub_def dest: select_one_SomeD)
    ultimately show ?thesis by (cases "find_sub s u") (auto simp: quota_of_def swapped_sub_def)
  qed
  have m: "mutating s' u = mutating s u - (if u = j_sub j then 1 else 0)" for u
    unfolding mutating_def d(1)
    by (subst count_update_row [OF swaps_okD(1) [OF assms(2)] mem]) (use j(2) in \<open>auto simp: swap_states\<close>)
  show "within s s'"
    unfolding within_def swaps_allowed_def swaps_taken_def q m
    by (auto split: option.splits)
qed

interpretation reserving: reconcile_relation within
  by unfold_locales
    (use within_trans no_change_within inferred_within required_within success_within in auto)

lemma queue_one_within:
  "within s (fst (queue_one now thr (s, n) row))"
proof (rule withinI)
  show "quotas (fst (queue_one now thr (s, n) row)) = quotas s"
    by (cases row) (auto simp: queue_one_def Let_def remember_decision_def quotas_update_sub split: sum.splits dest!: put_jobsD)
  show "mutating (fst (queue_one now thr (s, n) row)) u \<le> mutating s u" for u
    by (cases row) (auto simp: queue_one_def Let_def remember_decision_def mutating_def count_where_def insert_row_def swap_states
        new_swap_job_def split: sum.splits dest!: put_jobsD)
qed

lemma queue_within: "within s (fst (queue_eligible_swaps now lim thr s))"
proof -
  have "within s (fst (foldl (queue_one now t) (s, n) xs))" for t s n xs
  proof (induction xs arbitrary: s n)
    case (Cons x xs)
    obtain s1 n1 where q: "queue_one now t (s, n) x = (s1, n1)" by (cases "queue_one now t (s, n) x")
    show ?case using within_trans [OF _ Cons.IH [of s1 n1]] queue_one_within [of s now t n x] by (simp add: q)
  qed simp
  then show ?thesis by (simp add: queue_eligible_swaps_def Let_def)
qed

subsection \<open>The mutation fence takes at most what is left\<close>

lemma fence_within:
  assumes "revalidate_swap_job now i manual tok enter s = Inr (s', d)" "swaps_ok s"
  shows "swaps_allowed s' u = swaps_allowed s u
     \<and> (swaps_taken s' u \<le> swaps_taken s u \<or> swaps_taken s' u \<le> swaps_allowed s u)"
proof (cases "enter \<and> d_allowed d")
  case False
  then have "s' = s \<or> (\<exists>j r. s' = await_dashboard now j s \<or> s' = block_guarded now r j s)"
    using assms(1) unfolding revalidate_swap_job_def
    by (auto simp: bindR_Inr_iff guardR_Inr_iff Let_def split: option.splits if_splits)
  moreover have "within s (await_dashboard now j s)" for j
    unfolding await_dashboard_def
    by (auto simp: within_update_sub swap_states intro!: within_update_job split: if_splits)
  moreover have "within s (block_guarded now r j s)" for j r
    unfolding block_guarded_def by (rule within_update_job) (simp add: swap_states)
  ultimately have "within s s'" by auto
  then show ?thesis by (simp add: within_def)
next
  case True
  then have run: "revalidate_swap_job now i manual tok True s = Inr (s', d)" and al: "d_allowed d"
    using assms(1) by auto
  from run al show ?thesis
  proof (rule revalidate_enterD)
    fix j x a
    assume j: "find_job s i = Some j" "j_state j = Sw_running"
      and x: "find_sub s (j_sub j) = Some x"
      and may: "may_swap s now (max 1 (eligible_threshold s)) (Some i) x a"
      and enter: "enter_mutation now tok j s = Inr s'"
    have mem: "j \<in> set (rows (jobs s))" "j_id j = i" using find_jobD [OF j(1)] by auto
    have sx: "s_id x = j_sub j" using x by (auto simp: find_sub_def dest: select_one_SomeD)
    obtain b y where s': "s' = s\<lparr>jobs := update_where (\<lambda>k. j_id k = j_id j \<and> j_state k = Sw_running \<and> j_token k = j_token j)
              (fence_row now b y) (jobs s),
            asgs := update_where (\<lambda>c. a_id c = a_id b \<and> a_sub c = j_sub j) (withdraw_evidence now) (asgs s)\<rparr>"
      using enter by (rule enter_mutationD) blast
    have q: "quota_of s' v = quota_of s v" for v
      by (simp add: quota_of_def find_sub_def s')
    have s'j: "jobs s' = update_where (\<lambda>k. j_id k = j_id j \<and> j_state k = Sw_running \<and> j_token k = j_token j)
        (fence_row now b y) (jobs s)"
      by (simp add: s')
    have m: "mutating s' v = mutating s v + (if v = j_sub j then 1 else 0)" for v
      unfolding mutating_def s'j
      by (subst count_update_row [OF swaps_okD(1) [OF assms(2)] mem(1)])
        (use j(2) in \<open>auto simp: swap_states fence_row_def\<close>)
    have "mutating s (j_sub j) \<le> reserved_swaps s (j_sub j) (Some i)"
      unfolding mutating_def reserved_swaps_def
      by (rule count_where_mono) (use job_by_id [OF assms(2) j(1)] j(2) in \<open>auto simp: swap_states\<close>)
    moreover have "s_quota x < 0 \<or> s_used x + reserved_swaps s (j_sub j) (Some i) < s_quota x"
      using may by (simp add: may_swap_def sx)
    moreover have qx: "quota_of s (j_sub j) = Some (s_quota x, s_used x)" by (simp add: quota_of_def x)
    ultimately have "swaps_taken s' (j_sub j) \<le> swaps_allowed s (j_sub j)"
      by (auto simp: swaps_taken_def swaps_allowed_def q m qx)
    moreover have "swaps_taken s' v = swaps_taken s v" if "v \<noteq> j_sub j" for v
      using m [of v] that by (auto simp: swaps_taken_def q split: option.splits)
    moreover have "swaps_allowed s' v = swaps_allowed s v" for v
      by (simp add: swaps_allowed_def q)
    ultimately show ?thesis by (metis order_refl)
  qed
qed

lemma withinD: "within s s' \<Longrightarrow> swaps_allowed s' u = swaps_allowed s u \<and> swaps_taken s' u \<le> swaps_taken s u"
  by (simp add: within_def)

lemma pre_within:
  "mark_swap_blocked now i e tok s = Inr s' \<Longrightarrow> within s s'"
  "cancel_swap now i s = Inr s' \<Longrightarrow> within s s'"
  "mark_swap_failed now i e retryable lim tok s = Inr (s', st) \<Longrightarrow> within s s'"
proof -
  show "mark_swap_blocked now i e tok s = Inr s' \<Longrightarrow> within s s'"
    unfolding mark_swap_blocked_def Let_def
    by (auto simp: bindR_Inr_iff swap_blocked_row_def swap_states intro!: within_update_job split: if_splits)
  show "cancel_swap now i s = Inr s' \<Longrightarrow> within s s'"
    unfolding cancel_swap_def
    by (auto simp: bindR_Inr_iff swap_states intro!: within_update_job split: if_splits)
  assume "mark_swap_failed now i e retryable lim tok s = Inr (s', st)"
  then show "within s s'"
    by (rule mark_swap_failedD) (auto intro!: within_update_job simp: swap_failed_row_def swap_states split: if_splits)
qed

lemma swap_run_quota:
  assumes "swap_run reveal e t s = Inr s'" "swaps_ok s"
  shows "swaps_allowed s' u = swaps_allowed s u
     \<and> (swaps_taken s' u \<le> swaps_taken s u \<or> swaps_taken s' u \<le> swaps_allowed s u)"
proof (cases e)
  case (Sw_revalidate i manual tok enter)
  then show ?thesis using assms by (auto simp: bindR_Inr_iff dest: fence_within [where u = u])
next
  case (Sw_claim tok secs job)
  then show ?thesis using assms(1) withinD [OF claim_within [OF prod.collapse [symmetric] assms(2)], where u = u] by auto
next
  case (Sw_reconcile wall lim)
  then show ?thesis using assms(1) withinD [OF reserving.reconcile_rel [OF assms(2)], where u = u] by auto
next
  case (Sw_retry i)
  then show ?thesis
    using assms(1) withinD [OF requeue_within, of _ _ _ s s' u]
    by (auto simp: retry_swap_def bindR_Inr_iff split: option.splits)
next
  case (Sw_manual i)
  then show ?thesis
    using assms(1) withinD [OF requeue_within, of _ _ _ s s' u]
    by (auto simp: request_manual_swap_def Let_def bindR_Inr_iff split: option.splits)
qed (use assms withinD [of s s' u] queue_within in \<open>auto simp: bindR_Inr_iff dest: pre_within applied_within required_within success_within\<close>)

lemma swap_step_quota:
  assumes "swap_step reveal e s s'" "swaps_ok s"
  shows "swaps_allowed s u \<le> swaps_allowed s' u
     \<and> (swaps_taken s' u \<le> swaps_taken s u \<or> swaps_taken s' u \<le> swaps_allowed s u)"
proof -
  have "(\<exists>f t. swap_run reveal f t s = Inr s') \<or> (jobs s' = jobs s \<and> quotas_kept s s')"
    using assms(1) by (auto elim: swap_stepE)
  then show ?thesis
  proof
    assume "\<exists>f t. swap_run reveal f t s = Inr s'"
    then show ?thesis using swap_run_quota [OF _ assms(2)] by (metis order_refl)
  next
    assume k: "jobs s' = jobs s \<and> quotas_kept s s'"
    then have m: "mutating s' u = mutating s u" by (simp add: mutating_def)
    show ?thesis
    proof (cases "quota_of s' u = quota_of s u")
      case True
      then show ?thesis by (auto simp: swaps_taken_def swaps_allowed_def m split: option.split)
    next
      case False
      then have n: "quota_of s u = None" "\<forall>j \<in> set (rows (jobs s)). j_sub j \<noteq> u"
          "\<forall>q n. quota_of s' u = Some (q, n) \<longrightarrow> n = 0"
        using k unfolding quotas_kept_def by metis+
      have "mutating s u = 0" using n(2) by (auto simp: mutating_def count_where_def filter_empty_conv)
      then show ?thesis using n(1,3) by (auto simp: swaps_taken_def swaps_allowed_def m split: option.split)
    qed
  qed
qed

interpretation swap_quota: reservation_system "swap_step reveal" swaps_ok swaps_allowed swaps_taken
  by unfold_locales (use swap_step_quota in \<open>auto simp: order.refl\<close>)


subsection \<open>The evidence behind a success\<close>

lemma replacement_evidenceD:
  assumes "replacement_evidence reveal s now m a = Inr u"
  obtains synced observed where "a_last_seen a = Some synced" "a_dash_observed a = Some observed"
    "m < synced" "m < observed" "a_dash_source a = ''provider_dashboard''"
    "now - observed \<le> seconds (dashboard_max_age s)" "strip (a_host a) \<noteq> ''''" "0 < a_port a"
    "\<And>c. c \<in> {''username_encrypted'', ''password_encrypted''} \<Longrightarrow> \<exists>t. reveal a c = Some t \<and> strip t \<noteq> ''''"
proof -
  obtain synced observed where e: "a_last_seen a = Some synced" "a_dash_observed a = Some observed"
    using assms by (auto simp: replacement_evidence_def split: option.splits)
  show thesis
    using assms unfolding replacement_evidence_def Let_def e option.case prod.case
    by (elim bindR_InrE guardR_InrE) (rule that [OF e], auto simp: guardR_Inr_iff split: option.splits)
qed

lemma replacement_row_known:
  assumes "replacement_row s j e adr m = Inr a"
  shows "a \<in> set (rows (asgs s))"
proof (cases "e = ''''")
  case True
  then have "resolve_replacement_by_address s (j_sub j) (j_old j) adr m = Inr a"
    using assms by (simp add: replacement_row_def)
  then obtain xs where "a \<in> set xs" "set xs \<subseteq> set (rows (asgs s))"
    unfolding resolve_replacement_by_address_def Let_def
    by (fastforce elim!: bindR_InrE split: prod.splits list.splits if_splits dest: arg_cong [where f = set])
  then show ?thesis by blast
next
  case False
  then obtain b where "resolve_assignment s e = Some b" "a = b"
    using assms by (auto simp: replacement_row_def bindR_Inr_iff split: option.splits if_splits prod.splits)
  then show ?thesis by (auto simp: resolve_assignment_def dest: select_one_SomeD)
qed

lemma resolve_assignmentD:
  "resolve_assignment s e = Some a \<Longrightarrow> a \<in> set (rows (asgs s)) \<and> a_external a = e"
  by (auto simp: resolve_assignment_def dest: select_one_SomeD)



lemma replacement_differs:
  assumes "replacement_row s j e adr m = Inr new" "a_external old = strip old_ext"
    and "(if e = '''' then strip (a_external new) else e) \<noteq> strip old_ext"
  shows "new \<noteq> old"
proof (cases "e = ''''")
  case True
  then show ?thesis using assms(2,3) by auto
next
  case False
  then have "resolve_assignment s e = Some new"
    using assms(1) by (auto simp: replacement_row_def bindR_Inr_iff split: option.splits if_splits prod.splits)
  then show ?thesis using resolve_assignmentD assms(2,3) False by metis
qed

lemma activate_simps [simp]:
  "a_id (activate_replacement now r a) = a_id a" "a_ready (activate_replacement now r a) = Some r"
  "a_distribution (activate_replacement now r a) = False" "a_qualification (activate_replacement now r a) = ''pending''"
  by (simp_all add: activate_replacement_def)

lemma cooldown_at_least: "60 \<le> cooldown_seconds s"
  by (simp add: cooldown_seconds_def split: option.split)

lemma finish_assignments:
  assumes fin: "finish_swap now m j e1 e2 old new s = Inr s'" and wf: "wf_table a_id (asgs s)"
    and "new \<in> set (rows (asgs s))" "old \<in> set (rows (asgs s))" "new \<noteq> old"
  shows "find_asg s' (a_id old) = None"
    "find_asg s' (a_id new) = Some (activate_replacement now (max now m + seconds (cooldown_seconds s)) new)"
proof -
  let ?f = "activate_replacement now (max now m + seconds (cooldown_seconds s))"
  let ?u = "update_where (\<lambda>a. a_id a = a_id new) ?f (asgs s)"
  note d = finish_swapD(3) [OF fin]
  have ids: "a_id new \<noteq> a_id old" using wf_table_unique [OF wf assms(3,4)] assms(5) by auto
  show "find_asg s' (a_id old) = None"
    unfolding find_asg_def d select_one_None_iff by simp
  have wfu: "wf_table a_id (asgs s')"
    unfolding d by (rule wf_table_delete, rule wf_table_update [OF wf]) simp
  have "?f new \<in> set (rows ?u)"
    unfolding rows_update_where set_map by (rule image_eqI [OF _ assms(3)]) simp
  then have "?f new \<in> set (rows (asgs s'))" unfolding d using ids by simp
  from wf_table_find [OF wfu this] show "find_asg s' (a_id new) = Some (?f new)"
    by (simp add: find_asg_def)
qed

text \<open>C22. A job becomes a success only for its claim holder, after a mutation of the provider was started, and
  only on evidence that is newer than that mutation: the replacement row was synced from the provider's
  inventory and observed by the trusted dashboard source after it, in the same subscription, with a host and a
  port. Then the replaced row is gone, the replacement waits out of distribution for at least a minute before it
  is qualified, the mapping is recorded and one swap of the quota is used.\<close>

theorem success_has_evidence:
  assumes run: "mark_swap_success reveal now i old_ext new_ext addr tok s = Inr s'"
    and ok: "swaps_ok s" "wf_table a_id (asgs s)"
  shows "\<exists>j m old new new'. find_job s i = Some j \<and> mutation_swap (j_state j) \<and> or_empty (j_token j) = or_empty tok
     \<and> mutation_time j = Some m
     \<and> find_asg s (a_id old) = Some old \<and> a_external old = strip old_ext \<and> a_sub old = j_sub j
     \<and> find_asg s (a_id new) = Some new \<and> a_sub new = j_sub j \<and> after (a_last_seen new) m \<and> after (a_dash_observed new) m
     \<and> a_dash_source new = ''provider_dashboard'' \<and> strip (a_host new) \<noteq> '''' \<and> 0 < a_port new
     \<and> find_asg s' (a_id old) = None \<and> find_asg s' (a_id new) = Some new' \<and> a_qualification new' = ''pending''
     \<and> \<not> a_distribution new' \<and> (\<exists>r. a_ready new' = Some r \<and> max now m + seconds 60 \<le> r)
     \<and> find_job s' i = Some (success_row now old new j)
     \<and> (\<exists>x \<in> set (rows (mappings s')). m_job x = i \<and> m_old_external x = strip old_ext)
     \<and> subs s' = update_where (\<lambda>x. s_id x = j_sub j) (swapped_sub now) (subs s)"
  using run
proof (rule mark_swap_successD)
  fix j old new m e
  assume j: "find_job s i = Some j" "j_state j = Sw_provider_applied \<or> j_state j = Sw_reconciliation_required"
    and claim: "require_claim j tok = Inr ()" and old: "match_old j old = Inr ()" "resolve_assignment s (strip old_ext) = Some old"
    and m: "mutation_time j = Some m"
    and new: "replacement_row s j (strip (or_empty (j_mut_new_external j))) (strip (or_empty (j_mut_new_address j))) m = Inr new"
    and e: "e = (if strip (or_empty (j_mut_new_external j)) = '''' then strip (a_external new) else strip (or_empty (j_mut_new_external j)))"
      "e \<noteq> strip old_ext"
    and sub: "a_sub new = j_sub j" and ev: "replacement_evidence reveal s now m new = Inr ()"
    and fin: "finish_swap now m j (strip old_ext) e old new s = Inr s'"
  have ji: "j \<in> set (rows (jobs s))" "j_id j = i" using find_jobD [OF j(1)] by auto
  have o: "old \<in> set (rows (asgs s))" "a_external old = strip old_ext" "a_sub old = j_sub j"
    using resolve_assignmentD [OF old(2)] old(1) by (auto simp: match_old_def bindR_Inr_iff guardR_Inr_iff)
  have n: "new \<in> set (rows (asgs s))" "new \<noteq> old"
    using replacement_row_known [OF new] replacement_differs [OF new o(2)] e by auto
  have found: "find_asg s (a_id old) = Some old" "find_asg s (a_id new) = Some new"
    unfolding find_asg_def by (rule wf_table_find [OF ok(2) o(1)], rule wf_table_find [OF ok(2) n(1)])
  note d = finish_swapD [OF fin] and f = finish_assignments [OF fin ok(2) n(1) o(1) n(2)]
  have "success_row now old new j \<in> set (rows (jobs s'))"
    unfolding d(1) rows_update_where set_map by (rule image_eqI [OF _ ji(1)]) simp
  from find_jobI [OF mark_swap_success_keeps [OF run ok(1)] this]
  have job: "find_job s' i = Some (success_row now old new j)" by (simp add: ji(2))
  have ready: "max now m + seconds 60 \<le> max now m + seconds (cooldown_seconds s)"
    using cooldown_at_least [of s] by (simp add: seconds_def)
  have map_: "\<exists>x \<in> set (rows (mappings s')). m_job x = i \<and> m_old_external x = strip old_ext"
    by (simp add: d(2) ji(2))
  from ev show ?thesis
  proof (rule replacement_evidenceD)
    fix synced observed
    assume "a_last_seen new = Some synced" "a_dash_observed new = Some observed" "m < synced" "m < observed"
      "a_dash_source new = ''provider_dashboard''" "strip (a_host new) \<noteq> ''''" "0 < a_port new"
    then show ?thesis
      using j m claim found o sub f job map_ ready d(4)
      by (intro exI [of _ j] exI [of _ m] exI [of _ old] exI [of _ new]
          exI [of _ "activate_replacement now (max now m + seconds (cooldown_seconds s)) new"])
        (auto simp: after_def mutation_swap_def require_claim_def guardR_Inr_iff)
  qed
qed

subsection \<open>A concrete run\<close>

definition swap_sub :: "int \<Rightarrow> sub_row" where
  "swap_sub i = \<lparr>s_id = i, s_external = ''sub'', s_network = ''isp'', s_location = '''', s_quantity = 2, s_expires = None,
     s_auto_renew = False, s_status = ''active'', s_eligible_count = Some 0, s_connections = None, s_metadata = [],
     s_quota = 2, s_used = 0, s_reason = '''', s_checked = None, s_success = None, s_first_seen = Some 0,
     s_last_seen = Some 0, s_missing = None, s_next_observe = None, s_created = 0, s_updated = 0\<rparr>"

definition risky_asg :: "int \<Rightarrow> string \<Rightarrow> time \<Rightarrow> asg_row" where
  "risky_asg i e t = \<lparr>a_id = i, a_sub = 1, a_external = e, a_host = ''9.9.9.9'', a_port = 8080, a_username = ''u'',
     a_password = ''p'', a_country = ''us'', a_protocol = ''http'', a_status = ''active'', a_qualification = ''risk'',
     a_provider_eligible = True, a_live = ''live'', a_exit_ip = None, a_dash_id = Some ''d'', a_dash_eligible = Some True,
     a_dash_connections = Some 5, a_dash_observed = Some t, a_dash_source = ''provider_dashboard'', a_dash_error = '''',
     a_last_seen = Some t, a_missing = None, a_ready = None, a_last_checked = Some 0, a_egress_verified = Some 0,
     a_last_error = '''', a_duplicate = False, a_distribution = False, a_q_next = None, a_q_claimed_until = None,
     a_q_token = None, a_q_attempts = 0, a_identity_fp = e, a_identity_gen = 1, a_created = 0, a_updated = 0\<rparr>"

text \<open>Two risky rows of one subscription.\<close>

definition swap_sample :: store where
  "swap_sample = empty_store\<lparr>settings := (\<lambda>k. if k = ''proxiware_auto_swap'' then Some ''1'' else None),
     subs := \<lparr>rows = [swap_sub 1], seq = 1\<rparr>, asgs := \<lparr>rows = [risky_asg 1 ''e1'' 5, risky_asg 2 ''e2'' 5], seq = 2\<rparr>\<rparr>"

definition open_secret :: "asg_row \<Rightarrow> string \<Rightarrow> string option" where
  "open_secret a c = Some (if c = ''username_encrypted'' then a_username a else a_password a)"

text \<open>Job 1 replaces row 1 in the given state; job 2 waits for row 2.\<close>

definition sample_job :: "swap_state \<Rightarrow> job_row" where
  "sample_job st = (new_swap_job 10 1 (Some 1) 1)\<lparr>j_state := st, j_token := Some ''w'', j_attempts := 1,
     j_claimed_until := (if st = Sw_running then Some 60 else None),
     j_mutation_started := (if st = Sw_running then None else Some 12),
     j_mut_old_external := (if st = Sw_running then None else Some ''e1''),
     j_mut_new_external := (if st = Sw_provider_applied then Some ''e3'' else None),
     j_applied := (if st = Sw_provider_applied then Some 13 else None)\<rparr>"

definition jobs_in :: "swap_state \<Rightarrow> store" where
  "jobs_in st = swap_sample\<lparr>jobs := \<lparr>rows = [sample_job st, new_swap_job 10 1 (Some 2) 2], seq = 2\<rparr>\<rparr>"

text \<open>A later sync and dashboard snapshot have seen the replacement.\<close>

definition synced_sample :: store where
  "synced_sample = (jobs_in Sw_provider_applied)\<lparr>asgs := \<lparr>rows = [risky_asg 1 ''e1'' 5, risky_asg 2 ''e2'' 5,
     risky_asg 3 ''e3'' 50], seq = 3\<rparr>\<rparr>"

lemmas swap_sample_defs = jobs_in_def sample_job_def new_swap_job_def swap_sample_def empty_store_def

lemma strip_samples: "strip ''w'' = ''w''" "strip ''e1'' = ''e1''"
  by code_simp+

lemma jobs_in_ok: "st \<in> {Sw_running, Sw_mutating, Sw_provider_applied} \<Longrightarrow> swaps_ok (jobs_in st)"
  by (auto simp: swaps_ok_def index_keys_def busy_keys_def lineage_ok_def job_ok_def wf_table_def swap_states
      swap_sample_defs strip_samples)

definition outcome :: "store result \<Rightarrow> store \<Rightarrow> store" where
  "outcome r s = (case r of Inr s' \<Rightarrow> s' | Inl _ \<Rightarrow> s)"

lemma outcome_step:
  assumes "\<not> isl (swap_run reveal e t s)" "fresh_token e"
  shows "swap_step reveal (Some e) s (outcome (swap_run reveal e t s) s)"
  by (rule swap_step.swap [OF assms(2), where t = t]) (use assms(1) in \<open>cases "swap_run reveal e t s"; simp add: outcome_def\<close>)

lemma synced_ok: "swaps_ok synced_sample"
  by (rule swaps_ok_cong [OF _ _ jobs_in_ok [of Sw_provider_applied]]) (simp_all add: synced_sample_def)

text \<open>The steps of the samples.\<close>

definition uncertain_sample :: store where
  "uncertain_sample = outcome (swap_run open_secret (Sw_uncertain 1 ''x'' (Some ''w'')) 13 (jobs_in Sw_mutating)) (jobs_in Sw_mutating)"

definition swapped_sample :: store where
  "swapped_sample = outcome (swap_run open_secret (Sw_swapped 1 ''e1'' (Some ''e3'') None (Some ''w'')) 90 synced_sample) synced_sample"

lemma uncertain_sample_step:
  "swap_step open_secret (Some (Sw_uncertain 1 ''x'' (Some ''w''))) (jobs_in Sw_mutating) uncertain_sample"
  unfolding uncertain_sample_def by (rule outcome_step) code_simp+

lemma swapped_sample_run:
  "swap_run open_secret (Sw_swapped 1 ''e1'' (Some ''e3'') None (Some ''w'')) 90 synced_sample = Inr swapped_sample"
proof -
  have "\<not> isl (swap_run open_secret (Sw_swapped 1 ''e1'' (Some ''e3'') None (Some ''w'')) 90 synced_sample)" by code_simp
  then show ?thesis by (auto simp: swapped_sample_def outcome_def isl_def split: sum.split)
qed

lemma swapped_sample_step:
  "swap_step open_secret (Some (Sw_swapped 1 ''e1'' (Some ''e3'') None (Some ''w''))) synced_sample swapped_sample"
  by (rule swap_step.swap [OF _ swapped_sample_run]) (simp add: fresh_token_def)

lemma synced_quota: "swaps_taken synced_sample v \<le> swaps_allowed synced_sample v"
  by (auto simp: swaps_taken_def swaps_allowed_def quota_of_def find_sub_def select_one_def mutating_def count_where_def
      synced_sample_def swap_sample_defs swap_sub_def swap_states split: option.splits)


theorem one_swap_at_a_time_witness:
  "map j_state (rows (jobs swapped_sample)) = [Sw_success, Sw_pending]
   \<and> (\<exists>!m. m \<in> set (rows (mappings swapped_sample)) \<and> m_job m = 1)"
proof
  have run: "steps (swap_step open_secret) synced_sample [Some (Sw_swapped 1 ''e1'' (Some ''e3'') None (Some ''w''))] swapped_sample"
    using swapped_sample_step by (auto simp: steps_Cons)
  have "list_ex (\<lambda>j. j_state j = Sw_success \<and> j_id j = 1) (rows (jobs swapped_sample))" by code_simp
  then obtain j where j: "j \<in> set (rows (jobs swapped_sample))" "j_state j = Sw_success" "j_id j = 1"
    by (auto simp: list_ex_iff)
  show "\<exists>!m. m \<in> set (rows (mappings swapped_sample)) \<and> m_job m = 1"
    using one_swap_at_a_time [OF run synced_ok j(1,1)] j(2,3) by simp
  show "map j_state (rows (jobs swapped_sample)) = [Sw_success, Sw_pending]" by code_simp
qed

theorem uncertain_mutation_never_retried_witness:
  "\<exists>k \<in> set (rows (jobs uncertain_sample)). j_id k = 1 \<and> \<not> pre_mutation (j_state k)"
  using uncertain_mutation_never_retried [OF uncertain_sample_step jobs_in_ok, of "sample_job Sw_mutating"]
  by (auto simp: jobs_in_def sample_job_def new_swap_job_def swap_states)


theorem success_has_evidence_witness:
  "find_asg swapped_sample 1 = None \<and> (\<exists>a. find_asg swapped_sample 3 = Some a \<and> \<not> a_distribution a)"
proof -
  have wf: "wf_table a_id (asgs synced_sample)" by (simp add: wf_table_def synced_sample_def risky_asg_def)
  have run: "mark_swap_success open_secret 90 1 ''e1'' (Some ''e3'') None (Some ''w'') synced_sample = Inr swapped_sample"
    using swapped_sample_run by simp
  from success_has_evidence [OF run synced_ok wf] obtain old new new' j where
    e: "find_asg swapped_sample (a_id old) = None" "find_asg swapped_sample (a_id new) = Some new'" "\<not> a_distribution new'"
    and j: "find_job swapped_sample 1 = Some (success_row 90 old new j)" by blast
  have "map_option (\<lambda>k. (j_old k, j_new k)) (find_job swapped_sample 1) = Some (Some 1, Some 3)" by code_simp
  then have "a_id old = 1" "a_id new = 3" using j by (auto simp: success_row_def)
  then show ?thesis using e by auto
qed


end
