(* ===== verification/Inventory.thy ===== *)
theory Inventory
  imports Provider_Client Qualification Swap_Outcomes
begin

text \<open>
  The inventory sync \<open>sync_proxiware_inventory\<close> of \<open>app/services/proxiware.py\<close>: one transaction per
  subscription, a last one that marks what the provider no longer lists, and the lease that guards each of them.
  The HTTP session of the client is the parameter \<open>http\<close>; \<open>encrypt\<close> is \<open>encrypt_assignment_secret\<close>, of which only the first
  column is kept; \<open>clock k\<close> is the time while the \<open>k\<close>-th subscription is processed.
\<close>

subsection \<open>Reading the payload\<close>

definition int_or_none :: "json \<Rightarrow> int option" where
  "int_or_none v = (if v = J_null \<or> v = J_str '''' then None else json_int v)"

definition bool_of :: "json \<Rightarrow> bool" where
  "bool_of v = (case v of
     J_null \<Rightarrow> False
   | J_str t \<Rightarrow> lower (strip t) \<in> {''1'', ''true'', ''yes'', ''on'', ''active''}
   | _ \<Rightarrow> json_true v)"

text \<open>\<open>json.dumps\<close> with sorted keys, read back.\<close>

definition metadata_keys :: "string list" where
  "metadata_keys = [''auto_renew'', ''expires_at'', ''location'', ''network'', ''quantity'', ''status'']"

definition safe_metadata :: "json_object \<Rightarrow> (string \<times> json) list" where
  "safe_metadata d = map (\<lambda>k. (k, json_get d k)) (filter (json_has d) metadata_keys)"

text \<open>\<open>payload.get(a, payload.get(b))\<close>.\<close>

definition json_get_or :: "json_object \<Rightarrow> string \<Rightarrow> string \<Rightarrow> json" where
  "json_get_or d a b = (if json_has d a then json_get d a else json_get d b)"

definition required_id :: "json_object \<Rightarrow> string option" where
  "required_id d = (let v = json_get_or d ''id'' ''external_id'' in
     if v = J_null \<or> strip (json_str v) = '''' then None else Some (strip (json_str v)))"

subsection \<open>A subscription\<close>

record sync_state =
  sy_added :: int
  sy_updated :: int
  sy_errors :: int
  sy_subs :: "string list"
  sy_asgs :: "string list"

text \<open>The columns an inventory run writes.\<close>

definition sub_columns :: "time \<Rightarrow> json_object \<Rightarrow> sub_row \<Rightarrow> sub_row" where
  "sub_columns now d x = x\<lparr>s_network := json_text (json_get d ''network'') ''isp'',
     s_location := json_text (json_get d ''location'') '''',
     s_quantity := (case int_or_none (json_get d ''quantity'') of None \<Rightarrow> 0 | Some n \<Rightarrow> n),
     s_expires := map_option seconds (int_or_none (json_get d ''expires_at'')),
     s_auto_renew := bool_of (json_get d ''auto_renew''), s_status := json_text (json_get d ''status'') ''active'',
     s_eligible_count := int_or_none (json_get_or d ''eligible_count'' ''eligible''),
     s_connections := int_or_none (json_get_or d ''connections'' ''connections_count''),
     s_metadata := safe_metadata d, s_last_seen := Some now, s_missing := None, s_updated := now\<rparr>"

definition new_sub :: "time \<Rightarrow> string \<Rightarrow> int \<Rightarrow> sub_row" where
  "new_sub now external i = \<lparr>s_id = i, s_external = external, s_network = ''isp'', s_location = '''', s_quantity = 0,
     s_expires = None, s_auto_renew = False, s_status = ''active'', s_eligible_count = None, s_connections = None,
     s_metadata = [], s_quota = -1, s_used = 0, s_reason = '''', s_checked = None, s_success = None,
     s_first_seen = Some now, s_last_seen = Some now, s_missing = None, s_next_observe = None, s_created = now,
     s_updated = now\<rparr>"

definition same_sub :: "sub_row \<Rightarrow> sub_row \<Rightarrow> bool" where
  "same_sub x y \<longleftrightarrow> s_network x = s_network y \<and> s_location x = s_location y \<and> s_quantity x = s_quantity y
     \<and> s_expires x = s_expires y \<and> s_auto_renew x = s_auto_renew y \<and> s_status x = s_status y
     \<and> s_eligible_count x = s_eligible_count y \<and> s_connections x = s_connections y \<and> s_metadata x = s_metadata y"

definition find_sub_external :: "store \<Rightarrow> string \<Rightarrow> sub_row option" where
  "find_sub_external s e = select_one (\<lambda>x. s_external x = e) (subs s)"

definition upsert_subscription :: "time \<Rightarrow> string \<Rightarrow> json_object \<Rightarrow> sync_state \<Rightarrow> store \<Rightarrow> store \<times> sync_state \<times> int" where
  "upsert_subscription now external d c s =
     (case find_sub_external s external of
        None \<Rightarrow> (s\<lparr>subs := insert_row (\<lambda>i. sub_columns now d (new_sub now external i)) (subs s)\<rparr>,
                 c\<lparr>sy_added := sy_added c + 1\<rparr>, seq (subs s) + 1)
      | Some x \<Rightarrow> (s\<lparr>subs := update_where (\<lambda>y. s_external y = external) (sub_columns now d) (subs s)\<rparr>,
                 c\<lparr>sy_updated := sy_updated c + (if same_sub x (sub_columns now d x) then 0 else 1)\<rparr>, s_id x))"

subsection \<open>An assignment\<close>

record proxy_payload =
  pl_id :: string
  pl_host :: string
  pl_port :: int
  pl_country :: string
  pl_status :: string
  pl_qualification :: string
  pl_eligible :: bool
  pl_live :: string
  pl_protocol :: string
  pl_username :: string
  pl_password :: string
  pl_username_encrypted :: string
  pl_password_encrypted :: string

definition given_or :: "json_object \<Rightarrow> string \<Rightarrow> string \<Rightarrow> string \<Rightarrow> string" where
  "given_or d k dflt old = (if json_has d k then json_text (json_get d k) dflt else old)"

definition payload_protocol :: "json_object \<Rightarrow> string \<Rightarrow> string" where
  "payload_protocol d old =
     (let p = lower (strip (json_text (json_get d ''protocol'') ''unknown'')) in
      if p = ''http'' \<or> p = ''socks5'' then p else if old = ''http'' \<or> old = ''socks5'' then old else ''unknown'')"

definition payload_country :: "json_object \<Rightarrow> json_object \<Rightarrow> string \<Rightarrow> string" where
  "payload_country sub d old =
     (if json_has d ''country'' \<or> json_true (json_get sub ''location'')
      then take 64 (upper (json_text (json_get d ''country'') (json_text (json_get sub ''location'') '''')))
      else old)"

text \<open>A row of the list, with what the stored row (if any) supplies where the payload is silent;
  \<open>None\<close> where it has no id, no host or no port.\<close>

definition read_proxy ::
  "(string \<Rightarrow> string) \<Rightarrow> (asg_row \<Rightarrow> string \<Rightarrow> string option) \<Rightarrow> json_object \<Rightarrow> store \<Rightarrow> json_object \<Rightarrow> proxy_payload option" where
  "read_proxy encrypt reveal sub s d =
     (case (required_id d, strip (json_text (json_get d ''host'') ''''), int_or_none (json_get d ''port'')) of
        (Some i, host, Some port) \<Rightarrow>
          if host = '''' \<or> port < 1 \<or> 65535 < port then None
          else
            (let old = resolve_assignment s i;
                 kept = (\<lambda>f dflt. case old of None \<Rightarrow> dflt | Some a \<Rightarrow> f a);
                 secret = (\<lambda>c. case old of None \<Rightarrow> '''' | Some a \<Rightarrow> or_empty (reveal a c))
             in Some \<lparr>pl_id = i, pl_host = host, pl_port = port,
                  pl_country = payload_country sub d (kept a_country ''''),
                  pl_status = given_or d ''status'' ''active'' (kept a_status ''active''),
                  pl_qualification = given_or d ''qualification'' ''pending'' (kept a_qualification ''pending''),
                  pl_eligible = (if json_has d ''provider_eligible'' then bool_of (json_get d ''provider_eligible'')
                     else if json_has d ''eligible'' then bool_of (json_get d ''eligible'')
                     else (case old of None \<Rightarrow> False | Some a \<Rightarrow> a_provider_eligible a)),
                  pl_live = given_or d ''live_status'' ''pending'' (kept a_live ''pending''),
                  pl_protocol = payload_protocol d (kept a_protocol ''unknown''),
                  pl_username = given_or d ''username'' '''' (secret ''username_encrypted''),
                  pl_password = given_or d ''password'' '''' (secret ''password_encrypted''),
                  pl_username_encrypted = (if json_has d ''username'' then encrypt (json_text (json_get d ''username'') '''')
                     else kept a_username ''''),
                  pl_password_encrypted = (if json_has d ''password'' then encrypt (json_text (json_get d ''password'') '''')
                     else kept a_password '''')\<rparr>)
      | _ \<Rightarrow> None)"

definition payload_identity :: "proxy_payload \<Rightarrow> identity" where
  "payload_identity p = assignment_identity (pl_host p) (pl_port p) (pl_username p) (pl_password p)"

definition new_asg :: "(string \<Rightarrow> string) \<Rightarrow> time \<Rightarrow> int \<Rightarrow> string option \<Rightarrow> proxy_payload \<Rightarrow> int \<Rightarrow> asg_row" where
  "new_asg sha256 now sub exit_ip p i = \<lparr>a_id = i, a_sub = sub, a_external = pl_id p, a_host = pl_host p, a_port = pl_port p,
     a_username = pl_username_encrypted p, a_password = pl_password_encrypted p, a_country = pl_country p,
     a_protocol = pl_protocol p, a_status = pl_status p, a_qualification = pl_qualification p,
     a_provider_eligible = pl_eligible p, a_live = pl_live p, a_exit_ip = exit_ip, a_dash_id = None,
     a_dash_eligible = None, a_dash_connections = None, a_dash_observed = None, a_dash_source = '''', a_dash_error = '''',
     a_last_seen = Some now, a_missing = None, a_ready = None, a_last_checked = None, a_egress_verified = None,
     a_last_error = '''', a_duplicate = False, a_distribution = False, a_q_next = None, a_q_claimed_until = None,
     a_q_token = None, a_q_attempts = 0, a_identity_fp = identity_fingerprint sha256 (payload_identity p),
     a_identity_gen = 1, a_created = now, a_updated = now\<rparr>"

text \<open>A changed identity forgets every observation of the old one.\<close>

definition forget_identity :: "asg_row \<Rightarrow> asg_row" where
  "forget_identity a = a\<lparr>a_qualification := ''pending'', a_live := ''pending'', a_exit_ip := None, a_egress_verified := None,
     a_last_checked := None, a_last_error := '''', a_duplicate := False, a_distribution := False, a_q_next := None,
     a_q_claimed_until := None, a_q_token := None, a_dash_id := None, a_dash_eligible := None, a_dash_connections := None,
     a_dash_observed := None, a_dash_source := '''', a_dash_error := ''''\<rparr>"

definition asg_columns ::
  "(string \<Rightarrow> string) \<Rightarrow> time \<Rightarrow> int \<Rightarrow> proxy_payload \<Rightarrow> bool \<Rightarrow> int \<Rightarrow> asg_row \<Rightarrow> asg_row" where
  "asg_columns sha256 now sub p changed g a =
     (let b = a\<lparr>a_sub := sub, a_host := pl_host p, a_port := pl_port p, a_username := pl_username_encrypted p,
              a_password := pl_password_encrypted p, a_country := pl_country p, a_status := pl_status p,
              a_qualification := pl_qualification p, a_provider_eligible := pl_eligible p, a_live := pl_live p,
              a_protocol := pl_protocol p, a_identity_fp := identity_fingerprint sha256 (payload_identity p),
              a_identity_gen := g, a_last_seen := Some now, a_missing := None, a_updated := now\<rparr>
      in if changed then forget_identity b else b)"

definition same_asg :: "asg_row \<Rightarrow> asg_row \<Rightarrow> bool" where
  "same_asg a b \<longleftrightarrow> a_sub a = a_sub b \<and> a_host a = a_host b \<and> a_port a = a_port b \<and> a_country a = a_country b
     \<and> a_status a = a_status b \<and> a_qualification a = a_qualification b \<and> a_provider_eligible a = a_provider_eligible b
     \<and> a_live a = a_live b \<and> a_protocol a = a_protocol b"

definition upsert_assignment ::
  "(string \<Rightarrow> string) \<Rightarrow> (asg_row \<Rightarrow> string \<Rightarrow> string option) \<Rightarrow> time \<Rightarrow> int \<Rightarrow> json_object \<Rightarrow> proxy_payload
     \<Rightarrow> store \<times> sync_state \<Rightarrow> store \<times> sync_state" where
  "upsert_assignment sha256 reveal now sub d p sc =
     (let (s, c) = sc; c1 = c\<lparr>sy_asgs := pl_id p # sy_asgs c\<rparr> in
      case resolve_assignment s (pl_id p) of
        None \<Rightarrow>
          (s\<lparr>asgs := insert_row (new_asg sha256 now sub
               (if json_has d ''exit_ip'' then none_if_empty (json_text (json_get d ''exit_ip'') '''') else None) p) (asgs s)\<rparr>,
           c1\<lparr>sy_added := sy_added c1 + 1\<rparr>)
      | Some a \<Rightarrow>
          (let changed = (identity_of_row reveal a \<noteq> payload_identity p);
               f = asg_columns sha256 now sub p changed (generation a + (if changed then 1 else 0))
           in (s\<lparr>asgs := update_where (\<lambda>b. a_external b = pl_id p) f (asgs s)\<rparr>,
               c1\<lparr>sy_updated := sy_updated c1 + (if changed \<or> \<not> same_asg a (f a) then 1 else 0)\<rparr>)))"

definition sync_proxy ::
  "(string \<Rightarrow> string) \<Rightarrow> (string \<Rightarrow> string) \<Rightarrow> (asg_row \<Rightarrow> string \<Rightarrow> string option) \<Rightarrow> time \<Rightarrow> int \<Rightarrow> json_object
     \<Rightarrow> store \<times> sync_state \<Rightarrow> json_object \<Rightarrow> store \<times> sync_state" where
  "sync_proxy sha256 encrypt reveal now sub entry sc d =
     (case read_proxy encrypt reveal entry (fst sc) d of
        None \<Rightarrow> (fst sc, (snd sc)\<lparr>sy_errors := sy_errors (snd sc) + 1\<rparr>)
      | Some p \<Rightarrow> upsert_assignment sha256 reveal now sub d p sc)"

definition store_subscription ::
  "(string \<Rightarrow> string) \<Rightarrow> (string \<Rightarrow> string) \<Rightarrow> (asg_row \<Rightarrow> string \<Rightarrow> string option) \<Rightarrow> time \<Rightarrow> string \<Rightarrow> json_object
     \<Rightarrow> json_object list \<Rightarrow> sync_state \<Rightarrow> store \<Rightarrow> store \<times> sync_state" where
  "store_subscription sha256 encrypt reveal now external entry ps c s =
     (let (s1, c1, sub) = upsert_subscription now external entry (c\<lparr>sy_subs := external # sy_subs c\<rparr>) s
      in foldl (sync_proxy sha256 encrypt reveal now sub entry) (s1, c1) ps)"

subsection \<open>The transactions of a run\<close>

definition set_run :: "int \<Rightarrow> (run_row \<Rightarrow> run_row) \<Rightarrow> store \<Rightarrow> store" where
  "set_run i f s = update_runs (\<lambda>r. rn_id r = i) f s"

text \<open>One subscription: the lease is renewed before the inventory is touched and checked before the commit.\<close>

definition sync_batch ::
  "(string \<Rightarrow> string) \<Rightarrow> (string \<Rightarrow> string) \<Rightarrow> (asg_row \<Rightarrow> string \<Rightarrow> string option) \<Rightarrow> time \<Rightarrow> int \<Rightarrow> string \<Rightarrow> int
     \<Rightarrow> string \<Rightarrow> json_object \<Rightarrow> json_object list \<Rightarrow> sync_state \<Rightarrow> store \<Rightarrow> (store \<times> sync_state) result" where
  "sync_batch sha256 encrypt reveal now i tok secs external entry ps c s =
     bindR (renew_sync_lease now i tok secs s) (\<lambda>s1.
     (let (s2, c2) = store_subscription sha256 encrypt reveal now external entry ps c s1 in
      bindR (assert_sync_owner now i tok s2) (\<lambda>_. Inr (s2, c2))))"

definition mark_missing_subs :: "time \<Rightarrow> string list \<Rightarrow> store \<Rightarrow> store" where
  "mark_missing_subs now seen s = s\<lparr>subs := update_where (\<lambda>x. s_missing x = None \<and> s_external x \<notin> set seen)
     (\<lambda>x. x\<lparr>s_status := ''missing'', s_missing := Some now, s_updated := now\<rparr>) (subs s)\<rparr>"

definition mark_missing_asgs :: "time \<Rightarrow> string list \<Rightarrow> store \<Rightarrow> store" where
  "mark_missing_asgs now seen s = s\<lparr>asgs := update_where (\<lambda>a. a_missing a = None \<and> a_external a \<notin> set seen)
     (\<lambda>a. a\<lparr>a_status := ''missing'', a_missing := Some now, a_updated := now\<rparr>) (asgs s)\<rparr>"

definition missing_count :: "sync_state \<Rightarrow> store \<Rightarrow> int" where
  "missing_count c s = count_where (\<lambda>x. s_missing x = None \<and> s_external x \<notin> set (sy_subs c)) (subs s)
     + count_where (\<lambda>a. a_missing a = None \<and> a_external a \<notin> set (sy_asgs c)) (asgs s)"

definition awaits_reconciliation :: "store \<Rightarrow> int \<Rightarrow> bool" where
  "awaits_reconciliation s u = exists_where (\<lambda>j. j_sub j = u
     \<and> (j_state j = Sw_provider_applied \<or> j_state j = Sw_reconciliation_required)) (jobs s)"

definition sync_finish ::
  "time \<Rightarrow> int \<Rightarrow> string \<Rightarrow> int \<Rightarrow> int \<Rightarrow> sync_state \<Rightarrow> store \<Rightarrow> (store \<times> int) result" where
  "sync_finish now i tok secs listed c s =
     bindR (renew_sync_lease now i tok secs s) (\<lambda>s1.
     (let missing = missing_count c s1;
          s2 = mark_missing_asgs now (sy_asgs c) (mark_missing_subs now (sy_subs c) s1) in
      bindR (assert_sync_owner now i tok s2) (\<lambda>_.
      bindR (guardR (count_where (owned i tok) (runs s2) = 1) SyncLeaseLost) (\<lambda>_.
      (let s3 = update_runs (owned i tok)
             (\<lambda>r. r\<lparr>rn_finished := Some now, rn_added := sy_added c, rn_updated := sy_updated c, rn_missing := missing,
                    rn_errors := sy_errors c, rn_status := Rn_success, rn_token := None, rn_claimed_until := None,
                    rn_processed := listed\<rparr>) s2
       in Inr (s3\<lparr>subs := update_where (\<lambda>x. awaits_reconciliation s3 (s_id x))
                 (\<lambda>x. x\<lparr>s_next_observe := Some now, s_updated := now\<rparr>) (subs s3)\<rparr>, missing))))))"

subsection \<open>The whole run\<close>

type_synonym 'a ran = "store \<times> (exn + 'a)"

definition sync_one ::
  "(string \<Rightarrow> string) \<Rightarrow> (string \<Rightarrow> string) \<Rightarrow> (asg_row \<Rightarrow> string \<Rightarrow> string option) \<Rightarrow> (string \<Rightarrow> http_response) \<Rightarrow> time \<Rightarrow> int \<Rightarrow> string
     \<Rightarrow> int \<Rightarrow> int \<Rightarrow> json_object \<Rightarrow> sync_state \<Rightarrow> store \<Rightarrow> sync_state ran" where
  "sync_one sha256 encrypt reveal http now i tok secs k entry c s =
     (let processed = set_run i (\<lambda>r. r\<lparr>rn_processed := k\<rparr>) in
      case raise_if_sync_cancelled now i tok secs s of
        (s1, Inl e) \<Rightarrow> (s1, Inl e)
      | (s1, Inr _) \<Rightarrow>
          (case (required_id entry, int_or_none (json_get entry ''id'')) of
             (Some external, Some n) \<Rightarrow>
               if n \<le> 0 then (processed s1, Inr (c\<lparr>sy_errors := sy_errors c + 1\<rparr>))
               else (case list_subscription_proxies sha256 http n of
                  Inl e \<Rightarrow> (s1, Inl e)
                | Inr ps \<Rightarrow>
                    (case sync_batch sha256 encrypt reveal now i tok secs external entry ps c s1 of
                       Inl e \<Rightarrow> (s1, Inl e)
                     | Inr (s2, c2) \<Rightarrow> (processed s2, Inr c2)))
           | _ \<Rightarrow> (processed s1, Inr (c\<lparr>sy_errors := sy_errors c + 1\<rparr>))))"

fun sync_all ::
  "(string \<Rightarrow> string) \<Rightarrow> (string \<Rightarrow> string) \<Rightarrow> (asg_row \<Rightarrow> string \<Rightarrow> string option) \<Rightarrow> (string \<Rightarrow> http_response) \<Rightarrow> (int \<Rightarrow> time) \<Rightarrow> int \<Rightarrow> string
     \<Rightarrow> int \<Rightarrow> int \<Rightarrow> json_object list \<Rightarrow> sync_state \<Rightarrow> store \<Rightarrow> sync_state ran" where
  "sync_all sha256 encrypt reveal http clock i tok secs k [] c s = (s, Inr c)"
| "sync_all sha256 encrypt reveal http clock i tok secs k (entry # entries) c s =
     (case sync_one sha256 encrypt reveal http (clock k) i tok secs k entry c s of
        (s', Inl e) \<Rightarrow> (s', Inl e)
      | (s', Inr c') \<Rightarrow> sync_all sha256 encrypt reveal http clock i tok secs (k + 1) entries c' s')"

text \<open>A failure is recorded in the run while it is still ours; a cancellation and a lost lease have been.\<close>

definition fail_run :: "time \<Rightarrow> int \<Rightarrow> string \<Rightarrow> exn \<Rightarrow> store \<Rightarrow> store" where
  "fail_run now i tok e s =
     (if e = SyncCancelled \<or> e = SyncLeaseLost then s
      else update_runs (owned i tok) (\<lambda>r. r\<lparr>rn_finished := Some now, rn_status := Rn_failed,
             rn_error := (case e of ProxiwareAPIError t \<Rightarrow> t | _ \<Rightarrow> ''provider_error''),
             rn_message := ''Proxiware sync failed'', rn_token := None, rn_claimed_until := None\<rparr>) s)"

definition failing :: "time \<Rightarrow> int \<Rightarrow> string \<Rightarrow> 'a ran \<Rightarrow> 'a ran" where
  "failing now i tok r = (case r of (s, Inl e) \<Rightarrow> (fail_run now i tok e s, Inl e) | (s, Inr a) \<Rightarrow> (s, Inr a))"

record sync_result =
  res_run :: int
  res_added :: int
  res_updated :: int
  res_missing :: int
  res_errors :: int

definition sync_run ::
  "(string \<Rightarrow> string) \<Rightarrow> (string \<Rightarrow> string) \<Rightarrow> (asg_row \<Rightarrow> string \<Rightarrow> string option) \<Rightarrow> (string \<Rightarrow> http_response) \<Rightarrow> (int \<Rightarrow> time) \<Rightarrow> int \<Rightarrow> string
     \<Rightarrow> int \<Rightarrow> store \<Rightarrow> sync_result ran" where
  "sync_run sha256 encrypt reveal http clock i tok secs s =
     (case list_subscriptions http ''isp'' of
        Inl e \<Rightarrow> (s, Inl e)
      | Inr entries \<Rightarrow>
          (case raise_if_sync_cancelled (clock 0) i tok secs s of
             (s1, Inl e) \<Rightarrow> (s1, Inl e)
           | (s1, Inr _) \<Rightarrow>
               (let n = int (length entries); s2 = set_run i (\<lambda>r. r\<lparr>rn_total := n\<rparr>) s1;
                    c = \<lparr>sy_added = 0, sy_updated = 0, sy_errors = 0, sy_subs = [], sy_asgs = []\<rparr> in
                case sync_all sha256 encrypt reveal http clock i tok secs 1 entries c s2 of
                  (s3, Inl e) \<Rightarrow> (s3, Inl e)
                | (s3, Inr c3) \<Rightarrow>
                    (case raise_if_sync_cancelled (clock (n + 1)) i tok secs s3 of
                       (s4, Inl e) \<Rightarrow> (s4, Inl e)
                     | (s4, Inr _) \<Rightarrow>
                         (case sync_finish (clock (n + 1)) i tok secs n c3 s4 of
                            Inl e \<Rightarrow> (s4, Inl e)
                          | Inr (s5, missing) \<Rightarrow>
                              (case reconcile_provider_applied_swaps reveal (clock (n + 1)) (clock (n + 1)) 20 s5 of
                                 (s6, Inl e) \<Rightarrow> (s6, Inl e)
                               | (s6, Inr _) \<Rightarrow>
                                   (s6, Inr \<lparr>res_run = i, res_added = sy_added c3, res_updated = sy_updated c3,
                                            res_missing = missing, res_errors = sy_errors c3\<rparr>)))))))"

definition sync_proxiware_inventory ::
  "(string \<Rightarrow> string) \<Rightarrow> (string \<Rightarrow> string) \<Rightarrow> (asg_row \<Rightarrow> string \<Rightarrow> string option) \<Rightarrow> (string \<Rightarrow> http_response) \<Rightarrow> (int \<Rightarrow> time)
     \<Rightarrow> time \<Rightarrow> string \<Rightarrow> store \<Rightarrow> sync_result ran" where
  "sync_proxiware_inventory sha256 encrypt reveal http clock failed_at tok s =
     (case claim_sync_run (clock 0) 1800 True tok s of
        (s0, None) \<Rightarrow> (s0, Inl SyncAlreadyRunning)
      | (s0, Some i) \<Rightarrow>
          failing failed_at i tok (sync_run sha256 encrypt reveal http clock i tok 1800 s0))"

subsection \<open>What an inventory run leaves alone\<close>

definition outside_inventory :: "store \<Rightarrow> store \<Rightarrow> bool" where
  "outside_inventory s s' \<longleftrightarrow> jobs s' = jobs s \<and> mappings s' = mappings s \<and> proxies s' = proxies s \<and> settings s' = settings s"

lemma outside_refl [simp]: "outside_inventory s s"
  by (simp add: outside_inventory_def)

lemma outside_trans: "outside_inventory s s1 \<Longrightarrow> outside_inventory s1 s2 \<Longrightarrow> outside_inventory s s2"
  by (simp add: outside_inventory_def)

lemma outside_update [simp]:
  "outside_inventory s (update_runs P f s') \<longleftrightarrow> outside_inventory s s'"
  "outside_inventory s (insert_run mk s') \<longleftrightarrow> outside_inventory s s'"
  "outside_inventory s (s'\<lparr>subs := x\<rparr>) \<longleftrightarrow> outside_inventory s s'"
  "outside_inventory s (s'\<lparr>asgs := y\<rparr>) \<longleftrightarrow> outside_inventory s s'"
  "outside_inventory s (mark_missing_subs t l s') \<longleftrightarrow> outside_inventory s s'"
  "outside_inventory s (mark_missing_asgs t l s') \<longleftrightarrow> outside_inventory s s'"
  by (simp_all add: outside_inventory_def mark_missing_subs_def mark_missing_asgs_def)

lemma renew_outside: "renew_sync_lease now i tok secs s = Inr s' \<Longrightarrow>
   outside_inventory s s' \<and> subs s' = subs s \<and> asgs s' = asgs s"
  by (auto simp: renew_sync_lease_def outside_inventory_def split: if_splits)

lemma upsert_assignment_frame:
  "outside_inventory (fst sc) (fst (upsert_assignment sha256 reveal now sub d p sc))"
  "subs (fst (upsert_assignment sha256 reveal now sub d p sc)) = subs (fst sc)"
  "runs (fst (upsert_assignment sha256 reveal now sub d p sc)) = runs (fst sc)"
  by (simp_all add: upsert_assignment_def Let_def split: prod.split option.split)

lemma sync_proxy_frame:
  "outside_inventory (fst sc) (fst (sync_proxy sha256 encrypt reveal now sub entry sc d))"
  "subs (fst (sync_proxy sha256 encrypt reveal now sub entry sc d)) = subs (fst sc)"
  "runs (fst (sync_proxy sha256 encrypt reveal now sub entry sc d)) = runs (fst sc)"
  by (simp_all add: sync_proxy_def upsert_assignment_frame split: option.split)

lemma foldl_sync_frame:
  "outside_inventory (fst sc) (fst (foldl (sync_proxy sha256 encrypt reveal now sub entry) sc ps))
   \<and> subs (fst (foldl (sync_proxy sha256 encrypt reveal now sub entry) sc ps)) = subs (fst sc)
   \<and> runs (fst (foldl (sync_proxy sha256 encrypt reveal now sub entry) sc ps)) = runs (fst sc)"
proof (induction ps arbitrary: sc)
  case (Cons d ps)
  show ?case
    using Cons [of "sync_proxy sha256 encrypt reveal now sub entry sc d"]
    by (auto simp: sync_proxy_frame intro: outside_trans [OF sync_proxy_frame(1)])
qed simp

lemma upsert_subscription_frame:
  assumes "upsert_subscription now e d c s = (s', c', u)"
  shows "outside_inventory s s' \<and> runs s' = runs s \<and> asgs s' = asgs s"
  using assms by (auto simp: upsert_subscription_def split: option.splits)

lemma store_subscription_frame:
  assumes "store_subscription sha256 encrypt reveal now e entry ps c s = (s', c')"
  shows "outside_inventory s s' \<and> runs s' = runs s"
proof -
  obtain s1 c1 u where u: "upsert_subscription now e entry (c\<lparr>sy_subs := e # sy_subs c\<rparr>) s = (s1, c1, u)"
    by (metis prod_cases3)
  then have "s' = fst (foldl (sync_proxy sha256 encrypt reveal now u entry) (s1, c1) ps)"
    using assms by (simp add: store_subscription_def)
  then show ?thesis
    using foldl_sync_frame [of "(s1, c1)" sha256 encrypt reveal now u entry ps] upsert_subscription_frame [OF u]
    by (auto intro: outside_trans)
qed

subsection \<open>One writer\<close>

lemma renew_owned:
  assumes "renew_sync_lease now i tok secs s = Inr s'"
  shows "\<exists>r \<in> set (rows (runs s)). owned_at now i tok r"
proof -
  have "count_where (owned_at now i tok) (runs s) = 1" using assms by (simp add: renew_sync_lease_def split: if_splits)
  then have "filter (owned_at now i tok) (rows (runs s)) \<noteq> []" by (auto simp: count_where_def)
  then show ?thesis by (auto simp: filter_empty_conv)
qed

text \<open>C25. The inventory has one writer: a subscription is written, and rows are marked as missing, only while the
  worker's own run holds a lease that is still good, and then no other run is running. A worker whose lease has
  expired or was taken over, for instance after a long pause, changes nothing.\<close>

theorem inventory_has_one_writer:
  assumes "sync_batch sha256 encrypt reveal now i tok secs external entry ps c s = Inr p
      \<or> sync_finish now i tok secs listed c s = Inr p'" "runs_ok s"
  shows "\<exists>r \<in> set (rows (runs s)). owned_at now i tok r \<and> (\<forall>q \<in> set (rows (runs s)). is_running q \<longrightarrow> q = r)"
proof -
  obtain s1 where "renew_sync_lease now i tok secs s = Inr s1"
    using assms(1) by (auto simp: sync_batch_def sync_finish_def bindR_Inr_iff)
  then obtain r where r: "r \<in> set (rows (runs s))" "owned_at now i tok r" using renew_owned by blast
  then have "is_running r" by (simp add: owned_at_def owned_def is_running_def)
  then show ?thesis using r one_running [OF assms(2) _ r(1)] by blast
qed

subsection \<open>A changed identity\<close>

lemma generation_grows:
  "generation (asg_columns sha256 now sub p True (generation a + 1) b) > generation a"
  by (simp add: asg_columns_def Let_def forget_identity_def generation_def)

lemma asg_columns_simps [simp]:
  "a_id (asg_columns sha256 now sub p ch g a) = a_id a" "a_external (asg_columns sha256 now sub p ch g a) = a_external a"
  "a_missing (asg_columns sha256 now sub p ch g a) = None"
  by (simp_all add: asg_columns_def Let_def forget_identity_def)

text \<open>C26. A probe that was started for one identity of an assignment writes nothing once the inventory has given the
  assignment another host, port or credential: the qualification ends as a stale claim, whatever the probe and
  the eligibility adapter answered, and the row keeps the state in which the sync left it, without evidence, out of
  distribution and due for a new qualification.\<close>

theorem new_identity_stops_probe:
  assumes "find_asg s0 i = Some a" "wf_table a_id (asgs s0)" "resolve_assignment s0 (pl_id p) = Some a"
    and started: "a_id (st_row q) = i" "generation (st_row q) \<le> generation a"
    and changed: "identity_of_row reveal a \<noteq> payload_identity p"
    and s1: "s1 = fst (upsert_assignment sha256 reveal now sub d p (s0, c))"
  shows "process_one wall i tok (qualify_finish sha256 reveal wall q answer v s1) s1 = (s1, Oc_stale_claim)
     \<and> (\<exists>b. find_asg s1 i = Some b \<and> \<not> a_distribution b \<and> a_exit_ip b = None \<and> a_dash_id b = None
          \<and> a_qualification b = ''pending'' \<and> a_q_next b = None \<and> a_q_claimed_until b = None)"
proof -
  let ?f = "asg_columns sha256 now sub p True (generation a + 1)"
  have i: "a_id a = i" using assms(1) unfolding find_asg_def by (auto dest: select_one_SomeD)
  have mem: "a \<in> set (rows (asgs s0))" "a_external a = pl_id p" using resolve_assignmentD [OF assms(3)] by auto
  have s1': "asgs s1 = update_where (\<lambda>b. a_external b = pl_id p) ?f (asgs s0)"
    using assms(3) changed by (simp add: s1 upsert_assignment_def)
  have wf1: "wf_table a_id (asgs s1)" unfolding s1' by (rule wf_table_update [OF assms(2)]) simp
  have fa: "?f a \<in> set (rows (asgs s1))"
    unfolding s1' rows_update_where set_map by (rule image_eqI [OF _ mem(1)]) (simp add: mem(2))
  have found: "find_asg s1 i = Some (?f a)"
    using wf_table_find [OF wf1 fa] by (simp add: find_asg_def i)
  have "\<not> identity_is_current reveal s1 i (generation (st_row q)) (identity_of_row reveal (st_row q))"
  proof
    assume "identity_is_current reveal s1 i (generation (st_row q)) (identity_of_row reveal (st_row q))"
    then obtain b where b: "b \<in> set (rows (asgs s1))" "a_id b = i" "generation b = generation (st_row q)"
      by (auto dest: identity_is_currentD)
    have "b = ?f a" by (rule wf_table_unique [OF wf1 b(1) fa]) (simp add: b(2) i)
    then show False using b(3) started(2) generation_grows [of a sha256 now sub p a] by simp
  qed
  then have "qualify_finish sha256 reveal wall q answer v s1 = Inl (LookupError ''Provider assignment identity changed'')"
    by (simp add: qualify_finish_def Let_def started(1) guardR_def)
  then show ?thesis
    using found by (simp add: process_one_def asg_columns_def Let_def forget_identity_def)
qed

subsection \<open>How a run ends\<close>

lemma text_proxy_errors: "text_proxy sha256 i t = Inl e \<Longrightarrow> e = ProxiwareAPIError ''payload_error''"
  unfolding text_proxy_def payload_error_def by (auto split: list.splits option.splits if_splits)

lemma items_errors: "normalized_items sha256 i xs = Inl e \<Longrightarrow> e = ProxiwareAPIError ''payload_error''"
proof (induction xs arbitrary: e)
  case (Cons x xs)
  then show ?case
    by (cases x; cases "normalized_items sha256 i xs")
      (auto simp: payload_error_def dest: text_proxy_errors split: sum.splits elim: bindR.elims)
qed simp

lemma api_get_errors: "api_get http p = Inl e \<Longrightarrow> \<exists>t. e = ProxiwareAPIError t"
  by (auto simp: api_get_def payload_error_def split: http_response.splits if_splits option.splits)

lemma client_errors:
  "list_subscriptions http n = Inl e \<Longrightarrow> e \<noteq> SyncCancelled \<and> e \<noteq> SyncLeaseLost"
  "list_subscription_proxies sha256 http k = Inl e \<Longrightarrow> e \<noteq> SyncCancelled \<and> e \<noteq> SyncLeaseLost"
proof -
  assume "list_subscriptions http n = Inl e"
  then show "e \<noteq> SyncCancelled \<and> e \<noteq> SyncLeaseLost"
    by (cases "api_get http (''/static/networks/'' @ n @ ''/subscriptions'')")
      (auto simp: list_subscriptions_def list_payload_def payload_error_def guardR_def dest: api_get_errors
        split: if_splits option.splits)
next
  assume "list_subscription_proxies sha256 http k = Inl e"
  then show "e \<noteq> SyncCancelled \<and> e \<noteq> SyncLeaseLost"
    by (cases "api_get http (''/static/subscriptions/'' @ show_int k @ ''/proxies'')")
      (auto simp: list_subscription_proxies_def payload_error_def guardR_def dest: api_get_errors items_errors
        split: if_splits option.splits)
qed

lemma renew_error: "renew_sync_lease now i tok secs s = Inl e \<Longrightarrow> e = SyncLeaseLost"
  by (simp add: renew_sync_lease_def split: if_splits)

lemma assert_error: "assert_sync_owner now i tok s = Inl e \<Longrightarrow> e = SyncLeaseLost"
  by (auto simp: assert_sync_owner_def guardR_def split: option.splits if_splits)

lemma bindR_InlE: "bindR m f = Inl e \<Longrightarrow> (m = Inl e \<Longrightarrow> P) \<Longrightarrow> (\<And>a. m = Inr a \<Longrightarrow> f a = Inl e \<Longrightarrow> P) \<Longrightarrow> P"
  by (cases m) auto

lemma batch_error: "sync_batch sha256 encrypt reveal now i tok secs x entry ps c s = Inl e \<Longrightarrow> e = SyncLeaseLost"
  unfolding sync_batch_def Let_def
  by (auto elim!: bindR_InlE split: prod.splits dest: renew_error assert_error)

lemma finish_error: "sync_finish now i tok secs n c s = Inl e \<Longrightarrow> e = SyncLeaseLost"
  unfolding sync_finish_def Let_def
  by (auto elim!: bindR_InlE dest: renew_error assert_error simp: guardR_def split: if_splits)

definition closed_run :: "int \<Rightarrow> string \<Rightarrow> store \<Rightarrow> bool" where
  "closed_run i tok s \<longleftrightarrow> \<not> exists_where (owned i tok) (runs s)"

lemma closing_update:
  "(\<And>r. rn_status (f r) \<noteq> Rn_running) \<Longrightarrow> closed_run i tok (update_runs (owned i tok) f s)"
  by (auto simp: closed_run_def exists_where_iff owned_def)

lemma cancelled_closed:
  "raise_if_sync_cancelled now i tok secs s = (s', Inl e) \<Longrightarrow> (e = SyncCancelled \<and> closed_run i tok s') \<or> e = SyncLeaseLost"
  by (auto simp: raise_if_sync_cancelled_def closing_update split: sum.splits option.splits if_splits dest: renew_error)

definition ended :: "int \<Rightarrow> string \<Rightarrow> 'a ran \<Rightarrow> bool" where
  "ended i tok r \<longleftrightarrow> (case r of (s, Inl e) \<Rightarrow> e = SyncCancelled \<longrightarrow> closed_run i tok s | _ \<Rightarrow> True)"

lemma raise_if_ended: "raise_if_sync_cancelled now i tok secs s = (s', b) \<Longrightarrow> ended i tok (s', b)"
  by (cases b) (auto simp: ended_def dest: cancelled_closed)

lemma ended_one: "ended i tok (sync_one sha256 encrypt reveal http now i tok secs k entry c s)"
  unfolding ended_def sync_one_def Let_def
  by (auto split: prod.splits sum.splits option.splits if_splits
      dest: cancelled_closed client_errors(2) batch_error)

lemma ended_all: "ended i tok (sync_all sha256 encrypt reveal http clock i tok secs k entries c s)"
proof (induction entries arbitrary: k c s)
  case (Cons entry entries)
  obtain s1 r where r: "sync_one sha256 encrypt reveal http (clock k) i tok secs k entry c s = (s1, r)"
    by (cases "sync_one sha256 encrypt reveal http (clock k) i tok secs k entry c s")
  show ?case
    using ended_one [of i tok sha256 encrypt reveal http "clock k" secs k entry c s] Cons
    by (cases r) (auto simp: r ended_def)
qed (simp add: ended_def)

lemma sync_batchD:
  "sync_batch sha256 encrypt reveal now i tok secs x entry ps c s = Inr (s2, c2) \<Longrightarrow>
     \<exists>s1. renew_sync_lease now i tok secs s = Inr s1
       \<and> store_subscription sha256 encrypt reveal now x entry ps c s1 = (s2, c2)"
  by (auto simp: sync_batch_def bindR_Inr_iff case_prod_beta Let_def)

lemma sync_one_outside: "outside_inventory s (fst (sync_one sha256 encrypt reveal http now i tok secs k entry c s))"
proof -
  have r: "outside_inventory s (fst (raise_if_sync_cancelled now i tok secs s))" for s
    by (auto simp: raise_if_sync_cancelled_def split: sum.split option.split dest: renew_outside)
  obtain s1 b where b: "raise_if_sync_cancelled now i tok secs s = (s1, b)" by (cases "raise_if_sync_cancelled now i tok secs s")
  then have s1: "outside_inventory s s1" using r [of s] by simp
  have "outside_inventory s s2" if hit: "sync_batch sha256 encrypt reveal now i tok secs x entry ps c s1 = Inr (s2, c2)" for x ps s2 c2
  proof -
    obtain s3 where n: "renew_sync_lease now i tok secs s1 = Inr s3" 
      and st: "store_subscription sha256 encrypt reveal now x entry ps c s3 = (s2, c2)"
      using sync_batchD [OF hit] by blast
    show ?thesis
      using s1 renew_outside [OF n] store_subscription_frame [OF st] outside_trans by blast
  qed
  then show ?thesis
    using s1 by (auto simp: sync_one_def b Let_def set_run_def split: sum.split option.split prod.split)
qed

lemma sync_all_outside: "outside_inventory s (fst (sync_all sha256 encrypt reveal http clock i tok secs k entries c s))"
proof (induction entries arbitrary: k c s)
  case (Cons entry entries)
  obtain s1 r where r: "sync_one sha256 encrypt reveal http (clock k) i tok secs k entry c s = (s1, r)"
    by (cases "sync_one sha256 encrypt reveal http (clock k) i tok secs k entry c s")
  then have "outside_inventory s s1"
    using sync_one_outside [of s sha256 encrypt reveal http "clock k" i tok secs k entry c] by simp
  then show ?case using Cons by (cases r) (auto simp: r intro: outside_trans)
qed simp

lemma raise_if_outside: "outside_inventory s (fst (raise_if_sync_cancelled now i tok secs s))"
  by (auto simp: raise_if_sync_cancelled_def split: sum.split option.split dest: renew_outside)

lemma finish_outside: "sync_finish now i tok secs n c s = Inr (s', m) \<Longrightarrow> outside_inventory s s'"
  unfolding sync_finish_def Let_def by (auto simp: bindR_Inr_iff dest: renew_outside)

lemma closed_run_subs [simp]: "closed_run i tok (s\<lparr>subs := x\<rparr>) = closed_run i tok s"
  by (simp add: closed_run_def)

lemma finish_closed:
  assumes "sync_finish now i tok secs n c s = Inr (s', m)"
  shows "closed_run i tok s'"
  using assms unfolding sync_finish_def Let_def
  by (elim bindR_InrE) (simp only: sum.inject prod.inject, elim conjE, hypsubst, simp add: closing_update)

text \<open>The reconciliation writes no sync run.\<close>

interpretation same_runs: reconcile_relation "\<lambda>s s'. runs s' = runs s"
proof
  show "runs (fst (reconcile_no_provider_change now j s)) = runs s" for s now j
    by (simp add: reconcile_no_provider_change_def update_sub_def update_job_def)
  show "runs (fst (record_inferred_replacement wall now j s)) = runs s" for s wall now j
    by (simp add: record_inferred_replacement_def split: option.split)
  show "runs s' = runs s" if "mark_reconciliation_required now i e tok s = Inr s'" for s now i e tok s'
    using that unfolding mark_reconciliation_required_def
    by (auto simp: bindR_Inr_iff pause_auto_swap_def set_setting_def update_job_def Let_def split: option.splits)
  show "runs s' = runs s" if "mark_swap_success reveal now i a b d tok s = Inr s'" for s reveal now i a b d tok s'
    using that
  proof (rule mark_swap_successD)
    fix j old new m e
    assume "finish_swap now m j (strip a) e old new s = Inr s'"
    then show "runs s' = runs s"
      by (auto simp: finish_swap_def Let_def update_job_def update_sub_def update_asg_def split: if_splits)
  qed
qed simp_all

lemma sync_run_closed:
  assumes "sync_run sha256 encrypt reveal http clock i tok secs s = (s', r)" "swaps_ok s"
    and r: "r = Inl SyncCancelled \<or> \<not> isl r"
  shows "closed_run i tok s'"
proof -
  obtain entries where l: "list_subscriptions http ''isp'' = Inr entries"
    using assms(1) r client_errors(1) by (cases "list_subscriptions http ''isp''") (auto simp: sync_run_def)
  obtain s1 b1 where b1: "raise_if_sync_cancelled (clock 0) i tok secs s = (s1, b1)"
    by (cases "raise_if_sync_cancelled (clock 0) i tok secs s")
  define s2 where "s2 = set_run i (\<lambda>r. r\<lparr>rn_total := int (length entries)\<rparr>) s1"
  define c0 where "c0 = \<lparr>sy_added = 0, sy_updated = 0, sy_errors = 0, sy_subs = [], sy_asgs = []\<rparr>"
  obtain s3 b3 where b3: "sync_all sha256 encrypt reveal http clock i tok secs 1 entries c0 s2 = (s3, b3)"
    by (cases "sync_all sha256 encrypt reveal http clock i tok secs 1 entries c0 s2")
  obtain s4 b4 where b4: "raise_if_sync_cancelled (clock (int (length entries) + 1)) i tok secs s3 = (s4, b4)"
    by (cases "raise_if_sync_cancelled (clock (int (length entries) + 1)) i tok secs s3")
  have run: "sync_run sha256 encrypt reveal http clock i tok secs s =
    (case b1 of Inl e \<Rightarrow> (s1, Inl e) | Inr _ \<Rightarrow>
      (case b3 of Inl e \<Rightarrow> (s3, Inl e) | Inr c3 \<Rightarrow>
        (case b4 of Inl e \<Rightarrow> (s4, Inl e) | Inr _ \<Rightarrow>
          (case sync_finish (clock (int (length entries) + 1)) i tok secs (int (length entries)) c3 s4 of
             Inl e \<Rightarrow> (s4, Inl e)
           | Inr (s5, missing) \<Rightarrow>
               (case reconcile_provider_applied_swaps reveal (clock (int (length entries) + 1))
                       (clock (int (length entries) + 1)) 20 s5 of
                  (s6, Inl e) \<Rightarrow> (s6, Inl e)
                | (s6, Inr _) \<Rightarrow> (s6, Inr \<lparr>res_run = i, res_added = sy_added c3, res_updated = sy_updated c3,
                                            res_missing = missing, res_errors = sy_errors c3\<rparr>))))))"
    by (simp add: sync_run_def l b1 Let_def s2_def [symmetric] c0_def [symmetric] b3 b4 split: sum.split)
  have all: "ended i tok (s3, b3)" using ended_all [of i tok sha256 encrypt reveal http clock secs 1 entries c0 s2] by (simp add: b3)
  have out4: "outside_inventory s s4"
  proof (rule outside_trans [OF outside_trans])
    show "outside_inventory s s2"
      using raise_if_outside [of s "clock 0" i tok secs] by (simp add: b1 s2_def set_run_def)
    show "outside_inventory s2 s3"
      using sync_all_outside [of s2 sha256 encrypt reveal http clock i tok secs 1 entries c0] by (simp add: b3)
    show "outside_inventory s3 s4"
      using raise_if_outside [of s3 "clock (int (length entries) + 1)" i tok secs] by (simp add: b4)
  qed
  show "closed_run i tok s'"
  proof (cases "sync_finish (clock (int (length entries) + 1)) i tok secs (int (length entries)) (projr b3) s4")
    case (Inl e)
    then show ?thesis
      using assms(1) r run all raise_if_ended [OF b1] raise_if_ended [OF b4] finish_error [OF Inl]
      by (auto simp: ended_def split: sum.splits)
  next
    case (Inr p)
    obtain s5 missing where p: "p = (s5, missing)" by (cases p)
    have "swaps_ok s5"
      by (rule swaps_ok_cong [OF _ _ assms(2)]) (use out4 finish_outside [OF Inr [unfolded p]] in \<open>simp_all add: outside_inventory_def\<close>)
    then obtain s6 cs where rec: "reconcile_provider_applied_swaps reveal (clock (int (length entries) + 1))
        (clock (int (length entries) + 1)) 20 s5 = (s6, Inr cs)" "runs s6 = runs s5"
      using reconcile_total [of s5] same_runs.reconcile_rel [of s5] by (metis fst_conv)
    have "closed_run i tok s6" using finish_closed [OF Inr [unfolded p]] by (simp add: closed_run_def rec(2))
    then show ?thesis
      using assms(1) r run all raise_if_ended [OF b1] raise_if_ended [OF b4] Inr rec(1)
      by (auto simp: ended_def p split: sum.splits)
  qed
qed


subsection \<open>A sync is another part of the program for the swaps\<close>

definition jobs_referenced :: "store \<Rightarrow> bool" where
  "jobs_referenced s \<longleftrightarrow> (\<forall>j \<in> set (rows (jobs s)). j_sub j \<le> seq (subs s))"

lemma sub_columns_simps [simp]:
  "s_id (sub_columns now d x) = s_id x" "s_quota (sub_columns now d x) = s_quota x" "s_used (sub_columns now d x) = s_used x"
  by (simp_all add: sub_columns_def)

lemma quota_of_update:
  assumes "subs s' = update_where P f (subs s)" "\<And>x. s_id (f x) = s_id x" "\<And>x. s_quota (f x) = s_quota x" "\<And>x. s_used (f x) = s_used x"
  shows "quota_of s' u = quota_of s u"
proof -
  have "map_option (\<lambda>x. (s_quota x, s_used x)) (List.find (\<lambda>x. s_id x = u) (map (\<lambda>x. if P x then f x else x) xs))
      = map_option (\<lambda>x. (s_quota x, s_used x)) (List.find (\<lambda>x. s_id x = u) xs)" for xs
    by (induction xs) (auto simp: assms(2-4))
  then show ?thesis by (simp add: quota_of_def find_sub_def select_one_def assms(1))
qed

lemma upsert_quotas:
  assumes "upsert_subscription now e d c s = (s', c', u)" "jobs_referenced s" "wf_table s_id (subs s)"
  shows "quotas_kept s s'"
proof (cases "find_sub_external s e")
  case (Some x)
  then have "subs s' = update_where (\<lambda>y. s_external y = e) (sub_columns now d) (subs s)"
    using assms(1) by (auto simp: upsert_subscription_def)
  then show ?thesis using quota_of_update [of s' "\<lambda>y. s_external y = e" "sub_columns now d" s]
    by (simp add: quotas_kept_def)
next
  case None
  let ?x = "sub_columns now d (new_sub now e (seq (subs s) + 1))"
  have s': "rows (subs s') = rows (subs s) @ [?x]" using assms(1) None by (auto simp: upsert_subscription_def)
  have app: "List.find P (xs @ ys) = (case List.find P xs of None \<Rightarrow> List.find P ys | Some x \<Rightarrow> Some x)" for P :: "sub_row \<Rightarrow> bool" and xs ys
    by (induction xs) auto
  have new: "s_id ?x = seq (subs s) + 1" "s_used ?x = 0" by (simp_all add: new_sub_def)
  show ?thesis
    unfolding quotas_kept_def
  proof
    fix u
    show "quota_of s' u = quota_of s u \<or> (quota_of s u = None \<and> (\<forall>j \<in> set (rows (jobs s)). j_sub j \<noteq> u)
        \<and> (\<forall>q n. quota_of s' u = Some (q, n) \<longrightarrow> n = 0))"
    proof (cases "quota_of s u")
      case (Some p)
      then show ?thesis by (auto simp: quota_of_def find_sub_def select_one_def s' app)
    next
      case None
      then have q: "quota_of s' u = (if u = seq (subs s) + 1 then Some (s_quota ?x, 0) else None)"
        using new by (simp add: quota_of_def find_sub_def select_one_def s' app split: option.splits)
      have "\<forall>j \<in> set (rows (jobs s)). j_sub j \<noteq> seq (subs s) + 1"
        using assms(2) by (auto simp: jobs_referenced_def)
      then show ?thesis using None q by auto
    qed
  qed
qed

lemma sync_batch_is_other_step:
  assumes "sync_batch sha256 encrypt reveal now i tok secs x entry ps c s = Inr (s', c')"
    and "jobs_referenced s" "wf_table s_id (subs s)"
  shows "swap_step rv None s s'"
proof -
  obtain s1 where r: "renew_sync_lease now i tok secs s = Inr s1"
    and st: "store_subscription sha256 encrypt reveal now x entry ps c s1 = (s', c')"
    using sync_batchD [OF assms(1)] by blast
  obtain s2 c2 u where up: "upsert_subscription now x entry (c\<lparr>sy_subs := x # sy_subs c\<rparr>) s1 = (s2, c2, u)"
    by (metis prod_cases3)
  have "subs s' = subs s2"
    using st foldl_sync_frame [of "(s2, c2)" sha256 encrypt reveal now u entry ps] by (simp add: store_subscription_def up)
  moreover have o1: "outside_inventory s s1" "subs s1 = subs s" using renew_outside [OF r] by auto
  then have "quotas_kept s1 s2" using upsert_quotas [OF up] assms(2,3) by (simp add: jobs_referenced_def outside_inventory_def)
  ultimately have "quotas_kept s s'" using o1 by (simp add: quotas_kept_def quota_of_def find_sub_def outside_inventory_def)
  moreover have "outside_inventory s s'" using store_subscription_frame [OF st] o1(1) outside_trans by blast
  ultimately show ?thesis by (auto intro: swap_step.other simp: outside_inventory_def)
qed

subsection \<open>Concrete runs\<close>

definition nothing_seen :: sync_state where
  "nothing_seen = \<lparr>sy_added = 0, sy_updated = 0, sy_errors = 0, sy_subs = [], sy_asgs = []\<rparr>"

definition one_run :: store where
  "one_run = empty_store\<lparr>runs := \<lparr>rows = [new_run 0 Rn_running (Some ''w'') (Some 10) 1], seq = 1\<rparr>\<rparr>"

theorem inventory_has_one_writer_witness:
  "(\<exists>p. sync_finish 5 1 ''w'' 60 0 nothing_seen one_run = Inr p)
   \<and> (\<exists>r \<in> set (rows (runs one_run)). owned_at 5 1 ''w'' r \<and> (\<forall>q \<in> set (rows (runs one_run)). is_running q \<longrightarrow> q = r))"
proof -
  have own: "owned_at 5 1 ''w'' (new_run 0 Rn_running (Some ''w'') (Some 10) 1)"
    by (simp add: owned_at_def owned_def new_run_def elapsed_def)
  have fin: "\<exists>p. sync_finish 5 1 ''w'' 60 0 nothing_seen one_run = Inr p"
    by (simp add: sync_finish_def renew_sync_lease_def one_run_def count_where_def own Let_def assert_sync_owner_def
        update_runs_def update_where_def mark_missing_asgs_def mark_missing_subs_def select_one_def bindR_guardR)
      (simp add: owned_at_def owned_def new_run_def elapsed_def lease_length_def seconds_def)
  then obtain p where p: "sync_finish 5 1 ''w'' 60 0 nothing_seen one_run = Inr p" by blast
  have "runs_ok one_run" by (auto simp: runs_ok_def one_run_def wf_table_def new_run_def)
  with p show ?thesis
    using inventory_has_one_writer [OF disjI2, of 5 1 "''w''" 60 0 nothing_seen one_run p] by blast
qed


definition moved_payload :: proxy_payload where
  "moved_payload = \<lparr>pl_id = a_external (sample_asg 1 ''8.8.8.8''), pl_host = ''new'', pl_port = 1080, pl_country = '''',
     pl_status = ''active'', pl_qualification = ''allow'', pl_eligible = True, pl_live = ''live'', pl_protocol = ''socks5'',
     pl_username = '''', pl_password = '''', pl_username_encrypted = '''', pl_password_encrypted = ''''\<rparr>"

theorem new_identity_stops_probe_witness:
  "\<exists>b. find_asg (fst (upsert_assignment (\<lambda>t. t) (\<lambda>a c. Some '''') 5 1 [] moved_payload (one_asg, nothing_seen))) 1 = Some b
     \<and> \<not> a_distribution b \<and> a_exit_ip b = None"
proof -
  let ?a = "sample_asg 1 ''8.8.8.8''"
  have f: "find_asg one_asg 1 = Some ?a" "resolve_assignment one_asg (pl_id moved_payload) = Some ?a"
    by (simp_all add: find_asg_def select_one_def one_asg_def sample_asg_def resolve_assignment_def moved_payload_def)
  have wf: "wf_table a_id (asgs one_asg)" by (simp add: wf_table_def one_asg_def sample_asg_def)
  have st: "a_id (st_row one_started) = 1" "generation (st_row one_started) \<le> generation ?a"
    by (simp_all add: one_started_def sample_asg_def)
  have ch: "identity_of_row (\<lambda>a c. Some '''') ?a \<noteq> payload_identity moved_payload" by code_simp
  show ?thesis
    using new_identity_stops_probe [OF f(1) wf f(2) st ch, where ?sha256.0 = "\<lambda>t. t" and now = 5 and sub = 1
        and d = "[]" and c = nothing_seen] by blast
qed

end
