(* ===== verification/Api_Keys.thy ===== *)
theory Api_Keys
  imports Py_Text Systems
begin

text \<open>
  \<open>app/services/api_keys.py\<close>: the keys of the distribution API and the one-time reveals of a new token. The
  two tables are the state; a key row keeps the digest of its token only. \<open>sha256\<close>, the encryption of a
  reveal and the random material (\<open>draw k\<close> is the \<open>k\<close>-th draw of \<open>secrets.token_urlsafe\<close>) are parameters. A
  creator is an existing user, so the foreign key never fails.
\<close>

record key_row =
  k_id :: int
  k_public :: string
  k_name :: string
  k_prefix :: string
  k_hash :: string
  k_source :: string
  k_creator :: "int option"
  k_created :: time
  k_last_used :: "time option"
  k_revoked :: "time option"

record reveal_row =
  v_id :: int
  v_reveal :: string
  v_token :: string
  v_message :: string
  v_created :: time
  v_expires :: time
  v_consumed :: "time option"

record key_store =
  keys :: "key_row table"
  reveals :: "reveal_row table"

subsection \<open>Names and tokens\<close>

text \<open>\<open>text.split()\<close>: the maximal runs of other characters than white space.\<close>

function words :: "string \<Rightarrow> string list" where
  "words t = (let u = dropWhile is_space t in
     if u = '''' then [] else takeWhile (\<lambda>c. \<not> is_space c) u # words (dropWhile (\<lambda>c. \<not> is_space c) u))"
  by auto

termination
proof (relation "measure length")
  fix t u :: string
  assume u: "u = dropWhile is_space t" "u \<noteq> ''''"
  then have "\<not> is_space (hd u)" using hd_dropWhile by metis
  then have "length (dropWhile (\<lambda>c. \<not> is_space c) u) < length u"
    using u(2) by (cases u) (auto intro: le_imp_less_Suc length_dropWhile_le)
  then show "(dropWhile (\<lambda>c. \<not> is_space c) u, t) \<in> measure length"
    using length_dropWhile_le [of is_space t] u(1) by (simp add: le_less_trans)
qed simp

declare words.simps [simp del]

definition normalise_name :: "string \<Rightarrow> string result" where
  "normalise_name name =
     (let v = join_with '' '' (words name) in
      if v = '''' then Inl (ValueError ''API key name is required'')
      else if 80 < length v then Inl (ValueError ''API key name must be 80 characters or fewer'')
      else if list_ex (\<lambda>c. code c < 32) v
      then Inl (ValueError ''API key name contains an invalid control character'')
      else Inr v)"

definition token_prefix :: "string \<Rightarrow> string" where
  "token_prefix t = take 16 t @ ''...''"

definition new_material :: "string \<times> string \<Rightarrow> string \<times> string \<times> string" where
  "new_material d = (let t = ''ep_live_'' @ fst d in (''key_'' @ snd d, t, token_prefix t))"

subsection \<open>Issuing keys\<close>

definition new_key ::
  "string \<Rightarrow> string \<Rightarrow> string \<Rightarrow> string \<Rightarrow> string \<Rightarrow> int option \<Rightarrow> time \<Rightarrow> int \<Rightarrow> key_row" where
  "new_key public name prefix digest source creator now i = \<lparr>k_id = i, k_public = public, k_name = name, k_prefix = prefix,
     k_hash = digest, k_source = source, k_creator = creator, k_created = now, k_last_used = None, k_revoked = None\<rparr>"

text \<open>The two unique columns of the table.\<close>

definition key_taken :: "string \<Rightarrow> string \<Rightarrow> key_store \<Rightarrow> bool" where
  "key_taken public digest s \<longleftrightarrow> exists_where (\<lambda>k. k_public k = public \<or> k_hash k = digest) (keys s)"

definition add_key :: "(int \<Rightarrow> key_row) \<Rightarrow> key_store \<Rightarrow> key_store" where
  "add_key mk s = s\<lparr>keys := insert_row mk (keys s)\<rparr>"

fun draw_key ::
  "(string \<Rightarrow> string) \<Rightarrow> (nat \<Rightarrow> string \<times> string) \<Rightarrow> nat \<Rightarrow> string \<Rightarrow> string \<Rightarrow> int option \<Rightarrow> time \<Rightarrow> nat \<Rightarrow> key_store
     \<Rightarrow> (key_store \<times> int \<times> string) result" where
  "draw_key sha256 draw 0 name source creator now k s = Inl (RuntimeError ''Could not allocate a unique API key'')"
| "draw_key sha256 draw (Suc n) name source creator now k s =
     (let (public, token, prefix) = new_material (draw k) in
      if key_taken public (sha256 token) s then draw_key sha256 draw n name source creator now (Suc k) s
      else Inr (add_key (new_key public name prefix (sha256 token) source creator now) s, seq (keys s) + 1, token))"

definition insert_key ::
  "(string \<Rightarrow> string) \<Rightarrow> (nat \<Rightarrow> string \<times> string) \<Rightarrow> string \<Rightarrow> int option \<Rightarrow> string \<Rightarrow> time \<Rightarrow> key_store
     \<Rightarrow> (key_store \<times> int \<times> string) result" where
  "insert_key sha256 draw name creator source now s =
     bindR (normalise_name name) (\<lambda>n.
       draw_key sha256 draw 5 n (let v = lower (strip source) in if v = '''' then ''managed'' else v) creator now 0 s)"

definition create_api_key ::
  "(string \<Rightarrow> string) \<Rightarrow> (nat \<Rightarrow> string \<times> string) \<Rightarrow> string \<Rightarrow> int option \<Rightarrow> string \<Rightarrow> time \<Rightarrow> key_store
     \<Rightarrow> (key_store \<times> int \<times> string) result" where
  "create_api_key sha256 draw name creator source now s = insert_key sha256 draw name creator source now s"

definition revoke_where :: "time \<Rightarrow> (key_row \<Rightarrow> bool) \<Rightarrow> key_store \<Rightarrow> key_store" where
  "revoke_where now P s = s\<lparr>keys := update_where (\<lambda>k. P k \<and> k_revoked k = None) (\<lambda>k. k\<lparr>k_revoked := Some now\<rparr>) (keys s)\<rparr>"

definition is_legacy :: "string \<Rightarrow> key_row \<Rightarrow> bool" where
  "is_legacy digest k \<longleftrightarrow> k_hash k = digest \<and> k_source k = ''legacy''"

definition ensure_legacy_api_key :: "(string \<Rightarrow> string) \<Rightarrow> time \<Rightarrow> string \<Rightarrow> key_store \<Rightarrow> key_store \<times> int option" where
  "ensure_legacy_api_key sha256 now token s =
     (if token = '''' then (revoke_where now (\<lambda>k. k_source k = ''legacy'') s, None)
      else
        (let digest = sha256 token; s1 = revoke_where now (\<lambda>k. k_source k = ''legacy'' \<and> k_hash k \<noteq> digest) s in
         case select_one (is_legacy digest) (keys s1) of
           Some k \<Rightarrow> (s1, Some (k_id k))
         | None \<Rightarrow>
             (let public = ''legacy_'' @ take 24 digest;
                  s2 = (if key_taken public digest s1 then s1
                        else add_key (new_key public ''Legacy environment key'' (token_prefix token) digest ''legacy'' None now) s1)
              in (s2, map_option k_id (select_one (is_legacy digest) (keys s2))))))"

subsection \<open>Using keys\<close>

definition authenticates :: "(string \<Rightarrow> string) \<Rightarrow> string \<Rightarrow> key_store \<Rightarrow> key_row option" where
  "authenticates sha256 v s =
     (if v = '''' \<or> 512 < length v then None else select_one (\<lambda>k. k_hash k = sha256 v \<and> k_revoked k = None) (keys s))"

text \<open>The use is recorded every five minutes at most, and only when the database is not busy.\<close>

definition authenticate_api_key ::
  "(string \<Rightarrow> string) \<Rightarrow> time \<Rightarrow> bool \<Rightarrow> string \<Rightarrow> key_store \<Rightarrow> key_store \<times> key_row option" where
  "authenticate_api_key sha256 now busy v s =
     (case authenticates sha256 v s of
        None \<Rightarrow> (s, None)
      | Some k \<Rightarrow>
          (if busy \<or> (case k_last_used k of None \<Rightarrow> False | Some t \<Rightarrow> now - t < minutes 5) then s
           else s\<lparr>keys := update_where (\<lambda>q. k_id q = k_id k \<and> k_revoked q = None) (\<lambda>q. q\<lparr>k_last_used := Some now\<rparr>) (keys s)\<rparr>,
           Some k))"

definition key_order :: "key_row \<Rightarrow> nat \<times> time \<times> int" where
  "key_order k = (if k_revoked k = None then 0 else 1, - k_created k, - k_id k)"

definition list_api_keys :: "key_store \<Rightarrow> key_row list" where
  "list_api_keys s = sort_key (\<lambda>k. fst (key_order k))
     (sort_key (\<lambda>k. fst (snd (key_order k))) (sort_key (\<lambda>k. snd (snd (key_order k))) (rows (keys s))))"

definition get_api_key_by_public_id :: "string \<Rightarrow> key_store \<Rightarrow> key_row option" where
  "get_api_key_by_public_id public s =
     (let v = strip public in if v = '''' \<or> 80 < length v then None else select_one (\<lambda>k. k_public k = v) (keys s))"

definition revoke_api_key :: "time \<Rightarrow> int \<Rightarrow> key_store \<Rightarrow> key_store result" where
  "revoke_api_key now i s =
     (if count_where (\<lambda>k. k_id k = i \<and> k_revoked k = None) (keys s) = 1 then Inr (revoke_where now (\<lambda>k. k_id k = i) s)
      else Inl (LookupError ''API key not found or already revoked''))"

definition rotate_api_key ::
  "(string \<Rightarrow> string) \<Rightarrow> (nat \<Rightarrow> string \<times> string) \<Rightarrow> int \<Rightarrow> int option \<Rightarrow> time \<Rightarrow> key_store
     \<Rightarrow> (key_store \<times> int \<times> string) result" where
  "rotate_api_key sha256 draw i creator now s =
     (case select_one (\<lambda>k. k_id k = i \<and> k_revoked k = None) (keys s) of
        None \<Rightarrow> Inl (LookupError ''API key not found or already revoked'')
      | Some old \<Rightarrow>
          bindR (insert_key sha256 draw (k_name old) creator ''managed'' now s) (\<lambda>(s1, j, token).
          Inr (revoke_where now (\<lambda>k. k_id k = i) s1, j, token)))"

subsection \<open>One-time reveals\<close>

definition new_reveal :: "string \<Rightarrow> string \<Rightarrow> string \<Rightarrow> time \<Rightarrow> int \<Rightarrow> reveal_row" where
  "new_reveal reveal secret message now i = \<lparr>v_id = i, v_reveal = reveal, v_token = secret, v_message = take 200 message,
     v_created = now, v_expires = now + minutes 10, v_consumed = None\<rparr>"

definition drop_spent :: "time \<Rightarrow> key_store \<Rightarrow> key_store" where
  "drop_spent now s = s\<lparr>reveals := delete_where (\<lambda>v. v_consumed v \<noteq> None \<or> v_expires v \<le> now) (reveals s)\<rparr>"

text \<open>A collision rolls the transaction back, the deletion of spent rows included.\<close>

fun draw_reveal :: "(nat \<Rightarrow> string) \<Rightarrow> nat \<Rightarrow> string \<Rightarrow> string \<Rightarrow> time \<Rightarrow> nat \<Rightarrow> key_store \<Rightarrow> key_store \<Rightarrow> (key_store \<times> string) result" where
  "draw_reveal draw 0 secret message now k s0 s = Inl (RuntimeError ''Could not allocate a one-time reveal'')"
| "draw_reveal draw (Suc n) secret message now k s0 s =
     (let r = ''reveal_'' @ draw k in
      if exists_where (\<lambda>v. v_reveal v = r) (reveals s) then draw_reveal draw n secret message now (Suc k) s0 s0
      else Inr (s\<lparr>reveals := insert_row (new_reveal r secret message now) (reveals s)\<rparr>, r))"

definition create_api_key_reveal ::
  "(string \<Rightarrow> string) \<Rightarrow> (nat \<Rightarrow> string) \<Rightarrow> string \<Rightarrow> string \<Rightarrow> time \<Rightarrow> key_store \<Rightarrow> (key_store \<times> string) result" where
  "create_api_key_reveal encrypt draw token message now s =
     draw_reveal draw 5 (encrypt token) message now 0 s (drop_spent now s)"

definition consume_api_key_reveal ::
  "(string \<Rightarrow> string option) \<Rightarrow> string \<Rightarrow> time \<Rightarrow> key_store \<Rightarrow> key_store \<times> (string \<times> string) option" where
  "consume_api_key_reveal decrypt reveal now s =
     (let v = strip reveal; open_row = (\<lambda>r. v_reveal r = v \<and> v_consumed r = None) in
      if v = '''' \<or> 80 < length v then (s, None)
      else case select_one (\<lambda>r. open_row r \<and> now < v_expires r) (reveals s) of
        None \<Rightarrow> (s, None)
      | Some r \<Rightarrow>
          if count_where open_row (reveals s) \<noteq> 1 then (s, None)
          else (s\<lparr>reveals := update_where open_row (\<lambda>q. q\<lparr>v_consumed := Some now\<rparr>) (reveals s)\<rparr>,
                map_option (\<lambda>t. (t, v_message r)) (decrypt (v_token r))))"

subsection \<open>Every operation, as a step\<close>

text \<open>The label is the reveal that the step creates, if any.\<close>

inductive key_step :: "(string \<Rightarrow> string) \<Rightarrow> string option \<Rightarrow> key_store \<Rightarrow> key_store \<Rightarrow> bool" for sha256 where
  create: "create_api_key sha256 draw name creator source now s = Inr (s', r) \<Longrightarrow> key_step sha256 None s s'"
| legacy: "ensure_legacy_api_key sha256 now token s = (s', r) \<Longrightarrow> key_step sha256 None s s'"
| authenticate: "authenticate_api_key sha256 now busy v s = (s', r) \<Longrightarrow> key_step sha256 None s s'"
| revoke: "revoke_api_key now i s = Inr s' \<Longrightarrow> key_step sha256 None s s'"
| rotate: "rotate_api_key sha256 draw i creator now s = Inr (s', r) \<Longrightarrow> key_step sha256 None s s'"
| reveal: "create_api_key_reveal encrypt draws token message now s = Inr (s', r) \<Longrightarrow> key_step sha256 (Some r) s s'"
| consume: "consume_api_key_reveal decrypt v now s = (s', x) \<Longrightarrow> key_step sha256 None s s'"

definition keys_ok :: "key_store \<Rightarrow> bool" where
  "keys_ok s \<longleftrightarrow> wf_table k_id (keys s) \<and> distinct (map k_public (rows (keys s))) \<and> distinct (map k_hash (rows (keys s)))"

text \<open>Rows are never deleted, keep their digest and stay revoked.\<close>

definition key_kept :: "key_row \<Rightarrow> key_row \<Rightarrow> bool" where
  "key_kept k k' \<longleftrightarrow> k_id k' = k_id k \<and> k_hash k' = k_hash k \<and> k_public k' = k_public k
     \<and> (k_revoked k \<noteq> None \<longrightarrow> k_revoked k' = k_revoked k)"

definition keys_kept :: "key_store \<Rightarrow> key_store \<Rightarrow> bool" where
  "keys_kept s s' \<longleftrightarrow> (\<forall>k \<in> set (rows (keys s)). \<exists>k' \<in> set (rows (keys s')). key_kept k k')"

lemma key_kept_refl [simp]: "key_kept k k"
  by (simp add: key_kept_def)

lemma kept_in: "k \<in> A \<Longrightarrow> \<exists>k' \<in> A. key_kept k k'"
  by (rule bexI [of _ k]) simp_all

lemma keys_kept_refl [simp]: "keys_kept s s"
  by (simp add: keys_kept_def kept_in)

lemma keys_kept_trans: "keys_kept s s1 \<Longrightarrow> keys_kept s1 s2 \<Longrightarrow> keys_kept s s2"
  unfolding keys_kept_def key_kept_def by (metis (no_types, lifting))

text \<open>Both at once: what a transaction on the keys does.\<close>

definition key_change :: "key_store \<Rightarrow> key_store \<Rightarrow> bool" where
  "key_change s s' \<longleftrightarrow> (keys_ok s \<longrightarrow> keys_ok s') \<and> keys_kept s s'"

lemma key_change_refl [simp]: "key_change s s"
  by (simp add: key_change_def)

lemma key_change_trans: "key_change s s1 \<Longrightarrow> key_change s1 s2 \<Longrightarrow> key_change s s2"
  by (auto simp: key_change_def intro: keys_kept_trans)

lemma key_change_same: "keys s' = keys s \<Longrightarrow> key_change s s'"
  by (simp add: key_change_def keys_ok_def keys_kept_def kept_in)

lemma wf_table_alt: "wf_table key t \<longleftrightarrow> distinct (map key (rows t)) \<and> (\<forall>i \<in> set (map key (rows t)). i \<le> seq t)"
  by (auto simp: wf_table_def)

lemma map_update_where: "(\<And>k. P k \<Longrightarrow> h (f k) = h k) \<Longrightarrow> map h (rows (update_where P f t)) = map h (rows t)"
  by auto

lemma key_change_update:
  assumes "keys s' = update_where P f (keys s)" "\<And>k. P k \<Longrightarrow> key_kept k (f k)"
  shows "key_change s s'"
proof -
  have f: "k_id (f k) = k_id k" "k_hash (f k) = k_hash k" "k_public (f k) = k_public k" if "P k" for k
    using assms(2) [OF that] by (simp_all add: key_kept_def)
  have m: "map k_id (rows (update_where P f (keys s))) = map k_id (rows (keys s))"
    "map k_hash (rows (update_where P f (keys s))) = map k_hash (rows (keys s))"
    "map k_public (rows (update_where P f (keys s))) = map k_public (rows (keys s))"
    by (rule map_update_where, erule f)+
  have "keys_ok s' = keys_ok s"
    unfolding keys_ok_def wf_table_alt assms(1) m seq_update_where by (rule refl)
  moreover have "keys_kept s s'"
    unfolding keys_kept_def
  proof
    fix k assume k: "k \<in> set (rows (keys s))"
    then have "(if P k then f k else k) \<in> set (rows (keys s'))" by (auto simp: assms(1))
    moreover have "key_kept k (if P k then f k else k)" using assms(2) by simp
    ultimately show "\<exists>k' \<in> set (rows (keys s')). key_kept k k'" by blast
  qed
  ultimately show ?thesis by (simp add: key_change_def)
qed

lemma key_change_revoke [simp]: "key_change s (revoke_where now P s)"
  by (rule key_change_update [where P = "\<lambda>k. P k \<and> k_revoked k = None" and f = "\<lambda>k. k\<lparr>k_revoked := Some now\<rparr>"])
    (simp_all add: revoke_where_def key_kept_def)

lemma key_change_add:
  assumes "\<not> key_taken public digest s"
  shows "key_change s (add_key (new_key public name prefix digest source creator now) s)"
proof -
  have "keys_kept s (add_key (new_key public name prefix digest source creator now) s)"
    by (auto simp: keys_kept_def add_key_def intro: kept_in)
  moreover have "wf_table k_id (keys s) \<Longrightarrow> wf_table k_id (insert_row (new_key public name prefix digest source creator now) (keys s))"
    by (rule wf_table_insert) (simp_all add: new_key_def)
  ultimately show ?thesis
    using assms by (auto simp: key_change_def keys_ok_def add_key_def new_key_def key_taken_def exists_where_iff)
qed

lemma draw_key_change: "draw_key sha256 draw n name source creator now k s = Inr (s', r) \<Longrightarrow> key_change s s'"
  by (induction n arbitrary: k)
    (auto simp: new_material_def Let_def intro: key_change_add split: if_splits)

lemma insert_key_change: "insert_key sha256 draw name creator source now s = Inr (s', r) \<Longrightarrow> key_change s s'"
  by (auto simp: insert_key_def bindR_Inr_iff intro: draw_key_change)

lemma legacy_change: "key_change s (fst (ensure_legacy_api_key sha256 now token s))"
  unfolding ensure_legacy_api_key_def Let_def
  by (auto split: option.split intro: key_change_trans [OF key_change_revoke key_change_add])

lemma keys_draw_reveal: "draw_reveal draw n secret message now k s0 s = Inr (s', r) \<Longrightarrow> keys s0 = keys s \<Longrightarrow> keys s' = keys s"
  by (induction n arbitrary: k s) (auto simp: Let_def split: if_splits)

lemma keys_consume: "keys (fst (consume_api_key_reveal decrypt v now s)) = keys s"
  by (simp add: consume_api_key_reveal_def Let_def split: option.split)

lemma authenticate_change: "key_change s (fst (authenticate_api_key sha256 now busy v s))"
proof (cases "authenticates sha256 v s")
  case (Some k)
  have "key_change s (s\<lparr>keys := update_where (\<lambda>q. k_id q = k_id k \<and> k_revoked q = None) (\<lambda>q. q\<lparr>k_last_used := Some now\<rparr>) (keys s)\<rparr>)"
    by (rule key_change_update [where P = "\<lambda>q. k_id q = k_id k \<and> k_revoked q = None" and f = "\<lambda>q. q\<lparr>k_last_used := Some now\<rparr>"])
      (simp_all add: key_kept_def)
  then show ?thesis using Some by (simp add: authenticate_api_key_def)
qed (simp add: authenticate_api_key_def)

lemma key_step_change: "key_step sha256 e s s' \<Longrightarrow> key_change s s'"
proof (induction rule: key_step.induct)
  case (create draw name creator source now s s' r)
  then show ?case by (cases r) (auto simp: create_api_key_def intro: insert_key_change)
next
  case (legacy now token s s' r)
  then show ?case using legacy_change [of s sha256 now token] by simp
next
  case (authenticate now busy v s s' r)
  then show ?case using authenticate_change [of s sha256 now busy v] by simp
next
  case (revoke now i s s')
  then show ?case by (auto simp: revoke_api_key_def split: if_splits)
next
  case (rotate draw i creator now s s' r)
  then show ?case
    by (auto simp: rotate_api_key_def bindR_Inr_iff split: option.splits
        intro: key_change_trans [OF insert_key_change key_change_revoke])
next
  case (reveal encrypt draws token message now s s' r)
  then have "keys s' = keys s"
    using keys_draw_reveal [of draws 5 "encrypt token" message now 0 s "drop_spent now s" s' r]
    by (simp add: create_api_key_reveal_def drop_spent_def)
  then show ?case by (rule key_change_same)
next
  case (consume decrypt v now s s' x)
  then show ?case using keys_consume [of decrypt v now s] by (simp add: key_change_same)
qed

interpretation key_system: invariant_system "key_step sha256" keys_ok
  by unfold_locales (auto dest: key_step_change simp: key_change_def)

lemma key_steps_kept: "steps (key_step sha256) s es s' \<Longrightarrow> keys_kept s s'"
proof (induction rule: steps.induct)
  case (steps_cons e s s' es s'')
  then show ?case using key_step_change [OF steps_cons(1)] keys_kept_trans by (auto simp: key_change_def)
qed simp

subsection \<open>Properties\<close>

lemma key_by_hash:
  assumes "keys_ok s" "k \<in> set (rows (keys s))" "q \<in> set (rows (keys s))" "k_hash k = k_hash q"
  shows "k = q"
  using assms by (auto simp: keys_ok_def distinct_map dest: inj_onD)

lemma authenticates_SomeD:
  assumes "authenticates sha256 v s = Some k"
  shows "k \<in> set (rows (keys s))" "k_hash k = sha256 v" "k_revoked k = None"
  using assms by (auto simp: authenticates_def split: if_splits dest: select_one_SomeD)

lemma snd_authenticate: "snd (authenticate_api_key sha256 now busy v s) = authenticates sha256 v s"
  by (simp add: authenticate_api_key_def split: option.split)

lemma revoked_refused:
  assumes "keys_ok s" "k \<in> set (rows (keys s))" "k_revoked k \<noteq> None" "sha256 v = k_hash k"
  shows "authenticates sha256 v s = None"
proof (rule ccontr)
  assume "authenticates sha256 v s \<noteq> None"
  then obtain q where q: "authenticates sha256 v s = Some q" by blast
  note d = authenticates_SomeD [OF q]
  have "k = q" by (rule key_by_hash [OF assms(1,2) d(1)]) (simp add: d(2) assms(4))
  then show False using d(3) assms(3) by simp
qed


lemma draw_key_added:
  "draw_key sha256 draw n name source creator now k s = Inr (s', j, token) \<Longrightarrow>
     \<exists>public prefix m. s' = add_key (new_key public name prefix (sha256 token) source creator now) s \<and> j = seq (keys s) + 1
       \<and> \<not> key_taken public (sha256 token) s \<and> token = ''ep_live_'' @ fst (draw m)"
  by (induction n arbitrary: k) (auto simp: new_material_def Let_def split: if_splits)

text \<open>A rotation hands over: the new token opens the API as the new key, a managed key of the same name, every token of
  the old key is refused, and no other key is touched.\<close>

theorem rotation_hands_over:
  assumes "rotate_api_key sha256 draw i creator now s = Inr (s', j, token)" "keys_ok s"
    and "old \<in> set (rows (keys s))" "k_id old = i" "length token \<le> 512"
  shows "(\<exists>k. authenticates sha256 token s' = Some k \<and> k_id k = j \<and> k_source k = ''managed''
            \<and> normalise_name (k_name old) = Inr (k_name k))
     \<and> (\<forall>v. sha256 v = k_hash old \<longrightarrow> authenticates sha256 v s' = None)
     \<and> (\<forall>k \<in> set (rows (keys s)). k_id k \<noteq> i \<longrightarrow> k \<in> set (rows (keys s')))"
proof -
  obtain q s1 where q: "select_one (\<lambda>k. k_id k = i \<and> k_revoked k = None) (keys s) = Some q"
    and ins: "insert_key sha256 draw (k_name q) creator ''managed'' now s = Inr (s1, j, token)"
    and s': "s' = revoke_where now (\<lambda>k. k_id k = i) s1"
    using assms(1) by (auto simp: rotate_api_key_def bindR_Inr_iff split: option.splits)
  have qd: "q \<in> set (rows (keys s))" "k_id q = i" "k_revoked q = None" using select_one_SomeD [OF q] by auto
  have wf: "wf_table k_id (keys s)" using assms(2) by (simp add: keys_ok_def)
  have old: "q = old" by (rule wf_table_unique [OF wf qd(1) assms(3)]) (simp add: qd(2) assms(4))
  have managed: "lower (strip ''managed'') = ''managed''" by code_simp
  obtain name public prefix m where nm: "normalise_name (k_name old) = Inr name"
    and s1: "s1 = add_key (new_key public name prefix (sha256 token) ''managed'' creator now) s"
    and j: "j = seq (keys s) + 1" and free: "\<not> key_taken public (sha256 token) s" and tk: "token = ''ep_live_'' @ fst (draw m)"
    using ins by (auto simp: insert_key_def bindR_Inr_iff old managed dest: draw_key_added)
  let ?n = "new_key public name prefix (sha256 token) ''managed'' creator now j"
  have ok': "keys_ok s'"
    using key_change_trans [OF insert_key_change [OF ins] key_change_revoke [of s1 now "\<lambda>k. k_id k = i"]] assms(2)
    by (simp add: s' key_change_def)
  have "i \<noteq> j" using wf qd by (auto simp: wf_table_def j)
  then have n: "?n \<in> set (rows (keys s'))" by (force simp: s' s1 add_key_def revoke_where_def new_key_def j)
  have nr: "k_revoked ?n = None" "k_hash ?n = sha256 token" by (simp_all add: new_key_def)
  have "authenticates sha256 token s' \<noteq> None"
    using n nr assms(5) tk by (auto simp: authenticates_def select_one_None_iff)
  then obtain k where k: "authenticates sha256 token s' = Some k" by blast
  have "k = ?n" by (rule key_by_hash [OF ok' authenticates_SomeD(1) [OF k] n]) (simp add: nr authenticates_SomeD(2) [OF k])
  then have a: "k_id k = j" "k_source k = ''managed''" "k_name k = name" by (simp_all add: new_key_def)
  let ?o = "old\<lparr>k_revoked := Some now\<rparr>"
  have o: "?o \<in> set (rows (keys s'))" using assms(3,4) qd(3) by (force simp: s' s1 add_key_def revoke_where_def old)
  have "authenticates sha256 v s' = None" if "sha256 v = k_hash old" for v
    by (rule revoked_refused [OF ok' o]) (simp_all add: that)
  moreover have "\<forall>k \<in> set (rows (keys s)). k_id k \<noteq> i \<longrightarrow> k \<in> set (rows (keys s'))"
    by (force simp: s' s1 add_key_def revoke_where_def)
  ultimately show ?thesis using k a nm by blast
qed

definition spent :: "string \<Rightarrow> key_store \<Rightarrow> bool" where
  "spent x s \<longleftrightarrow> (\<forall>v \<in> set (rows (reveals s)). v_reveal v = x \<longrightarrow> v_consumed v \<noteq> None)"

lemma draw_reveal_spent:
  "draw_reveal draw n secret message now k s0 s = Inr (s', r) \<Longrightarrow> spent x s0 \<Longrightarrow> spent x s \<Longrightarrow> r \<noteq> x \<Longrightarrow> spent x s'"
  by (induction n arbitrary: k s) (auto simp: Let_def spent_def new_reveal_def split: if_splits)

lemma spent_keys [simp]: "spent x (revoke_where now P s) = spent x s" "spent x (add_key mk s) = spent x s"
  "spent x (s\<lparr>keys := t\<rparr>) = spent x s"
  by (simp_all add: spent_def revoke_where_def add_key_def)

lemma draw_key_spent: "draw_key sha256 draw n name source creator now k s = Inr (s', r) \<Longrightarrow> spent x s' = spent x s"
  by (induction n arbitrary: k) (auto simp: Let_def new_material_def split: if_splits)

lemma insert_key_spent: "insert_key sha256 draw name creator source now s = Inr (s', r) \<Longrightarrow> spent x s' = spent x s"
  by (auto simp: insert_key_def bindR_Inr_iff dest: draw_key_spent)

lemma key_step_spent: "key_step sha256 e s s' \<Longrightarrow> spent x s \<Longrightarrow> e \<noteq> Some x \<Longrightarrow> spent x s'"
proof (induction rule: key_step.induct)
  case (legacy now token s s' r)
  then show ?case by (auto simp: ensure_legacy_api_key_def Let_def split: if_splits option.splits)
next
  case (authenticate now busy v s s' r)
  then show ?case by (auto simp: authenticate_api_key_def split: if_splits option.splits)
next
  case (reveal encrypt draws token message now s s' r)
  moreover from this have "spent x (drop_spent now s)" by (auto simp: spent_def drop_spent_def)
  ultimately show ?case by (auto simp: create_api_key_reveal_def intro: draw_reveal_spent)
next
  case (consume decrypt v now s s' y)
  then show ?case by (auto simp: consume_api_key_reveal_def Let_def spent_def split: if_splits option.splits)
qed (auto simp: create_api_key_def rotate_api_key_def revoke_api_key_def bindR_Inr_iff dest: insert_key_spent
    split: option.splits if_splits)

text \<open>A reveal shows its token once: after it was shown, no later request gets it again, at any time and after any
  operations that do not happen to draw the same random name.\<close>

theorem reveal_shown_once:
  assumes "consume_api_key_reveal decrypt v now s = (s1, Some shown)"
    and "steps (key_step sha256) s1 es s2" "Some (strip v) \<notin> set es"
  shows "snd (consume_api_key_reveal decrypt v later s2) = None"
proof -
  have "spent (strip v) s1"
    using assms(1) by (auto simp: consume_api_key_reveal_def Let_def spent_def split: if_splits option.splits)
  with assms(2,3) have "spent (strip v) s2"
    by (induction rule: steps.induct) (auto dest: key_step_spent)
  then have "select_one (\<lambda>r. (v_reveal r = strip v \<and> v_consumed r = None) \<and> later < v_expires r) (reveals s2) = None"
    by (auto simp: select_one_None_iff spent_def)
  then show ?thesis by (simp add: consume_api_key_reveal_def Let_def)
qed

subsection \<open>Concrete keys\<close>

definition sample_key :: "time option \<Rightarrow> key_row" where
  "sample_key revoked = (new_key ''key_a'' ''feed'' ''ep_live_old...'' ''ep_live_old'' ''managed'' None 0 1)\<lparr>k_revoked := revoked\<rparr>"

definition sample_keys :: "time option \<Rightarrow> key_store" where
  "sample_keys revoked = \<lparr>keys = \<lparr>rows = [sample_key revoked], seq = 1\<rparr>,
     reveals = \<lparr>rows = [new_reveal ''reveal_x'' ''secret'' ''shown once'' 0 1], seq = 1\<rparr>\<rparr>"

lemma sample_keys_ok: "keys_ok (sample_keys r)"
  by (simp add: keys_ok_def wf_table_def sample_keys_def sample_key_def new_key_def)


theorem rotation_hands_over_witness:
  "\<exists>s' k. rotate_api_key (\<lambda>t. t) (\<lambda>n. (''new'', ''b'')) 1 None 7 (sample_keys None) = Inr (s', 2, ''ep_live_new'')
     \<and> authenticates (\<lambda>t. t) ''ep_live_new'' s' = Some k \<and> k_id k = 2 \<and> authenticates (\<lambda>t. t) ''ep_live_old'' s' = None"
proof -
  have "case rotate_api_key (\<lambda>t. t) (\<lambda>n. (''new'', ''b'')) 1 None 7 (sample_keys None) of
      Inl e \<Rightarrow> False | Inr (s', j, t) \<Rightarrow> j = 2 \<and> t = ''ep_live_new''" by code_simp
  then obtain s' where r: "rotate_api_key (\<lambda>t. t) (\<lambda>n. (''new'', ''b'')) 1 None 7 (sample_keys None) = Inr (s', 2, ''ep_live_new'')"
    by (auto split: sum.splits)
  have k: "sample_key None \<in> set (rows (keys (sample_keys None)))" "k_id (sample_key None) = 1" "k_hash (sample_key None) = ''ep_live_old''"
    by (simp_all add: sample_keys_def sample_key_def new_key_def)
  show ?thesis using rotation_hands_over [OF r sample_keys_ok k(1,2)] r k(3) by auto
qed

theorem reveal_shown_once_witness:
  "snd (consume_api_key_reveal (\<lambda>t. Some t) '' reveal_x '' 5 (sample_keys None)) = Some (''secret'', ''shown once'')
   \<and> snd (consume_api_key_reveal (\<lambda>t. Some t) '' reveal_x '' 6
       (fst (consume_api_key_reveal (\<lambda>t. Some t) '' reveal_x '' 5 (sample_keys None)))) = None"
proof -
  have a: "snd (consume_api_key_reveal (\<lambda>t. Some t) '' reveal_x '' 5 (sample_keys None)) = Some (''secret'', ''shown once'')"
    by code_simp
  then have "consume_api_key_reveal (\<lambda>t. Some t) '' reveal_x '' 5 (sample_keys None)
      = (fst (consume_api_key_reveal (\<lambda>t. Some t) '' reveal_x '' 5 (sample_keys None)), Some (''secret'', ''shown once''))"
    by (metis prod.collapse)
  from reveal_shown_once [OF this steps.intros(1), where later = 6] a show ?thesis by simp
qed

end
