(* ===== verification/Rate_Limits.thy ===== *)
theory Rate_Limits
  imports Json
begin

text \<open>
  \<open>app/registration_rate_limit.py\<close>: the budgets of registration and sign-in attempts, one per client address
  and one for the whole service, each over a sliding window. The attempts are rows of two tables; the address and
  the account are stored as digests (\<open>sha256\<close> is a parameter). The configuration is a JSON object.
\<close>

record attempt_row =
  t_id :: int
  t_identity :: string
  t_at :: time

record login_row = attempt_row +
  t_account :: string

definition valid_identity :: "string \<Rightarrow> string" where
  "valid_identity identity = (if identity = '''' then ''unknown'' else identity)"

definition int_setting :: "json_object \<Rightarrow> string \<Rightarrow> int \<Rightarrow> int \<Rightarrow> int \<Rightarrow> int" where
  "int_setting config key dflt lo hi =
     clamp lo hi (case map_of config key of None \<Rightarrow> dflt
       | Some v \<Rightarrow> (case json_int v of None \<Rightarrow> dflt | Some n \<Rightarrow> n))"

text \<open>One transaction: drop what has left the window, count, and insert unless a budget is used up.\<close>

definition admit_attempt ::
  "time \<Rightarrow> int \<Rightarrow> int \<Rightarrow> int \<Rightarrow> string \<Rightarrow> (int \<Rightarrow> 'a attempt_row_scheme) \<Rightarrow> 'a attempt_row_scheme table
     \<Rightarrow> 'a attempt_row_scheme table \<times> bool" where
  "admit_attempt now window per_identity overall digest mk t =
     (let t1 = delete_where (\<lambda>r. t_at r \<le> now - seconds window) t in
      if overall \<le> count_where (\<lambda>r. True) t1 \<or> per_identity \<le> count_where (\<lambda>r. t_identity r = digest) t1
      then (t1, False) else (insert_row mk t1, True))"

definition registration_window :: "json_object \<Rightarrow> int" where
  "registration_window config = int_setting config ''REGISTRATION_RATE_WINDOW_SECONDS'' 900 60 86400"

definition registration_max :: "json_object \<Rightarrow> int" where
  "registration_max config = int_setting config ''REGISTRATION_MAX_ATTEMPTS'' 5 1 1000"

definition registration_global_max :: "json_object \<Rightarrow> int" where
  "registration_global_max config = int_setting config ''REGISTRATION_GLOBAL_MAX_ATTEMPTS'' 100 1 100000"

definition admit_registration_attempt ::
  "(string \<Rightarrow> string) \<Rightarrow> json_object \<Rightarrow> time \<Rightarrow> string \<Rightarrow> attempt_row table \<Rightarrow> attempt_row table \<times> bool" where
  "admit_registration_attempt sha256 config now identity t =
     (let h = sha256 (valid_identity identity) in
      admit_attempt now (registration_window config) (registration_max config) (registration_global_max config) h
        (\<lambda>i. \<lparr>t_id = i, t_identity = h, t_at = now\<rparr>) t)"

definition login_window :: "json_object \<Rightarrow> int" where
  "login_window config = int_setting config ''LOGIN_RATE_WINDOW_SECONDS'' 900 60 86400"

definition login_ip_max :: "json_object \<Rightarrow> int" where
  "login_ip_max config = int_setting config ''LOGIN_IP_MAX_ATTEMPTS'' 30 1 100000"

definition login_global_max :: "json_object \<Rightarrow> int" where
  "login_global_max config = int_setting config ''LOGIN_GLOBAL_MAX_ATTEMPTS'' 1000 1 1000000"

definition admit_login_attempt ::
  "(string \<Rightarrow> string) \<Rightarrow> json_object \<Rightarrow> time \<Rightarrow> string \<Rightarrow> string \<Rightarrow> login_row table \<Rightarrow> login_row table \<times> bool" where
  "admit_login_attempt sha256 config now identity account t =
     (let h = sha256 (valid_identity identity) in
      admit_attempt now (login_window config) (login_ip_max config) (login_global_max config) h
        (\<lambda>i. \<lparr>t_id = i, t_identity = h, t_at = now, t_account = sha256 (lower (strip (valid_identity account)))\<rparr>) t)"

subsection \<open>The budget of a window\<close>

text \<open>A series of requests, each with its time; the requests that were admitted.\<close>

fun admissions ::
  "(time \<Rightarrow> 'q \<Rightarrow> 't \<Rightarrow> 't \<times> bool) \<Rightarrow> (time \<times> 'q) list \<Rightarrow> 't \<Rightarrow> (time \<times> 'q) list" where
  "admissions admit [] t = []"
| "admissions admit ((now, q) # as) t =
     (case admit now q t of (t1, ok) \<Rightarrow> (if ok then [(now, q)] else []) @ admissions admit as t1)"

definition in_window :: "time \<Rightarrow> int \<Rightarrow> time \<Rightarrow> bool" where
  "in_window now window t \<longleftrightarrow> now - seconds window < t \<and> t \<le> now"

text \<open>What the table remembers of the attempts admitted so far: those after a mark.\<close>

definition remembers :: "'a attempt_row_scheme table \<Rightarrow> time \<Rightarrow> (time \<times> string) list \<Rightarrow> bool" where
  "remembers t mark l \<longleftrightarrow> map (\<lambda>r. (t_at r, t_identity r)) (rows t) = filter (\<lambda>a. mark < fst a) l"

definition budget :: "int \<Rightarrow> int \<Rightarrow> int \<Rightarrow> (time \<times> string) list \<Rightarrow> bool" where
  "budget window per_identity overall l \<longleftrightarrow> (\<forall>now.
     int (length (filter (\<lambda>a. in_window now window (fst a)) l)) \<le> overall
     \<and> (\<forall>h. int (length (filter (\<lambda>a. in_window now window (fst a) \<and> snd a = h) l)) \<le> per_identity))"

lemma remembers_delete:
  "remembers t mark l \<Longrightarrow> mark \<le> c \<Longrightarrow> remembers (delete_where (\<lambda>r. t_at r \<le> c) t) c l"
proof -
  assume a: "remembers t mark l" "mark \<le> c"
  have "map (\<lambda>r. (t_at r, t_identity r)) (filter (\<lambda>r. \<not> t_at r \<le> c) (rows t))
      = filter (\<lambda>a. c < fst a) (map (\<lambda>r. (t_at r, t_identity r)) (rows t))"
    by (simp add: filter_map comp_def not_le)
  also have "\<dots> = filter (\<lambda>a. c < fst a) l"
    using a by (simp add: remembers_def conj_commute) (metis (no_types, lifting) filter_cong order_le_less_trans)
  finally show ?thesis by (simp add: remembers_def)
qed

lemma remembers_counts:
  assumes "remembers t mark l"
  shows "count_where (\<lambda>r. True) t = int (length (filter (\<lambda>a. mark < fst a) l))"
    and "count_where (\<lambda>r. t_identity r = h) t = int (length (filter (\<lambda>a. mark < fst a \<and> snd a = h) l))"
proof -
  show "count_where (\<lambda>r. True) t = int (length (filter (\<lambda>a. mark < fst a) l))"
    using arg_cong [OF assms [unfolded remembers_def], of length] by (simp add: count_where_def)
  have "length (filter (\<lambda>a. snd a = h) (map (\<lambda>r. (t_at r, t_identity r)) (rows t)))
      = length (filter (\<lambda>a. mark < fst a \<and> snd a = h) l)"
    using assms by (simp add: remembers_def conj_commute)
  then show "count_where (\<lambda>r. t_identity r = h) t = int (length (filter (\<lambda>a. mark < fst a \<and> snd a = h) l))"
    by (simp add: count_where_def filter_map comp_def)
qed

lemma filter_length_mono: "(\<And>x. x \<in> set xs \<Longrightarrow> P x \<Longrightarrow> Q x) \<Longrightarrow> length (filter P xs) \<le> length (filter Q xs)"
  by (induction xs) (auto intro: le_SucI)

text \<open>One more admitted attempt, not earlier than the others.\<close>

lemma budget_admit:
  assumes "budget window per_identity overall l" "\<And>a. a \<in> set l \<Longrightarrow> fst a \<le> now"
    and "int (length (filter (\<lambda>a. now - seconds window < fst a) l)) < overall"
    and "int (length (filter (\<lambda>a. now - seconds window < fst a \<and> snd a = h) l)) < per_identity"
  shows "budget window per_identity overall (l @ [(now, h)])"
  unfolding budget_def
proof (intro allI conjI)
  fix later h'
  have sub: "now - seconds window < fst a" if "now \<le> later" "in_window later window (fst a)" for a :: "time \<times> string"
    using that by (simp add: in_window_def)
  have 1: "length (filter (\<lambda>a. in_window later window (fst a)) l) \<le> length (filter (\<lambda>a. now - seconds window < fst a) l)"
    if "now \<le> later" by (rule filter_length_mono) (rule sub [OF that])
  have 2: "length (filter (\<lambda>a. in_window later window (fst a) \<and> snd a = h) l)
      \<le> length (filter (\<lambda>a. now - seconds window < fst a \<and> snd a = h) l)" if "now \<le> later"
    by (rule filter_length_mono) (use sub [OF that] in blast)
  have old: "int (length (filter (\<lambda>a. in_window later window (fst a)) l)) \<le> overall"
    "int (length (filter (\<lambda>a. in_window later window (fst a) \<and> snd a = h') l)) \<le> per_identity"
    using assms(1) by (auto simp: budget_def)
  show "int (length (filter (\<lambda>a. in_window later window (fst a)) (l @ [(now, h)]))) \<le> overall"
  proof (cases "in_window later window now")
    case True
    then have "now \<le> later" by (simp add: in_window_def)
    then show ?thesis using 1 assms(3) by simp
  next
    case False
    then show ?thesis using old(1) by simp
  qed
  show "int (length (filter (\<lambda>a. in_window later window (fst a) \<and> snd a = h') (l @ [(now, h)]))) \<le> per_identity"
  proof (cases "in_window later window now \<and> h' = h")
    case True
    then have "now \<le> later" by (simp add: in_window_def)
    then show ?thesis using 2 assms(4) True by simp
  next
    case False
    then show ?thesis using old(2) by auto
  qed
qed

text \<open>A gate that admits requests by the budgets of their digest.\<close>

locale rate_gate =
  fixes admit :: "time \<Rightarrow> 'q \<Rightarrow> 'a attempt_row_scheme table \<Rightarrow> 'a attempt_row_scheme table \<times> bool"
    and digest :: "'q \<Rightarrow> string" and window per_identity overall :: int
    and mk :: "time \<Rightarrow> 'q \<Rightarrow> int \<Rightarrow> 'a attempt_row_scheme"
  assumes gate: "admit now q t = admit_attempt now window per_identity overall (digest q) (mk now q) t"
    and mk_row: "t_at (mk now q i) = now" "t_identity (mk now q i) = digest q"
    and window_pos: "0 < window"
begin

definition hashed :: "(time \<times> 'q) list \<Rightarrow> (time \<times> string) list" where
  "hashed l = map (\<lambda>(t, q). (t, digest q)) l"

lemma admissions_budget:
  assumes "budget window per_identity overall l" "remembers t mark l" "sorted (map fst as)"
    and "\<And>a b. a \<in> set l \<Longrightarrow> b \<in> set as \<Longrightarrow> fst a \<le> fst b" "\<And>b. b \<in> set as \<Longrightarrow> mark \<le> fst b - seconds window"
  shows "budget window per_identity overall (l @ hashed (admissions admit as t))"
  using assms
proof (induction as arbitrary: t mark l)
  case (Cons b as)
  obtain now q where b: "b = (now, q)" by (cases b)
  let ?t1 = "delete_where (\<lambda>r. t_at r \<le> now - seconds window) t"
  have r1: "remembers ?t1 (now - seconds window) l"
    using remembers_delete [OF Cons.prems(2)] Cons.prems(5) [of b] by (simp add: b)
  have rest: "now \<le> fst x" if "x \<in> set as" for x using Cons.prems(3) that by (auto simp: b)
  have sorted: "sorted (map fst as)" using Cons.prems(3) by simp
  note counts = remembers_counts [OF r1]
  show ?case
  proof (cases "overall \<le> count_where (\<lambda>r. True) ?t1 \<or> per_identity \<le> count_where (\<lambda>r. t_identity r = digest q) ?t1")
    case True
    have "budget window per_identity overall (l @ hashed (admissions admit as ?t1))"
      by (rule Cons.IH [OF Cons.prems(1) r1 sorted]) (use Cons.prems(4) rest in auto)
    then show ?thesis using True by (simp add: b gate [of now q t] admit_attempt_def Let_def)
  next
    case False
    let ?l = "l @ [(now, digest q)]"
    have bd: "budget window per_identity overall ?l"
      by (rule budget_admit [OF Cons.prems(1)]) (use False counts Cons.prems(4) [of _ b] in \<open>auto simp: b\<close>)
    have "now - seconds window < now" using window_pos by (simp add: seconds_def)
    then have r2: "remembers (insert_row (mk now q) ?t1) (now - seconds window) ?l"
      using r1 mk_row by (simp add: remembers_def)
    have "budget window per_identity overall (?l @ hashed (admissions admit as (insert_row (mk now q) ?t1)))"
    proof (rule Cons.IH [OF bd r2 sorted])
      show "fst a \<le> fst c" if "a \<in> set ?l" "c \<in> set as" for a c
        using that Cons.prems(4) [of a c] rest [OF that(2)] by (auto simp: b)
      show "now - seconds window \<le> fst c - seconds window" if "c \<in> set as" for c using rest [OF that] by simp
    qed
    then show ?thesis using False by (simp add: b gate [of now q t] admit_attempt_def Let_def hashed_def)
  qed
qed (simp add: hashed_def)

text \<open>From an empty table, over requests in the order of their times.\<close>

lemma window_budget:
  assumes "sorted (map fst as)" "0 \<le> overall" "0 \<le> per_identity"
  shows "int (length (filter (\<lambda>a. in_window now window (fst a)) (admissions admit as empty_table))) \<le> overall"
    "int (length (filter (\<lambda>a. in_window now window (fst a) \<and> digest (snd a) = h) (admissions admit as empty_table))) \<le> per_identity"
proof -
  define mark where "mark = (case as of [] \<Rightarrow> 0 | a # _ \<Rightarrow> fst a - seconds window)"
  have "budget window per_identity overall ([] @ hashed (admissions admit as empty_table))"
  proof (rule admissions_budget [OF _ _ assms(1)])
    show "budget window per_identity overall []" using assms(2,3) by (simp add: budget_def)
    show "remembers empty_table mark []" by (simp add: remembers_def)
    show "mark \<le> fst b - seconds window" if "b \<in> set as" for b
      using that assms(1) by (cases as) (auto simp: mark_def)
  qed simp
  then have *: "int (length (filter (\<lambda>a. in_window now window (fst a)) (hashed (admissions admit as empty_table)))) \<le> overall"
    "int (length (filter (\<lambda>a. in_window now window (fst a) \<and> snd a = h) (hashed (admissions admit as empty_table)))) \<le> per_identity"
    by (auto simp: budget_def)
  show "int (length (filter (\<lambda>a. in_window now window (fst a)) (admissions admit as empty_table))) \<le> overall"
    using *(1) by (simp add: hashed_def filter_map comp_def case_prod_beta)
  show "int (length (filter (\<lambda>a. in_window now window (fst a) \<and> digest (snd a) = h) (admissions admit as empty_table))) \<le> per_identity"
    using *(2) by (simp add: hashed_def filter_map comp_def case_prod_beta)
qed

end

lemma settings_positive:
  "0 < registration_window c" "0 < login_window c" "0 < registration_max c" "0 < login_ip_max c"
  "0 < registration_global_max c" "0 < login_global_max c"
  by (auto simp: registration_window_def login_window_def registration_max_def login_ip_max_def
      registration_global_max_def login_global_max_def int_setting_def clamp_def)

interpretation registration: rate_gate "admit_registration_attempt sha256 config" "\<lambda>x. sha256 (valid_identity x)"
  "registration_window config" "registration_max config" "registration_global_max config"
  "\<lambda>now x i. \<lparr>t_id = i, t_identity = sha256 (valid_identity x), t_at = now\<rparr>" for sha256 config
  by unfold_locales (simp_all add: admit_registration_attempt_def Let_def settings_positive)

text \<open>A sign-in request is an address and the account it tries.\<close>

interpretation login: rate_gate "\<lambda>now q. admit_login_attempt sha256 config now (fst q) (snd q)"
  "\<lambda>q. sha256 (valid_identity (fst q))" "login_window config" "login_ip_max config" "login_global_max config"
  "\<lambda>now q i. \<lparr>t_id = i, t_identity = sha256 (valid_identity (fst q)), t_at = now,
     t_account = sha256 (lower (strip (valid_identity (snd q))))\<rparr>" for sha256 config
  by unfold_locales (simp_all add: admit_login_attempt_def Let_def settings_positive)

text \<open>C37. The budgets hold over every window: however many sign-ins are tried, for any accounts, no more of them get to
  the password check within one window than the service budget, and no more from one address than its budget.
  Since the account is no part of it, nobody can lock an account out.\<close>

theorem login_budget:
  assumes "sorted (map fst attempts)"
    and admitted: "admitted = admissions (\<lambda>now q. admit_login_attempt sha256 config now (fst q) (snd q)) attempts empty_table"
  shows "int (length (filter (\<lambda>a. in_window now (login_window config) (fst a)) admitted)) \<le> login_global_max config
    \<and> int (length (filter (\<lambda>a. in_window now (login_window config) (fst a) \<and> fst (snd a) = address) admitted)) \<le> login_ip_max config"
proof -
  have nonneg: "0 \<le> login_global_max config" "0 \<le> login_ip_max config"
    using settings_positive by (simp_all add: less_imp_le)
  have b: "int (length (filter (\<lambda>a. in_window now (login_window config) (fst a)) admitted)) \<le> login_global_max config"
    "int (length (filter (\<lambda>a. in_window now (login_window config) (fst a)
        \<and> sha256 (valid_identity (fst (snd a))) = sha256 (valid_identity address)) admitted)) \<le> login_ip_max config"
    unfolding admitted by (rule login.window_budget [OF assms(1) nonneg])+
  have "length (filter (\<lambda>a. in_window now (login_window config) (fst a) \<and> fst (snd a) = address) admitted)
      \<le> length (filter (\<lambda>a. in_window now (login_window config) (fst a)
          \<and> sha256 (valid_identity (fst (snd a))) = sha256 (valid_identity address)) admitted)"
    by (rule filter_length_mono) auto
  then show ?thesis using b by linarith
qed

definition sample_attempts :: "(time \<times> string \<times> string) list" where
  "sample_attempts = [(0, ''a'', ''x''), (1, ''a'', ''y''), (2, ''b'', ''x''), (3, ''a'', ''x'')]"

text \<open>With two sign-ins per address, the third one of the address is refused.\<close>

theorem login_budget_witness:
  "map fst (admissions (\<lambda>now q. admit_login_attempt (\<lambda>t. t) [(''LOGIN_IP_MAX_ATTEMPTS'', J_int 2)] now (fst q) (snd q))
      sample_attempts empty_table) = [0, 1, 2]
   \<and> int (length (filter (\<lambda>a. in_window 3 (login_window [(''LOGIN_IP_MAX_ATTEMPTS'', J_int 2)]) (fst a) \<and> fst (snd a) = ''a'')
       (admissions (\<lambda>now q. admit_login_attempt (\<lambda>t. t) [(''LOGIN_IP_MAX_ATTEMPTS'', J_int 2)] now (fst q) (snd q))
         sample_attempts empty_table))) \<le> 2"
proof
  show "map fst (admissions (\<lambda>now q. admit_login_attempt (\<lambda>t. t) [(''LOGIN_IP_MAX_ATTEMPTS'', J_int 2)] now (fst q) (snd q))
      sample_attempts empty_table) = [0, 1, 2]" by code_simp
  have s: "sorted (map fst sample_attempts)" by (simp add: sample_attempts_def)
  have m: "login_ip_max [(''LOGIN_IP_MAX_ATTEMPTS'', J_int 2)] = 2" by code_simp
  show "int (length (filter (\<lambda>a. in_window 3 (login_window [(''LOGIN_IP_MAX_ATTEMPTS'', J_int 2)]) (fst a) \<and> fst (snd a) = ''a'')
       (admissions (\<lambda>now q. admit_login_attempt (\<lambda>t. t) [(''LOGIN_IP_MAX_ATTEMPTS'', J_int 2)] now (fst q) (snd q))
         sample_attempts empty_table))) \<le> 2"
    using conjunct2 [OF login_budget [OF s refl, of 3 "[(''LOGIN_IP_MAX_ATTEMPTS'', J_int 2)]" "\<lambda>t. t" "''a''"]] by (simp only: m)
qed

end
