(* ===== verification/Uptime.thy ===== *)
theory Uptime
  imports Settings
begin

text \<open>
  \<open>app/services/uptime.py\<close>: the online and offline time of a proxy and the labels the pages show. The two
  rounded hours of \<open>UptimeHours\<close> are floats and left out; the seconds they are computed from are kept.
\<close>

definition unit_text :: "int \<Rightarrow> string \<Rightarrow> string \<Rightarrow> string" where
  "unit_text v singular plural = show_int v @ '' '' @ (if v = 1 then singular else plural)"

definition month_seconds :: int where
  "month_seconds = 30 * 24 * 60 * 60"

definition duration_parts :: "int \<Rightarrow> (int \<times> string \<times> string) list" where
  "duration_parts s =
     (let r1 = s mod month_seconds; r2 = r1 mod (24 * 60 * 60); r3 = r2 mod (60 * 60) in
      filter (\<lambda>(v, _). v \<noteq> 0)
        [(s div month_seconds, ''month'', ''months''), (r1 div (24 * 60 * 60), ''day'', ''days''),
         (r2 div (60 * 60), ''hour'', ''hours''), (r3 div 60, ''minute'', ''minutes'')])"

definition format_duration :: "int \<Rightarrow> string" where
  "format_duration s =
     (let r = max 0 s; parts = duration_parts r in
      if r = 0 then ''0 hours''
      else if parts = [] then ''less than 1 minute''
      else join_with '' '' (map (\<lambda>(v, one, many). unit_text v one many) parts))"

record uptime =
  up_online :: int
  up_offline :: int
  up_online_label :: string
  up_offline_label :: string

definition observed_until :: "time \<Rightarrow> int option \<Rightarrow> proxy_row \<Rightarrow> time \<Rightarrow> time" where
  "observed_until current stale p since =
     (case stale of
        None \<Rightarrow> current
      | Some n \<Rightarrow> (case p_last_success p of None \<Rightarrow> since | Some t \<Rightarrow> min current (t + minutes (max 0 n))))"

definition uptime_hours :: "time \<Rightarrow> bool \<Rightarrow> int option \<Rightarrow> int option \<Rightarrow> proxy_row \<Rightarrow> uptime" where
  "uptime_hours current earning stale earned p =
     (let online = (if earning then (case earned of Some n \<Rightarrow> max 0 n | None \<Rightarrow> max 0 (p_online_secs p)) else 0);
          offline = max 0 (p_offline_secs p);
          (on2, off2) =
            (case p_online_since p of
               Some since \<Rightarrow>
                 if earned = None \<and> p_status p \<in> {Px_online, Px_suspect}
                 then (if earning then online + max 0 (whole_seconds (observed_until current stale p since - since)) else online,
                       offline)
                 else (online, offline + (case p_offline_since p of
                   Some t \<Rightarrow> if p_status p \<in> {Px_offline, Px_blocked} then max 0 (whole_seconds (current - t)) else 0 | None \<Rightarrow> 0))
             | None \<Rightarrow> (online, offline + (case p_offline_since p of
                   Some t \<Rightarrow> if p_status p \<in> {Px_offline, Px_blocked} then max 0 (whole_seconds (current - t)) else 0 | None \<Rightarrow> 0)))
      in \<lparr>up_online = on2, up_offline = off2, up_online_label = format_duration on2, up_offline_label = format_duration off2\<rparr>)"

subsection \<open>Reading a label back\<close>

definition unit_seconds :: "string \<Rightarrow> int option" where
  "unit_seconds u =
     (if u = ''month'' \<or> u = ''months'' then Some month_seconds else if u = ''day'' \<or> u = ''days'' then Some (24 * 60 * 60)
      else if u = ''hour'' \<or> u = ''hours'' then Some (60 * 60) else if u = ''minute'' \<or> u = ''minutes'' then Some 60 else None)"

fun read_units :: "string list \<Rightarrow> int option" where
  "read_units [] = Some 0"
| "read_units (n # u # rest) =
     (case (py_int n, unit_seconds u, read_units rest) of (Some v, Some k, Some t) \<Rightarrow> Some (v * k + t) | _ \<Rightarrow> None)"
| "read_units [_] = None"

definition read_duration :: "string \<Rightarrow> int option" where
  "read_duration t = read_units (split_on CHR '' '' t)"

lemma split_on_append: "c \<notin> set x \<Longrightarrow> split_on c (x @ c # y) = x # split_on c y"
  by (induction x) (auto split: list.split)

lemma split_on_none: "c \<notin> set x \<Longrightarrow> split_on c x = [x]"
  by (induction x) auto

lemma show_int_no_space: "CHR '' '' \<notin> set (show_int v)"
proof -
  have "CHR '' '' \<notin> set (show_nat n)" for n
    using show_nat_digits [of n] by (auto simp: list_all_iff is_digit_def code_def)
  then show ?thesis by (simp add: show_int_def)
qed

lemma show_nat_digits_bound: "0 < k \<Longrightarrow> n < 10 ^ k \<Longrightarrow> length (show_nat n) \<le> k"
proof (induction n arbitrary: k rule: show_nat.induct)
  case (1 n)
  show ?case
  proof (cases "n < 10")
    case True
    then show ?thesis using 1(2) by (simp add: show_nat.simps [of n])
  next
    case False
    then obtain j where k: "k = Suc j" "0 < j" using 1(2,3) by (cases k; cases "k - 1") auto
    then have "n div 10 < 10 ^ j" using 1(3) by (simp add: less_mult_imp_div_less mult.commute)
    then have "length (show_nat (n div 10)) \<le> j" using 1(1) [OF False k(2)] by simp
    then show ?thesis using False k(1) by (simp add: show_nat.simps [of n])
  qed
qed

lemma py_int_show: "0 \<le> v \<Longrightarrow> v < 10 ^ 19 \<Longrightarrow> py_int (show_int v) = Some v"
  using py_int_digits [of "show_nat (nat v)"] show_nat_digits [of "nat v"] show_nat_digits_bound [of 19 "nat v"]
  by (simp add: show_int_def digits_value_show_nat nat_less_iff)

definition part_seconds :: "int \<times> string \<times> string \<Rightarrow> int" where
  "part_seconds p = (case unit_seconds (fst (snd p)) of None \<Rightarrow> 0 | Some k \<Rightarrow> k)"

definition part_ok :: "int \<times> string \<times> string \<Rightarrow> bool" where
  "part_ok p \<longleftrightarrow> 0 \<le> fst p \<and> fst p < 10 ^ 19
     \<and> snd p \<in> {(''month'', ''months''), (''day'', ''days''), (''hour'', ''hours''), (''minute'', ''minutes'')}"

lemma units:
  "unit_seconds ''month'' = Some month_seconds" "unit_seconds ''months'' = Some month_seconds"
  "unit_seconds ''day'' = Some 86400" "unit_seconds ''days'' = Some 86400"
  "unit_seconds ''hour'' = Some 3600" "unit_seconds ''hours'' = Some 3600"
  "unit_seconds ''minute'' = Some 60" "unit_seconds ''minutes'' = Some 60"
  by (simp_all add: unit_seconds_def)

lemma part_unit:
  assumes "part_ok (v, one, many)"
  shows "unit_seconds (if v = 1 then one else many) = Some (part_seconds (v, one, many))"
    "CHR '' '' \<notin> set (if v = 1 then one else many)" "py_int (show_int v) = Some v"
proof -
  show "unit_seconds (if v = 1 then one else many) = Some (part_seconds (v, one, many))"
    using assms by (auto simp: part_ok_def part_seconds_def units)
  show "CHR '' '' \<notin> set (if v = 1 then one else many)" using assms by (auto simp: part_ok_def)
  show "py_int (show_int v) = Some v" using assms by (intro py_int_show) (simp_all add: part_ok_def)
qed

lemma read_parts:
  "list_all part_ok ps \<Longrightarrow> ps \<noteq> [] \<Longrightarrow>
     read_duration (join_with '' '' (map (\<lambda>(v, one, many). unit_text v one many) ps))
       = Some (sum_list (map (\<lambda>p. fst p * part_seconds p) ps))"
proof (induction ps)
  case (Cons p ps)
  obtain v one many where p: "p = (v, one, many)" by (cases p) auto
  have ok: "part_ok (v, one, many)" using Cons.prems(1) by (simp add: p)
  define u where "u = (if v = 1 then one else many)"
  have u: "unit_seconds u = Some (part_seconds p)" "CHR '' '' \<notin> set u" "py_int (show_int v) = Some v"
    using part_unit [OF ok] by (simp_all add: u_def p)
  have label: "unit_text v one many = show_int v @ CHR '' '' # u" by (simp add: unit_text_def u_def)
  have one: "read_units (show_int v # u # rest) = Some (v * part_seconds p + t)" if "read_units rest = Some t" for rest t
    using u that by simp
  show ?case
  proof (cases ps)
    case Nil
    then show ?thesis
      using one [OF read_units.simps(1)] u(2)
      by (simp add: p label read_duration_def split_on_append split_on_none show_int_no_space del: read_units.simps)
  next
    case (Cons q qs)
    let ?rest = "join_with '' '' (map (\<lambda>(v, one, many). unit_text v one many) ps)"
    have "read_units (split_on CHR '' '' ?rest) = Some (sum_list (map (\<lambda>p. fst p * part_seconds p) ps))"
      using Cons.IH Cons.prems(1) Cons by (simp add: read_duration_def)
    from one [OF this] show ?thesis
      using u(2) Cons by (simp add: p label read_duration_def split_on_append show_int_no_space)
  qed
qed simp

lemma sum_list_nonzero:
  "sum_list (map (\<lambda>p. fst p * f p) (filter (\<lambda>(v, _). v \<noteq> (0 :: int)) ps)) = sum_list (map (\<lambda>p. fst p * f p) ps)"
  by (induction ps) auto

text \<open>The mixed-radix sum of the four remainders.\<close>

lemma radix_sum:
  fixes s :: int
  defines "r1 \<equiv> s mod 2592000" defines "r2 \<equiv> r1 mod 86400" defines "r3 \<equiv> r2 mod 3600"
  shows "s div 2592000 * 2592000 + (r1 div 86400 * 86400 + (r2 div 3600 * 3600 + r3 div 60 * 60)) = s - s mod 60"
proof -
  have "r3 mod 60 = r2 mod 60" "r2 mod 60 = r1 mod 60" "r1 mod 60 = s mod 60"
    unfolding r1_def r2_def r3_def by (rule mod_mod_cancel, simp)+
  moreover have "s div 2592000 * 2592000 + r1 = s" "r1 div 86400 * 86400 + r2 = r1" "r2 div 3600 * 3600 + r3 = r2"
    "r3 div 60 * 60 + r3 mod 60 = r3"
    unfolding r1_def r2_def r3_def by (rule div_mult_mod_eq)+
  ultimately show ?thesis by linarith
qed

lemma radix_numerals: "(30 * 24 * 60 * 60 :: int) = 2592000" "(24 * 60 * 60 :: int) = 86400" "(60 * 60 :: int) = 3600"
  by simp_all

lemma parts_sum: "sum_list (map (\<lambda>p. fst p * part_seconds p) (duration_parts s)) = s - s mod 60"
  using radix_sum [of s]
  unfolding duration_parts_def Let_def sum_list_nonzero
  by (simp only: list.map sum_list.Cons sum_list.Nil fst_conv part_seconds_def units option.case snd_conv month_seconds_def
      add_0_right radix_numerals)

lemma parts_ok:
  assumes "0 \<le> s" "s < 2 ^ 63"
  shows "list_all part_ok (duration_parts s)"
proof -
  have b: "0 \<le> x div k \<and> x div k < 10 ^ 19" if "0 \<le> x" "x \<le> s" "0 < k" for x k :: int
  proof -
    have "x div k \<le> x" using that zdiv_mono2 [of x 1 k] by simp
    then show ?thesis using that assms pos_imp_zdiv_nonneg_iff [of k x] by simp
  qed
  define r1 where "r1 = s mod month_seconds"
  define r2 where "r2 = r1 mod (24 * 60 * 60)"
  define r3 where "r3 = r2 mod (60 * 60)"
  have r: "0 \<le> r1" "r1 \<le> s" "0 \<le> r2" "r2 \<le> s" "0 \<le> r3" "r3 \<le> s"
  proof -
    have m: "0 \<le> x mod k \<and> x mod k \<le> x" if "0 \<le> x" "0 < k" for x k :: int
      using that zmod_le_nonneg_dividend [of x k] by simp
    show "0 \<le> r1" "r1 \<le> s" using m [of s month_seconds] assms(1) by (simp_all add: r1_def month_seconds_def)
    then show "0 \<le> r2" "r2 \<le> s" using m [of r1 86400] by (simp_all add: r2_def)
    then show "0 \<le> r3" "r3 \<le> s" using m [of r2 3600] by (simp_all add: r3_def)
  qed
  have "list_all part_ok [(s div month_seconds, ''month'', ''months''), (r1 div (24 * 60 * 60), ''day'', ''days''),
         (r2 div (60 * 60), ''hour'', ''hours''), (r3 div 60, ''minute'', ''minutes'')]"
    using b [of s month_seconds] b [of r1 86400] b [of r2 3600] b [of r3 60] r assms(1)
    by (simp add: part_ok_def month_seconds_def)
  then show ?thesis
    unfolding duration_parts_def Let_def r1_def [symmetric] r2_def [symmetric] r3_def [symmetric]
    by (simp only: list_all_iff set_filter) blast
qed

text \<open>The label of a duration of a minute or more names exactly its whole minutes: read back by its units, it gives the
  duration less the seconds that do not fill a minute. A negative duration reads as none. The bound is the range of the
  integers of the database.\<close>

theorem duration_roundtrip:
  assumes "s \<le> 0 \<or> 60 \<le> s" "s < 2 ^ 63"
  shows "read_duration (format_duration s) = Some (max 0 s - max 0 s mod 60)"
proof (cases "s \<le> 0")
  case True
  have "read_duration ''0 hours'' = Some 0" by code_simp
  then show ?thesis using True by (simp add: format_duration_def)
next
  case False
  then have s: "60 \<le> s" using assms by simp
  then have "0 < s - s mod 60" using pos_mod_bound [of 60 s] by linarith
  then have ne: "duration_parts s \<noteq> []" using parts_sum [of s] by auto
  from read_parts [OF parts_ok ne] show ?thesis
    using s ne assms(2) parts_sum [of s] by (simp add: format_duration_def Let_def)
qed

theorem duration_roundtrip_witness:
  "format_duration 2682061 = ''1 month 1 day 1 hour 1 minute'' \<and> read_duration (format_duration 2682061) = Some 2682060"
proof -
  have "format_duration 2682061 = ''1 month 1 day 1 hour 1 minute''" by code_simp
  then show ?thesis using duration_roundtrip [of 2682061] by simp
qed

end
