(* ===== verification/Probe.thy ===== *)
theory Probe
  imports Proxy_Parser Json Dashboard Complex_Main
begin

text \<open>
  \<open>app/checker.py\<close>: the probes that decide whether a proxy is alive and which address it leaves by. A run of
  \<open>curl\<close> is the parameter \<open>pe_curl\<close> (what the \<open>k\<close>-th call of a check printed, or the text of an exception), the
  readings of \<open>time.monotonic\<close> are \<open>pe_clock\<close>, the random markers \<open>pe_marker\<close>, the resolver \<open>pe_pin\<close> (an address, or the
  text of an \<open>UnsafeProxyTarget\<close>) and
  \<open>json.loads\<close> \<open>pe_loads\<close>. Times are rationals; the limits given to curl itself are left out, and so is
  \<open>_bounded_subprocess_run\<close>, the threads that read its output.
\<close>

subsection \<open>Texts\<close>

fun occurs :: "string \<Rightarrow> string \<Rightarrow> bool" where
  "occurs m [] \<longleftrightarrow> m = []"
| "occurs m (c # s) \<longleftrightarrow> starts_with m (c # s) \<or> occurs m s"

text \<open>\<open>text.rsplit(m, 1)\<close>: at the last occurrence.\<close>

fun split_at_last :: "string \<Rightarrow> string \<Rightarrow> (string \<times> string) option" where
  "split_at_last m [] = None"
| "split_at_last m (c # s) =
     (case split_at_last m s of
        Some (a, b) \<Rightarrow> Some (c # a, b)
      | None \<Rightarrow> if starts_with m (c # s) then Some ('''', drop (length m) (c # s)) else None)"

definition utf8_length :: "string \<Rightarrow> nat" where
  "utf8_length t = sum_list (map (\<lambda>c. if code c < 128 then 1 else 2) t)"

text \<open>A character of the class \<open>\w\<close>.\<close>

definition word_char :: "char \<Rightarrow> bool" where
  "word_char c \<longleftrightarrow> is_alpha c \<or> is_digit c \<or> c = CHR ''_'' \<or> code c \<in> {178, 179, 185, 188, 189, 190}"

text \<open>\<open><(?:!doctype|html|head|body)\b\<close>.\<close>

definition html_tag_here :: "string \<Rightarrow> bool" where
  "html_tag_here t \<longleftrightarrow> list_ex (\<lambda>tag. starts_with tag t
     \<and> (case drop (length tag) t of [] \<Rightarrow> True | c # _ \<Rightarrow> \<not> word_char c))
     [''<!doctype'', ''<html'', ''<head'', ''<body'']"

fun html_tag :: "string \<Rightarrow> bool" where
  "html_tag [] = False"
| "html_tag (c # s) = (html_tag_here (c # s) \<or> html_tag s)"

subsection \<open>Reading an answer\<close>

definition parse_exit_ip :: "string \<Rightarrow> string" where
  "parse_exit_ip v = (case ip_address (strip v) of None \<Rightarrow> '''' | Some a \<Rightarrow> show_ip a)"

definition proxio_whoami_url :: string where
  "proxio_whoami_url = ''https://api.prox.io.vn/v1/check/whoami''"

definition probe_urls :: "string list" where
  "probe_urls = [''https://ifconfig.me/ip'', ''https://icanhazip.com'', ''https://checkip.amazonaws.com'', proxio_whoami_url]"

definition http_probe_urls :: "string list" where
  "http_probe_urls = [''http://ifconfig.me/ip'', ''http://icanhazip.com'']"

definition parse_probe_exit_ip :: "(string \<Rightarrow> json_object option) \<Rightarrow> string \<Rightarrow> string \<Rightarrow> string" where
  "parse_probe_exit_ip loads probe v =
     (if strip probe \<noteq> proxio_whoami_url then parse_exit_ip v
      else case loads v of None \<Rightarrow> '''' | Some d \<Rightarrow> parse_exit_ip (json_text (json_get d ''ip'') ''''))"

definition meta_field :: "nat \<Rightarrow> string \<Rightarrow> string \<Rightarrow> string" where
  "meta_field k meta dflt = (let fs = split_on CHR ''|'' (strip meta) in if k < length fs then fs ! k else dflt)"

text \<open>\<open>(urlsplit(url).hostname or "").lower()\<close>.\<close>

definition url_host_of :: "string \<Rightarrow> string result" where
  "url_host_of url = (case url_split url of
     None \<Rightarrow> Inl (ValueError ''Invalid URL'') | Some u \<Rightarrow> Inr (lower (url_hostname (url_netloc u))))"

definition captive_hosts :: "string list" where
  "captive_hosts = [''giahan.vnpt.com.vn'']"

definition captive_markers :: "string list" where
  "captive_markers = [''giahan.vnpt.com.vn'', ''/internet/logo.svg'', ''provider_blocked'']"

definition captive_error :: "string \<Rightarrow> string \<Rightarrow> string result" where
  "captive_error body meta =
     bindR (url_host_of (meta_field 1 meta '''')) (\<lambda>host.
       let t = lower body; ssl = meta_field 2 meta ''0'' in
       Inr (if host \<in> set captive_hosts \<or> list_ex (\<lambda>m. occurs m t) captive_markers
            then ''provider_blocked: captive portal redirected to '' @ (if host = '''' then ''provider portal'' else host)
            else if ssl \<noteq> '''' \<and> ssl \<noteq> ''0'' \<and> html_tag t
            then ''provider_blocked: intercepted HTTPS response with an untrusted certificate''
            else ''''))"

text \<open>\<open>int(code)\<close> of a text with \<open>code.isdigit()\<close>, nothing for another text.\<close>

definition digits_code :: "string \<Rightarrow> int option result" where
  "digits_code t = (if all_digits t
     then (case py_int t of None \<Rightarrow> Inl (ValueError ''invalid literal for int()'') | Some n \<Rightarrow> Inr (Some n)) else Inr None)"

definition meta_valid :: "string \<Rightarrow> string \<Rightarrow> bool \<Rightarrow> bool result" where
  "meta_valid meta probe require_tls =
     bindR (digits_code (meta_field 0 meta '''')) (\<lambda>c. case c of
       None \<Rightarrow> Inr False
     | Some n \<Rightarrow>
         if n < 200 \<or> 300 \<le> n then Inr False
         else bindR (url_host_of (meta_field 1 meta '''')) (\<lambda>h.
              bindR (url_host_of probe) (\<lambda>p. Inr (h = p \<and> (\<not> require_tls \<or> meta_field 2 meta ''0'' = ''0'')))))"

definition meta_http_code :: "string \<Rightarrow> int result" where
  "meta_http_code meta = bindR (digits_code (meta_field 0 meta '''')) (\<lambda>c. Inr (case c of None \<Rightarrow> 0 | Some n \<Rightarrow> n))"

subsection \<open>Failures\<close>

definition proxy_failure_codes :: "int set" where "proxy_failure_codes = {7, 67, 97}"
definition tls_codes :: "int set" where "tls_codes = {35, 51, 60}"

definition classify_curl_failure :: "int \<Rightarrow> string" where
  "classify_curl_failure n =
     (if n = 5 then ''proxy_dns'' else if n \<in> proxy_failure_codes then ''proxy'' else if n = 6 then ''probe_endpoint''
      else if n \<in> {5, 28, 52, 55, 56} then ''transient'' else if n \<in> tls_codes then ''tls'' else ''transient'')"

record response =
  rs_code :: int
  rs_body :: string
  rs_meta :: string
  rs_stderr :: string

record evidence =
  ev_proxy :: bool
  ev_endpoint :: bool
  ev_transient :: bool
  ev_uncertain :: bool

definition record_response_failure :: "response \<Rightarrow> string \<Rightarrow> bool \<Rightarrow> evidence \<Rightarrow> evidence result" where
  "record_response_failure r probe require_tls ev =
     (if rs_code r \<noteq> 0 then
        (let kind = classify_curl_failure (rs_code r) in
         Inr (if kind = ''proxy'' then ev\<lparr>ev_proxy := True\<rparr>
              else if kind = ''probe_endpoint'' then ev\<lparr>ev_endpoint := True\<rparr>
              else if kind = ''tls'' then ev\<lparr>ev_uncertain := True\<rparr>
              else ev\<lparr>ev_transient := True\<rparr>))
      else bindR (meta_http_code (rs_meta r)) (\<lambda>n.
        if n = 407 then Inr (ev\<lparr>ev_proxy := True\<rparr>)
        else bindR (meta_valid (rs_meta r) probe require_tls) (\<lambda>ok.
          Inr (if ok then ev else ev\<lparr>ev_endpoint := True\<rparr>))))"

subsection \<open>The quorum\<close>

text \<open>\<open>Counter(values).most_common(1)\<close>: the first of the values with the highest count.\<close>

definition most_common :: "string list \<Rightarrow> string" where
  "most_common vs = foldl (\<lambda>b v. if count_list vs b < count_list vs v then v else b) (hd vs) (tl vs)"

definition majority :: "string list \<Rightarrow> string" where
  "majority vs =
     (if vs = [] then ''''
      else let v = most_common vs; n = count_list vs v in if 2 \<le> n \<and> length vs < 2 * n then v else '''')"

fun quorum_values ::
  "(string \<Rightarrow> json_object option) \<Rightarrow> bool \<Rightarrow> (string \<times> response) list \<Rightarrow> string list result" where
  "quorum_values loads require_tls [] = Inr []"
| "quorum_values loads require_tls ((probe, r) # rs) =
     bindR (if rs_code r \<noteq> 0 then Inr False else meta_valid (rs_meta r) probe require_tls) (\<lambda>ok.
     bindR (quorum_values loads require_tls rs) (\<lambda>vs.
       Inr (let v = parse_probe_exit_ip loads probe (rs_body r) in if ok \<and> v \<noteq> '''' then v # vs else vs)))"

definition quorum :: "(string \<Rightarrow> json_object option) \<Rightarrow> bool \<Rightarrow> (string \<times> response) list \<Rightarrow> string result" where
  "quorum loads require_tls rs = bindR (quorum_values loads require_tls rs) (\<lambda>vs. Inr (majority vs))"

subsection \<open>One call of curl\<close>

record probe_proxy =
  pb_host :: string
  pb_port :: int
  pb_username :: string
  pb_password :: string
  pb_protocol :: string

definition bracketed :: "string \<Rightarrow> string" where
  "bracketed h = (case ip_address h of
     Some a \<Rightarrow> if ip_version a = 6 then ''['' @ strip_by (\<lambda>c. c = CHR ''['' \<or> c = CHR '']'') h @ '']'' else h
   | None \<Rightarrow> h)"

definition config_value :: "string \<Rightarrow> string" where
  "config_value t = concat (map (\<lambda>c. if c = CHR 0x5C then [CHR 0x5C, CHR 0x5C] else if c = CHR 0x22 then [CHR 0x5C, CHR 0x22] else [c]) t)"

definition proxy_scheme :: "probe_proxy \<Rightarrow> string" where
  "proxy_scheme p = (if lower (pb_protocol p) = ''socks5'' then ''socks5h'' else ''http'')"

definition proxy_config :: "probe_proxy \<Rightarrow> string" where
  "proxy_config p = ''proxy = '' @ [CHR 0x22] @ proxy_scheme p @ ''://'' @ config_value (bracketed (pb_host p)) @ '':'' @ show_int (pb_port p)
     @ [CHR 0x22, CHR 0x0A] @ ''proxy-user = '' @ [CHR 0x22] @ config_value (pb_username p) @ '':'' @ config_value (pb_password p)
     @ [CHR 0x22, CHR 0x0A]"

definition proxy_target :: "probe_proxy \<Rightarrow> string" where
  "proxy_target p = proxy_scheme p @ ''://'' @ bracketed (pb_host p) @ '':'' @ show_int (pb_port p)"

record curl_call =
  cu_target :: string
  cu_config :: string
  cu_insecure :: bool
  cu_probe :: string
  cu_marker :: string

datatype curl_answer = Curl_raised string | Curl_done int string string

record probe_env =
  pe_curl :: "nat \<Rightarrow> curl_answer"
  pe_clock :: "nat \<Rightarrow> rat"
  pe_marker :: "nat \<Rightarrow> string"
  pe_pin :: "string \<Rightarrow> int \<Rightarrow> string + string"
  pe_loads :: "string \<Rightarrow> json_object option"

text \<open>The local variables of a check, with the calls it made and the number of clock readings.\<close>

record probe_state =
  ps_errors :: "string list"
  ps_blocked :: "(string \<times> string) list"
  ps_ev :: evidence
  ps_trace :: "curl_call list"
  ps_ticks :: nat

definition no_evidence :: evidence where
  "no_evidence = \<lparr>ev_proxy = False, ev_endpoint = False, ev_transient = False, ev_uncertain = False\<rparr>"

definition fresh_state :: probe_state where
  "fresh_state = \<lparr>ps_errors = [], ps_blocked = [], ps_ev = no_evidence, ps_trace = [], ps_ticks = 0\<rparr>"

definition tick :: "probe_env \<Rightarrow> probe_state \<Rightarrow> rat \<times> probe_state" where
  "tick env s = (pe_clock env (ps_ticks s), s\<lparr>ps_ticks := Suc (ps_ticks s)\<rparr>)"

text \<open>What a call printed: the body before the last marker, the meta data after it.\<close>

definition read_output :: "string \<Rightarrow> int \<Rightarrow> string \<Rightarrow> string \<Rightarrow> response" where
  "read_output marker rc out err = (case split_at_last marker out of
     Some (body, meta) \<Rightarrow> \<lparr>rs_code = rc, rs_body = body, rs_meta = meta, rs_stderr = strip err\<rparr>
   | None \<Rightarrow> \<lparr>rs_code = rc, rs_body = out, rs_meta = '''', rs_stderr = strip err\<rparr>)"

definition max_probe_output :: nat where
  "max_probe_output = 4096 + 2048"

text \<open>The request goes to the pinned address; an error is the text of the second component in the code.\<close>

definition probe_once ::
  "probe_env \<Rightarrow> probe_proxy \<Rightarrow> string \<Rightarrow> bool \<Rightarrow> probe_state \<Rightarrow> (string + response) \<times> probe_state" where
  "probe_once env proxy probe insecure s =
     (case pe_pin env (pb_host proxy) (pb_port proxy) of
        Inl e \<Rightarrow> (Inl (''unsafe_target: '' @ e), s)
      | Inr address \<Rightarrow>
          (let p = proxy\<lparr>pb_host := address\<rparr>; k = length (ps_trace s);
               marker = ''__PROBE_META__:'' @ pe_marker env k @ '':'';
               s1 = s\<lparr>ps_trace := ps_trace s @ [\<lparr>cu_target = proxy_target p, cu_config = proxy_config p, cu_insecure = insecure,
                                                cu_probe = probe, cu_marker = marker\<rparr>]\<rparr>
           in case pe_curl env k of
                Curl_raised e \<Rightarrow> (Inl e, s1)
              | Curl_done rc out err \<Rightarrow>
                  if max_probe_output < utf8_length out then (Inl ''probe output exceeded the safety limit'', s1)
                  else (Inr (read_output marker rc out err), s1)))"

subsection \<open>Protocols and endpoints\<close>

text \<open>The protocols of \<open>_proxy_urls\<close>; the checks do not use its URLs.\<close>

definition proxy_protocols :: "probe_proxy \<Rightarrow> string list" where
  "proxy_protocols p =
     (let protocol = lower (if pb_protocol p = '''' then ''auto'' else pb_protocol p) in
      (if protocol \<in> {''auto'', ''socks5''} then [''socks5''] else [])
      @ (if protocol \<in> {''auto'', ''http'', ''https''} then [''http''] else []))"

definition probe_candidates :: "int \<Rightarrow> string list \<Rightarrow> (nat \<times> string) list" where
  "probe_candidates index unavailable =
     (let start = nat (max 0 index) mod length probe_urls in
      filter (\<lambda>(i, url). url \<notin> strip ` set unavailable)
        (map (\<lambda>k. let i = (start + k) mod length probe_urls in (i, probe_urls ! i)) [0..<length probe_urls]))"

record probe_answer =
  an_status :: string
  an_protocol :: string
  an_exit_ip :: string
  an_latency :: "int option"
  an_error :: string
  an_failure :: string
  an_endpoint :: string
  an_next :: int
  an_failed_endpoint :: string
  an_trusted :: bool

definition plain_answer :: "string \<Rightarrow> string \<Rightarrow> probe_answer" where
  "plain_answer status protocol = \<lparr>an_status = status, an_protocol = protocol, an_exit_ip = '''', an_latency = None,
     an_error = '''', an_failure = '''', an_endpoint = '''', an_next = 0, an_failed_endpoint = '''', an_trusted = False\<rparr>"

text \<open>Python's \<open>round\<close>: halves to even.\<close>

definition round_even :: "rat \<Rightarrow> int" where
  "round_even x = (let f = floor x; d = x - of_int f in
     if d < 1 / 2 then f else if d > 1 / 2 then f + 1 else if even f then f else f + 1)"

definition latency :: "rat \<Rightarrow> rat \<Rightarrow> int option" where
  "latency started t = Some (round_even ((t - started) * 1000))"

subsection \<open>The cheap observation\<close>

text \<open>One answered call, judged.\<close>

definition fast_verdict ::
  "(string \<Rightarrow> json_object option) \<Rightarrow> string \<Rightarrow> string \<Rightarrow> response \<Rightarrow> probe_answer \<Rightarrow> probe_answer result" where
  "fast_verdict loads expected probe r base =
     (let failed = (\<lambda>status err kind. base\<lparr>an_status := status, an_error := err, an_failure := kind\<rparr>) in
      bindR (captive_error (rs_body r) (rs_meta r)) (\<lambda>blocked.
        if blocked \<noteq> '''' then Inr (failed ''blocked'' blocked ''provider_blocked'')
        else if rs_code r \<in> tls_codes
        then Inr ((failed ''needs_confirmation'' (if rs_stderr r = '''' then ''TLS verification failed'' else rs_stderr r) ''tls'')
               \<lparr>an_failed_endpoint := probe\<rparr>)
        else if rs_code r \<noteq> 0
        then (let kind = classify_curl_failure (rs_code r) in
              Inr ((failed (if kind \<in> {''probe_endpoint'', ''proxy_dns''} then ''inconclusive'' else ''needs_confirmation'')
                     (if rs_stderr r = '''' then ''curl exited with '' @ show_int (rs_code r) else rs_stderr r) kind)
                   \<lparr>an_failed_endpoint := (if kind = ''probe_endpoint'' then probe else '''')\<rparr>))
        else bindR (meta_http_code (rs_meta r)) (\<lambda>code.
          if code = 407 then Inr (failed ''needs_confirmation'' ''proxy authentication rejected (HTTP 407)'' ''proxy'')
          else bindR (meta_valid (rs_meta r) probe True) (\<lambda>ok.
            if \<not> ok
            then Inr ((failed ''inconclusive'' ''probe endpoint returned an invalid HTTP response'' ''probe_endpoint'')
                        \<lparr>an_failed_endpoint := probe\<rparr>)
            else (let ip = parse_probe_exit_ip loads probe (rs_body r) in
              Inr (if ip = ''''
                   then (failed ''inconclusive'' ''probe endpoint did not return an IP address'' ''probe_endpoint'')
                          \<lparr>an_failed_endpoint := probe\<rparr>
                   else if expected \<noteq> '''' \<and> ip \<noteq> expected
                   then (failed ''needs_confirmation'' ''exit IP changed and requires independent confirmation'' ''egress_changed'')
                          \<lparr>an_exit_ip := ip\<rparr>
                   else base\<lparr>an_status := ''live'', an_exit_ip := ip\<rparr>))))))"

definition check_proxy_fast ::
  "probe_env \<Rightarrow> probe_proxy \<Rightarrow> int \<Rightarrow> string \<Rightarrow> string list \<Rightarrow> probe_answer result" where
  "check_proxy_fast env proxy index expected unavailable =
     (let (started, s) = tick env fresh_state in
      case proxy_protocols proxy of
        [] \<Rightarrow> Inr ((plain_answer ''needs_confirmation'' ''unknown'')
                \<lparr>an_error := ''proxy protocol is not supported'', an_failure := ''protocol''\<rparr>)
      | protocol # _ \<Rightarrow>
          (case probe_candidates index unavailable of
             [] \<Rightarrow> Inr ((plain_answer ''inconclusive'' protocol)
                     \<lparr>an_error := ''all probe endpoints are temporarily unavailable'', an_failure := ''probe_endpoint'',
                      an_next := (max 0 index + 1) mod int (length probe_urls)\<rparr>)
           | (i, probe) # _ \<Rightarrow>
               (let (r, s1) = probe_once env (proxy\<lparr>pb_protocol := protocol\<rparr>) probe False s; (t, s2) = tick env s1;
                    base = (plain_answer '''' protocol)\<lparr>an_latency := latency started t, an_endpoint := probe,
                              an_next := int ((i + 1) mod length probe_urls)\<rparr>
                in case r of
                     Inl e \<Rightarrow> Inr (base\<lparr>an_status := ''needs_confirmation'',
                                an_error := (if e = '''' then ''probe worker did not return a response'' else e),
                                an_failure := (if starts_with ''unsafe_target:'' e then ''unsafe_target'' else ''transient''),
                                an_failed_endpoint := probe\<rparr>)
                   | Inr resp \<Rightarrow> fast_verdict (pe_loads env) expected probe resp base)))"

subsection \<open>The strong check\<close>

definition add_evidence :: "evidence \<Rightarrow> probe_state \<Rightarrow> probe_state" where
  "add_evidence ev s = s\<lparr>ps_ev := \<lparr>ev_proxy = ev_proxy (ps_ev s) \<or> ev_proxy ev, ev_endpoint = ev_endpoint (ps_ev s) \<or> ev_endpoint ev,
     ev_transient = ev_transient (ps_ev s) \<or> ev_transient ev, ev_uncertain = ev_uncertain (ps_ev s) \<or> ev_uncertain ev\<rparr>\<rparr>"

definition transient :: evidence where "transient = no_evidence\<lparr>ev_transient := True\<rparr>"
definition uncertain :: evidence where "uncertain = no_evidence\<lparr>ev_uncertain := True\<rparr>"

text \<open>The loop over endpoints, the same in its three places: answers, captive portals, and the state. An exception
  with an empty text leaves no response to look into.\<close>

fun probe_round ::
  "probe_env \<Rightarrow> probe_proxy \<Rightarrow> bool \<Rightarrow> rat \<Rightarrow> string list \<Rightarrow> probe_state
     \<Rightarrow> ((string \<times> response) list \<times> string list \<times> probe_state) result" where
  "probe_round env proxy insecure limit [] s = Inr ([], [], s)"
| "probe_round env proxy insecure limit (probe # ps) s =
     (case tick env s of (t, s1) \<Rightarrow>
      if limit \<le> t then Inr ([], [], s1)
      else case probe_once env proxy probe insecure s1 of
        (Inl e, s2) \<Rightarrow>
          if e = '''' then Inl (TypeError ''NoneType object is not subscriptable'')
          else probe_round env proxy insecure limit ps (add_evidence transient (s2\<lparr>ps_errors := ps_errors s2 @ [e]\<rparr>))
      | (Inr r, s2) \<Rightarrow>
          bindR (captive_error (rs_body r) (rs_meta r)) (\<lambda>blocked.
            if blocked \<noteq> ''''
            then bindR (probe_round env proxy insecure limit ps s2) (\<lambda>(rs, bs, s3). Inr (rs, blocked # bs, s3))
            else bindR (record_response_failure r probe False no_evidence) (\<lambda>ev.
                 bindR (probe_round env proxy insecure limit ps (add_evidence ev s2)) (\<lambda>(rs, bs, s3).
                   Inr ((probe, r) # rs, bs, s3)))))"

datatype attempt = At_stop | At_again | At_return probe_answer

definition note_blocked :: "string \<Rightarrow> string list \<Rightarrow> probe_state \<Rightarrow> probe_state" where
  "note_blocked protocol bs s = s\<lparr>ps_blocked := ps_blocked s @ map (Pair protocol) bs\<rparr>"

definition unverified :: "string \<Rightarrow> string \<Rightarrow> int option \<Rightarrow> string \<Rightarrow> string \<Rightarrow> probe_answer" where
  "unverified protocol ip lat err endpoints = (plain_answer ''live_unverified'' protocol)
     \<lparr>an_exit_ip := ip, an_latency := lat, an_error := err, an_endpoint := endpoints\<rparr>"

text \<open>Without a trusted address: the plain endpoints, then the weaker verdicts.\<close>

definition plain_attempt ::
  "probe_env \<Rightarrow> probe_proxy \<Rightarrow> rat \<Rightarrow> rat \<Rightarrow> string \<Rightarrow> probe_state \<Rightarrow> (attempt \<times> probe_state) result" where
  "plain_attempt env p started limit insecure_ip s =
     bindR (probe_round env p False limit http_probe_urls s) (\<lambda>(plain, bs, s1).
       if bs \<noteq> [] then Inr (At_stop, note_blocked (pb_protocol p) bs s1)
       else bindR (quorum (pe_loads env) False plain) (\<lambda>plain_ip.
         let (t, s2) = tick env s1 in
         Inr (if insecure_ip \<noteq> ''''
              then At_return (unverified (pb_protocol p) insecure_ip (latency started t)
                     ''TLS certificate verification failed; exit IP confirmed by independent probes''
                     (join_with '','' probe_urls))
              else if plain_ip \<noteq> ''''
              then At_return (unverified (pb_protocol p) plain_ip (latency started t)
                     ''TLS probes unavailable; exit IP confirmed by independent plain HTTP probes''
                     (join_with '','' http_probe_urls))
              else At_again, s2)))"

text \<open>The endpoints again, without looking at certificates, when one of them failed on its certificate.\<close>

definition insecure_round ::
  "probe_env \<Rightarrow> probe_proxy \<Rightarrow> rat \<Rightarrow> string list \<Rightarrow> (string \<times> response) list \<Rightarrow> probe_state
     \<Rightarrow> ((string \<times> response) list \<times> string list \<times> probe_state) result" where
  "insecure_round env p limit probes verified s =
     (if list_ex (\<lambda>(_, r). rs_code r \<in> tls_codes) verified
      then probe_round env p True limit probes (add_evidence uncertain s) else Inr ([], [], s))"

definition strong_attempt ::
  "probe_env \<Rightarrow> probe_proxy \<Rightarrow> string \<Rightarrow> rat \<Rightarrow> rat \<Rightarrow> string list \<Rightarrow> probe_state \<Rightarrow> (attempt \<times> probe_state) result" where
  "strong_attempt env proxy protocol started limit unavailable s =
     (let p = proxy\<lparr>pb_protocol := protocol\<rparr>; probes = map snd (probe_candidates 0 unavailable) in
      bindR (probe_round env p False limit probes s) (\<lambda>(verified, bs1, s1).
      if bs1 \<noteq> [] then Inr (At_stop, note_blocked protocol bs1 s1)
      else bindR (quorum (pe_loads env) True verified) (\<lambda>verified_ip.
      bindR (insecure_round env p limit probes verified s1) (\<lambda>(insecure, bs2, s2).
      if bs2 \<noteq> [] then Inr (At_stop, note_blocked protocol bs2 s2)
      else bindR (quorum (pe_loads env) False insecure) (\<lambda>insecure_ip.
      if verified_ip \<noteq> ''''
      then (let (t, s3) = tick env s2 in
            Inr (At_return ((plain_answer ''live'' protocol)\<lparr>an_exit_ip := verified_ip, an_latency := latency started t,
                   an_endpoint := join_with '','' probe_urls, an_trusted := True\<rparr>), s3))
      else plain_attempt env p started limit insecure_ip s2)))))"

text \<open>Two attempts per protocol; the second reading of the clock sets the limits of the single calls.\<close>

fun strong_attempts ::
  "probe_env \<Rightarrow> probe_proxy \<Rightarrow> string \<Rightarrow> rat \<Rightarrow> rat \<Rightarrow> string list \<Rightarrow> nat \<Rightarrow> probe_state
     \<Rightarrow> (probe_answer option \<times> probe_state) result" where
  "strong_attempts env proxy protocol started limit unavailable 0 s = Inr (None, s)"
| "strong_attempts env proxy protocol started limit unavailable (Suc n) s =
     (case tick env s of (t, s1) \<Rightarrow>
      if limit \<le> t then Inr (None, s1)
      else bindR (strong_attempt env proxy protocol started limit unavailable (snd (tick env s1))) (\<lambda>(a, s2).
        case a of
          At_stop \<Rightarrow> Inr (None, s2)
        | At_return r \<Rightarrow> Inr (Some r, s2)
        | At_again \<Rightarrow> strong_attempts env proxy protocol started limit unavailable n s2))"

fun strong_protocols ::
  "probe_env \<Rightarrow> probe_proxy \<Rightarrow> rat \<Rightarrow> rat \<Rightarrow> string list \<Rightarrow> string list \<Rightarrow> probe_state
     \<Rightarrow> (probe_answer option \<times> probe_state) result" where
  "strong_protocols env proxy started deadline unavailable [] s = Inr (None, s)"
| "strong_protocols env proxy started deadline unavailable (protocol # rest) s =
     (case tick env s of (current, s1) \<Rightarrow>
      if deadline \<le> current then Inr (None, s1)
      else (let limit = current + max 1 ((deadline - current) / of_nat (length (protocol # rest))) in
        bindR (strong_attempts env proxy protocol started limit unavailable 2 s1) (\<lambda>(r, s2).
          case r of Some a \<Rightarrow> Inr (Some a, s2)
          | None \<Rightarrow> strong_protocols env proxy started deadline unavailable rest s2)))"

definition last_500 :: "string \<Rightarrow> string" where
  "last_500 t = drop (length t - 500) t"

definition strong_failure :: "probe_env \<Rightarrow> rat \<Rightarrow> probe_state \<Rightarrow> probe_answer" where
  "strong_failure env started s =
     (case ps_blocked s of
        (protocol, e) # _ \<Rightarrow>
          (plain_answer ''blocked'' protocol)\<lparr>an_latency := latency started (fst (tick env s)), an_error := e,
             an_failure := ''provider_blocked'', an_endpoint := join_with '','' probe_urls\<rparr>
      | [] \<Rightarrow>
          (let ev = ps_ev s;
               dead = (ev_proxy ev \<and> \<not> (ev_transient ev \<or> ev_uncertain ev \<or> ev_endpoint ev \<or> ps_errors s \<noteq> []));
               text = last_500 (join_with ''; '' (ps_errors s))
           in (plain_answer (if dead then ''dead'' else ''inconclusive'') ''unknown'')
                \<lparr>an_error := (if text = '''' then ''insufficient independent probe evidence'' else text),
                 an_failure := (if dead then ''proxy'' else if ev_endpoint ev then ''probe_endpoint'' else ''transient''),
                 an_endpoint := join_with '','' probe_urls\<rparr>))"

text \<open>The answer, and the state at the end.\<close>

definition check_proxy_strong ::
  "probe_env \<Rightarrow> probe_proxy \<Rightarrow> rat \<Rightarrow> string list \<Rightarrow> (probe_answer \<times> probe_state) result" where
  "check_proxy_strong env proxy timeout unavailable =
     (let (started, s) = tick env fresh_state; deadline = started + max 36 (max 1 timeout) in
      bindR (strong_protocols env proxy started deadline unavailable (proxy_protocols proxy) s) (\<lambda>(r, s1).
        Inr (case r of Some a \<Rightarrow> a | None \<Rightarrow> strong_failure env started s1, s1)))"

subsection \<open>What a check did\<close>

lemma tick_simps [simp]:
  "ps_trace (snd (tick env s)) = ps_trace s" "ps_ev (snd (tick env s)) = ps_ev s"
  "ps_errors (snd (tick env s)) = ps_errors s" "ps_blocked (snd (tick env s)) = ps_blocked s"
  by (simp_all add: tick_def)

definition calls :: "probe_state \<Rightarrow> nat" where
  "calls s = length (ps_trace s)"

text \<open>The \<open>k\<close>-th call reached the proxy or was refused by it; the proxy refused it.\<close>

definition reached :: "probe_env \<Rightarrow> nat \<Rightarrow> bool" where
  "reached env k \<longleftrightarrow> (\<exists>rc out err. pe_curl env k = Curl_done rc out err \<and> (rc = 0 \<or> rc \<in> proxy_failure_codes))"

definition refused :: "probe_env \<Rightarrow> probe_state \<Rightarrow> nat \<Rightarrow> bool" where
  "refused env s k \<longleftrightarrow> (\<exists>rc out err. pe_curl env k = Curl_done rc out err \<and> (rc \<in> proxy_failure_codes
     \<or> (rc = 0 \<and> meta_http_code (rs_meta (read_output (cu_marker (ps_trace s ! k)) 0 out err)) = Inr 407)))"

definition pinned_call :: "probe_env \<Rightarrow> probe_proxy \<Rightarrow> curl_call \<Rightarrow> bool" where
  "pinned_call env proxy c \<longleftrightarrow> (\<exists>a scheme. pe_pin env (pb_host proxy) (pb_port proxy) = Inr a
     \<and> cu_target c = scheme @ ''://'' @ bracketed a @ '':'' @ show_int (pb_port proxy))"

definition clear :: "probe_state \<Rightarrow> bool" where
  "clear s \<longleftrightarrow> \<not> ev_transient (ps_ev s) \<and> \<not> ev_uncertain (ps_ev s) \<and> \<not> ev_endpoint (ps_ev s)
     \<and> ps_errors s = [] \<and> ps_blocked s = []"

definition progress :: "probe_env \<Rightarrow> probe_proxy \<Rightarrow> probe_state \<Rightarrow> probe_state \<Rightarrow> bool" where
  "progress env proxy s s' \<longleftrightarrow>
     (\<exists>ext. ps_trace s' = ps_trace s @ ext \<and> list_all (pinned_call env proxy) ext)
     \<and> (clear s' \<longrightarrow> clear s \<and> (\<forall>k. calls s \<le> k \<and> k < calls s' \<longrightarrow> reached env k))
     \<and> (ev_proxy (ps_ev s') \<longrightarrow> ev_proxy (ps_ev s) \<or> (\<exists>k. calls s \<le> k \<and> k < calls s' \<and> refused env s' k))"

lemma refused_later: "ps_trace s' = ps_trace s @ ext \<Longrightarrow> k < calls s \<Longrightarrow> refused env s' k = refused env s k"
  by (simp add: refused_def calls_def nth_append)

lemma progress_refl [simp]: "progress env proxy s s"
  by (auto simp: progress_def)

lemma progress_trans:
  assumes "progress env proxy s s1" "progress env proxy s1 s2"
  shows "progress env proxy s s2"
proof -
  obtain e1 e2 where e: "ps_trace s1 = ps_trace s @ e1" "ps_trace s2 = ps_trace s1 @ e2"
    "list_all (pinned_call env proxy) e1" "list_all (pinned_call env proxy) e2"
    using assms by (auto simp: progress_def)
  have c: "calls s \<le> calls s1" "calls s1 \<le> calls s2" using e by (simp_all add: calls_def)
  have r: "reached env k" if "clear s2" "calls s \<le> k" "k < calls s2" for k
    using that assms by (cases "k < calls s1") (auto simp: progress_def)
  have f: "\<exists>k. calls s \<le> k \<and> k < calls s2 \<and> refused env s2 k" if p: "ev_proxy (ps_ev s2)" and n: "\<not> ev_proxy (ps_ev s)"
  proof (cases "ev_proxy (ps_ev s1)")
    case True
    then obtain k where "calls s \<le> k" "k < calls s1" "refused env s1 k" using assms(1) n by (auto simp: progress_def)
    then show ?thesis using refused_later [OF e(2)] c by (auto intro!: exI [of _ k])
  next
    case False
    then obtain k where "calls s1 \<le> k" "k < calls s2" "refused env s2 k" using assms(2) p by (auto simp: progress_def)
    then show ?thesis using c by (auto intro!: exI [of _ k])
  qed
  show ?thesis
    using assms e r f by (auto simp: progress_def)
qed

lemma progress_tick [simp]: "progress env proxy s (snd (tick env s))"
  by (auto simp: progress_def clear_def calls_def)

text \<open>More evidence that is not of a refusal.\<close>

lemma progress_evidence:
  "\<not> ev_proxy ev \<Longrightarrow> progress env proxy s (add_evidence ev s)"
  "progress env proxy s (s\<lparr>ps_errors := ps_errors s @ es\<rparr>)"
  "progress env proxy s (note_blocked pr bs s)"
  by (auto simp: progress_def add_evidence_def clear_def calls_def note_blocked_def)

lemma probe_once_cases:
  obtains (unsafe) e where "probe_once env p probe insecure s = (Inl e, s)"
  | (ran) c e where "probe_once env p probe insecure s = (Inl e, s\<lparr>ps_trace := ps_trace s @ [c]\<rparr>)" "pinned_call env p c"
  | (answered) c rc out err where
      "probe_once env p probe insecure s = (Inr (read_output (cu_marker c) rc out err), s\<lparr>ps_trace := ps_trace s @ [c]\<rparr>)"
      "pinned_call env p c" "pe_curl env (calls s) = Curl_done rc out err" "cu_probe c = probe" "cu_insecure c = insecure"
proof (cases "pe_pin env (pb_host p) (pb_port p)")
  case (Inl e)
  then show ?thesis by (intro unsafe) (simp add: probe_once_def)
next
  case (Inr a)
  define c where "c = \<lparr>cu_target = proxy_target (p\<lparr>pb_host := a\<rparr>), cu_config = proxy_config (p\<lparr>pb_host := a\<rparr>), cu_insecure = insecure,
      cu_probe = probe, cu_marker = ''__PROBE_META__:'' @ pe_marker env (length (ps_trace s)) @ '':''\<rparr>"
  have pin: "pinned_call env p c" by (auto simp: pinned_call_def c_def Inr proxy_target_def)
  show ?thesis
  proof (cases "pe_curl env (length (ps_trace s))")
    case (Curl_raised e)
    then show ?thesis using Inr by (intro ran [OF _ pin, of e]) (simp add: probe_once_def Let_def c_def)
  next
    case (Curl_done rc out err)
    show ?thesis
    proof (cases "max_probe_output < utf8_length out")
      case True
      then show ?thesis using Inr Curl_done
        by (intro ran [OF _ pin, of "''probe output exceeded the safety limit''"]) (simp add: probe_once_def Let_def c_def)
    next
      case False
      then show ?thesis using Inr Curl_done
        by (intro answered [OF _ pin, of rc out err]) (simp_all add: probe_once_def c_def calls_def Let_def)
    qed
  qed
qed

lemma classify_proxy: "classify_curl_failure n = ''proxy'' \<longleftrightarrow> n \<in> proxy_failure_codes"
  by (auto simp: classify_curl_failure_def proxy_failure_codes_def tls_codes_def)

lemma recorded:
  assumes "record_response_failure r probe tls no_evidence = Inr ev"
  shows "ev_proxy ev \<Longrightarrow> rs_code r \<in> proxy_failure_codes \<or> rs_code r = 0 \<and> meta_http_code (rs_meta r) = Inr 407"
    and "\<not> ev_transient ev \<Longrightarrow> \<not> ev_uncertain ev \<Longrightarrow> \<not> ev_endpoint ev \<Longrightarrow> rs_code r = 0 \<or> rs_code r \<in> proxy_failure_codes"
  using assms
  by (auto simp: record_response_failure_def Let_def no_evidence_def classify_proxy bindR_Inr_iff split: if_splits)

lemma progress_answered:
  assumes "pe_curl env (calls s) = Curl_done rc out err" "pinned_call env proxy c"
    and "record_response_failure (read_output (cu_marker c) rc out err) probe tls no_evidence = Inr ev"
  shows "progress env proxy s (add_evidence ev (s\<lparr>ps_trace := ps_trace s @ [c]\<rparr>))"
proof -
  have rc: "rs_code (read_output (cu_marker c) rc out err) = rc" by (simp add: read_output_def split: option.split)
  show ?thesis
    using recorded [OF assms(3)] assms(1,2)
    by (auto simp: progress_def rc add_evidence_def clear_def calls_def reached_def refused_def less_Suc_eq)
qed

lemma progress_blocked:
  assumes "pinned_call env proxy c" "bs \<noteq> []"
  shows "progress env proxy s (note_blocked pr bs (s\<lparr>ps_trace := ps_trace s @ [c]\<rparr>))"
  using assms by (auto simp: progress_def note_blocked_def clear_def)

text \<open>A call whose answer shows a captive portal, one without an answer.\<close>

lemma progress_portal:
  assumes "pinned_call env proxy c" "progress env proxy (s\<lparr>ps_trace := ps_trace s @ [c]\<rparr>) (note_blocked pr bs s')"
  shows "progress env proxy s (note_blocked pr (b # bs) s')"
  using assms by (auto simp: progress_def note_blocked_def clear_def calls_def refused_def intro: Suc_leD)

lemma progress_failed:
  assumes "probe_once env proxy probe insecure s = (Inl e, s')"
  shows "progress env proxy s (add_evidence transient (s'\<lparr>ps_errors := ps_errors s' @ [e]\<rparr>))"
  by (rule probe_once_cases [of env proxy probe insecure s])
    (use assms in \<open>auto simp: progress_def add_evidence_def clear_def calls_def transient_def no_evidence_def\<close>)

text \<open>An answer stands for a call of the trace.\<close>

definition vouched :: "probe_env \<Rightarrow> probe_state \<Rightarrow> bool \<Rightarrow> string \<times> response \<Rightarrow> bool" where
  "vouched env s insecure a \<longleftrightarrow> (\<exists>k rc out err. k < calls s \<and> cu_probe (ps_trace s ! k) = fst a
     \<and> cu_insecure (ps_trace s ! k) = insecure \<and> pe_curl env k = Curl_done rc out err
     \<and> snd a = read_output (cu_marker (ps_trace s ! k)) rc out err)"

lemma vouched_later:
  assumes "progress env proxy s s'" "vouched env s insecure a"
  shows "vouched env s' insecure a"
proof -
  obtain ext where ext: "ps_trace s' = ps_trace s @ ext" using assms(1) by (auto simp: progress_def)
  obtain k rc out err where k: "k < calls s" "cu_probe (ps_trace s ! k) = fst a" "cu_insecure (ps_trace s ! k) = insecure"
    "pe_curl env k = Curl_done rc out err" "snd a = read_output (cu_marker (ps_trace s ! k)) rc out err"
    using assms(2) by (auto simp: vouched_def)
  have at: "ps_trace s' ! k = ps_trace s ! k" "k < calls s'" using k(1) ext by (simp_all add: calls_def nth_append)
  show ?thesis unfolding vouched_def using k at by (intro exI [of _ k]) simp
qed

lemma vouched_state [simp]: "vouched env (note_blocked pr bs s) insecure a = vouched env s insecure a"
  "vouched env (add_evidence ev s) insecure a = vouched env s insecure a"
  by (simp_all add: vouched_def note_blocked_def add_evidence_def calls_def)

definition round_ok ::
  "probe_env \<Rightarrow> probe_proxy \<Rightarrow> bool \<Rightarrow> string list \<Rightarrow> probe_state \<Rightarrow> (string \<times> response) list \<Rightarrow> string list \<Rightarrow> probe_state \<Rightarrow> bool" where
  "round_ok env proxy insecure ps s rs bs s' \<longleftrightarrow> (\<forall>pr. progress env proxy s (note_blocked pr bs s'))
     \<and> (\<forall>a\<in>set rs. vouched env s' insecure a) \<and> set (map fst rs) \<subseteq> set ps \<and> (distinct ps \<longrightarrow> distinct (map fst rs))"

lemma round_ok_skip:
  assumes "progress env proxy s s1" "round_ok env proxy insecure ps s1 rs bs s'"
  shows "round_ok env proxy insecure (p # ps) s rs bs s'"
  using assms progress_trans [OF assms(1)] by (auto simp: round_ok_def)

lemma round_ok_before:
  assumes "progress env proxy s s1" "round_ok env proxy insecure ps s1 rs bs s'"
  shows "round_ok env proxy insecure ps s rs bs s'"
  using assms progress_trans [OF assms(1)] by (auto simp: round_ok_def)

lemma round_ok_portal:
  assumes "pinned_call env proxy c" "round_ok env proxy insecure ps (s\<lparr>ps_trace := ps_trace s @ [c]\<rparr>) rs bs s'"
  shows "round_ok env proxy insecure (p # ps) s rs (b # bs) s'"
  using assms progress_portal [OF assms(1)] by (auto simp: round_ok_def)

lemma round_ok_answer:
  assumes c: "pinned_call env proxy c" "pe_curl env (calls s) = Curl_done rc out err" "cu_probe c = p" "cu_insecure c = insecure"
    and r: "r = read_output (cu_marker c) rc out err" "record_response_failure r p False no_evidence = Inr ev"
    and rest: "round_ok env proxy insecure ps (add_evidence ev (s\<lparr>ps_trace := ps_trace s @ [c]\<rparr>)) rs bs s'"
  shows "round_ok env proxy insecure (p # ps) s ((p, r) # rs) bs s'"
proof -
  let ?s = "add_evidence ev (s\<lparr>ps_trace := ps_trace s @ [c]\<rparr>)"
  have "vouched env ?s insecure (p, r)"
    unfolding vouched_def using c r(1) by (intro exI [of _ "calls s"]) (simp add: calls_def add_evidence_def)
  moreover have "progress env proxy ?s (note_blocked [] bs s')" using rest by (simp add: round_ok_def)
  ultimately have v: "vouched env s' insecure (p, r)" using vouched_later vouched_state(1) by metis
  have "progress env proxy s ?s" by (rule progress_answered [OF c(2) c(1) r(2) [unfolded r(1)]])
  then show ?thesis using rest v progress_trans by (auto simp: round_ok_def)
qed

lemma probe_round_ok:
  "probe_round env proxy insecure limit ps s = Inr (rs, bs, s') \<Longrightarrow> round_ok env proxy insecure ps s rs bs s'"
proof (induction ps arbitrary: s rs bs s')
  case Nil
  then show ?case by (simp add: round_ok_def note_blocked_def)
next
  case (Cons probe ps)
  define s1 where "s1 = snd (tick env s)"
  have tick: "tick env s = (fst (tick env s), s1)" by (simp add: s1_def)
  have p1: "progress env proxy s s1" by (simp add: s1_def)
  show ?case
  proof (cases "limit \<le> fst (tick env s)")
    case True
    then show ?thesis using Cons.prems p1 tick by (auto simp: round_ok_def note_blocked_def split: prod.splits)
  next
    case early: False
    show ?thesis
    proof (rule probe_once_cases [of env proxy probe insecure s1])
      fix e assume o: "probe_once env proxy probe insecure s1 = (Inl e, s1)"
      then have run: "probe_round env proxy insecure limit ps (add_evidence transient (s1\<lparr>ps_errors := ps_errors s1 @ [e]\<rparr>)) = Inr (rs, bs, s')"
        using Cons.prems tick early by (auto split: prod.splits if_splits)
      show ?thesis by (rule round_ok_skip [OF progress_trans [OF p1 progress_failed [OF o]] Cons.IH [OF run]])
    next
      fix c e assume o: "probe_once env proxy probe insecure s1 = (Inl e, s1\<lparr>ps_trace := ps_trace s1 @ [c]\<rparr>)"
      then have run: "probe_round env proxy insecure limit ps
          (add_evidence transient (s1\<lparr>ps_trace := ps_trace s1 @ [c], ps_errors := ps_errors s1 @ [e]\<rparr>)) = Inr (rs, bs, s')"
        using Cons.prems tick early by (auto split: prod.splits if_splits)
      show ?thesis using round_ok_skip [OF progress_trans [OF p1 progress_failed [OF o]]] Cons.IH [OF run] by simp
    next
      fix c :: curl_call and rc out err
      define r where "r = read_output (cu_marker c) rc out err"
      define s2 where "s2 = s1\<lparr>ps_trace := ps_trace s1 @ [c]\<rparr>"
      assume o: "probe_once env proxy probe insecure s1 = (Inr (read_output (cu_marker c) rc out err), s1\<lparr>ps_trace := ps_trace s1 @ [c]\<rparr>)"
        and c: "pinned_call env proxy c" "pe_curl env (calls s1) = Curl_done rc out err" "cu_probe c = probe" "cu_insecure c = insecure"
      show ?thesis
      proof (cases "captive_error (rs_body r) (rs_meta r)")
        case (Inl x)
        then show ?thesis using Cons.prems tick early o by (auto simp: r_def split: prod.splits)
      next
        case (Inr b)
        show ?thesis
        proof (cases "b = []")
          case False
          then obtain bs' where "bs = b # bs'" "probe_round env proxy insecure limit ps s2 = Inr (rs, bs', s')"
            using Cons.prems tick early o Inr by (auto simp: r_def s2_def bindR_Inr_iff split: prod.splits)
          then show ?thesis
            using round_ok_portal [OF c(1)] Cons.IH progress_trans
            by (metis round_ok_before [OF p1] s2_def)
        next
          case True
          then obtain ev rs' where "rs = (probe, r) # rs'" "record_response_failure r probe False no_evidence = Inr ev"
            "probe_round env proxy insecure limit ps (add_evidence ev s2) = Inr (rs', bs, s')"
            using Cons.prems tick early o Inr by (auto simp: r_def s2_def bindR_Inr_iff split: prod.splits)
          then show ?thesis
            using round_ok_before [OF p1 round_ok_answer [OF c r_def]] Cons.IH by (metis s2_def)
        qed
      qed
    qed
  qed
qed

subsection \<open>The quorum, looked at\<close>

text \<open>An answer that counts as a vote for an address.\<close>

definition votes :: "(string \<Rightarrow> json_object option) \<Rightarrow> bool \<Rightarrow> string \<Rightarrow> string \<times> response \<Rightarrow> bool" where
  "votes loads tls ip a \<longleftrightarrow> rs_code (snd a) = 0 \<and> meta_valid (rs_meta (snd a)) (fst a) tls = Inr True
     \<and> parse_probe_exit_ip loads (fst a) (rs_body (snd a)) = ip \<and> ip \<noteq> ''''"

lemma quorum_values_votes:
  "quorum_values loads tls rs = Inr vs \<Longrightarrow> ip \<noteq> '''' \<Longrightarrow> count_list vs ip = length (filter (votes loads tls ip) rs)"
proof (induction rs arbitrary: vs)
  case Nil
  then show ?case by simp
next
  case (Cons a rs)
  obtain p r where a: "a = (p, r)" by force
  show ?case using Cons by (auto simp: a votes_def bindR_Inr_iff Let_def split: if_splits)
qed

lemma two_votes:
  "distinct (map fst rs) \<Longrightarrow> 2 \<le> length (filter P rs) \<Longrightarrow> \<exists>a\<in>set rs. \<exists>b\<in>set rs. fst a \<noteq> fst b \<and> P a \<and> P b"
proof (induction rs)
  case (Cons a rs)
  show ?case
  proof (cases "P a")
    case True
    then obtain b where "b \<in> set rs" "P b" using Cons.prems(2) by (cases "filter P rs") (auto simp: filter_eq_Cons_iff, blast)
    moreover have "fst a \<noteq> fst b" using Cons.prems(1) \<open>b \<in> set rs\<close> by auto
    ultimately show ?thesis using True by (intro bexI [of _ a] bexI [of _ b]) auto
  qed (use Cons in auto)
qed simp

lemma majority_count: "majority vs \<noteq> '''' \<Longrightarrow> 2 \<le> count_list vs (majority vs)"
  by (auto simp: majority_def Let_def split: if_splits)

lemma quorum_votes:
  assumes "quorum loads tls rs = Inr ip" "ip \<noteq> ''''" "distinct (map fst rs)"
  shows "\<exists>a\<in>set rs. \<exists>b\<in>set rs. fst a \<noteq> fst b \<and> votes loads tls ip a \<and> votes loads tls ip b"
proof -
  obtain vs where "quorum_values loads tls rs = Inr vs" "ip = majority vs"
    using assms(1) by (auto simp: quorum_def bindR_Inr_iff)
  then show ?thesis using quorum_values_votes majority_count assms(2,3) by (intro two_votes) (auto, metis)
qed

text \<open>Two calls of a check, to different endpoints, answered with the same address.\<close>

definition confirmed :: "probe_env \<Rightarrow> probe_state \<Rightarrow> bool \<Rightarrow> bool \<Rightarrow> string \<Rightarrow> bool" where
  "confirmed env s tls insecure ip \<longleftrightarrow>
     (\<exists>a b. fst a \<noteq> fst b \<and> vouched env s insecure a \<and> vouched env s insecure b
        \<and> votes (pe_loads env) tls ip a \<and> votes (pe_loads env) tls ip b)"

lemma round_confirms:
  assumes "round_ok env proxy insecure ps s rs bs s'" "distinct ps" "quorum (pe_loads env) tls rs = Inr ip" "ip \<noteq> ''''"
  shows "confirmed env s' tls insecure ip"
proof -
  have "distinct (map fst rs)" "\<forall>a\<in>set rs. vouched env s' insecure a" using assms by (auto simp: round_ok_def)
  then show ?thesis using quorum_votes [OF assms(3,4)] unfolding confirmed_def by blast
qed

lemma confirmed_later: "progress env proxy s s' \<Longrightarrow> confirmed env s tls insecure ip \<Longrightarrow> confirmed env s' tls insecure ip"
  using vouched_later unfolding confirmed_def by blast

lemma candidates_distinct: "distinct (map snd (probe_candidates 0 unavailable))"
  unfolding probe_candidates_def Let_def
  by (rule distinct_map_filter) (simp add: probe_urls_def proxio_whoami_url_def upt_rec)

text \<open>What a check may say, given the calls it made.\<close>

definition honest :: "probe_env \<Rightarrow> probe_state \<Rightarrow> probe_answer \<Rightarrow> bool" where
  "honest env s a \<longleftrightarrow>
     (an_status a = ''live'' \<and> an_trusted a \<and> confirmed env s True False (an_exit_ip a))
     \<or> (an_status a = ''live_unverified'' \<and> \<not> an_trusted a \<and> (\<exists>insecure. confirmed env s False insecure (an_exit_ip a)))"

lemma http_distinct: "distinct http_probe_urls"
  by (simp add: http_probe_urls_def)

lemma progress_protocol [simp]: "progress env (proxy\<lparr>pb_protocol := pr\<rparr>) = progress env proxy"
  by (intro ext) (simp add: progress_def pinned_call_def list_all_iff)

lemma progress_uncertain: "progress env proxy s (add_evidence uncertain s)"
  by (rule progress_evidence) (simp add: uncertain_def no_evidence_def)

lemma round_progress:
  "probe_round env (proxy\<lparr>pb_protocol := pr\<rparr>) insecure limit ps s = Inr (rs, bs, s') \<Longrightarrow> progress env proxy s (note_blocked protocol bs s')"
  "probe_round env (proxy\<lparr>pb_protocol := pr\<rparr>) insecure limit ps s = Inr (rs, [], s') \<Longrightarrow> progress env proxy s s'"
  using probe_round_ok [of env "proxy\<lparr>pb_protocol := pr\<rparr>" insecure limit ps s rs] by (fastforce simp: round_ok_def note_blocked_def)+

text \<open>What holds of a round, as the attempts use it.\<close>

definition round_facts ::
  "probe_env \<Rightarrow> probe_proxy \<Rightarrow> bool \<Rightarrow> probe_state \<Rightarrow> (string \<times> response) list \<Rightarrow> string list \<Rightarrow> probe_state \<Rightarrow> bool" where
  "round_facts env proxy insecure s rs bs s' \<longleftrightarrow> (\<forall>pr. progress env proxy s (note_blocked pr bs s'))
     \<and> (\<forall>tls ip. quorum (pe_loads env) tls rs = Inr ip \<and> ip \<noteq> [] \<longrightarrow> confirmed env s' tls insecure ip)"

lemma round_factsI:
  "probe_round env (proxy\<lparr>pb_protocol := pr\<rparr>) insecure limit ps s = Inr (rs, bs, s') \<Longrightarrow> distinct ps
     \<Longrightarrow> round_facts env proxy insecure s rs bs s'"
  using round_confirms [OF probe_round_ok] probe_round_ok [of env "proxy\<lparr>pb_protocol := pr\<rparr>" insecure limit ps s rs bs s']
  by (simp add: round_facts_def round_ok_def)

lemma round_facts_clean: "round_facts env proxy insecure s rs [] s' \<Longrightarrow> progress env proxy s s'"
  by (simp add: round_facts_def note_blocked_def)

lemma insecure_round_facts:
  assumes "insecure_round env (proxy\<lparr>pb_protocol := pr\<rparr>) limit (map snd (probe_candidates 0 unavailable)) v s = Inr (rs, bs, s')"
  shows "round_facts env proxy True s rs bs s'"
proof (cases "list_ex (\<lambda>(_, r). rs_code r \<in> tls_codes) v")
  case True
  then have "round_facts env proxy True (add_evidence uncertain s) rs bs s'"
    using assms round_factsI [OF _ candidates_distinct] by (auto simp: insecure_round_def simp del: list_ex_iff)
  then show ?thesis using progress_trans [OF progress_uncertain] by (simp add: round_facts_def)
next
  case False
  then have "rs = []" "bs = []" "s' = s" using assms by (auto simp: insecure_round_def simp del: list_ex_iff)
  then show ?thesis by (simp add: round_facts_def note_blocked_def quorum_def majority_def)
qed

definition attempt_ok :: "probe_env \<Rightarrow> probe_proxy \<Rightarrow> probe_state \<Rightarrow> attempt \<Rightarrow> probe_state \<Rightarrow> bool" where
  "attempt_ok env proxy s a s' \<longleftrightarrow> progress env proxy s s' \<and> (\<forall>r. a = At_return r \<longrightarrow> honest env s' r)"

lemma attempt_ok_stop: "round_facts env proxy insecure s rs bs s' \<Longrightarrow> attempt_ok env proxy s At_stop (note_blocked pr bs s')"
  by (simp add: attempt_ok_def round_facts_def)

lemma attempt_ok_trans: "progress env proxy s s1 \<Longrightarrow> attempt_ok env proxy s1 a s2 \<Longrightarrow> attempt_ok env proxy s a s2"
  using progress_trans by (auto simp: attempt_ok_def)

lemma plain_attempt_ok:
  assumes run: "plain_attempt env (proxy\<lparr>pb_protocol := pr\<rparr>) started limit ip s = Inr (a, s')"
    and ip: "ip \<noteq> [] \<Longrightarrow> confirmed env s False True ip"
  shows "attempt_ok env proxy s a s'"
proof -
  let ?p = "proxy\<lparr>pb_protocol := pr\<rparr>"
  obtain rs bs s1 where r: "probe_round env ?p False limit http_probe_urls s = Inr (rs, bs, s1)"
    using run by (auto simp: plain_attempt_def bindR_Inr_iff)
  have f: "round_facts env proxy False s rs bs s1" by (rule round_factsI [OF r http_distinct])
  show ?thesis
  proof (cases "bs = []")
    case False
    then show ?thesis using run r attempt_ok_stop [OF f, of pr] by (auto simp: plain_attempt_def bindR_Inr_iff)
  next
    case True
    then have g: "progress env proxy s s1" using f round_facts_clean by blast
    then have t: "progress env proxy s (snd (tick env s1))" by (rule progress_trans [OF _ progress_tick])
    have c: "ip \<noteq> [] \<Longrightarrow> confirmed env (snd (tick env s1)) False True ip"
      using ip confirmed_later [OF progress_tick] confirmed_later [OF g] by blast
    obtain q where q: "quorum (pe_loads env) False rs = Inr q" using run r True by (auto simp: plain_attempt_def bindR_Inr_iff)
    have "q \<noteq> [] \<Longrightarrow> confirmed env (snd (tick env s1)) False False q"
      using f q confirmed_later [OF progress_tick] by (simp add: round_facts_def)
    moreover have s': "s' = snd (tick env s1)" "a = At_return r \<Longrightarrow> (ip \<noteq> [] \<or> q \<noteq> []) \<and> an_status r = ''live_unverified'' \<and> \<not> an_trusted r
        \<and> an_exit_ip r = (if ip \<noteq> [] then ip else q)" for r
      using run r True q by (auto simp: plain_attempt_def case_prod_beta Let_def unverified_def plain_answer_def split: if_splits)
    ultimately show ?thesis using t c by (auto simp: attempt_ok_def honest_def split: if_splits)
  qed
qed

lemma strong_attempt_ok:
  assumes "strong_attempt env proxy protocol started limit unavailable s = Inr (a, s')"
  shows "attempt_ok env proxy s a s'"
proof -
  let ?p = "proxy\<lparr>pb_protocol := protocol\<rparr>" and ?ps = "map snd (probe_candidates 0 unavailable)"
  note run = assms [unfolded strong_attempt_def Let_def]
  obtain rs1 bs1 s1 where r1: "probe_round env ?p False limit ?ps s = Inr (rs1, bs1, s1)"
    using run by (auto simp: bindR_Inr_iff)
  have f1: "round_facts env proxy False s rs1 bs1 s1" by (rule round_factsI [OF r1 candidates_distinct])
  show ?thesis
  proof (cases "bs1 = []")
    case False
    then show ?thesis using run r1 attempt_ok_stop [OF f1] by (auto simp: bindR_Inr_iff)
  next
    case b1: True
    have g1: "progress env proxy s s1" using f1 round_facts_clean b1 by blast
    obtain ip1 rs2 bs2 s2 where q1: "quorum (pe_loads env) True rs1 = Inr ip1"
      and r2: "insecure_round env ?p limit ?ps rs1 s1 = Inr (rs2, bs2, s2)"
      using run r1 b1 by (auto simp: bindR_Inr_iff)
    have f2: "round_facts env proxy True s1 rs2 bs2 s2" by (rule insecure_round_facts [OF r2])
    show ?thesis
    proof (cases "bs2 = []")
      case False
      then show ?thesis using run r1 b1 q1 r2 attempt_ok_trans [OF g1 attempt_ok_stop [OF f2]] by (auto simp: bindR_Inr_iff)
    next
      case b2: True
      then have g2: "progress env proxy s1 s2" using f2 round_facts_clean by blast
      obtain ip2 where q2: "quorum (pe_loads env) False rs2 = Inr ip2" using run r1 b1 q1 r2 b2 by (auto simp: bindR_Inr_iff)
      have c2: "ip2 \<noteq> [] \<Longrightarrow> confirmed env s2 False True ip2" using f2 q2 by (simp add: round_facts_def)
      have c1: "ip1 \<noteq> [] \<Longrightarrow> confirmed env (snd (tick env s2)) True False ip1"
        using f1 q1 confirmed_later [OF progress_tick] confirmed_later [OF g2] by (simp add: round_facts_def)
      have "attempt_ok env proxy s2 a s'"
        using run r1 b1 q1 r2 b2 q2 c1 plain_attempt_ok [of env protocol proxy started limit ip2 s2 a s', OF _ c2]
        by (auto simp: case_prod_beta bindR_Inr_iff attempt_ok_def honest_def plain_answer_def split: if_splits)
      then show ?thesis by (rule attempt_ok_trans [OF progress_trans [OF g1 g2]])
    qed
  qed
qed

lemma strong_attempts_ok:
  "strong_attempts env proxy protocol started limit unavailable n s = Inr (a, s')
    \<Longrightarrow> progress env proxy s s' \<and> (\<forall>r. a = Some r \<longrightarrow> honest env s' r)"
proof (induction n arbitrary: s)
  case 0
  then show ?case by auto
next
  case (Suc n)
  let ?s1 = "snd (tick env s)" and ?s2 = "snd (tick env (snd (tick env s)))"
  have t: "progress env proxy s ?s1" "progress env proxy s ?s2" by (auto intro: progress_trans [OF progress_tick progress_tick])
  show ?case
  proof (cases "limit \<le> fst (tick env s)")
    case True
    then show ?thesis using Suc.prems t by (auto simp: case_prod_beta)
  next
    case False
    then obtain b s3 where b: "strong_attempt env proxy protocol started limit unavailable ?s2 = Inr (b, s3)"
      using Suc.prems by (auto simp: case_prod_beta bindR_Inr_iff)
    have ok: "attempt_ok env proxy s b s3" by (rule attempt_ok_trans [OF t(2) strong_attempt_ok [OF b]])
    show ?thesis
      using Suc.prems False b ok Suc.IH [of s3] progress_trans [of env proxy s s3 s']
      by (cases b) (auto simp: case_prod_beta bindR_Inr_iff attempt_ok_def)
  qed
qed

lemma strong_protocols_ok:
  "strong_protocols env proxy started deadline unavailable protocols s = Inr (a, s')
    \<Longrightarrow> progress env proxy s s' \<and> (\<forall>r. a = Some r \<longrightarrow> honest env s' r)"
proof (induction protocols arbitrary: s)
  case Nil
  then show ?case by auto
next
  case (Cons protocol rest)
  let ?s1 = "snd (tick env s)" and ?t = "fst (tick env s)"
  show ?case
  proof (cases "deadline \<le> ?t")
    case True
    then show ?thesis using Cons.prems by (auto simp: case_prod_beta)
  next
    case False
    then obtain b s2 where b: "strong_attempts env proxy protocol started
        (?t + max 1 ((deadline - ?t) / of_nat (length (protocol # rest)))) unavailable 2 ?s1 = Inr (b, s2)"
      using Cons.prems by (auto simp: case_prod_beta bindR_Inr_iff Let_def)
    have ok: "progress env proxy s s2" "\<forall>r. b = Some r \<longrightarrow> honest env s2 r"
      using strong_attempts_ok [OF b] progress_trans [OF progress_tick] by auto
    show ?thesis
      using Cons.prems False b ok Cons.IH [of s2] progress_trans [OF ok(1), of s']
      by (cases b) (auto simp: case_prod_beta bindR_Inr_iff Let_def)
  qed
qed

lemma check_proxy_strong_ok:
  assumes "check_proxy_strong env proxy timeout unavailable = Inr (a, s)"
  shows "progress env proxy fresh_state s \<and> (honest env s a \<or> (\<exists>started. a = strong_failure env started s))"
proof -
  obtain r where r: "strong_protocols env proxy (fst (tick env fresh_state)) (fst (tick env fresh_state) + max 36 (max 1 timeout))
      unavailable (proxy_protocols proxy) (snd (tick env fresh_state)) = Inr (r, s)"
    "a = (case r of Some a \<Rightarrow> a | None \<Rightarrow> strong_failure env (fst (tick env fresh_state)) s)"
    using assms by (auto simp: check_proxy_strong_def case_prod_beta bindR_Inr_iff Let_def cong: option.case_cong)
  show ?thesis
    using strong_protocols_ok [OF r(1)] r(2) progress_trans [OF progress_tick] by (cases r) auto
qed

lemma strong_failure_status:
  "an_status (strong_failure env started s) \<notin> {''live'', ''live_unverified''} \<and> \<not> an_trusted (strong_failure env started s)"
  "an_status (strong_failure env started s) = ''dead'' \<Longrightarrow> clear s \<and> ev_proxy (ps_ev s)"
  by (auto simp: strong_failure_def plain_answer_def clear_def Let_def split: list.splits if_splits)

subsection \<open>The verdicts\<close>

text \<open>The answers two endpoints gave: the \<open>i\<close>-th call ended without an error, its meta data are those of an accepted answer, and
  it printed the address.\<close>

definition call_reports :: "probe_env \<Rightarrow> probe_state \<Rightarrow> bool \<Rightarrow> string \<Rightarrow> nat \<Rightarrow> bool" where
  "call_reports env s tls ip i \<longleftrightarrow> i < calls s \<and> (\<exists>out err.
     pe_curl env i = Curl_done 0 out err
     \<and> (let r = read_output (cu_marker (ps_trace s ! i)) 0 out err; probe = cu_probe (ps_trace s ! i) in
         meta_valid (rs_meta r) probe tls = Inr True \<and> parse_probe_exit_ip (pe_loads env) probe (rs_body r) = ip))"

lemma vouched_reports:
  "vouched env s insecure a \<Longrightarrow> votes (pe_loads env) tls ip a
    \<Longrightarrow> \<exists>i. call_reports env s tls ip i \<and> cu_probe (ps_trace s ! i) = fst a \<and> cu_insecure (ps_trace s ! i) = insecure \<and> ip \<noteq> []"
proof -
  assume "vouched env s insecure a" and v: "votes (pe_loads env) tls ip a"
  then obtain k rc out err where k: "k < calls s" "cu_probe (ps_trace s ! k) = fst a" "cu_insecure (ps_trace s ! k) = insecure"
    "pe_curl env k = Curl_done rc out err" "snd a = read_output (cu_marker (ps_trace s ! k)) rc out err"
    by (auto simp: vouched_def)
  moreover have "rc = 0" using v k(5) by (auto simp: votes_def read_output_def split: option.splits prod.splits)
  ultimately show ?thesis using v unfolding call_reports_def votes_def Let_def by (intro exI [of _ k]) simp
qed

lemma confirmed_reports:
  assumes "confirmed env s tls insecure ip"
  shows "ip \<noteq> [] \<and> (\<exists>i j. call_reports env s tls ip i \<and> call_reports env s tls ip j
    \<and> cu_probe (ps_trace s ! i) \<noteq> cu_probe (ps_trace s ! j)
    \<and> cu_insecure (ps_trace s ! i) = insecure \<and> cu_insecure (ps_trace s ! j) = insecure)"
  using assms unfolding confirmed_def by (metis vouched_reports)

text \<open>C34. An address is reported only when two different endpoints answered with it, each in a call of this very check that
  ended without an error. A \<open>live\<close> answer, the only trusted one, rests on two answers with a verified certificate each, in calls
  made without \<open>--insecure\<close>.\<close>

theorem live_needs_two_endpoints:
  assumes "check_proxy_strong env proxy timeout unavailable = Inr (a, s)"
    and "an_status a \<in> {''live'', ''live_unverified''} \<or> an_trusted a"
  shows "an_exit_ip a \<noteq> [] \<and> (an_trusted a \<longleftrightarrow> an_status a = ''live'')
    \<and> (\<exists>i j. cu_probe (ps_trace s ! i) \<noteq> cu_probe (ps_trace s ! j)
        \<and> call_reports env s (an_trusted a) (an_exit_ip a) i \<and> call_reports env s (an_trusted a) (an_exit_ip a) j
        \<and> (an_trusted a \<longrightarrow> \<not> cu_insecure (ps_trace s ! i) \<and> \<not> cu_insecure (ps_trace s ! j)))"
proof -
  have "honest env s a" using check_proxy_strong_ok [OF assms(1)] assms(2) strong_failure_status(1) by auto
  then consider "an_status a = ''live''" "an_trusted a" "confirmed env s True False (an_exit_ip a)"
    | insecure where "an_status a = ''live_unverified''" "\<not> an_trusted a" "confirmed env s False insecure (an_exit_ip a)"
    unfolding honest_def by blast
  then show ?thesis
    by cases (drule confirmed_reports, simp, blast)+
qed

text \<open>The resolver of the program as the pinning of a check; it raises nothing but \<open>UnsafeProxyTarget\<close>
  (\<open>only_unsafe\<close>), so the second branch is not taken.\<close>

definition pin_with :: "(string \<Rightarrow> int \<Rightarrow> string + string option list) \<Rightarrow> string \<Rightarrow> int \<Rightarrow> string + string" where
  "pin_with resolver host port =
     (case resolve_public_proxy_host resolver host port of
        Inl (UnsafeProxyTarget m) \<Rightarrow> Inl m | Inl e \<Rightarrow> Inl [] | Inr a \<Rightarrow> Inr a)"

text \<open>A world to try the checks in: time runs out after a few readings of the clock.\<close>

definition probed_proxy :: probe_proxy where
  "probed_proxy = \<lparr>pb_host = ''8.8.8.8'', pb_port = 1080, pb_username = ''u'', pb_password = ''p'', pb_protocol = ''socks5''\<rparr>"

definition probed_env :: "nat \<Rightarrow> (nat \<Rightarrow> curl_answer) \<Rightarrow> probe_env" where
  "probed_env n curl = \<lparr>pe_curl = curl, pe_clock = (\<lambda>k. if k < n then 0 else 100), pe_marker = (\<lambda>_. ''m''),
     pe_pin = pin_with (\<lambda>_ _. Inr []), pe_loads = (\<lambda>_. None)\<rparr>"

definition live_env :: probe_env where
  "live_env = probed_env 6 (\<lambda>k. Curl_done 0 (''9.9.9.9 __PROBE_META__:m:200|'' @ probe_urls ! k @ ''|0'') [])"

definition dead_env :: probe_env where
  "dead_env = probed_env 5 (\<lambda>k. Curl_done 7 [] ''refused'')"

lemma live_run:
  obtains a s where "check_proxy_strong live_env probed_proxy 10 [] = Inr (a, s)"
    "an_status a = ''live''" "an_exit_ip a = ''9.9.9.9''" "an_trusted a"
proof -
  have "(case check_proxy_strong live_env probed_proxy 10 [] of Inl e \<Rightarrow> False
     | Inr (a, s) \<Rightarrow> an_status a = ''live'' \<and> an_exit_ip a = ''9.9.9.9'' \<and> an_trusted a)"
    by code_simp
  then show ?thesis using that by (auto split: sum.splits)
qed

lemma dead_run:
  obtains a s where "check_proxy_strong dead_env probed_proxy 10 [] = Inr (a, s)" "an_status a = ''dead''" "ps_trace s \<noteq> []"
proof -
  have "(case check_proxy_strong dead_env probed_proxy 10 [] of Inl e \<Rightarrow> False
     | Inr (a, s) \<Rightarrow> an_status a = ''dead'' \<and> ps_trace s \<noteq> [])"
    by code_simp
  then show ?thesis using that by (auto split: sum.splits)
qed

lemma live_needs_two_endpoints_witness:
  "\<exists>s i j. cu_probe (ps_trace s ! i) \<noteq> cu_probe (ps_trace s ! j)
     \<and> call_reports live_env s True ''9.9.9.9'' i \<and> call_reports live_env s True ''9.9.9.9'' j"
proof -
  obtain a s where run: "check_proxy_strong live_env probed_proxy 10 [] = Inr (a, s)"
    and a: "an_status a = ''live''" "an_exit_ip a = ''9.9.9.9''" "an_trusted a"
    by (rule live_run)
  show ?thesis using live_needs_two_endpoints [OF run] a by auto
qed



lemma public_all_raises: "public_all vs = Inl e \<Longrightarrow> \<exists>m. e = UnsafeProxyTarget m"
  by (induction vs) (auto simp: bindR_Inl_iff public_ip_def split: option.splits if_splits)

lemma only_unsafe: "resolve_public_proxy_host resolver host port = Inl e \<Longrightarrow> \<exists>m. e = UnsafeProxyTarget m"
  using public_all_raises
  by (fastforce simp: resolve_public_proxy_host_def validate_proxy_host_def bindR_Inl_iff public_ip_def Let_def
      split: option.splits if_splits sum.splits)

lemma resolved_public: "resolve_public_proxy_host resolver host port = Inr t \<Longrightarrow> \<exists>a. is_global a \<and> t = show_ip a"
proof -
  assume r: "resolve_public_proxy_host resolver host port = Inr t"
  then consider n a where "ip_address n = Some a" "public_ip (show_ip a) = Inr t"
    | addresses xs where "public_all addresses = Inr xs" "addresses \<noteq> []"
        "t = hd (sort_key (\<lambda>v. (address_version v, v)) (remdups xs))"
    by (auto simp: resolve_public_proxy_host_def bindR_Inr_iff Let_def split: option.splits sum.splits if_splits)
  then show ?thesis
  proof cases
    case 1
    then show ?thesis unfolding public_ip_Inr by blast
  next
    case 2
    note all2 = public_all_Inr [OF 2(1)]
    have "xs \<noteq> []" using all2 2(2) by auto
    then have "t \<in> set xs" using hd_sort_key_in [of "remdups xs"] 2(3) by (metis remdups_eq_nil_iff set_remdups)
    then show ?thesis using list_all2_right [OF all2] unfolding public_ip_Inr by blast
  qed
qed

lemma pinned_public: "pin_with resolver host port = Inr t \<Longrightarrow> \<exists>a. is_global a \<and> t = show_ip a"
  using resolved_public by (auto simp: pin_with_def split: sum.splits exn.splits)



end
