(* ===== verification/Accounts.thy ===== *)
theory Accounts
  imports Rate_Limits Systems
begin

text \<open>
  Accounts and sessions: \<open>app/services/users.py\<close>, \<open>app/auth.py\<close>, \<open>app/routes/auth.py\<close>, \<open>app/routes/forms.py\<close> and the
  user operations of \<open>app/routes/admin.py\<close>. The state is the users table with the two tables of attempts. A session is the
  content of the signed cookie; whatever cookie was ever given out may come back. The hash functions of werkzeug
  (\<open>generate_hash\<close>, \<open>check_hash\<close>) and \<open>sha256\<close> are parameters; the GET pages are left out.
\<close>

subsection \<open>Answers\<close>

datatype reply =
    Json_reply json_object int
  | Redirect string "(string \<times> string) list" string string
  | Empty_reply int

text \<open>\<open>Redirect\<close>: the endpoint with its values, and the flashed message with its category.\<close>

definition form_error :: "bool \<Rightarrow> string \<Rightarrow> int \<Rightarrow> string \<Rightarrow> string option \<Rightarrow> string option \<Rightarrow> reply" where
  "form_error browser message status endpoint field focus =
     (if browser
      then Redirect endpoint ((case field of Some f \<Rightarrow> if f = '''' then [] else [(''error_field'', f)] | None \<Rightarrow> [])
             @ (case focus of Some f \<Rightarrow> if f = '''' then [] else [(''error_focus'', f)] | None \<Rightarrow> [])) ''error'' message
      else Json_reply [(''error'', J_str message)] status)"

definition form_success :: "bool \<Rightarrow> json_object \<Rightarrow> int \<Rightarrow> string \<Rightarrow> string \<Rightarrow> reply" where
  "form_success browser payload status endpoint message =
     (if browser then Redirect endpoint [] ''success'' message else Json_reply payload status)"

fun status_text :: "user_status \<Rightarrow> string" where
  "status_text User_pending = ''pending''"
| "status_text User_active = ''active''"
| "status_text User_blocked = ''blocked''"
| "status_text User_deleted = ''deleted''"

fun role_text :: "user_role \<Rightarrow> string" where
  "role_text Role_user = ''user''"
| "role_text Role_admin = ''admin''"

subsection \<open>The users table\<close>

text \<open>\<open>COLLATE NOCASE\<close>: the capitals of ASCII are folded. The column is unique under it.\<close>

definition nocase :: "string \<Rightarrow> string" where
  "nocase t = map (\<lambda>c. if 65 \<le> code c \<and> code c \<le> 90 then char_of (code c + 32) else c) t"

definition same_email :: "string \<Rightarrow> user_row \<Rightarrow> bool" where
  "same_email e u \<longleftrightarrow> nocase (u_email u) = nocase e"

definition user_by_email :: "string \<Rightarrow> user_row table \<Rightarrow> user_row option" where
  "user_by_email e t = select_one (same_email e) t"

definition max_email_length :: nat where "max_email_length = 254"

definition create_user ::
  "(string \<Rightarrow> string) \<Rightarrow> time \<Rightarrow> string \<Rightarrow> string \<Rightarrow> user_status \<Rightarrow> user_role \<Rightarrow> user_row table \<Rightarrow> (user_row table \<times> int) result" where
  "create_user generate_hash now email password status role t =
     (let e = lower (strip email) in
      if max_email_length < length e then Inl (ValueError ''email exceeds maximum length'')
      else if exists_where (same_email e) t then Inl (IntegrityError ''UNIQUE constraint failed: users.email'')
      else Inr (insert_row (\<lambda>i. \<lparr>u_id = i, u_email = e, u_password_hash = generate_hash password, u_role = role, u_status = status,
                  u_earn_paused = False, u_session_version = 1, u_created = now\<rparr>) t, seq t + 1))"

subsection \<open>Registration, sign-in, sign-out\<close>

record site =
  st_users :: "user_row table"
  st_attempts :: "attempt_row table"
  st_logins :: "login_row table"

record session =
  ss_user :: "int option"
  ss_version :: int

definition no_session :: session where
  "no_session = \<lparr>ss_user = None, ss_version = 0\<rparr>"

record web =
  wb_config :: json_object
  wb_sha256 :: "string \<Rightarrow> string"
  wb_generate :: "string \<Rightarrow> string"
  wb_check :: "string \<Rightarrow> string \<Rightarrow> bool"

definition bad_account :: "string \<Rightarrow> string \<Rightarrow> bool" where
  "bad_account email password \<longleftrightarrow> CHR ''@'' \<notin> set email \<or> max_email_length < length email \<or> length password < 8"

definition bad_field :: "string \<Rightarrow> string" where
  "bad_field email = (if CHR ''@'' \<notin> set email \<or> max_email_length < length email then ''email'' else ''password'')"

definition registered :: "bool \<Rightarrow> reply" where
  "registered browser = form_success browser [(''status'', J_str ''pending'')] 201 ''auth.login''
     ''Registration received. Your account is awaiting administrator approval.''"

definition register :: "web \<Rightarrow> time \<Rightarrow> bool \<Rightarrow> string \<Rightarrow> string \<Rightarrow> string \<Rightarrow> site \<Rightarrow> (site \<times> reply) result" where
  "register w now browser identity form_email password st =
     (case admit_registration_attempt (wb_sha256 w) (wb_config w) now identity (st_attempts st) of
        (attempts, admitted) \<Rightarrow>
          let st1 = st\<lparr>st_attempts := attempts\<rparr>; email = lower (strip form_email) in
          if \<not> admitted
          then Inr (st1, form_error browser ''Too many registration attempts. Try again later.'' 429 ''auth.register'' (Some ''email'') None)
          else if bad_account email password
          then Inr (st1, form_error browser ''A valid email and password of at least 8 characters are required'' 400
                 ''auth.register'' (Some (bad_field email)) None)
          else case create_user (wb_generate w) now email password User_pending Role_user (st_users st1) of
            Inl (IntegrityError m) \<Rightarrow> Inr (st1, registered browser)
          | Inl e \<Rightarrow> Inl e
          | Inr (us, i) \<Rightarrow> Inr (st1\<lparr>st_users := us\<rparr>, registered browser))"

text \<open>The hash that an unknown account is checked against.\<close>

definition dummy_password_hash :: string where
  "dummy_password_hash = ''scrypt:32768:8:1$GszEukes0tkczT9u$'' @
     ''b67903a8373a7ca6a60d6eec81b92e609842e0e57e549a89994034b13dd0f9b35565b91a1d1217f8d85dc39fbb98006aa4b1e72b80033b66913abad7b2de26a2''"

definition login :: "web \<Rightarrow> time \<Rightarrow> bool \<Rightarrow> string \<Rightarrow> string \<Rightarrow> string \<Rightarrow> session \<Rightarrow> site \<Rightarrow> site \<times> session \<times> reply" where
  "login w now browser identity form_email password ss st =
     (let email = lower (strip form_email) in
      case admit_login_attempt (wb_sha256 w) (wb_config w) now identity email (st_logins st) of
        (logins, admitted) \<Rightarrow>
          let st1 = st\<lparr>st_logins := logins\<rparr>; user = user_by_email email (st_users st);
              valid = wb_check w (case user of Some u \<Rightarrow> u_password_hash u | None \<Rightarrow> dummy_password_hash) password;
              invalid = (st1, ss, form_error browser ''Invalid email or password'' 401 ''auth.login''
                           (Some (if CHR ''@'' \<notin> set email then ''email'' else ''password'')) None) in
          if \<not> admitted
          then (st1, ss, form_error browser ''Too many sign-in attempts. Try again later.'' 429 ''auth.login'' (Some ''email'') None)
          else case user of None \<Rightarrow> invalid
          | Some u \<Rightarrow>
              if \<not> valid then invalid
              else if u_status u \<noteq> User_active
              then (st1, ss, form_error browser ''Account is awaiting approval or blocked'' 403 ''auth.login'' (Some ''email'') None)
              else (st1, \<lparr>ss_user = Some (u_id u), ss_version = u_session_version u\<rparr>,
                    form_success browser [(''id'', J_int (u_id u)), (''role'', J_str (role_text (u_role u))), (''status'', J_str (status_text (u_status u)))]
                      200 (if u_role u = Role_admin then ''admin.dashboard'' else ''dashboard.dashboard'') ''Signed in successfully.''))"

definition load_logged_in_user :: "user_row table \<Rightarrow> session \<Rightarrow> session \<times> user_row option" where
  "load_logged_in_user t ss =
     (case ss_user ss of None \<Rightarrow> (ss, None)
      | Some i \<Rightarrow>
          (case select_one (\<lambda>u. u_id u = i) t of
             None \<Rightarrow> (no_session, None)
           | Some u \<Rightarrow> if u_status u \<noteq> User_active \<or> ss_version ss \<noteq> u_session_version u then (no_session, None) else (ss, Some u)))"

definition bump :: "int \<Rightarrow> int \<Rightarrow> (user_row \<Rightarrow> user_row) \<Rightarrow> user_row table \<Rightarrow> user_row table" where
  "bump i n f t = update_where (\<lambda>u. u_id u = i) (\<lambda>u. f (u\<lparr>u_session_version := u_session_version u + n\<rparr>)) t"

definition logout :: "bool \<Rightarrow> session \<Rightarrow> user_row table \<Rightarrow> user_row table \<times> session \<times> reply" where
  "logout browser ss t =
     (let t1 = (case snd (load_logged_in_user t ss) of None \<Rightarrow> t | Some u \<Rightarrow> bump (u_id u) 1 id t) in
      (t1, no_session, if browser then Redirect ''auth.login'' [] ''success'' ''Signed out.'' else Empty_reply 204))"

subsection \<open>Guards\<close>

definition login_required :: "user_row table \<Rightarrow> session \<Rightarrow> int + user_row" where
  "login_required t ss = (case snd (load_logged_in_user t ss) of None \<Rightarrow> Inl 401 | Some u \<Rightarrow> Inr u)"

definition admin_required :: "user_row table \<Rightarrow> session \<Rightarrow> int + user_row" where
  "admin_required t ss = (case snd (load_logged_in_user t ss) of None \<Rightarrow> Inl 403
     | Some u \<Rightarrow> if u_role u \<noteq> Role_admin then Inl 403 else Inr u)"

subsection \<open>The administration of users\<close>

definition change_user ::
  "bool \<Rightarrow> int \<Rightarrow> user_status option \<Rightarrow> bool option \<Rightarrow> string \<Rightarrow> user_row table \<Rightarrow> user_row table \<times> reply" where
  "change_user browser i status paused message t =
     (case select_one (\<lambda>u. u_id u = i \<and> u_role u = Role_user) t of
        None \<Rightarrow> (t, form_error browser ''User not found'' 404 ''admin.users'' None None)
      | Some u \<Rightarrow>
          (let new_status = (case status of Some s \<Rightarrow> s | None \<Rightarrow> u_status u);
               new_paused = (case paused of Some b \<Rightarrow> b | None \<Rightarrow> u_earn_paused u) in
           (bump i (if new_status = User_blocked then 1 else 0) (\<lambda>u. u\<lparr>u_status := new_status, u_earn_paused := new_paused\<rparr>) t,
            form_success browser [(''id'', J_int i), (''status'', J_str (status_text new_status)), (''earn_paused'', J_bool new_paused)]
              200 ''admin.users'' message)))"

definition approve_user :: "bool \<Rightarrow> int \<Rightarrow> user_row table \<Rightarrow> user_row table \<times> reply" where
  "approve_user browser i = change_user browser i (Some User_active) None ''User approved.''"

definition pause_earn :: "bool \<Rightarrow> int \<Rightarrow> user_row table \<Rightarrow> user_row table \<times> reply" where
  "pause_earn browser i = change_user browser i None (Some True) ''Earnings paused for this user.''"

definition resume_earn :: "bool \<Rightarrow> int \<Rightarrow> user_row table \<Rightarrow> user_row table \<times> reply" where
  "resume_earn browser i = change_user browser i None (Some False) ''Earnings resumed for this user.''"

definition block_user :: "bool \<Rightarrow> int \<Rightarrow> user_row table \<Rightarrow> user_row table \<times> reply" where
  "block_user browser i = change_user browser i (Some User_blocked) None ''User blocked and sessions revoked.''"

definition create_admin_user :: "web \<Rightarrow> time \<Rightarrow> bool \<Rightarrow> string \<Rightarrow> string \<Rightarrow> user_row table \<Rightarrow> (user_row table \<times> reply) result" where
  "create_admin_user w now browser form_email password t =
     (let email = lower (strip form_email); field = bad_field email in
      if bad_account email password
      then Inr (t, form_error browser ''A valid email and password of at least 8 characters are required'' 400 ''admin.users''
             (Some field) (Some (''new-user-'' @ field)))
      else case create_user (wb_generate w) now email password User_active Role_user t of
        Inl (IntegrityError m) \<Rightarrow>
          Inr (t, form_error browser ''Email is already registered'' 409 ''admin.users'' (Some ''email'') (Some ''new-user-email''))
      | Inl e \<Rightarrow> Inl e
      | Inr (t1, i) \<Rightarrow> Inr (t1, form_success browser [(''id'', J_int i), (''status'', J_str ''active'')] 201 ''admin.users''
                               ''User created and activated.''))"

definition delete_user :: "bool \<Rightarrow> int \<Rightarrow> user_row table \<Rightarrow> user_row table \<times> reply" where
  "delete_user browser i t =
     (case select_one (\<lambda>u. u_id u = i \<and> u_role u = Role_user) t of
        None \<Rightarrow> (t, form_error browser ''User not found'' 404 ''admin.users'' None None)
      | Some u \<Rightarrow> (bump i 1 (\<lambda>u. u\<lparr>u_status := User_deleted, u_earn_paused := True\<rparr>) t,
          form_success browser [(''id'', J_int i), (''status'', J_str ''deleted'')] 200 ''admin.users''
            ''User deleted. Historical records are retained.''))"

text \<open>The administrator of the configuration, created at the start of the program.\<close>

definition ensure_admin :: "(string \<Rightarrow> string) \<Rightarrow> time \<Rightarrow> string \<Rightarrow> string \<Rightarrow> user_row table \<Rightarrow> user_row table result" where
  "ensure_admin generate_hash now configured password t =
     (let email = lower (strip configured) in
      if email = '''' \<or> password = '''' then Inr t
      else case user_by_email email t of
        Some u \<Rightarrow> Inr t
      | None \<Rightarrow> bindR (create_user generate_hash now email password User_active Role_admin t) (\<lambda>(t1, i). Inr t1))"

subsection \<open>Every operation, as a step\<close>

text \<open>The label is the user whose sessions the step revokes, if any.\<close>

inductive account_step :: "web \<Rightarrow> int option \<Rightarrow> site \<Rightarrow> site \<Rightarrow> bool" for w where
  register: "register w now browser identity email password st = Inr (st', r) \<Longrightarrow> account_step w None st st'"
| login: "login w now browser identity email password ss st = (st', ss', r) \<Longrightarrow> account_step w None st st'"
| logout: "snd (load_logged_in_user (st_users st) ss) = u \<Longrightarrow> logout browser ss (st_users st) = (us, ss', r)
    \<Longrightarrow> account_step w (map_option u_id u) st (st\<lparr>st_users := us\<rparr>)"
| change: "change_user browser i status paused message (st_users st) = (us, r)
    \<Longrightarrow> account_step w (if status = Some User_blocked \<and> exists_where (\<lambda>u. u_id u = i \<and> u_role u = Role_user) (st_users st) then Some i else None)
          st (st\<lparr>st_users := us\<rparr>)"
| delete: "delete_user browser i (st_users st) = (us, r)
    \<Longrightarrow> account_step w (if exists_where (\<lambda>u. u_id u = i \<and> u_role u = Role_user) (st_users st) then Some i else None)
          st (st\<lparr>st_users := us\<rparr>)"
| create: "create_admin_user w now browser email password (st_users st) = Inr (us, r) \<Longrightarrow> account_step w None st (st\<lparr>st_users := us\<rparr>)"
| admin: "ensure_admin (wb_generate w) now configured password (st_users st) = Inr us \<Longrightarrow> account_step w None st (st\<lparr>st_users := us\<rparr>)"

definition accounts_ok :: "user_row table \<Rightarrow> bool" where
  "accounts_ok t \<longleftrightarrow> wf_table u_id t \<and> distinct (map (nocase \<circ> u_email) (rows t))"

text \<open>Accounts are never removed, and the version of their sessions never goes back.\<close>

definition accounts_kept :: "user_row table \<Rightarrow> user_row table \<Rightarrow> bool" where
  "accounts_kept t t' \<longleftrightarrow> (\<forall>u \<in> set (rows t). \<exists>u' \<in> set (rows t'). u_id u' = u_id u \<and> u_session_version u \<le> u_session_version u')"

definition account_change :: "user_row table \<Rightarrow> user_row table \<Rightarrow> bool" where
  "account_change t t' \<longleftrightarrow> (accounts_ok t \<longrightarrow> accounts_ok t') \<and> accounts_kept t t'"

lemma account_change_refl [simp]: "account_change t t"
  by (auto simp: account_change_def accounts_kept_def)

lemma accounts_kept_trans: "accounts_kept t t1 \<Longrightarrow> accounts_kept t1 t2 \<Longrightarrow> accounts_kept t t2"
  unfolding accounts_kept_def by (metis order_trans)

lemma account_change_bump:
  assumes "0 \<le> n" "\<And>u. u_id (f u) = u_id u" "\<And>u. u_email (f u) = u_email u" "\<And>u. u_session_version (f u) = u_session_version u"
  shows "account_change t (bump i n f t)"
proof -
  let ?g = "\<lambda>u. f (u\<lparr>u_session_version := u_session_version u + n\<rparr>)"
  have m: "map (nocase \<circ> u_email) (rows (bump i n f t)) = map (nocase \<circ> u_email) (rows t)"
    by (simp add: bump_def assms(3))
  have "wf_table u_id t \<Longrightarrow> wf_table u_id (bump i n f t)"
    unfolding bump_def by (rule wf_table_update) (simp_all add: assms(2))
  moreover have "accounts_kept t (bump i n f t)"
    unfolding accounts_kept_def bump_def rows_update_where
  proof
    fix u assume u: "u \<in> set (rows t)"
    show "\<exists>u' \<in> set (map (\<lambda>u. if u_id u = i then ?g u else u) (rows t)). u_id u' = u_id u \<and> u_session_version u \<le> u_session_version u'"
      by (rule bexI [of _ "if u_id u = i then ?g u else u"]) (use u assms in auto)
  qed
  ultimately show ?thesis unfolding account_change_def accounts_ok_def m by blast
qed

lemma account_change_create:
  assumes "create_user g now email password status role t = Inr (t', i)"
  shows "account_change t t'"
proof -
  have "wf_table u_id t \<Longrightarrow> wf_table u_id t'"
    using assms by (auto simp: create_user_def Let_def intro!: wf_table_insert split: if_splits)
  then show ?thesis
    using assms
    by (auto simp: account_change_def accounts_ok_def accounts_kept_def create_user_def Let_def exists_where_iff same_email_def
        split: if_splits) metis
qed

lemma account_change_user: "account_change t (fst (change_user browser i status paused message t))"
  by (auto simp: change_user_def Let_def intro!: account_change_bump split: option.split)

lemma account_change_delete: "account_change t (fst (delete_user browser i t))"
  by (auto simp: delete_user_def intro!: account_change_bump split: option.split)

lemma account_step_change: "account_step w e st st' \<Longrightarrow> account_change (st_users st) (st_users st')"
proof (induction rule: account_step.induct)
  case (register now browser identity email password st st' r)
  then show ?case
    by (auto simp: register_def Let_def split: prod.splits if_splits sum.splits exn.splits dest: account_change_create)
next
  case (login now browser identity email password ss st st' ss' r)
  then show ?case
    by (auto simp: login_def Let_def split: prod.splits if_splits option.splits)
next
  case (logout st ss u browser us ss' r)
  then show ?case
    by (auto simp: logout_def Let_def intro!: account_change_bump split: option.splits)
next
  case (change browser i status paused message st us r)
  then show ?case using account_change_user [of "st_users st" browser i status paused message] by simp
next
  case (delete browser i st us r)
  then show ?case using account_change_delete [of "st_users st" browser i] by simp
next
  case (create now browser email password st us r)
  then show ?case
    by (auto simp: create_admin_user_def Let_def split: prod.splits if_splits sum.splits exn.splits dest: account_change_create)
next
  case (admin now configured password st us)
  then show ?case
    by (auto simp: ensure_admin_def Let_def bindR_Inr_iff split: if_splits option.splits dest: account_change_create)
qed

interpretation account_system: invariant_system "account_step w" "\<lambda>st. accounts_ok (st_users st)"
  by unfold_locales (auto dest: account_step_change simp: account_change_def)

lemma account_steps_kept: "steps (account_step w) st es st' \<Longrightarrow> accounts_kept (st_users st) (st_users st')"
proof (induction rule: steps.induct)
  case (steps_cons e st st' es st'')
  then show ?case using account_step_change [OF steps_cons(1)] accounts_kept_trans by (auto simp: account_change_def)
qed (auto simp: accounts_kept_def)

subsection \<open>Properties\<close>

lemma load_SomeD:
  assumes "snd (load_logged_in_user t ss) = Some u"
  shows "u \<in> set (rows t)" "ss_user ss = Some (u_id u)" "ss_version ss = u_session_version u" "u_status u = User_active"
  using assms by (auto simp: load_logged_in_user_def split: option.splits if_splits dest: select_one_SomeD)

text \<open>A cookie whose version lies behind.\<close>

lemma stale_cookie:
  assumes "accounts_ok t" "u \<in> set (rows t)" "ss_user ss = Some (u_id u)" "ss_version ss < u_session_version u"
  shows "load_logged_in_user t ss = (no_session, None)"
  using assms wf_table_find [of u_id t u] by (simp add: load_logged_in_user_def accounts_ok_def)

lemma bumped:
  assumes "u \<in> set (rows t)" "u_id u = i" "\<And>u. u_id (f u) = u_id u" "\<And>u. u_session_version (f u) = u_session_version u"
  shows "\<exists>u' \<in> set (rows (bump i 1 f t)). u_id u' = i \<and> u_session_version u < u_session_version u'"
  by (rule bexI [of _ "f (u\<lparr>u_session_version := u_session_version u + 1\<rparr>)"]) (use assms in \<open>auto simp: bump_def\<close>)

lemma exists_select: "exists_where P t \<Longrightarrow> \<exists>r. select_one P t = Some r"
  by (cases "select_one P t") (auto simp: exists_where_iff select_one_None_iff)

lemma revoking_step:
  assumes "account_step w (Some i) st st'" "u \<in> set (rows (st_users st))" "u_id u = i"
  shows "\<exists>u' \<in> set (rows (st_users st')). u_id u' = i \<and> u_session_version u < u_session_version u'"
  using assms(1)
proof (cases rule: account_step.cases)
  case (logout ss v browser us ss' r)
  then obtain x where "snd (load_logged_in_user (st_users st) ss) = Some x" "u_id x = i" by (metis map_option_eq_Some)
  then show ?thesis using logout bumped [OF assms(2,3), of id] by (auto simp: logout_def)
next
  case (change browser j status paused message us r)
  then have j: "status = Some User_blocked" "j = i" "exists_where (\<lambda>u. u_id u = i \<and> u_role u = Role_user) (st_users st)"
    by (simp_all split: if_splits)
  obtain v where "select_one (\<lambda>u. u_id u = i \<and> u_role u = Role_user) (st_users st) = Some v" using exists_select [OF j(3)] by blast
  then show ?thesis
    using change(2,3) j(1,2) bumped [OF assms(2,3), of "\<lambda>u. u\<lparr>u_status := User_blocked, u_earn_paused := p\<rparr>" for p]
    by (auto simp: change_user_def Let_def)
next
  case (delete browser j us r)
  then have j: "j = i" "exists_where (\<lambda>u. u_id u = i \<and> u_role u = Role_user) (st_users st)" by (simp_all split: if_splits)
  obtain v where "select_one (\<lambda>u. u_id u = i \<and> u_role u = Role_user) (st_users st) = Some v" using exists_select [OF j(2)] by blast
  then show ?thesis
    using delete(2,3) j(1) bumped [OF assms(2,3), of "\<lambda>u. u\<lparr>u_status := User_deleted, u_earn_paused := True\<rparr>"]
    by (auto simp: delete_user_def)
qed

text \<open>C32. Signing out, a block and a deletion end the sessions of a user for good: a cookie that was good before is refused
  after any further registrations, sign-ins, approvals and changes, also when the account is approved again later.\<close>

theorem revoked_cookie_stays_dead:
  assumes "accounts_ok (st_users st)" "snd (load_logged_in_user (st_users st) ss) = Some u"
    and "account_step w (Some (u_id u)) st st1" "steps (account_step w) st1 es st2"
  shows "load_logged_in_user (st_users st2) ss = (no_session, None)"
proof -
  note u = load_SomeD [OF assms(2)]
  obtain u1 where u1: "u1 \<in> set (rows (st_users st1))" "u_id u1 = u_id u" "u_session_version u < u_session_version u1"
    using revoking_step [OF assms(3) u(1) refl] by blast
  obtain u2 where u2: "u2 \<in> set (rows (st_users st2))" "u_id u2 = u_id u1" "u_session_version u1 \<le> u_session_version u2"
    using account_steps_kept [OF assms(4)] u1(1) by (auto simp: accounts_kept_def)
  have "accounts_ok (st_users st1)" using account_step_change [OF assms(3)] assms(1) by (simp add: account_change_def)
  then have "accounts_ok (st_users st2)" by (rule account_system.steps_inv [OF assms(4)])
  then show ?thesis by (rule stale_cookie [OF _ u2(1)]) (use u u1 u2 in simp_all)
qed

lemma length_strip_le: "length (strip t) \<le> length t"
  using length_dropWhile_le [of is_space "rev (dropWhile is_space t)"] length_dropWhile_le [of is_space t]
  by (simp add: strip_def strip_by_def rstrip_by_def)

lemma register_run:
  obtains attempts r where "\<And>x. st_attempts x = a
    \<Longrightarrow> \<exists>us. register w now browser identity email password x = Inr (x\<lparr>st_users := us, st_attempts := attempts\<rparr>, r)"
proof -
  obtain attempts admitted where ad: "admit_registration_attempt (wb_sha256 w) (wb_config w) now identity a = (attempts, admitted)"
    by (cases "admit_registration_attempt (wb_sha256 w) (wb_config w) now identity a")
  let ?r = "(if \<not> admitted
       then form_error browser ''Too many registration attempts. Try again later.'' 429 ''auth.register'' (Some ''email'') None
       else if bad_account (lower (strip email)) password
       then form_error browser ''A valid email and password of at least 8 characters are required'' 400 ''auth.register''
              (Some (bad_field (lower (strip email)))) None else registered browser)"
  have "\<exists>us. register w now browser identity email password x = Inr (x\<lparr>st_users := us, st_attempts := attempts\<rparr>, ?r)"
    if "st_attempts x = a" for x
  proof (cases "admitted \<and> \<not> bad_account (lower (strip email)) password")
    case False
    then show ?thesis using ad that by (auto simp: register_def intro!: exI [of _ "st_users x"])
  next
    case True
    have len: "length (lower (strip (lower (strip email)))) \<le> max_email_length"
      using True length_strip_le [of "lower (strip email)"] by (auto simp: bad_account_def not_less)
    let ?e = "lower (strip (lower (strip email)))"
    let ?row = "\<lambda>i. \<lparr>u_id = i, u_email = ?e, u_password_hash = wb_generate w password, u_role = Role_user, u_status = User_pending,
      u_earn_paused = False, u_session_version = 1, u_created = now\<rparr>"
    show ?thesis using ad that True len
      by (intro exI [of _ "if exists_where (same_email ?e) (st_users x) then st_users x else insert_row ?row (st_users x)"])
        (simp add: register_def create_user_def not_less)
  qed
  then show ?thesis by (rule that)
qed

text \<open>C39. A registration tells nothing about the accounts there are: two sites with the same attempts give the same answer,
  whatever their users, and it never ends in an error of the database.\<close>

theorem registration_hides_accounts:
  assumes "st_attempts st = st_attempts st'"
  shows "\<exists>r us us' attempts. register w now browser identity email password st = Inr (st\<lparr>st_users := us, st_attempts := attempts\<rparr>, r)
    \<and> register w now browser identity email password st' = Inr (st'\<lparr>st_users := us', st_attempts := attempts\<rparr>, r)"
  by (rule register_run [of "st_attempts st'" w now browser identity email password]) (use assms in blast)

lemma login_cases:
  "login w now browser identity email password ss st =
     (let e = lower (strip email); admitted = admit_login_attempt (wb_sha256 w) (wb_config w) now identity e (st_logins st);
          wrong = form_error browser ''Invalid email or password'' 401 ''auth.login''
                    (Some (if CHR ''@'' \<notin> set e then ''email'' else ''password'')) None in
      (st\<lparr>st_logins := fst admitted\<rparr>,
       if \<not> snd admitted
       then (ss, form_error browser ''Too many sign-in attempts. Try again later.'' 429 ''auth.login'' (Some ''email'') None)
       else case user_by_email e (st_users st) of None \<Rightarrow> (ss, wrong)
       | Some u \<Rightarrow> if \<not> wb_check w (u_password_hash u) password then (ss, wrong)
           else if u_status u \<noteq> User_active
           then (ss, form_error browser ''Account is awaiting approval or blocked'' 403 ''auth.login'' (Some ''email'') None)
           else (\<lparr>ss_user = Some (u_id u), ss_version = u_session_version u\<rparr>,
                    form_success browser [(''id'', J_int (u_id u)), (''role'', J_str (role_text (u_role u))), (''status'', J_str (status_text (u_status u)))]
                      200 (if u_role u = Role_admin then ''admin.dashboard'' else ''dashboard.dashboard'') ''Signed in successfully.'')))"
  by (simp add: login_def Let_def case_prod_beta split: option.split)

text \<open>A session is opened only for an active account, with its password, within the budget of attempts, and the cookie
  given out is good: the next request is made as this user.\<close>

theorem login_opens_session:
  assumes "login w now browser identity email password ss st = (st', ss', r)" "accounts_ok (st_users st)" "ss' \<noteq> ss"
  shows "\<exists>u. same_email (lower (strip email)) u \<and> wb_check w (u_password_hash u) password
      \<and> snd (admit_login_attempt (wb_sha256 w) (wb_config w) now identity (lower (strip email)) (st_logins st))
      \<and> load_logged_in_user (st_users st') ss' = (ss', Some u)"
proof -
  obtain u where u: "user_by_email (lower (strip email)) (st_users st) = Some u" "wb_check w (u_password_hash u) password"
      "u_status u = User_active" "ss' = \<lparr>ss_user = Some (u_id u), ss_version = u_session_version u\<rparr>" "st_users st' = st_users st"
      "snd (admit_login_attempt (wb_sha256 w) (wb_config w) now identity (lower (strip email)) (st_logins st))"
    using assms(1,3) unfolding login_cases by (auto simp: Let_def split: if_splits option.splits)
  then have "u \<in> set (rows (st_users st))" "same_email (lower (strip email)) u"
    by (auto simp: user_by_email_def dest: select_one_SomeD)
  moreover have "select_one (\<lambda>x. u_id x = u_id u) (st_users st) = Some u"
    by (rule wf_table_find) (use assms(2) calculation in \<open>simp_all add: accounts_ok_def\<close>)
  ultimately show ?thesis using u by (auto simp: load_logged_in_user_def)
qed

text \<open>A failed sign-in does not tell whether the account exists: without its password the session and the answer are those
  of a site that has no users at all, and so is the table of attempts.\<close>

theorem login_hides_accounts:
  assumes "\<And>u. user_by_email (lower (strip email)) us = Some u \<Longrightarrow> \<not> wb_check w (u_password_hash u) password"
  shows "login w now browser identity email password ss (st\<lparr>st_users := us\<rparr>)
      = (case login w now browser identity email password ss (st\<lparr>st_users := empty_table\<rparr>) of (st', x) \<Rightarrow> (st'\<lparr>st_users := us\<rparr>, x))"
proof -
  have "user_by_email e empty_table = None" for e by (simp add: user_by_email_def select_one_None_iff)
  then show ?thesis using assms unfolding login_cases by (simp add: Let_def split: option.split)
qed

subsection \<open>Witnesses\<close>

definition sample_web :: web where
  "sample_web = \<lparr>wb_config = [], wb_sha256 = id, wb_generate = (\<lambda>p. ''#'' @ p), wb_check = (\<lambda>h p. h = ''#'' @ p)\<rparr>"

definition sample_account :: user_row where
  "sample_account = \<lparr>u_id = 1, u_email = ''a@b'', u_password_hash = ''#password'', u_role = Role_user, u_status = User_active,
     u_earn_paused = False, u_session_version = 1, u_created = 0\<rparr>"

definition sample_site :: site where
  "sample_site = \<lparr>st_users = \<lparr>rows = [sample_account], seq = 1\<rparr>, st_attempts = empty_table, st_logins = empty_table\<rparr>"

definition sample_session :: session where
  "sample_session = \<lparr>ss_user = Some 1, ss_version = 1\<rparr>"

lemma sample_accounts_ok: "accounts_ok (st_users sample_site)"
  by (simp add: accounts_ok_def sample_site_def wf_table_def sample_account_def)

text \<open>Blocked and approved again: the old cookie stays dead.\<close>

lemma revoked_cookie_stays_dead_witness:
  "\<exists>st1 st2. account_step sample_web (Some 1) sample_site st1 \<and> account_step sample_web None st1 st2
     \<and> snd (load_logged_in_user (st_users sample_site) sample_session) = Some sample_account
     \<and> load_logged_in_user (st_users st2) sample_session = (no_session, None)"
proof -
  let ?t1 = "fst (block_user False 1 (st_users sample_site))"
  let ?t2 = "fst (approve_user False 1 ?t1)"
  have load: "snd (load_logged_in_user (st_users sample_site) sample_session) = Some sample_account"
    by (simp add: load_logged_in_user_def sample_site_def sample_session_def select_one_def sample_account_def)
  have ex: "exists_where (\<lambda>u. u_id u = 1 \<and> u_role u = Role_user) (st_users sample_site)"
    by (simp add: exists_where_def sample_site_def sample_account_def)
  have s1: "account_step sample_web (Some 1) sample_site (sample_site\<lparr>st_users := ?t1\<rparr>)"
    using account_step.change [of False 1 "Some User_blocked" None "''User blocked and sessions revoked.''" sample_site ?t1] ex
    by (simp add: block_user_def prod_eq_iff)
  have s2: "account_step sample_web None (sample_site\<lparr>st_users := ?t1\<rparr>) (sample_site\<lparr>st_users := ?t2\<rparr>)"
    using account_step.change [of False 1 "Some User_active" None "''User approved.''" "sample_site\<lparr>st_users := ?t1\<rparr>" ?t2 _ sample_web]
    by (simp add: approve_user_def prod_eq_iff)
  have "steps (account_step sample_web) (sample_site\<lparr>st_users := ?t1\<rparr>) [None] (sample_site\<lparr>st_users := ?t2\<rparr>)"
    by (simp add: steps_Cons s2)
  from revoked_cookie_stays_dead [OF sample_accounts_ok load _ this] s1
  have "load_logged_in_user ?t2 sample_session = (no_session, None)" by (simp add: sample_account_def)
  then show ?thesis using s1 s2 load
    by (intro exI [of _ "sample_site\<lparr>st_users := ?t1\<rparr>"] exI [of _ "sample_site\<lparr>st_users := ?t2\<rparr>"]) simp
qed

lemma registration_hides_accounts_witness:
  "\<exists>r us us' attempts. register sample_web 0 False ''1.1.1.1'' ''A@b'' ''password'' sample_site = Inr (sample_site\<lparr>st_users := us, st_attempts := attempts\<rparr>, r)
    \<and> register sample_web 0 False ''1.1.1.1'' ''A@b'' ''password'' (sample_site\<lparr>st_users := empty_table\<rparr>)
        = Inr (sample_site\<lparr>st_users := empty_table\<rparr>\<lparr>st_users := us', st_attempts := attempts\<rparr>, r)"
  by (rule registration_hides_accounts) simp

lemma login_opens_session_witness:
  "\<exists>st' ss' r u. login sample_web 0 False ''1.1.1.1'' ''A@b'' ''password'' no_session sample_site = (st', ss', r)
     \<and> load_logged_in_user (st_users st') ss' = (ss', Some u)"
proof -
  define out where "out = login sample_web 0 False ''1.1.1.1'' ''A@b'' ''password'' no_session sample_site"
  have "case out of (st', ss', r) \<Rightarrow> ss_user ss' = Some 1" unfolding out_def by code_simp
  then obtain st' ss' r where run: "login sample_web 0 False ''1.1.1.1'' ''A@b'' ''password'' no_session sample_site = (st', ss', r)"
    and "ss_user ss' = Some 1" by (cases out) (auto simp: out_def)
  then have "ss' \<noteq> no_session" by (auto simp: no_session_def)
  from login_opens_session [OF run sample_accounts_ok this] run show ?thesis by blast
qed

lemma login_hides_accounts_witness:
  "login sample_web 0 False ''1.1.1.1'' ''a@b'' ''guess'' no_session (sample_site\<lparr>st_users := \<lparr>rows = [sample_account], seq = 1\<rparr>\<rparr>)
      = (case login sample_web 0 False ''1.1.1.1'' ''a@b'' ''guess'' no_session (sample_site\<lparr>st_users := empty_table\<rparr>) of
          (st', x) \<Rightarrow> (st'\<lparr>st_users := \<lparr>rows = [sample_account], seq = 1\<rparr>\<rparr>, x))"
  by (rule login_hides_accounts)
    (auto simp: user_by_email_def sample_web_def sample_account_def dest!: select_one_SomeD)

end
