(* ===== verification/Feed.thy ===== *)
theory Feed
  imports Program Provider_Egress Proxy_Parser Api_Keys Json
begin

text \<open>
  The distribution API of \<open>app/routes/internal_api.py\<close>: the proxies handed out to the holder of an API key, those of the
  users and, when switched on, those of the provider. \<open>decrypt\<close> reads an encrypted column (\<open>None\<close> when it raises
  \<open>ValueError\<close>). An expiry date of the provider is NULL or an instant. The relayed feed of the third endpoint is
  represented by the check of its address.
\<close>

subsection \<open>What is distributed\<close>

text \<open>One row of the feed: of a user, or of the provider, with the proxy it stands for.\<close>

datatype feed_row =
    Own proxy_row parsed_proxy
  | Provided asg_row parsed_proxy

definition feed_enabled :: "store \<Rightarrow> string list" where
  "feed_enabled s =
     (if get_setting s ''api_include_allow'' ''1'' = ''1'' then [''allow''] else [])
     @ (if get_setting s ''api_include_risk'' ''1'' = ''1'' then [''risk''] else [])"

fun eligibility_text :: "eligibility \<Rightarrow> string" where
  "eligibility_text El_pending = ''pending''"
| "eligibility_text El_allow = ''allow''"
| "eligibility_text El_risk = ''risk''"

definition feed_dashboard_age :: "store \<Rightarrow> int" where
  "feed_dashboard_age s =
     (case py_int (get_setting s ''proxiware_dashboard_max_age_seconds'' ''900'') of None \<Rightarrow> 900 | Some n \<Rightarrow> max 60 n)"

definition between :: "time option \<Rightarrow> time \<Rightarrow> time \<Rightarrow> bool" where
  "between v a b = (case v of None \<Rightarrow> False | Some t \<Rightarrow> a \<le> t \<and> t \<le> b)"

text \<open>The WHERE clause on the users' proxies, and \<open>reveal_proxy\<close>.\<close>

definition own_listed :: "store \<Rightarrow> time \<Rightarrow> proxy_row \<Rightarrow> bool" where
  "own_listed s now p \<longleftrightarrow>
     (\<exists>u \<in> set (rows (users s)). u_id u = p_user p \<and> u_status u = User_active)
     \<and> p_archived p = None \<and> p_status p = Px_online \<and> p_duplicate_of p = None
     \<and> eligibility_text (p_eligibility p) \<in> set (feed_enabled s) \<and> has_exit_ip p \<and> trusted p
     \<and> between (p_last_success p) (now - minutes (health_stale_minutes (checker_settings s))) (now + seconds 60)"

definition reveal_proxy :: "(string \<Rightarrow> string option) \<Rightarrow> proxy_row \<Rightarrow> parsed_proxy option" where
  "reveal_proxy decrypt p =
     (case (decrypt (p_username p), decrypt (p_password p)) of
        (Some u, Some w) \<Rightarrow> Some \<lparr>pp_protocol = p_protocol_hint p, pp_host = p_host p, pp_port = p_port p, pp_username = u, pp_password = w\<rparr>
      | _ \<Rightarrow> None)"

definition own_rows :: "(string \<Rightarrow> string option) \<Rightarrow> time \<Rightarrow> store \<Rightarrow> feed_row list" where
  "own_rows decrypt now s =
     List.map_filter (\<lambda>p. map_option (Own p) (reveal_proxy decrypt p)) (sort_key p_id (select_where (own_listed s now) (proxies s)))"

text \<open>The WHERE clause on the provider's assignments: fresh evidence on every side, no swap under way, no user behind
  the same address, and the first assignment behind it.\<close>

definition swap_open :: "store \<Rightarrow> asg_row \<Rightarrow> bool" where
  "swap_open s a \<longleftrightarrow> exists_where (\<lambda>j. j_old j = Some (a_id a)
     \<and> j_state j \<in> {Sw_pending, Sw_running, Sw_mutating, Sw_provider_applied, Sw_reconciliation_required}) (jobs s)"

definition owned_address :: "store \<Rightarrow> asg_row \<Rightarrow> bool" where
  "owned_address s a \<longleftrightarrow> exists_where (\<lambda>p. p_archived p = None \<and> p_exit_ip p \<noteq> None \<and> p_exit_ip p = a_exit_ip a
     \<and> p_duplicate_of p = None \<and> trusted p) (proxies s)"

definition verified_live :: "asg_row \<Rightarrow> asg_row \<Rightarrow> bool" where
  "verified_live a b \<longleftrightarrow> a_missing b = None \<and> a_exit_ip b \<noteq> None \<and> a_exit_ip b = a_exit_ip a \<and> a_live b = ''live''
     \<and> a_egress_verified b \<noteq> None"

definition first_behind :: "store \<Rightarrow> asg_row \<Rightarrow> int" where
  "first_behind s a = (case map a_id (select_where (verified_live a) (asgs s)) of [] \<Rightarrow> a_id a | i # is \<Rightarrow> foldl min i is)"

definition provided_listed :: "store \<Rightarrow> time \<Rightarrow> asg_row \<Rightarrow> bool" where
  "provided_listed s now a \<longleftrightarrow>
     (let future = now + seconds 60; fresh = now - minutes (health_stale_minutes (checker_settings s)) in
      a_missing a = None \<and> a_status a \<in> {''active'', ''current''} \<and> a_live a = ''live''
      \<and> a_qualification a \<in> set (feed_enabled s) \<and> a_provider_eligible a \<and> a_protocol a \<in> {''http'', ''socks5''}
      \<and> a_distribution a \<and> \<not> a_duplicate a
      \<and> (case a_dash_id a of None \<Rightarrow> False | Some d \<Rightarrow> sql_trim d \<noteq> '''')
      \<and> a_dash_source a = ''provider_dashboard'' \<and> a_dash_eligible a = Some True
      \<and> (case a_dash_connections a of None \<Rightarrow> False | Some n \<Rightarrow> 0 \<le> n \<and> n < 1000)
      \<and> between (a_dash_observed a) (now - seconds (feed_dashboard_age s)) future
      \<and> (case a_exit_ip a of None \<Rightarrow> False | Some ip \<Rightarrow> sql_trim ip \<noteq> '''')
      \<and> between (a_egress_verified a) fresh future \<and> between (a_last_checked a) fresh future
      \<and> (case a_ready a of None \<Rightarrow> True | Some t \<Rightarrow> t \<le> now)
      \<and> \<not> swap_open s a \<and> \<not> owned_address s a \<and> a_id a = first_behind s a)"

text \<open>The join with the subscription; its expiry; the address and the credential.\<close>

definition parent_ready :: "sub_row \<Rightarrow> bool" where
  "parent_ready p \<longleftrightarrow> s_missing p = None \<and> s_status p \<in> {''active'', ''ready''}"

definition subscription_expired :: "time option \<Rightarrow> time \<Rightarrow> bool" where
  "subscription_expired v now = (case v of None \<Rightarrow> False | Some t \<Rightarrow> t \<le> now)"

definition decrypt_or_empty :: "(string \<Rightarrow> string option) \<Rightarrow> string \<Rightarrow> string option" where
  "decrypt_or_empty decrypt v = (if v = '''' then Some '''' else decrypt v)"

definition reveal_assignment :: "(string \<Rightarrow> string option) \<Rightarrow> asg_row \<Rightarrow> parsed_proxy option" where
  "reveal_assignment decrypt a =
     (case (decrypt_or_empty decrypt (a_username a), decrypt_or_empty decrypt (a_password a)) of
        (Some u, Some w) \<Rightarrow> Some \<lparr>pp_protocol = (if a_protocol a = '''' then ''auto'' else a_protocol a), pp_host = a_host a,
           pp_port = a_port a, pp_username = u, pp_password = w\<rparr>
      | _ \<Rightarrow> None)"

definition provided_row :: "(string \<Rightarrow> string option) \<Rightarrow> time \<Rightarrow> store \<Rightarrow> asg_row \<Rightarrow> feed_row option" where
  "provided_row decrypt now s a =
     (case find_sub s (a_sub a) of
        None \<Rightarrow> None
      | Some p \<Rightarrow>
          if \<not> parent_ready p \<or> subscription_expired (s_expires p) now \<or> provider_ip (or_empty (a_exit_ip a)) = '''' then None
          else map_option (Provided a) (reveal_assignment decrypt a))"

definition provided_rows :: "(string \<Rightarrow> string option) \<Rightarrow> time \<Rightarrow> store \<Rightarrow> feed_row list" where
  "provided_rows decrypt now s =
     (if get_setting s ''proxiware_distribution_enabled'' ''0'' = ''1''
      then List.map_filter (provided_row decrypt now s) (sort_key a_id (select_where (provided_listed s now) (asgs s))) else [])"

definition raw_rows :: "(string \<Rightarrow> string option) \<Rightarrow> time \<Rightarrow> store \<Rightarrow> feed_row list" where
  "raw_rows decrypt now s = (if feed_enabled s = [] then [] else own_rows decrypt now s @ provided_rows decrypt now s)"

subsection \<open>The answers\<close>

datatype feed_reply =
    Plain string int
  | Items "json_object list"

definition capitalize :: "string \<Rightarrow> string" where
  "capitalize t = (case t of [] \<Rightarrow> [] | c # cs \<Rightarrow> (case upper_char c of [] \<Rightarrow> [] | d # ds \<Rightarrow> d # lower ds) @ lower cs)"

definition feed_proxy :: "feed_row \<Rightarrow> parsed_proxy" where
  "feed_proxy x = (case x of Own p q \<Rightarrow> q | Provided a q \<Rightarrow> q)"

definition feed_item :: "bool \<Rightarrow> feed_row \<Rightarrow> json_object" where
  "feed_item include_type x =
     (let (qualification, protocol, host, port) = (case x of
            Own p q \<Rightarrow> (eligibility_text (p_eligibility p), p_detected_protocol p, p_host p, p_port p)
          | Provided a q \<Rightarrow> (a_qualification a, a_protocol a, a_host a, a_port a)) in
      [(''raw'', J_str (raw (feed_proxy x))), (''status'', J_str (capitalize qualification)), (''protocol'', J_str protocol),
       (''endpoint'', J_str (host @ '':'' @ show_int port))] @ (if include_type then [(''type'', J_str ''raw'')] else []))"

definition raw_response :: "(string \<Rightarrow> string option) \<Rightarrow> time \<Rightarrow> string \<Rightarrow> bool \<Rightarrow> store \<Rightarrow> feed_reply" where
  "raw_response decrypt now format include_type s =
     (let xs = raw_rows decrypt now s in
      if lower format = ''json'' then Items (map (feed_item include_type) xs)
      else let body = join_with [CHR 0x0A] (map (\<lambda>x. raw (feed_proxy x)) xs) in
           Plain (body @ (if body = '''' then '''' else [CHR 0x0A])) 200)"

text \<open>\<open>list_proxies\<close> and \<open>list_raw_proxies\<close>, which differ in the last argument; the key table keeps the time of use.\<close>

definition list_proxies ::
  "(string \<Rightarrow> string) \<Rightarrow> (string \<Rightarrow> string option) \<Rightarrow> time \<Rightarrow> bool \<Rightarrow> string option \<Rightarrow> string \<Rightarrow> bool \<Rightarrow> key_store \<Rightarrow> store
     \<Rightarrow> key_store \<times> feed_reply" where
  "list_proxies sha256 decrypt now busy header format include_type ks s =
     (case authenticate_api_key sha256 now busy (or_empty header) ks of
        (ks1, None) \<Rightarrow> (ks1, Plain (''Unauthorized'' @ [CHR 0x0A]) 401)
      | (ks1, Some k) \<Rightarrow> (ks1, raw_response decrypt now format include_type s))"

subsection \<open>The address of the relayed feed\<close>

text \<open>\<open>parsed.query\<close> and \<open>parsed.fragment\<close> of \<open>urlparse\<close>.\<close>

definition url_text :: "string \<Rightarrow> string" where
  "url_text value = filter (\<lambda>c. c \<noteq> CHR 0x09 \<and> c \<noteq> CHR 0x0A \<and> c \<noteq> CHR 0x0D) (dropWhile (\<lambda>c. code c \<le> 32) value)"

definition url_fragment :: "string \<Rightarrow> string" where
  "url_fragment value = snd (split_first (CHR ''#'') (url_text value))"

definition url_query :: "string \<Rightarrow> string" where
  "url_query value = snd (split_first (CHR ''?'') (fst (split_first (CHR ''#'') (url_text value))))"

definition transfer_feed_target :: "string \<Rightarrow> string \<Rightarrow> (string \<times> string) result" where
  "transfer_feed_target feed_url feed_key =
     (let target = strip feed_url; key = strip feed_key in
      case url_split target of
        None \<Rightarrow> Inl (ValueError ''Invalid URL'')
      | Some u \<Rightarrow>
          if url_scheme u \<noteq> ''http'' \<or> url_hostname (url_netloc u) \<notin> {''127.0.0.1'', ''localhost'', ''::1''}
             \<or> url_username (url_netloc u) \<noteq> '''' \<or> url_password (url_netloc u) \<noteq> ''''
          then Inl (ValueError ''Transfer feed must be a loopback HTTP endpoint'')
          else if url_query target \<noteq> '''' \<or> url_fragment target \<noteq> ''''
          then Inl (ValueError ''Transfer feed URL must not contain query or fragment'')
          else Inr (target, key))"

subsection \<open>Properties\<close>

definition feed_address :: "feed_row \<Rightarrow> string" where
  "feed_address x = (case x of Own p q \<Rightarrow> or_empty (p_exit_ip p) | Provided a q \<Rightarrow> or_empty (a_exit_ip a))"

lemma set_map_filter: "set (List.map_filter f xs) = {y. \<exists>x \<in> set xs. f x = Some y}"
  by (induction xs) (auto simp: map_filter_simps split: option.split)

lemma distinct_map_filter_inj:
  assumes "distinct xs"
    and "\<And>x y a b. x \<in> set xs \<Longrightarrow> y \<in> set xs \<Longrightarrow> f x = Some a \<Longrightarrow> f y = Some b \<Longrightarrow> g a = g b \<Longrightarrow> x = y"
  shows "distinct (map g (List.map_filter f xs))"
  using assms
proof (induction xs)
  case (Cons x xs)
  have IH: "distinct (map g (List.map_filter f xs))" by (rule Cons.IH) (use Cons.prems in auto)
  show ?case
  proof (cases "f x")
    case (Some a)
    have "g a \<noteq> g b" if "y \<in> set xs" "f y = Some b" for y b
      using Cons.prems(2) [of x y a b] Cons.prems(1) that Some by auto
    then show ?thesis using IH Some by (auto simp: map_filter_simps set_map_filter)
  qed (use IH in \<open>simp add: map_filter_simps\<close>)
qed (simp add: map_filter_simps)

lemma listed_rows:
  assumes "wf_table key t"
  shows "distinct (sort_key key (select_where P t))" "set (sort_key key (select_where P t)) = {r \<in> set (rows t). P r}"
  using assms by (auto simp: wf_table_def select_where_def distinct_map)

lemma sql_trim_Nil [simp]: "sql_trim [] = []"
  by (simp add: sql_trim_def strip_by_def rstrip_by_def)

lemma own_unique:
  assumes "fleet_ok t s" "own_listed s now p" "own_listed s now q" "p \<in> set (rows (proxies s))" "q \<in> set (rows (proxies s))"
    and "p_exit_ip p = p_exit_ip q"
  shows "p = q"
proof -
  have "pair_ok p q" using fleet_okD(2) [OF assms(1)] assms(4,5) by (simp add: links_ok_def links_on_def)
  moreover obtain ip where ip: "p_exit_ip p = Some ip" "sql_trim ip \<noteq> []"
    using assms(2) by (auto simp: own_listed_def has_exit_ip_def split: option.splits)
  then have "ip \<noteq> []" by auto
  moreover have "exit_key p = ip" "exit_key q = ip" using ip(1) assms(6) by (auto simp: exit_key_def)
  ultimately have "root p = root q"
    using pair_okD(6) [of p q] assms(2,3) by (auto simp: own_listed_def active_def)
  then have "p_id p = p_id q" using assms(2,3) by (simp add: own_listed_def root_def)
  then show ?thesis using wf_table_unique [OF fleet_okD(4) [OF assms(1)] assms(4,5)] by simp
qed

lemma provided_unique:
  assumes "wf_table a_id (asgs s)" "provided_listed s now a" "provided_listed s now b" "a \<in> set (rows (asgs s))" "b \<in> set (rows (asgs s))"
    and "a_exit_ip a = a_exit_ip b"
  shows "a = b"
proof -
  have "verified_live a = verified_live b" using assms(6) by (simp add: verified_live_def fun_eq_iff)
  moreover have self: "verified_live a a"
    using assms(2) by (auto simp: provided_listed_def verified_live_def between_def Let_def split: option.splits)
  then have "select_where (verified_live a) (asgs s) \<noteq> []" using assms(4) by (auto simp: select_where_def filter_empty_conv)
  ultimately have "first_behind s a = first_behind s b" by (auto simp: first_behind_def split: list.split)
  then have "a_id a = a_id b" using assms(2,3) by (simp add: provided_listed_def Let_def)
  then show ?thesis using wf_table_unique [OF assms(1,4,5)] by simp
qed

lemma feed_parts:
  "x \<in> set (own_rows decrypt now s) \<Longrightarrow> \<exists>p q. x = Own p q \<and> p \<in> set (rows (proxies s)) \<and> own_listed s now p"
  "x \<in> set (provided_rows decrypt now s) \<Longrightarrow> \<exists>a q. x = Provided a q \<and> a \<in> set (rows (asgs s)) \<and> provided_listed s now a"
  by (auto simp: own_rows_def provided_rows_def provided_row_def set_map_filter split: option.splits if_splits)

lemma feed_disjoint:
  assumes "own_listed s now p" "p \<in> set (rows (proxies s))" "provided_listed s now a" "or_empty (p_exit_ip p) = or_empty (a_exit_ip a)"
  shows False
proof -
  obtain ip where ip: "p_exit_ip p = Some ip" "a_exit_ip a = Some ip"
    using assms by (auto simp: own_listed_def provided_listed_def has_exit_ip_def Let_def split: option.splits)
  then have "owned_address s a" using assms(1,2) by (auto simp: owned_address_def exists_where_iff own_listed_def)
  then show False using assms(3) by (simp add: provided_listed_def Let_def)
qed

lemma own_exit_Some: "own_listed s now p \<Longrightarrow> \<exists>ip. p_exit_ip p = Some ip"
  by (auto simp: own_listed_def has_exit_ip_def split: option.splits)

lemma provided_exit_Some: "provided_listed s now a \<Longrightarrow> \<exists>ip. a_exit_ip a = Some ip"
  by (auto simp: provided_listed_def Let_def split: option.splits)

text \<open>C29. The feed never lists an address twice. In every state the program can reach, with whatever the provider's inventory
  holds, the proxies handed out have pairwise different exit addresses: among the users' proxies by their duplicate links,
  among the provider's by the first of each address, and between the two because an address of a user is the user's.\<close>

theorem feed_lists_addresses_once:
  assumes "steps (program_step unq sha) w es w'" "program_ok w" "wf_table a_id (asgs (snd w'))"
  shows "distinct (map feed_address (raw_rows decrypt now (snd w')))"
proof -
  let ?s = "snd w'"
  have ok: "fleet_ok (fst w') ?s" using program.steps_inv [OF assms(1,2)] by (simp add: program_ok_def)
  have own: "distinct (map feed_address (own_rows decrypt now ?s))"
    unfolding own_rows_def
  proof (rule distinct_map_filter_inj [OF listed_rows(1) [OF fleet_okD(4) [OF ok]]])
    fix p q a b
    assume "p \<in> set (sort_key p_id (select_where (own_listed ?s now) (proxies ?s)))"
      "q \<in> set (sort_key p_id (select_where (own_listed ?s now) (proxies ?s)))"
      "map_option (Own p) (reveal_proxy decrypt p) = Some a" "map_option (Own q) (reveal_proxy decrypt q) = Some b"
      "feed_address a = feed_address b"
    then show "p = q" using own_unique [OF ok, of now p q] own_exit_Some [of ?s now p] own_exit_Some [of ?s now q]
      by (auto simp: feed_address_def)
  qed
  have provided: "distinct (map feed_address (provided_rows decrypt now ?s))"
  proof -
    have "distinct (map feed_address (List.map_filter (provided_row decrypt now ?s)
        (sort_key a_id (select_where (provided_listed ?s now) (asgs ?s)))))"
    proof (rule distinct_map_filter_inj [OF listed_rows(1) [OF assms(3)]])
      fix a b x y
      assume "a \<in> set (sort_key a_id (select_where (provided_listed ?s now) (asgs ?s)))"
        "b \<in> set (sort_key a_id (select_where (provided_listed ?s now) (asgs ?s)))"
        "provided_row decrypt now ?s a = Some x" "provided_row decrypt now ?s b = Some y" "feed_address x = feed_address y"
      then show "a = b" using provided_unique [OF assms(3), of now a b] provided_exit_Some [of ?s now a] provided_exit_Some [of ?s now b]
        by (auto simp: feed_address_def provided_row_def split: option.splits if_splits)
    qed
    then show ?thesis by (simp add: provided_rows_def)
  qed
  have "feed_address x \<noteq> feed_address y" if "x \<in> set (own_rows decrypt now ?s)" "y \<in> set (provided_rows decrypt now ?s)" for x y
    using feed_parts(1) [OF that(1)] feed_parts(2) [OF that(2)] feed_disjoint by (fastforce simp: feed_address_def)
  then show ?thesis using own provided by (auto simp: raw_rows_def)
qed

text \<open>The API answers holders of a key only: whoever presents no token, or one whose digest no key in force has, gets the
  status 401 and nothing of the inventory - the same answer for every state of it.\<close>

theorem feed_needs_key:
  assumes "\<And>k. k \<in> set (rows (keys ks)) \<Longrightarrow> k_revoked k = None \<Longrightarrow> k_hash k \<noteq> sha256 (or_empty header)"
  shows "list_proxies sha256 decrypt now busy header format include_type ks s = (ks, Plain (''Unauthorized'' @ [CHR 0x0A]) 401)"
proof -
  have "authenticates sha256 (or_empty header) ks = None"
    using assms by (force simp: authenticates_def select_one_None_iff)
  then show ?thesis by (simp add: list_proxies_def authenticate_api_key_def)
qed

subsection \<open>Witnesses\<close>

text \<open>After a duplicate took over from a dead proxy, the feed has one row.\<close>

lemma sample_feed:
  "(case promote_duplicate_if_due (hours 30) 1 sample_group of
      Inr (s, v) \<Rightarrow> rows (asgs s) = [] \<and> length (raw_rows Some (hours 30) s) = 1 | Inl _ \<Rightarrow> False)"
  by code_simp

lemma feed_lists_addresses_once_witness:
  "\<exists>s'. promote_duplicate_if_due (hours 30) 1 sample_group = Inr (s', Some 2) \<and> length (raw_rows Some (hours 30) s') = 1
     \<and> distinct (map feed_address (raw_rows Some (hours 30) s'))"
proof -
  obtain s' where run: "steps (program_step plain plain) (hours 30, sample_group) [Inr (Fl_promote 1)] (hours 30, s')"
    and pr: "promote_duplicate_if_due (hours 30) 1 sample_group = Inr (s', Some 2)" using sample_group_run by blast
  have "rows (asgs s') = []" "length (raw_rows Some (hours 30) s') = 1" using sample_feed by (simp_all add: pr)
  then show ?thesis
    using feed_lists_addresses_once [OF run sample_group_ok, of Some "hours 30"] pr by (simp add: wf_table_def)
qed

lemma feed_needs_key_witness:
  "list_proxies id Some 0 False None ''json'' True \<lparr>keys = empty_table, reveals = empty_table\<rparr> sample_group
     = (\<lparr>keys = empty_table, reveals = empty_table\<rparr>, Plain (''Unauthorized'' @ [CHR 0x0A]) 401)"
  by (rule feed_needs_key) simp

end
