(* ===== verification/Payout_Form.thy ===== *)
theory Payout_Form
  imports Accounts Payouts Uptime
begin

text \<open>
  The forms of \<open>app/routes/wallets.py\<close>: the wallet, the amount of a payout (micro-USD as an integer from a client, US
  dollars with up to six decimals from a browser), and the request. The product of \<open>decimal\<close> is exact here: its 28 digits
  are exceeded only by amounts far beyond the maximum, which are refused either way. A missing field is the empty text.
\<close>

subsection \<open>Amounts\<close>

definition max_payout_micro_usd :: int where "max_payout_micro_usd = 10 ^ 15"

definition max_amount_chars :: nat where "max_amount_chars = 32"

text \<open>The pattern \<open>\d+(?:\.\d{1,6})?\Z\<close>: the digits before and after the point.\<close>

definition usd_parts :: "string \<Rightarrow> (string \<times> string) option" where
  "usd_parts t =
     (let w = takeWhile is_digit t; rest = dropWhile is_digit t in
      if w = '''' then None
      else case rest of [] \<Rightarrow> Some (w, '''')
      | c # f \<Rightarrow> if c = CHR ''.'' \<and> f \<noteq> '''' \<and> length f \<le> 6 \<and> list_all is_digit f then Some (w, f) else None)"

definition requested_micro_usd :: "bool \<Rightarrow> string \<Rightarrow> string \<Rightarrow> int result" where
  "requested_micro_usd browser amount_micro_usd amount_usd =
     (if \<not> browser
      then (let t = strip (if amount_micro_usd = '''' then ''0'' else amount_micro_usd) in
        if max_amount_chars < length t \<or> t = '''' \<or> \<not> list_all is_digit t
        then Inl (ValueError ''Payout amount must be a valid integer micro-USD value'')
        else if max_payout_micro_usd < digits_value t then Inl (ValueError ''Payout amount is above the supported maximum'')
        else Inr (digits_value t))
      else (let t = strip (if amount_usd = '''' then ''0'' else amount_usd) in
        case (if max_amount_chars < length t then None else usd_parts t) of
          None \<Rightarrow> Inl (ValueError ''Payout amount must be a valid USD value'')
        | Some (w, f) \<Rightarrow>
            (let v = digits_value w * 10 ^ 6 + digits_value f * 10 ^ (6 - length f) in
             if max_payout_micro_usd < v then Inl (ValueError ''Payout amount must be a valid USD value'') else Inr v)))"

subsection \<open>The routes\<close>

text \<open>\<open>str(exc)\<close> of the exceptions that reach the routes.\<close>

fun exn_text :: "exn \<Rightarrow> string" where
  "exn_text (ValueError m) = m"
| "exn_text (TypeError m) = m"
| "exn_text (WalletInUse m) = m"
| "exn_text WalletLocked = ''Wallet cannot be changed during the 48-hour security lock''"
| "exn_text (PayoutQuotaExceeded n) = ''Maximum number of outstanding payouts reached ('' @ show_int n
     @ ''); wait for processing before requesting another payout''"
| "exn_text e = ''''"

definition update_wallet :: "bool \<Rightarrow> time \<Rightarrow> int \<Rightarrow> string \<Rightarrow> store \<Rightarrow> (store \<times> reply) result" where
  "update_wallet browser now uid address s =
     (let refused = (\<lambda>e. Inr (s, form_error browser (exn_text e) 400 ''dashboard.wallet'' (Some ''address'') (Some ''address''))) in
      case set_wallet now uid address s of
        Inl (ValueError m) \<Rightarrow> refused (ValueError m)
      | Inl (WalletInUse m) \<Rightarrow> refused (WalletInUse m)
      | Inl WalletLocked \<Rightarrow> refused WalletLocked
      | Inl e \<Rightarrow> Inl e
      | Inr (s1, a, locked) \<Rightarrow>
          Inr (s1, form_success browser [(''address'', J_str a), (''locked_until'', J_int locked)] 200 ''dashboard.wallet''
                     ''Wallet saved. A 48-hour payout lock now applies.''))"

text \<open>The limit of the configuration, \<open>None\<close> where it is no number.\<close>

definition configured_limit :: "int option \<Rightarrow> int" where
  "configured_limit v = max 1 (min 1000 (case v of None \<Rightarrow> 10 | Some n \<Rightarrow> n))"

definition create_payout ::
  "bool \<Rightarrow> int option \<Rightarrow> time \<Rightarrow> int \<Rightarrow> string \<Rightarrow> string \<Rightarrow> store \<Rightarrow> (store \<times> reply) result" where
  "create_payout browser configured now uid amount_micro_usd amount_usd s =
     (let refused = (\<lambda>e status. Inr (s, form_error browser (exn_text e) status ''dashboard.wallet'' (Some ''amount_usd'') (Some ''amount_usd''))) in
      case bindR (requested_micro_usd browser amount_micro_usd amount_usd)
             (\<lambda>amount. request_payout now (Some (configured_limit configured)) uid amount s) of
        Inl (PayoutQuotaExceeded n) \<Rightarrow> refused (PayoutQuotaExceeded n) 429
      | Inl (ValueError m) \<Rightarrow> refused (ValueError m) 400
      | Inl (TypeError m) \<Rightarrow> refused (TypeError m) 400
      | Inl e \<Rightarrow> Inl e
      | Inr (s1, i) \<Rightarrow> Inr (s1, form_success browser [(''id'', J_int i), (''status'', J_str ''requested'')] 201 ''dashboard.wallet''
                                 ''Payout request submitted for manual review.''))"

subsection \<open>Properties\<close>

text \<open>An amount as a user writes it: dollars and six decimals.\<close>

definition six_digits :: "nat \<Rightarrow> string" where
  "six_digits n = replicate (6 - length (show_nat n)) (CHR ''0'') @ show_nat n"

definition show_usd :: "nat \<Rightarrow> string" where
  "show_usd n = show_nat (n div 10 ^ 6) @ ''.'' @ six_digits (n mod 10 ^ 6)"

lemma digits_value_append: "digits_value (s @ t) = digits_value s * 10 ^ length t + digits_value t"
  by (induction t rule: rev_induct) (simp_all add: digits_value_snoc flip: append_assoc, simp add: digits_value_def)

lemma digits_value_zeros: "digits_value (replicate n (CHR ''0'')) = 0"
  by (induction n) (simp_all add: digits_value_def digit_value_def code_def)

lemma digit_no_space: "is_digit c \<Longrightarrow> \<not> is_space c"
  by (auto simp: is_digit_def is_space_def Let_def)

lemma point_facts [simp]: "\<not> is_space (CHR ''.'')" "\<not> is_digit (CHR ''.'')" "is_digit (CHR ''0'')"
  by (simp_all add: is_space_def is_digit_def code_def Let_def)

lemma six_digits_facts:
  assumes "n < 10 ^ 6"
  shows "length (six_digits n) = 6" "list_all is_digit (six_digits n)" "digits_value (six_digits n) = int n"
proof -
  have "length (show_nat n) \<le> 6" using show_nat_digits_bound [of 6 n] assms by simp
  then show "length (six_digits n) = 6" by (simp add: six_digits_def)
  show "list_all is_digit (six_digits n)" using show_nat_digits [of n] by (auto simp: six_digits_def list_all_iff)
  show "digits_value (six_digits n) = int n" by (simp add: six_digits_def digits_value_append digits_value_zeros digits_value_show_nat)
qed

text \<open>C38. Every amount up to the maximum can be asked for, and is understood exactly: written in dollars with six decimals by a
  browser, or as an integer of micro-dollars by a client, it is read back as itself.\<close>

theorem amount_roundtrip:
  assumes "int n \<le> max_payout_micro_usd"
  shows "requested_micro_usd True m (show_usd n) = Inr (int n) \<and> requested_micro_usd False (show_nat n) u = Inr (int n)"
proof
  let ?w = "show_nat (n div 10 ^ 6)" and ?f = "six_digits (n mod 10 ^ 6)"
  have n: "n \<le> 10 ^ 15" using assms by (simp add: max_payout_micro_usd_def)
  have w: "length ?w \<le> 10" "length (show_nat n) \<le> 16"
    using show_nat_digits_bound [of 10 "n div 10 ^ 6"] show_nat_digits_bound [of 16 n] n by simp_all
  have f: "length ?f = 6" "list_all is_digit ?f" "digits_value ?f = int (n mod 10 ^ 6)" by (rule six_digits_facts; simp)+
  have d: "\<forall>c \<in> set ?w. is_digit c" "\<forall>c \<in> set (show_nat n). is_digit c" using show_nat_digits by auto
  have "\<forall>c \<in> set (show_usd n). \<not> is_space c"
    using d(1) f(2) digit_no_space by (auto simp: show_usd_def list_all_iff)
  then have strip: "strip (show_usd n) = show_usd n" by (rule strip_no_space)
  have take: "takeWhile is_digit (show_usd n) = ?w" "dropWhile is_digit (show_usd n) = CHR ''.'' # ?f"
    using d(1) by (simp_all add: show_usd_def takeWhile_append2 dropWhile_append2)
  have parts: "usd_parts (show_usd n) = Some (?w, ?f)" using take f by (auto simp: usd_parts_def Let_def)
  have len: "length (show_usd n) \<le> max_amount_chars" using w f by (simp add: show_usd_def max_amount_chars_def)
  have "int (n div 10 ^ 6 * 10 ^ 6 + n mod 10 ^ 6) = int n" by (simp only: div_mult_mod_eq)
  then have v: "digits_value ?w * 10 ^ 6 + digits_value ?f * 10 ^ (6 - length ?f) = int n"
    unfolding digits_value_show_nat f of_nat_add of_nat_mult of_nat_power by (simp only: of_nat_numeral diff_self_eq_0 power_0 mult_1_right)
  have ne: "show_usd n \<noteq> []" by (simp add: show_usd_def)
  show "requested_micro_usd True m (show_usd n) = Inr (int n)"
    using assms v ne len by (simp add: requested_micro_usd_def strip parts Let_def)
  have "strip (show_nat n) = show_nat n" by (rule strip_no_space) (use d(2) digit_no_space in blast)
  then show "requested_micro_usd False (show_nat n) u = Inr (int n)"
    using assms w(2) d(2) by (simp add: requested_micro_usd_def Let_def digits_value_show_nat list_all_iff max_amount_chars_def)
qed

lemma amount_roundtrip_witness:
  "requested_micro_usd True [] (show_usd 12345678) = Inr 12345678 \<and> requested_micro_usd False (show_nat 12345678) [] = Inr 12345678"
  using amount_roundtrip [of 12345678 "[]" "[]"] by (simp add: max_payout_micro_usd_def)

lemma digits_value_nonneg: "list_all is_digit t \<Longrightarrow> 0 \<le> digits_value t"
proof (induction t rule: rev_induct)
  case (snoc c t)
  then show ?case by (simp add: digits_value_snoc digit_value_def is_digit_def Let_def)
qed (simp add: digits_value_def)

lemma usd_parts_digits: "usd_parts t = Some (w, f) \<Longrightarrow> list_all is_digit w \<and> list_all is_digit f"
  by (auto simp: usd_parts_def Let_def list_all_iff dest: set_takeWhileD split: if_splits list.splits)

text \<open>Whatever a form holds, the amount read from it lies between zero and the maximum.\<close>

theorem amount_bounds:
  assumes "requested_micro_usd browser m u = Inr v"
  shows "0 \<le> v \<and> v \<le> max_payout_micro_usd"
  using assms digits_value_nonneg usd_parts_digits
  by (auto simp: requested_micro_usd_def Let_def split: if_splits option.splits)

lemma amount_bounds_witness: "0 \<le> (12500000::int) \<and> (12500000::int) \<le> max_payout_micro_usd"
  by (rule amount_bounds [of True "[]" "''12.5''"]) code_simp

lemma request_payout_raises:
  "request_payout now lim uid v s = Inl e \<Longrightarrow> (\<exists>m. e = ValueError m) \<or> (\<exists>n. e = PayoutQuotaExceeded n)"
  by (auto simp: request_payout_def quote_payout_def bindR_Inl_iff Let_def split: if_splits option.splits)

lemma requested_raises: "requested_micro_usd browser m u = Inl e \<Longrightarrow> \<exists>m. e = ValueError m"
  by (auto simp: requested_micro_usd_def Let_def split: if_splits option.splits)

text \<open>A request for a payout is always answered: no text of the form and no state of the database lets an exception
  through, and the database changes only by the payout row of the request.\<close>

theorem payout_form_always_answers:
  "\<exists>s' r. create_payout browser configured now uid m u s = Inr (s', r)
     \<and> (s' = s \<or> (\<exists>v i. requested_micro_usd browser m u = Inr v \<and> request_payout now (Some (configured_limit configured)) uid v s = Inr (s', i)))"
proof (cases "bindR (requested_micro_usd browser m u) (\<lambda>v. request_payout now (Some (configured_limit configured)) uid v s)")
  case (Inl e)
  then have "(\<exists>m. e = ValueError m) \<or> (\<exists>n. e = PayoutQuotaExceeded n)"
    using requested_raises request_payout_raises by (auto simp: bindR_Inl_iff) blast
  then show ?thesis using Inl by (auto simp: create_payout_def)
next
  case (Inr x)
  then show ?thesis by (cases x) (auto simp: create_payout_def bindR_Inr_iff)
qed

end
