(* ===== verification/Check_Runner.thy ===== *)
theory Check_Runner
  imports Program Probe "HOL-Library.AList"
begin

text \<open>
  \<open>app/check_service.py\<close>: the worker that claims due proxies, checks them and applies the results, with its sweep clocks
  and the circuit breaker of the probe endpoints. The futures of a batch are taken in the order in which they finish, a
  parameter; so are the moment of the stop request, the futures that can still be cancelled, and every reading of a clock.
  The semaphores per provider and the thread pool are left out.
\<close>

subsection \<open>The circuit breaker\<close>

text \<open>\<open>_probe_endpoint_state\<close>: failures in a row, and the time until which the endpoint is left alone (0 when it is not).\<close>

type_synonym circuit = "(string \<times> nat \<times> rat) list"

definition circuit_failure_threshold :: nat where "circuit_failure_threshold = 3"
definition circuit_cooldown :: rat where "circuit_cooldown = 300"

definition unavailable_probe_endpoints :: "rat \<Rightarrow> circuit \<Rightarrow> circuit \<times> string list" where
  "unavailable_probe_endpoints now c =
     (let c1 = filter (\<lambda>(e, f, u). \<not> (u \<noteq> 0 \<and> u \<le> now)) c in
      (c1, map fst (filter (\<lambda>(e, f, u). now < u) c1)))"

definition record_fast_probe_result :: "rat \<Rightarrow> probe_answer \<Rightarrow> circuit \<Rightarrow> circuit" where
  "record_fast_probe_result now a c =
     (let failed = strip (an_failed_endpoint a); successful = strip (an_endpoint a) in
      if an_failure a = ''probe_endpoint'' \<and> failed \<noteq> ''''
      then (let n = (case map_of c failed of None \<Rightarrow> 0 | Some (f, u) \<Rightarrow> f) + 1 in
            AList.update failed (n, if circuit_failure_threshold \<le> n then now + circuit_cooldown else 0) c)
      else if an_status a \<in> {''live'', ''live_unverified''} \<and> successful \<noteq> '''' then AList.delete successful c
      else c)"

subsection \<open>The runner\<close>

record runner =
  cr_interval :: int
  cr_concurrency :: int
  cr_sweep :: "time option"
  cr_health_sweep :: "time option"
  cr_earn_sweep :: "time option"
  cr_earn_hours :: int
  cr_per_host :: int
  cr_health_due :: bool
  cr_earn_due :: bool
  cr_circuit :: circuit

text \<open>The sweep times of the given state; the settings are read before their first use.\<close>

definition new_runner :: "time option \<Rightarrow> time option \<Rightarrow> time option \<Rightarrow> runner" where
  "new_runner sweep health earn = \<lparr>cr_interval = 60, cr_concurrency = 5, cr_sweep = sweep, cr_health_sweep = health, cr_earn_sweep = earn,
     cr_earn_hours = 168, cr_per_host = 2, cr_health_due = (health = None \<and> sweep = None), cr_earn_due = (earn = None), cr_circuit = []\<rparr>"

definition interval_seconds :: "runner \<Rightarrow> int" where
  "interval_seconds r = max 15 (min 1440 (cr_interval r)) * 60"

definition earnapp_interval_seconds :: "runner \<Rightarrow> int" where
  "earnapp_interval_seconds r = max 24 (min 720 (cr_earn_hours r)) * 3600"

definition refresh_settings :: "store \<Rightarrow> runner \<Rightarrow> runner" where
  "refresh_settings s r = (let c = checker_settings s in r\<lparr>cr_interval := health_interval_minutes c, cr_concurrency := health_concurrency c,
     cr_earn_hours := earnapp_refresh_hours c, cr_per_host := health_per_host_concurrency c\<rparr>)"

definition health_at :: "runner \<Rightarrow> time option" where
  "health_at r = (case cr_health_sweep r of None \<Rightarrow> cr_sweep r | Some t \<Rightarrow> Some t)"

definition refresh_due_flags :: "time \<Rightarrow> runner \<Rightarrow> runner" where
  "refresh_due_flags now r = r\<lparr>
     cr_health_due := cr_health_due r \<or> (case health_at r of None \<Rightarrow> False | Some t \<Rightarrow> t + seconds (interval_seconds r) \<le> now),
     cr_earn_due := cr_earn_due r \<or> (case cr_earn_sweep r of None \<Rightarrow> False | Some t \<Rightarrow> t + seconds (earnapp_interval_seconds r) \<le> now)\<rparr>"

definition mark_health_sweep :: "time \<Rightarrow> runner \<Rightarrow> runner" where
  "mark_health_sweep t r = r\<lparr>cr_sweep := Some t, cr_health_sweep := Some t, cr_health_due := False\<rparr>"

definition mark_earnapp_sweep :: "time \<Rightarrow> runner \<Rightarrow> runner" where
  "mark_earnapp_sweep t r = r\<lparr>cr_earn_sweep := Some t, cr_earn_due := False\<rparr>"

subsection \<open>What the queues say\<close>

definition health_queue_due :: "store \<Rightarrow> time \<Rightarrow> bool" where
  "health_queue_due s now \<longleftrightarrow> exists_where (\<lambda>p. p_archived p = None \<and> active_owner s p
     \<and> (elapsed (p_next_check p) now \<or> lapsed (p_check_claimed_until p) now) \<and> elapsed (p_check_claimed_until p) now) (proxies s)"

text \<open>The earliest of some instants, as a positive distance from now.\<close>

definition wake_after :: "time \<Rightarrow> time option list \<Rightarrow> time option" where
  "wake_after now ts = (case List.map_filter id ts of [] \<Rightarrow> None | x # xs \<Rightarrow> Some (max (seconds 1) (foldl min x xs - now)))"

definition next_health_wake :: "store \<Rightarrow> time \<Rightarrow> time option" where
  "next_health_wake s now =
     (let ps = select_where (\<lambda>p. p_archived p = None \<and> active_owner s p) (proxies s) in
      wake_after now (map p_next_check ps @ map p_check_claimed_until ps))"

definition earnapp_queue_due :: "store \<Rightarrow> time \<Rightarrow> bool" where
  "earnapp_queue_due s now \<longleftrightarrow> exists_where (due_earnapp now s) (proxies s)"

definition next_earnapp_wake :: "store \<Rightarrow> time \<Rightarrow> time option" where
  "next_earnapp_wake s now =
     (let ps = select_where (\<lambda>p. p_archived p = None \<and> p_status p = Px_online \<and> active_owner s p) (proxies s) in
      wake_after now (map p_earn_next ps @ map p_earn_claimed_until ps))"

text \<open>In whole seconds, towards zero.\<close>

definition next_wait_seconds :: "time \<Rightarrow> runner \<Rightarrow> runner \<times> int" where
  "next_wait_seconds now r =
     (let r1 = refresh_due_flags now r in
      (r1, case health_at r1 of None \<Rightarrow> 0 | Some t \<Rightarrow> max 0 (whole_seconds (t + seconds (interval_seconds r1) - now))))"

subsection \<open>One check\<close>

text \<open>The rows of a batch carry what \<open>reveal_proxy\<close> gives for them; \<open>str\<close> of an exception is its text.\<close>

fun raised_text :: "exn \<Rightarrow> string" where
  "raised_text (ValueError m) = m"
| "raised_text (TypeError m) = m"
| "raised_text e = ''''"

definition answer_result :: "probe_answer \<Rightarrow> health_result" where
  "answer_result a = \<lparr>hr_status = Some (an_status a), hr_generation = None, hr_claim = None, hr_failure = Some (an_failure a),
     hr_endpoint = Some (an_endpoint a), hr_index = Index_given (an_next a), hr_latency = an_latency a,
     hr_untrusted = (\<not> an_trusted a), hr_exit_ip = Some (an_exit_ip a), hr_protocol = Some (an_protocol a), hr_error = Some (an_error a)\<rparr>"

definition detected_known :: "proxy_row \<Rightarrow> bool" where
  "detected_known p \<longleftrightarrow> p_detected_protocol p \<in> {''http'', ''socks5''}"

definition row_proxy :: "proxy_row \<Rightarrow> parsed_proxy \<Rightarrow> probe_proxy" where
  "row_proxy p q = \<lparr>pb_host = pp_host q, pb_port = pp_port q, pb_username = pp_username q, pb_password = pp_password q,
     pb_protocol = (if detected_known p then p_detected_protocol p else pp_protocol q)\<rparr>"

text \<open>The surroundings of one check: the worlds of the two checkers, and the readings of the breaker's clock.\<close>

record surroundings =
  su_fast :: probe_env
  su_strong :: probe_env
  su_clock :: "nat \<Rightarrow> rat"

definition strong_check :: "surroundings \<Rightarrow> nat \<Rightarrow> probe_proxy \<Rightarrow> circuit \<Rightarrow> circuit \<times> probe_answer result" where
  "strong_check su k proxy c =
     (case unavailable_probe_endpoints (su_clock su k) c of
        (c1, down) \<Rightarrow> (c1, bindR (check_proxy_strong (su_strong su) proxy 10 down) (\<lambda>(a, s). Inr a)))"

definition probe_row :: "surroundings \<Rightarrow> proxy_row \<Rightarrow> parsed_proxy \<Rightarrow> circuit \<Rightarrow> circuit \<times> probe_answer result" where
  "probe_row su p q c =
     (let proxy = row_proxy p q in
      if p_health_mode p = Hm_fast \<and> detected_known p
      then (case unavailable_probe_endpoints (su_clock su 0) c of
              (c1, down) \<Rightarrow>
                (case check_proxy_fast (su_fast su) proxy (p_next_probe p) (or_empty (p_exit_ip p)) down of
                   Inl e \<Rightarrow> (c1, Inl e)
                 | Inr a \<Rightarrow>
                     (let c2 = record_fast_probe_result (su_clock su 1) a c1 in
                      if an_status a \<in> {''needs_confirmation'', ''inconclusive''} \<and> an_failure a \<notin> {''probe_endpoint'', ''provider_blocked''}
                      then strong_check su 2 proxy c2 else (c2, Inr a))))
      else strong_check su 0 proxy c)"

text \<open>The result of a worker, a failure of the worker included; both carry the generation and the claim of the row.\<close>

definition worker_failed :: "string \<Rightarrow> health_result" where
  "worker_failed m = \<lparr>hr_status = Some ''inconclusive'', hr_generation = None, hr_claim = None, hr_failure = Some ''worker'', hr_endpoint = None,
     hr_index = Index_absent, hr_latency = None, hr_untrusted = False, hr_exit_ip = None, hr_protocol = None,
     hr_error = Some (''checker worker failed: '' @ m)\<rparr>"

definition for_row :: "proxy_row \<Rightarrow> health_result \<Rightarrow> health_result" where
  "for_row p r = r\<lparr>hr_generation := Some (generation_of p), hr_claim := Some (or_empty (p_check_token p))\<rparr>"

definition check_one :: "surroundings \<Rightarrow> string + parsed_proxy \<Rightarrow> proxy_row \<Rightarrow> circuit \<Rightarrow> circuit \<times> health_result" where
  "check_one su revealed p c =
     (case revealed of
        Inl m \<Rightarrow> (c, for_row p (worker_failed m))
      | Inr q \<Rightarrow> (case probe_row su p q c of
            (c1, Inl e) \<Rightarrow> (c1, for_row p (worker_failed (raised_text e)))
          | (c1, Inr a) \<Rightarrow> (c1, for_row p (answer_result a))))"

subsection \<open>A batch of health checks\<close>

text \<open>What happens around a batch: the checks by row, the order in which the futures finish, the number of results after
  which the runner is found stopped, the futures that can still be cancelled, and the clocks: the start, the moments of the
  results (with the time \<open>reconcile_exit_ip\<close> reads), of the release and of the end.\<close>

record batch_world =
  bw_token :: string
  bw_start :: time
  bw_check :: "proxy_row \<Rightarrow> surroundings"
  bw_reveal :: "proxy_row \<Rightarrow> string + parsed_proxy"
  bw_order :: "proxy_row list \<Rightarrow> proxy_row list"
  bw_stop :: "nat option"
  bw_cancel :: "proxy_row \<Rightarrow> bool"
  bw_at :: "nat \<Rightarrow> time"
  bw_wall :: "nat \<Rightarrow> time"
  bw_release :: time
  bw_end :: time

text \<open>The loop over \<open>as_completed\<close>, left after the result at which the runner is stopped; the results are counted.\<close>

fun apply_batch ::
  "batch_world \<Rightarrow> nat \<Rightarrow> proxy_row list \<Rightarrow> circuit \<Rightarrow> store \<Rightarrow> (circuit \<times> store \<times> nat) result" where
  "apply_batch w k [] c s = Inr (c, s, k)"
| "apply_batch w k (p # ps) c s =
     (let (c1, r) = check_one (bw_check w p) (bw_reveal w p) p c in
      bindR (apply_health_result_locked (bw_wall w k) (bw_at w k) (p_id p) r s) (\<lambda>s1.
        if bw_stop w = Some (Suc k) then Inr (c1, s1, Suc k) else apply_batch w (Suc k) ps c1 s1))"

definition due_count :: "store \<Rightarrow> time \<Rightarrow> int" where
  "due_count s now = count_where (\<lambda>p. p_archived p = None \<and> active_owner s p
     \<and> (elapsed (p_next_check p) now \<or> lapsed (p_check_claimed_until p) now)) (proxies s)"

definition run_health_batch :: "batch_world \<Rightarrow> runner \<Rightarrow> store \<Rightarrow> (runner \<times> store \<times> int) result" where
  "run_health_batch w r0 s =
     (let r = refresh_settings s r0; cfg = checker_settings s;
          (s1, claimed) = claim_due_proxies (bw_start w) (bw_token w) (Some (health_concurrency cfg)) (Some (health_per_host_concurrency cfg)) s in
      if claimed = [] then Inr (if cr_health_due r then mark_health_sweep (bw_end w) r else r, s1, 0)
      else bindR (apply_batch w 0 (bw_order w claimed) (cr_circuit r) s1) (\<lambda>(c, s2, n).
        let rest = drop n (bw_order w claimed);
            s3 = (if rest = [] then s2
                  else fst (release_health_claims (bw_release w)
                    (map (\<lambda>p. (p_id p, Some (or_empty (p_check_token p)))) (filter (bw_cancel w) rest)) s2));
            r1 = r\<lparr>cr_circuit := c\<rparr> in
        Inr (if due_count s3 (bw_end w) = 0 then mark_health_sweep (bw_end w) r1 else r1, s3, int n)))"

text \<open>The clocks of a world run forward; the futures that finish are those of the batch.\<close>

definition world_ok :: "batch_world \<Rightarrow> bool" where
  "world_ok w \<longleftrightarrow> (\<forall>k. bw_start w \<le> bw_at w k \<and> bw_at w k \<le> bw_at w (Suc k) \<and> bw_at w k \<le> bw_release w)
     \<and> bw_start w \<le> bw_release w \<and> bw_release w \<le> bw_end w"

subsection \<open>A batch of EarnApp checks\<close>

record earn_world =
  ew_token :: string
  ew_start :: time
  ew_reveal :: "proxy_row \<Rightarrow> string + parsed_proxy"
  ew_probe :: "proxy_row \<Rightarrow> string + earnapp_result"
  ew_stop :: "nat \<Rightarrow> bool"
  ew_at :: "nat \<Rightarrow> time"
  ew_wall :: "nat \<Rightarrow> time"
  ew_release :: time
  ew_end :: time

text \<open>\<open>ew_probe\<close> is what the WebSocket probe returned with the country of its address, or the text of an exception.\<close>

definition no_earnapp :: "string \<Rightarrow> string \<Rightarrow> earnapp_result" where
  "no_earnapp verdict reason = \<lparr>er_verdict = Some verdict, er_reason = Some reason, er_generation = None, er_claim = None,
     er_exit_ip = None, er_trusted = None, er_country = None\<rparr>"

definition earnapp_outcome :: "earn_world \<Rightarrow> proxy_row \<Rightarrow> earnapp_result" where
  "earnapp_outcome w p =
     (let r = (case ew_reveal w p of
            Inl m \<Rightarrow> no_earnapp ''WSS_FAIL'' (''checker worker failed: '' @ m)
          | Inr q \<Rightarrow>
              (let protocol = (if p_detected_protocol p = '''' then pp_protocol q else p_detected_protocol p) in
               if protocol \<notin> {''http'', ''socks5''} then no_earnapp ''UNKNOWN'' ''protocol not detected''
               else case ew_probe w p of Inl m \<Rightarrow> no_earnapp ''WSS_FAIL'' (''checker worker failed: '' @ m) | Inr x \<Rightarrow> x)) in
      r\<lparr>er_generation := Some (generation_of p), er_claim := Some (or_empty (p_earn_token p))\<rparr>)"

fun apply_earnapp_results :: "earn_world \<Rightarrow> nat \<Rightarrow> proxy_row list \<Rightarrow> store \<Rightarrow> (store \<times> nat) result" where
  "apply_earnapp_results w k [] s = Inr (s, k)"
| "apply_earnapp_results w k (p # ps) s =
     (if ew_stop w k then Inr (s, k)
      else bindR (apply_earnapp_result_locked (ew_wall w k) (ew_at w k) (p_id p) (earnapp_outcome w p) s)
             (apply_earnapp_results w (Suc k) ps))"

definition run_earnapp_batch :: "earn_world \<Rightarrow> runner \<Rightarrow> store \<Rightarrow> (runner \<times> store \<times> int) result" where
  "run_earnapp_batch w r0 s =
     (let r = refresh_settings s r0;
          (s1, claimed) = claim_due_earnapp (ew_start w) (ew_token w) (min (health_concurrency (checker_settings s)) 2) s in
      if claimed = [] then Inr (mark_earnapp_sweep (ew_end w) r, s1, 0)
      else bindR (apply_earnapp_results w 0 claimed s1) (\<lambda>(s2, n).
        let rest = drop n claimed;
            s3 = (if rest = [] then s2
                  else fst (release_earnapp_claims (ew_release w) (map (\<lambda>p. (p_id p, Some (or_empty (p_earn_token p)))) rest) s2));
            due = count_where (\<lambda>p. p_archived p = None \<and> p_status p = Px_online \<and> active_owner s3 p \<and> elapsed (p_earn_next p) (ew_end w))
                    (proxies s3) in
        Inr (if due = 0 then mark_earnapp_sweep (ew_end w) r else r, s3, int n)))"

subsection \<open>Lemmas on the breaker\<close>

datatype circuit_event = Ask rat | Record rat probe_answer

fun circuit_step :: "circuit \<Rightarrow> circuit_event \<Rightarrow> circuit" where
  "circuit_step c (Ask now) = fst (unavailable_probe_endpoints now c)"
| "circuit_step c (Record now a) = record_fast_probe_result now a c"

fun failure_at :: "string \<Rightarrow> circuit_event \<Rightarrow> rat option" where
  "failure_at e (Ask now) = None"
| "failure_at e (Record now a) = (if an_failure a = ''probe_endpoint'' \<and> strip (an_failed_endpoint a) = e then Some now else None)"

definition failures :: "string \<Rightarrow> circuit_event list \<Rightarrow> rat list" where
  "failures e evs = List.map_filter (failure_at e) evs"

definition circuit_ok :: "circuit_event list \<Rightarrow> circuit \<Rightarrow> bool" where
  "circuit_ok evs c \<longleftrightarrow> distinct (map fst c)
     \<and> (\<forall>(e, n, u) \<in> set c. n \<le> length (failures e evs)
         \<and> (u \<noteq> 0 \<longrightarrow> circuit_failure_threshold \<le> n \<and> u - circuit_cooldown \<in> set (failures e evs)))"

lemma failures_snoc: "failures e (evs @ [x]) = failures e evs @ (case failure_at e x of None \<Rightarrow> [] | Some t \<Rightarrow> [t])"
  by (simp add: failures_def map_filter_def split: option.split)

lemma circuit_ok_more: "circuit_ok evs c \<Longrightarrow> circuit_ok (evs @ [x]) c"
  by (fastforce simp: circuit_ok_def failures_snoc)

lemma circuit_ok_filter: "circuit_ok evs c \<Longrightarrow> circuit_ok evs (filter P c)"
  by (auto simp: circuit_ok_def distinct_map_filter)

lemma circuit_ok_update:
  assumes "circuit_ok evs c" "n \<le> length (failures e evs)"
    and "u \<noteq> 0 \<Longrightarrow> circuit_failure_threshold \<le> n \<and> u - circuit_cooldown \<in> set (failures e evs)"
  shows "circuit_ok evs (AList.update e (n, u) c)"
proof -
  have d: "distinct (map fst (AList.update e (n, u) c))" using assms(1) by (simp add: circuit_ok_def distinct_update)
  have "(x, m, v) = (e, n, u) \<or> (x, m, v) \<in> set c" if "(x, m, v) \<in> set (AList.update e (n, u) c)" for x m v
  proof -
    have "map_of (AList.update e (n, u) c) x = Some (m, v)" using d that by simp
    then show ?thesis by (auto simp: update_conv split: if_splits dest: map_of_SomeD)
  qed
  then show ?thesis using assms d by (fastforce simp: circuit_ok_def)
qed

lemma circuit_ok_step: "circuit_ok evs c \<Longrightarrow> circuit_ok (evs @ [x]) (circuit_step c x)"
proof (cases x)
  case (Ask now)
  assume "circuit_ok evs c"
  then show ?thesis using circuit_ok_filter [OF circuit_ok_more] by (simp add: Ask unavailable_probe_endpoints_def Let_def)
next
  case (Record now a)
  assume ok: "circuit_ok evs c"
  note more = circuit_ok_more [OF ok, of x]
  let ?e = "strip (an_failed_endpoint a)"
  show ?thesis
  proof (cases "an_failure a = ''probe_endpoint'' \<and> ?e \<noteq> []")
    case True
    have f: "failures ?e (evs @ [x]) = failures ?e evs @ [now]" using True by (simp add: failures_snoc Record)
    have "(case map_of c ?e of None \<Rightarrow> 0 | Some (n, u) \<Rightarrow> n) \<le> length (failures ?e evs)"
      using ok by (auto simp: circuit_ok_def split: option.split dest!: map_of_SomeD)
    then show ?thesis using True circuit_ok_update [OF more] f
      by (simp add: Record record_fast_probe_result_def Let_def)
  next
    case False
    then show ?thesis using more circuit_ok_filter [OF more] by (auto simp: Record record_fast_probe_result_def Let_def AList.delete_eq)
  qed
qed

lemma circuit_ok_run: "circuit_ok evs (foldl circuit_step [] evs)"
proof (induction evs rule: rev_induct)
  case (snoc x evs)
  then show ?case using circuit_ok_step by simp
qed (simp add: circuit_ok_def)

text \<open>C40. An endpoint is taken out of use only after three failures of its own, and comes back: at most five minutes after the last
  failure it is asked again, whatever else was recorded.\<close>

theorem endpoint_comes_back:
  assumes "endpoint \<in> set (snd (unavailable_probe_endpoints now (foldl circuit_step [] evs)))" "0 \<le> now"
  shows "3 \<le> length (failures endpoint evs) \<and> (\<exists>t \<in> set (failures endpoint evs). now < t + 300)"
proof -
  obtain n u where "(endpoint, n, u) \<in> set (foldl circuit_step [] evs)" "now < u"
    using assms(1) by (auto simp: unavailable_probe_endpoints_def Let_def)
  then show ?thesis using circuit_ok_run [of evs] assms(2)
    by (fastforce simp: circuit_ok_def circuit_failure_threshold_def circuit_cooldown_def intro!: bexI [of _ "u - 300"])
qed

subsection \<open>Only a quorum is trusted\<close>

lemma fast_untrusted: "check_proxy_fast env proxy i ip down = Inr a \<Longrightarrow> \<not> an_trusted a"
  by (auto simp: check_proxy_fast_def fast_verdict_def plain_answer_def Let_def bindR_Inr_iff
      split: prod.splits list.splits sum.splits if_splits)

text \<open>A strong check that found two endpoints in agreement, with verified certificates.\<close>

definition quorum_run :: "probe_env \<Rightarrow> probe_proxy \<Rightarrow> probe_answer \<Rightarrow> bool" where
  "quorum_run env proxy a \<longleftrightarrow> (\<exists>down s i j. check_proxy_strong env proxy 10 down = Inr (a, s)
     \<and> cu_probe (ps_trace s ! i) \<noteq> cu_probe (ps_trace s ! j)
     \<and> call_reports env s True (an_exit_ip a) i \<and> call_reports env s True (an_exit_ip a) j)"

lemma strong_trusted:
  assumes "snd (strong_check su k proxy c) = Inr a" "an_trusted a"
  shows "quorum_run (su_strong su) proxy a"
proof -
  obtain down s where run: "check_proxy_strong (su_strong su) proxy 10 down = Inr (a, s)"
    using assms(1) by (auto simp: strong_check_def bindR_Inr_iff split: prod.splits)
  have "honest (su_strong su) s a" using check_proxy_strong_ok [OF run] assms(2) strong_failure_status(1) by auto
  then have "confirmed (su_strong su) s True False (an_exit_ip a)" using assms(2) by (auto simp: honest_def)
  then show ?thesis using confirmed_reports run unfolding quorum_run_def by blast
qed

lemma probe_row_trusted:
  assumes "snd (probe_row su p q c) = Inr a" "an_trusted a"
  shows "quorum_run (su_strong su) (row_proxy p q) a"
  using assms strong_trusted fast_untrusted
  by (fastforce simp: probe_row_def Let_def split: if_splits prod.splits sum.splits)

lemma check_one_trusted:
  assumes "trusted_ip (snd (check_one su revealed p c)) \<noteq> []"
  shows "\<exists>q a. revealed = Inr q \<and> quorum_run (su_strong su) (row_proxy p q) a
    \<and> trusted_ip (snd (check_one su revealed p c)) = normalized_exit_ip (Some (an_exit_ip a))"
proof -
  have no: "normalized_exit_ip None = []" by code_simp
  obtain q a where "revealed = Inr q" "snd (probe_row su p q c) = Inr a" "an_trusted a"
      "trusted_ip (snd (check_one su revealed p c)) = normalized_exit_ip (Some (an_exit_ip a))"
    using assms no
    by (auto simp: check_one_def trusted_ip_def seen_ip_def for_row_def worker_failed_def answer_result_def
        split: sum.splits prod.splits if_splits)
  then show ?thesis using probe_row_trusted by blast
qed

text \<open>C30. From the wire to the database: applying the result of a check changes the exit address, the attestation or the
  distributor of a proxy only if a strong check in it had two endpoints answer with that address, over calls with verified
  certificates. The cheap check alone moves nothing, whatever it saw.\<close>

theorem identity_moves_only_by_quorum:
  assumes "apply_health_result_locked wall t i (snd (check_one su revealed p c)) s = Inr s'"
    and "map link_view (rows (proxies s')) \<noteq> map link_view (rows (proxies s))"
  shows "\<exists>q a. revealed = Inr q \<and> quorum_run (su_strong su) (row_proxy p q) a
    \<and> trusted_ip (snd (check_one su revealed p c)) = normalized_exit_ip (Some (an_exit_ip a))"
proof (rule check_one_trusted, rule notI)
  assume "trusted_ip (snd (check_one su revealed p c)) = []"
  from untrusted_same_links [OF assms(1) this] show False using assms(2) by (simp add: same_links_def)
qed

subsection \<open>A batch is a run of the program\<close>

fun health_event :: "fleet_event \<Rightarrow> bool" where
  "health_event (Fl_claim_health k l h) = True"
| "health_event (Fl_health w i r) = True"
| "health_event (Fl_release_health cs) = True"
| "health_event e = False"

lemma apply_batch_run:
  assumes "apply_batch w k ps c s = Inr (c', s', n)" "world_ok w" "t \<le> bw_at w k" "t \<le> bw_release w"
  shows "\<exists>es t'. steps (program_step unq sha) (t, s) (map Inr es) (t', s') \<and> t' \<le> bw_release w \<and> list_all health_event es"
  using assms
proof (induction ps arbitrary: k c s t)
  case Nil
  then show ?case by (intro exI [of _ "[]"] exI [of _ t]) simp
next
  case (Cons p ps)
  define r where "r = snd (check_one (bw_check w p) (bw_reveal w p) p c)"
  obtain s1 where s1: "apply_health_result_locked (bw_wall w k) (bw_at w k) (p_id p) r s = Inr s1"
    and rest: "(s1 = s' \<and> n = Suc k) \<or> (\<exists>c1. apply_batch w (Suc k) ps c1 s1 = Inr (c', s', n))"
    using Cons.prems(1) by (auto simp: r_def bindR_Inr_iff split: prod.splits if_splits)
  have step: "program_step unq sha (Inr (Fl_health (bw_wall w k) (p_id p) r)) (t, s) (bw_at w k, s1)"
    using Cons.prems(3) s1 by (intro program_step.fleet) simp_all
  have at: "bw_at w k \<le> bw_at w (Suc k)" "bw_at w k \<le> bw_release w" using Cons.prems(2) by (simp_all add: world_ok_def)
  from rest show ?case
  proof
    assume "s1 = s' \<and> n = Suc k"
    then show ?thesis using step at
      by (intro exI [of _ "[Fl_health (bw_wall w k) (p_id p) r]"] exI [of _ "bw_at w k"]) (simp add: steps_Cons)
  next
    assume "\<exists>c1. apply_batch w (Suc k) ps c1 s1 = Inr (c', s', n)"
    then obtain es t' where "steps (program_step unq sha) (bw_at w k, s1) (map Inr es) (t', s')" "t' \<le> bw_release w" "list_all health_event es"
      using Cons.IH [OF _ Cons.prems(2) at] by blast
    then show ?thesis using step
      by (intro exI [of _ "Fl_health (bw_wall w k) (p_id p) r # es"] exI [of _ t']) (auto simp: steps_Cons)
  qed
qed

text \<open>C31. A batch of health checks is a run of the program: whatever the probes answer, in whatever order they finish, wherever the
  runner is stopped, the database goes through claims, results and releases at growing times - so everything that holds of every
  run holds across batches: the fleet stays consistent, payouts stay covered, no moment is paid twice.\<close>

theorem batch_is_program_run:
  assumes "run_health_batch w r s = Inr (r', s', n)" "world_ok w"
  shows "\<exists>es t'. steps (program_step unq sha) (bw_start w, s) (map Inr es) (t', s') \<and> t' \<le> bw_end w \<and> list_all health_event es"
proof -
  let ?cfg = "checker_settings s"
  let ?claim = "Fl_claim_health (bw_token w) (Some (health_concurrency ?cfg)) (Some (health_per_host_concurrency ?cfg))"
  obtain s1 claimed where claim: "claim_due_proxies (bw_start w) (bw_token w) (Some (health_concurrency ?cfg)) (Some (health_per_host_concurrency ?cfg)) s = (s1, claimed)"
    by (cases "claim_due_proxies (bw_start w) (bw_token w) (Some (health_concurrency ?cfg)) (Some (health_per_host_concurrency ?cfg)) s")
  have first: "program_step unq sha (Inr ?claim) (bw_start w, s) (bw_start w, s1)"
    by (intro program_step.fleet) (simp_all add: claim)
  show ?thesis
  proof (cases "claimed = []")
    case True
    then have "s' = s1" using assms(1) by (auto simp: run_health_batch_def Let_def claim)
    then show ?thesis using first assms(2)
      by (intro exI [of _ "[?claim]"] exI [of _ "bw_start w"]) (auto simp: steps_Cons world_ok_def)
  next
    case False
    then obtain c s2 m where applied: "apply_batch w 0 (bw_order w claimed) (cr_circuit (refresh_settings s r)) s1 = Inr (c, s2, m)"
      and s': "s' = (if drop m (bw_order w claimed) = [] then s2 else fst (release_health_claims (bw_release w)
          (map (\<lambda>p. (p_id p, Some (or_empty (p_check_token p)))) (filter (bw_cancel w) (drop m (bw_order w claimed)))) s2))"
      using assms(1) by (auto simp: run_health_batch_def Let_def claim bindR_Inr_iff)
    let ?rest = "drop m (bw_order w claimed)"
    let ?release = "Fl_release_health (map (\<lambda>p. (p_id p, Some (or_empty (p_check_token p)))) (filter (bw_cancel w) ?rest))"
    have start: "bw_start w \<le> bw_at w 0" "bw_start w \<le> bw_release w" using assms(2) by (simp_all add: world_ok_def)
    obtain es t where es: "steps (program_step unq sha) (bw_start w, s1) (map Inr es) (t, s2)" "t \<le> bw_release w" "list_all health_event es"
      using apply_batch_run [OF applied assms(2) start] by blast
    have run: "steps (program_step unq sha) (bw_start w, s) (map Inr (?claim # es)) (t, s2)"
      using first es(1) by (auto simp: steps_Cons)
    show ?thesis
    proof (cases "?rest = []")
      case True
      then show ?thesis using run es s' assms(2) by (intro exI [of _ "?claim # es"] exI [of _ t]) (auto simp: world_ok_def)
    next
      case False
      have "program_step unq sha (Inr ?release) (t, s2) (bw_release w, s')"
        using es(2) s' False by (intro program_step.fleet) simp_all
      then have "steps (program_step unq sha) (bw_start w, s) (map Inr ((?claim # es) @ [?release])) (bw_release w, s')"
        using run by (auto simp only: map_append steps_append list.map steps_Cons steps_Nil)
      then show ?thesis using es(3) assms(2)
        by (intro exI [of _ "(?claim # es) @ [?release]"] exI [of _ "bw_release w"]) (simp add: world_ok_def)
    qed
  qed
qed

subsection \<open>Witnesses\<close>

text \<open>A row that is due, and a world in which its credential cannot be read.\<close>

definition sample_due :: store where
  "sample_due = sample_store [sample_user 1] [(sample_proxy 1 1 0)\<lparr>p_cursor := None\<rparr>]"

definition sample_world :: batch_world where
  "sample_world = \<lparr>bw_token = ''t'', bw_start = 0, bw_check = (\<lambda>_. \<lparr>su_fast = dead_env, su_strong = dead_env, su_clock = (\<lambda>_. 0)\<rparr>),
     bw_reveal = (\<lambda>_. Inl ''bad key''), bw_order = id, bw_stop = None, bw_cancel = (\<lambda>_. True), bw_at = (\<lambda>_. 1), bw_wall = (\<lambda>_. 1),
     bw_release = 2, bw_end = 3\<rparr>"

lemma batch_is_program_run_witness:
  "\<exists>r' s'. run_health_batch sample_world (new_runner None None None) sample_due = Inr (r', s', 1)
     \<and> (\<exists>es t'. steps (program_step id id) (0, sample_due) (map Inr es) (t', s') \<and> t' \<le> 3 \<and> list_all health_event es)"
proof -
  have "(case run_health_batch sample_world (new_runner None None None) sample_due of Inl e \<Rightarrow> False | Inr (r, s, n) \<Rightarrow> n = 1)"
    by code_simp
  then obtain r' s' where run: "run_health_batch sample_world (new_runner None None None) sample_due = Inr (r', s', 1)"
    by (auto split: sum.splits prod.splits)
  moreover have "world_ok sample_world" by (simp add: world_ok_def sample_world_def)
  ultimately show ?thesis using batch_is_program_run [OF run, of id id] by (simp add: sample_world_def)
qed

text \<open>A new proxy, checked in the world where all endpoints answer 9.9.9.9.\<close>

definition sample_new :: proxy_row where
  "sample_new = (sample_proxy 1 1 0)\<lparr>p_exit_ip := None, p_attestation := At_none, p_status := Px_pending, p_eligibility := El_pending,
     p_online_since := None, p_detected_protocol := ''unknown'', p_health_mode := Hm_strong\<rparr>"

definition sample_surroundings :: surroundings where
  "sample_surroundings = \<lparr>su_fast = live_env, su_strong = live_env, su_clock = (\<lambda>_. 0)\<rparr>"

definition sample_parsed :: parsed_proxy where
  "sample_parsed = \<lparr>pp_protocol = ''socks5'', pp_host = ''8.8.8.8'', pp_port = 1080, pp_username = [], pp_password = []\<rparr>"

lemma identity_moves_only_by_quorum_witness:
  "\<exists>q a. Inr sample_parsed = (Inr q :: string + parsed_proxy) \<and> quorum_run live_env (row_proxy sample_new q) a"
proof -
  let ?r = "snd (check_one sample_surroundings (Inr sample_parsed) sample_new [])"
  let ?s = "sample_store [sample_user 1] [sample_new]"
  have "(case apply_health_result_locked 5 5 1 ?r ?s of Inl e \<Rightarrow> False
     | Inr s' \<Rightarrow> map link_view (rows (proxies s')) \<noteq> map link_view (rows (proxies ?s)))"
    by code_simp
  then obtain s' where "apply_health_result_locked 5 5 1 ?r ?s = Inr s'" "map link_view (rows (proxies s')) \<noteq> map link_view (rows (proxies ?s))"
    by (auto split: sum.splits)
  from identity_moves_only_by_quorum [OF this] show ?thesis by (auto simp: sample_surroundings_def)
qed

definition probe_failure :: "rat \<Rightarrow> circuit_event" where
  "probe_failure t = Record t ((plain_answer ''inconclusive'' ''socks5'')\<lparr>an_failure := ''probe_endpoint'', an_failed_endpoint := ''e''\<rparr>)"

lemma endpoint_comes_back_witness:
  "3 \<le> length (failures ''e'' [probe_failure 1, probe_failure 2, probe_failure 3])
     \<and> (\<exists>t \<in> set (failures ''e'' [probe_failure 1, probe_failure 2, probe_failure 3]). 302 < t + 300)"
  by (rule endpoint_comes_back) code_simp+

end
