(* ===== verification/Sync_Service.thy ===== *)
theory Sync_Service
  imports Inventory Settings
begin

text \<open>
  \<open>app/services/proxiware_health.py\<close> and \<open>app/proxiware_sync_service.py\<close>: the health markers and the emergency pause in the
  settings, and one cycle of the inventory worker with its retries. \<open>stamp\<close> is the text of an instant. The API key, the
  answers of the provider, the clocks and the moments at which the worker is asked to stop are parameters; the log and the
  wait between cycles are left out.
\<close>

subsection \<open>Health markers\<close>

definition automation_pause_key :: string where
  "automation_pause_key = ''proxiware_automation_paused''"

definition worker_name :: "string \<Rightarrow> string" where
  "worker_name worker = map (\<lambda>c. if c = CHR ''-'' then CHR ''_'' else c) (lower (strip (if worker = '''' then ''worker'' else worker)))"

definition worker_name_char :: "char \<Rightarrow> bool" where
  "worker_name_char c \<longleftrightarrow> is_digit c \<or> c = CHR ''_'' \<or> (97 \<le> code c \<and> code c \<le> 122)"

definition marker :: "string \<Rightarrow> string \<Rightarrow> string" where
  "marker name what = ''proxiware_'' @ name @ what"

definition put_settings :: "(string \<times> string) list \<Rightarrow> store \<Rightarrow> store" where
  "put_settings kvs s = fold (\<lambda>(k, v). set_setting k v) kvs s"

definition heartbeat_values :: "string \<Rightarrow> string \<Rightarrow> string \<Rightarrow> bool \<Rightarrow> string \<Rightarrow> string option \<Rightarrow> (string \<times> string) list" where
  "heartbeat_values name status timestamp last_success error_code next_wake =
     [(marker name ''_status'', take 32 (lower (strip (if status = '''' then ''unknown'' else status)))),
      (marker name ''_heartbeat_at'', timestamp)]
     @ (if error_code \<noteq> '''' then [(marker name ''_last_error_code'', take 64 (lower (strip error_code)))] else [])
     @ (if last_success then [(marker name ''_last_success_at'', timestamp)] else [])
     @ (case next_wake of None \<Rightarrow> [] | Some t \<Rightarrow> [(marker name ''_next_wake_at'', take 64 t)])"

definition record_worker_heartbeat ::
  "(time \<Rightarrow> string) \<Rightarrow> string \<Rightarrow> string \<Rightarrow> time \<Rightarrow> bool \<Rightarrow> string \<Rightarrow> string option \<Rightarrow> store \<Rightarrow> store result" where
  "record_worker_heartbeat stamp worker status now last_success error_code next_wake s =
     (let name = worker_name worker in
      if name = '''' \<or> \<not> list_all worker_name_char name then Inl (ValueError ''Invalid worker name'')
      else Inr (put_settings (heartbeat_values name status (stamp now) last_success error_code next_wake) s))"

subsection \<open>Errors of the provider\<close>

text \<open>The HTTP status of a \<open>ProxiwareAPIError\<close> is told by its code.\<close>

fun safe_error_code :: "exn \<Rightarrow> string" where
  "safe_error_code SyncAlreadyRunning = ''already_running''"
| "safe_error_code (ProxiwareAPIError c) =
     (if c = status_code 401 \<or> c = status_code 403 then ''permission_denied''
      else if c = status_code 409 then ''provider_conflict''
      else if c = status_code 429 then ''provider_rate_limited'' else ''provider_unavailable'')"
| "safe_error_code (ValueError m) = ''invalid_response''"
| "safe_error_code (TypeError m) = ''invalid_response''"
| "safe_error_code e = ''provider_unavailable''"

definition retryable :: "exn \<Rightarrow> bool" where
  "retryable e \<longleftrightarrow> safe_error_code e \<in> {''provider_timeout'', ''provider_unavailable'', ''provider_rate_limited''}"

subsection \<open>One cycle\<close>

record sync_env =
  se_sha256 :: "string \<Rightarrow> string"
  se_encrypt :: "string \<Rightarrow> string"
  se_reveal :: "asg_row \<Rightarrow> string \<Rightarrow> string option"
  se_key :: "store \<Rightarrow> string"
  se_http :: "nat \<Rightarrow> string \<Rightarrow> http_response"
  se_clock :: "nat \<Rightarrow> int \<Rightarrow> time"
  se_failed :: "nat \<Rightarrow> time"
  se_token :: "nat \<Rightarrow> string"
  se_stopped :: "nat \<Rightarrow> bool"
  se_woken :: "nat \<Rightarrow> bool"
  se_iso :: "time \<Rightarrow> string"
  se_beat :: "nat \<Rightarrow> time"

datatype cycle =
    Cycle_stopped nat
  | Cycle_paused
  | Cycle_not_configured
  | Cycle_ok sync_result nat
  | Cycle_error string nat

definition beat :: "sync_env \<Rightarrow> nat \<Rightarrow> string \<Rightarrow> bool \<Rightarrow> string \<Rightarrow> store \<Rightarrow> store" where
  "beat env k status ok err s = (case record_worker_heartbeat (se_iso env) ''sync_worker'' status (se_beat env k) ok err None s of
     Inl e \<Rightarrow> s | Inr s' \<Rightarrow> s')"

text \<open>The loop over the attempts \<open>k, k+1, ...\<close>, of which \<open>n\<close> are left; \<open>se_stopped\<close> is read before an attempt and
  \<open>se_woken\<close> says whether the wait after it is interrupted.\<close>

fun sync_attempts :: "sync_env \<Rightarrow> nat \<Rightarrow> nat \<Rightarrow> store \<Rightarrow> store \<times> cycle" where
  "sync_attempts env k 0 s = (s, Cycle_error ''provider_unavailable'' (k - 1))"
| "sync_attempts env k (Suc n) s =
     (if se_stopped env k then (s, Cycle_stopped (k - 1))
      else case sync_proxiware_inventory (se_sha256 env) (se_encrypt env) (se_reveal env) (se_http env k) (se_clock env k) (se_failed env k)
                  (se_token env k) s of
        (s1, Inr r) \<Rightarrow> (beat env k ''ok'' True '''' s1, Cycle_ok r k)
      | (s1, Inl e) \<Rightarrow>
          (let s2 = beat env k ''error'' False (safe_error_code e) s1 in
           if \<not> retryable e \<or> n = 0 then (s2, Cycle_error (safe_error_code e) k)
           else if se_woken env k then (s2, Cycle_stopped k)
           else sync_attempts env (Suc k) n s2))"

definition sync_retry_limit :: "int \<Rightarrow> nat" where
  "sync_retry_limit configured = nat (max 1 (min 5 configured))"

definition sync_once :: "sync_env \<Rightarrow> int \<Rightarrow> store \<Rightarrow> store \<times> cycle" where
  "sync_once env configured s =
     (if se_stopped env 0 then (s, Cycle_stopped 0)
      else if automation_paused s then (beat env 0 ''paused'' False '''' s, Cycle_paused)
      else (let s1 = beat env 0 ''starting'' False '''' s in
        if strip (se_key env s1) = '''' then (beat env 0 ''not_configured'' False ''missing_api_key'' s1, Cycle_not_configured)
        else sync_attempts env 1 (sync_retry_limit configured) s1))"

subsection \<open>Facts\<close>

lemma put_settings_other: "k \<notin> fst ` set kvs \<Longrightarrow> settings (put_settings kvs s) k = settings s k"
  by (induction kvs arbitrary: s) (auto simp: put_settings_def set_setting_def)

lemma put_settings_frame [simp]:
  "runs (put_settings kvs s) = runs s" "subs (put_settings kvs s) = subs s"
  "asgs (put_settings kvs s) = asgs s" "jobs (put_settings kvs s) = jobs s"
  by (induction kvs arbitrary: s) (auto simp: put_settings_def set_setting_def)

lemma heartbeat_puts:
  "record_worker_heartbeat stamp worker status now ok err wake s = Inr s' \<Longrightarrow>
   s' = put_settings (heartbeat_values (worker_name worker) status (stamp now) ok err wake) s"
  by (auto simp: record_worker_heartbeat_def Let_def split: if_splits)

lemma beat_frame [simp]:
  "runs (beat env k st ok err s) = runs s" "subs (beat env k st ok err s) = subs s"
  "asgs (beat env k st ok err s) = asgs s" "jobs (beat env k st ok err s) = jobs s"
  by (auto simp: beat_def split: sum.splits dest: heartbeat_puts)

text \<open>A marker of any worker is another key than the pause.\<close>

lemma markers_spare_pause: "automation_pause_key \<notin> fst ` set (heartbeat_values name status stamp ok err wake)"
proof -
  have "marker name w \<noteq> automation_pause_key" if "w \<noteq> ''''" "last w \<noteq> CHR ''d''" for w
  proof
    assume "marker name w = automation_pause_key"
    then have "last (marker name w) = last automation_pause_key" by simp
    then show False using that by (simp add: marker_def automation_pause_key_def last_append)
  qed
  note one = this
  have "fst ` set (heartbeat_values name status stamp ok err wake) \<subseteq>
      marker name ` {''_status'', ''_heartbeat_at'', ''_last_error_code'', ''_last_success_at'', ''_next_wake_at''}"
    by (auto simp: heartbeat_values_def split: if_splits option.splits)
  then show ?thesis using one [of "''_status''"] one [of "''_heartbeat_at''"] one [of "''_last_error_code''"]
      one [of "''_last_success_at''"] one [of "''_next_wake_at''"] by auto
qed

text \<open>The pause is safe from the workers: a heartbeat of whatever worker neither sets nor lifts it.\<close>

lemma heartbeat_keeps_pause:
  "record_worker_heartbeat stamp worker status now ok err wake s = Inr s' \<Longrightarrow> automation_paused s' = automation_paused s"
  by (drule heartbeat_puts) (simp add: automation_paused_def put_settings_other markers_spare_pause [unfolded automation_pause_key_def])

lemma beat_pause [simp]: "automation_paused (beat env k st ok err s) = automation_paused s"
  by (auto simp: beat_def heartbeat_keeps_pause split: sum.splits)

text \<open>A paused worker leaves the inventory, its runs and the swaps alone, and stays paused.\<close>

theorem paused_sync_is_silent:
  assumes "automation_paused s" "sync_once env n s = (s', c)"
  shows "automation_paused s' \<and> runs s' = runs s \<and> subs s' = subs s \<and> asgs s' = asgs s \<and> jobs s' = jobs s \<and> c \<in> {Cycle_paused, Cycle_stopped 0}"
  using assms by (auto simp: sync_once_def split: if_splits)

text \<open>The worker treats a run that an operator canceled like an outage of the provider: it starts the next attempt, and so
  another run.\<close>

theorem canceled_sync_tries_again:
  assumes "sync_proxiware_inventory (se_sha256 env) (se_encrypt env) (se_reveal env) (se_http env k) (se_clock env k) (se_failed env k)
      (se_token env k) s = (s1, Inl SyncCancelled)"
    and "\<not> se_stopped env k" "\<not> se_woken env k" "n \<noteq> 0"
  shows "sync_attempts env k (Suc n) s = sync_attempts env (Suc k) n (beat env k ''error'' False ''provider_unavailable'' s1)"
  using assms by (simp add: retryable_def Let_def)

end
