(* ===== verification/Credentials.thy ===== *)
theory Credentials
  imports Probe Swap
begin

text \<open>
  \<open>app/services/proxiware_credentials.py\<close> and the worker keys of \<open>app/services/proxiware_crypto.py\<close>: the secrets of the
  provider, its browser session, the audit, and the gate of the automatic swaps that a broken session closes. Fernet
  encryption with the two keys, JSON of the cookies and the answers of the browser and of the captcha service are
  parameters. An expiry is NULL, an instant, or a text that is no instant. The gate lives in the settings of the store.
\<close>

subsection \<open>Keys\<close>

text \<open>\<open>cy_worker\<close> is \<open>worker_profile()\<close>; the two decryptions give \<open>None\<close> where they raise \<open>ValueError\<close>, and the two
  messages of a worker secret that cannot be read are one.\<close>

record 'c crypto =
  cy_worker :: bool
  cy_encrypt :: "string \<Rightarrow> string"
  cy_decrypt :: "string \<Rightarrow> string option"
  cy_worker_encrypt :: "string \<Rightarrow> string"
  cy_worker_decrypt :: "string \<Rightarrow> string option"
  cy_dumps :: "'c \<Rightarrow> string"
  cy_loads :: "string \<Rightarrow> 'c option"
  cy_filled :: "'c \<Rightarrow> bool"

definition worker_prefix :: string where
  "worker_prefix = ''pwk1:''"

definition encrypt_worker_secret :: "('c, 'z) crypto_scheme \<Rightarrow> string \<Rightarrow> string" where
  "encrypt_worker_secret cy v = worker_prefix @ cy_worker_encrypt cy v"

definition decrypt_worker_secret :: "('c, 'z) crypto_scheme \<Rightarrow> string \<Rightarrow> string option" where
  "decrypt_worker_secret cy v = (if starts_with worker_prefix v then cy_worker_decrypt cy (drop (length worker_prefix) v) else None)"

subsection \<open>Secrets\<close>

record secret_row =
  sc_secret :: string
  sc_worker :: string
  sc_updated :: time

datatype expiry = Expires time | No_instant string

record session_row =
  sn_cookie :: string
  sn_worker :: string
  sn_expires :: "expiry option"
  sn_state :: string
  sn_error :: string
  sn_renewed :: "time option"
  sn_attempted :: "time option"
  sn_next :: "time option"
  sn_failures :: int
  sn_updated :: time

record audit_row =
  au_id :: int
  au_actor :: "int option"
  au_action :: string
  au_target :: string
  au_result :: string
  au_error :: string
  au_created :: time

text \<open>The three tables; \<open>name\<close> and \<open>provider\<close> are the primary keys of the first two.\<close>

record vault =
  vt_secrets :: "string \<Rightarrow> secret_row option"
  vt_session :: "session_row option"
  vt_audit :: "audit_row table"

definition secret_names :: "string list" where
  "secret_names = [''login_email'', ''login_password'', ''api_key'', ''captcha_api_key'']"

definition validate_secret_name :: "string \<Rightarrow> string result" where
  "validate_secret_name name =
     (let v = lower (strip name) in if v \<in> set secret_names then Inr v else Inl (ValueError ''Unknown provider secret''))"

definition bad_secret :: "string \<Rightarrow> bool" where
  "bad_secret v \<longleftrightarrow> 4096 < length v \<or> list_ex (\<lambda>c. code c < 32 \<and> c \<noteq> CHR 0x09) v"

definition put_secret :: "('c, 'z) crypto_scheme \<Rightarrow> time \<Rightarrow> string \<Rightarrow> string \<Rightarrow> vault \<Rightarrow> vault" where
  "put_secret cy now key v vt = vt\<lparr>vt_secrets := (vt_secrets vt)(key \<mapsto>
     \<lparr>sc_secret = cy_encrypt cy v, sc_worker = encrypt_worker_secret cy v, sc_updated = now\<rparr>)\<rparr>"

definition save_provider_secret :: "('c, 'z) crypto_scheme \<Rightarrow> time \<Rightarrow> string \<Rightarrow> string \<Rightarrow> vault \<Rightarrow> vault result" where
  "save_provider_secret cy now name v vt =
     bindR (validate_secret_name name) (\<lambda>key.
       if v = '''' then Inr vt
       else if bad_secret v then Inl (ValueError ''Provider secret is invalid'')
       else Inr (put_secret cy now key v vt))"

text \<open>Over the names in any order; an exception rolls the whole form back.\<close>

fun save_fields :: "('c, 'z) crypto_scheme \<Rightarrow> time \<Rightarrow> (string \<Rightarrow> string) \<Rightarrow> string list \<Rightarrow> vault \<Rightarrow> vault result" where
  "save_fields cy now values [] vt = Inr vt"
| "save_fields cy now values (key # keys) vt =
     (let v = values key in
      if v = '''' then save_fields cy now values keys vt
      else if bad_secret v then Inl (ValueError ''Provider secret is invalid'')
      else save_fields cy now values keys (put_secret cy now key v vt))"

definition save_provider_credentials :: "('c, 'z) crypto_scheme \<Rightarrow> time \<Rightarrow> (string \<Rightarrow> string) \<Rightarrow> vault \<Rightarrow> vault result" where
  "save_provider_credentials cy now values vt = save_fields cy now values secret_names vt"

definition clear_provider_secret :: "string \<Rightarrow> vault \<Rightarrow> (vault \<times> bool) result" where
  "clear_provider_secret name vt =
     bindR (validate_secret_name name) (\<lambda>key.
       Inr (vt\<lparr>vt_secrets := (vt_secrets vt)(key := None)\<rparr>, vt_secrets vt key \<noteq> None))"

definition decrypted :: "string \<Rightarrow> string option \<Rightarrow> string result" where
  "decrypted message v = (case v of None \<Rightarrow> Inl (ValueError message) | Some t \<Rightarrow> Inr t)"

definition get_provider_secret :: "('c, 'z) crypto_scheme \<Rightarrow> string \<Rightarrow> vault \<Rightarrow> string option result" where
  "get_provider_secret cy name vt =
     bindR (validate_secret_name name) (\<lambda>key.
       case vt_secrets vt key of None \<Rightarrow> Inr None
       | Some r \<Rightarrow>
           if cy_worker cy
           then (if sc_worker r = '''' then Inr None
                 else bindR (decrypted ''Proxiware worker secret could not be decrypted'' (decrypt_worker_secret cy (sc_worker r))) (\<lambda>t. Inr (Some t)))
           else (if sc_secret r = '''' then Inr None
                 else bindR (decrypted ''Proxy credential could not be decrypted'' (cy_decrypt cy (sc_secret r))) (\<lambda>t. Inr (Some t))))"

definition last_four :: "string \<Rightarrow> string" where
  "last_four t = (if 4 \<le> length t then drop (length t - 4) t else '''')"

text \<open>\<open>get_provider_secret_metadata\<close> for one name: configured, the last four characters, the time.\<close>

definition secret_metadata :: "('c, 'z) crypto_scheme \<Rightarrow> string \<Rightarrow> vault \<Rightarrow> bool \<times> string \<times> time option" where
  "secret_metadata cy key vt =
     (case vt_secrets vt key of None \<Rightarrow> (False, '''', None)
      | Some r \<Rightarrow>
          (let t = (case (if cy_worker cy then decrypt_worker_secret cy (sc_worker r) else cy_decrypt cy (sc_secret r)) of
                      None \<Rightarrow> '''' | Some t \<Rightarrow> t)
           in (t \<noteq> '''', if key = ''api_key'' then last_four t else '''', Some (sc_updated r))))"

subsection \<open>Credentials of assignments\<close>

text \<open>A row as its columns; of the two columns of a secret the profile of the process tells which one it reads.\<close>

definition assignment_secret_columns :: "string \<Rightarrow> (string \<times> string) result" where
  "assignment_secret_columns column =
     (let v = strip column in
      if v \<in> {''username_encrypted'', ''password_encrypted''} then Inr (v, ''worker_'' @ v)
      else Inl (ValueError ''Unknown assignment secret''))"

definition encrypt_assignment_secret :: "('c, 'z) crypto_scheme \<Rightarrow> string \<Rightarrow> string \<times> string" where
  "encrypt_assignment_secret cy v = (cy_encrypt cy v, encrypt_worker_secret cy v)"

definition decrypt_assignment_secret :: "('c, 'z) crypto_scheme \<Rightarrow> (string \<Rightarrow> string) \<Rightarrow> string \<Rightarrow> string result" where
  "decrypt_assignment_secret cy row column =
     bindR (assignment_secret_columns column) (\<lambda>(general, worker).
       if cy_worker cy
       then (if row worker = '''' then Inl (ValueError ''Proxiware worker assignment secret is unavailable'')
             else decrypted ''Proxiware worker secret could not be decrypted'' (decrypt_worker_secret cy (row worker)))
       else (if row general = '''' then Inr ''''
             else decrypted ''Proxy credential could not be decrypted'' (cy_decrypt cy (row general))))"

subsection \<open>What may be logged\<close>

text \<open>A payload; \<open>P_cut\<close> is a text cut at 500 characters and followed by an ellipsis, \<open>P_other\<close> a number, a truth value or null.\<close>

datatype payload_value =
    P_text string
  | P_cut string
  | P_other string
  | P_list "payload_value list"
  | P_dict "(string \<times> payload_value) list"

definition sensitive_keys :: "string list" where
  "sensitive_keys = [''password'', ''login_password'', ''api_key'', ''captcha_api_key'', ''cookie'', ''cookies'', ''token'', ''captcha_token'',
     ''fp'', ''fpr'', ''fingerprint'', ''fingerprint_payload'']"

definition sensitive :: "string \<Rightarrow> bool" where
  "sensitive key \<longleftrightarrow> lower key \<in> set sensitive_keys
     \<or> list_ex (\<lambda>m. occurs m (lower key)) [''secret'', ''credential'', ''cookie'']"

fun redact :: "string \<Rightarrow> payload_value \<Rightarrow> payload_value" where
  "redact key (P_text t) =
     (if sensitive key then P_text ''[redacted]'' else if 500 < length t then P_cut (take 500 t) else P_text t)"
| "redact key (P_cut t) = (if sensitive key then P_text ''[redacted]'' else P_cut t)"
| "redact key (P_other t) = (if sensitive key then P_text ''[redacted]'' else P_other t)"
| "redact key (P_list vs) = (if sensitive key then P_text ''[redacted]'' else P_list (map (redact key) vs))"
| "redact key (P_dict kvs) = (if sensitive key then P_text ''[redacted]'' else P_dict (map (\<lambda>(k, v). (k, redact k v)) kvs))"

definition redact_provider_payload :: "payload_value \<Rightarrow> payload_value" where
  "redact_provider_payload v = redact '''' v"

definition audit_char :: "char \<Rightarrow> bool" where
  "audit_char c \<longleftrightarrow> is_digit c \<or> (97 \<le> code c \<and> code c \<le> 122) \<or> c \<in> {CHR ''_'', CHR ''.'', CHR '':'', CHR ''/'', CHR ''-''}"

definition safe_audit_value :: "string \<Rightarrow> bool" where
  "safe_audit_value v \<longleftrightarrow> v \<noteq> '''' \<and> length v \<le> 120 \<and> list_all audit_char v"

definition audit_or :: "string \<Rightarrow> string \<Rightarrow> string" where
  "audit_or dflt v = (if safe_audit_value v then v else dflt)"

definition record_provider_audit ::
  "time \<Rightarrow> string \<Rightarrow> string \<Rightarrow> int option \<Rightarrow> string \<Rightarrow> string \<Rightarrow> vault \<Rightarrow> vault" where
  "record_provider_audit now action result actor target error vt = vt\<lparr>vt_audit := insert_row (\<lambda>i.
     \<lparr>au_id = i, au_actor = actor,
      au_action = audit_or ''provider_action'' (lower (strip (if action = '''' then ''provider_action'' else action))),
      au_target = audit_or ''redacted'' (strip target),
      au_result = audit_or ''recorded'' (lower (strip result)),
      au_error = audit_or '''' (lower (strip error)), au_created = now\<rparr>) (vt_audit vt)\<rparr>"

subsection \<open>The session\<close>

definition safe_session_codes :: "string list" where
  "safe_session_codes = [''captcha_required'', ''captcha_provider_error'', ''captcha_timeout'', ''csrf_failed'', ''fingerprint_failed'',
     ''invalid_session'', ''login_failed'', ''manual_action_required'', ''session_expired'', ''provider_error'']"

definition safe_session_code :: "string \<Rightarrow> string" where
  "safe_session_code e = (let c = lower (strip (if e = '''' then ''manual_action_required'' else e)) in
     if c \<in> set safe_session_codes then c else ''manual_action_required'')"

definition store_provider_session :: "('c, 'z) crypto_scheme \<Rightarrow> time \<Rightarrow> 'c \<Rightarrow> expiry option \<Rightarrow> vault \<Rightarrow> vault" where
  "store_provider_session cy now cookies expires vt = vt\<lparr>vt_session := Some
     \<lparr>sn_cookie = (if cy_worker cy then '''' else cy_encrypt cy (cy_dumps cy cookies)),
      sn_worker = encrypt_worker_secret cy (cy_dumps cy cookies),
      sn_expires = (case expires of Some (No_instant t) \<Rightarrow> Some (No_instant (take 64 t)) | e \<Rightarrow> e),
      sn_state = ''active'', sn_error = '''', sn_renewed = Some now, sn_attempted = Some now, sn_next = None, sn_failures = 0,
      sn_updated = now\<rparr>\<rparr>"

definition load_provider_session :: "('c, 'z) crypto_scheme \<Rightarrow> vault \<Rightarrow> 'c option result" where
  "load_provider_session cy vt =
     (let invalid = Inl (ValueError ''Provider session is invalid'') in
      case vt_session vt of None \<Rightarrow> Inr None
      | Some r \<Rightarrow>
          if cy_worker cy
          then (if sn_worker r = '''' then Inr None
                else case decrypt_worker_secret cy (sn_worker r) of None \<Rightarrow> Inl (ValueError ''Proxiware worker session is invalid'')
                | Some t \<Rightarrow> (case cy_loads cy t of None \<Rightarrow> Inl (ValueError ''Proxiware worker session is invalid'') | Some c \<Rightarrow> Inr (Some c)))
          else (if sn_cookie r = '''' then Inr None
                else bindR (decrypted ''Proxy credential could not be decrypted'' (cy_decrypt cy (sn_cookie r))) (\<lambda>t.
                     case cy_loads cy t of None \<Rightarrow> invalid | Some c \<Rightarrow> Inr (Some c))))"

definition mark_manual_action_required :: "time \<Rightarrow> string \<Rightarrow> vault \<times> store \<Rightarrow> vault \<times> store" where
  "mark_manual_action_required now error w =
     (case w of (vt, s) \<Rightarrow>
       (vt\<lparr>vt_session := Some (case vt_session vt of
           Some r \<Rightarrow> r\<lparr>sn_state := ''manual_action_required'', sn_error := safe_session_code error, sn_updated := now\<rparr>
         | None \<Rightarrow> \<lparr>sn_cookie = '''', sn_worker = '''', sn_expires = None, sn_state = ''manual_action_required'',
                    sn_error = safe_session_code error, sn_renewed = None, sn_attempted = None, sn_next = None, sn_failures = 0,
                    sn_updated = now\<rparr>)\<rparr>,
        pause_auto_swap s))"

text \<open>The pause between attempts: doubled three times at most, an hour at most.\<close>

definition renewal_delay :: "int \<Rightarrow> int \<Rightarrow> int" where
  "renewal_delay cooldown count = min 3600 (max 60 cooldown * 2 ^ nat (min (count - 1) 3))"

definition record_session_renewal_failure :: "time \<Rightarrow> string \<Rightarrow> int \<Rightarrow> vault \<times> store \<Rightarrow> vault \<times> store" where
  "record_session_renewal_failure now error cooldown w =
     (let count = (case vt_session (fst w) of Some r \<Rightarrow> sn_failures r + 1 | None \<Rightarrow> 1)
      in case mark_manual_action_required now (safe_session_code error) w of (vt, s) \<Rightarrow>
           (vt\<lparr>vt_session := map_option (\<lambda>r. r\<lparr>sn_attempted := Some now, sn_next := Some (now + seconds (renewal_delay cooldown count)),
                 sn_failures := count, sn_updated := now\<rparr>) (vt_session vt)\<rparr>, s))"

definition set_auto_swap_preference :: "bool \<Rightarrow> store \<Rightarrow> store" where
  "set_auto_swap_preference enabled s =
     (let v = (if enabled then ''1'' else ''0'') in set_setting ''proxiware_auto_swap'' v (set_setting ''proxiware_auto_swap_intent'' v s))"

definition auto_swap_intent :: "store \<Rightarrow> bool" where
  "auto_swap_intent s \<longleftrightarrow> get_setting s ''proxiware_auto_swap_intent'' ''0'' = ''1''"

definition restore_auto_swap_intent :: "store \<Rightarrow> store \<times> bool" where
  "restore_auto_swap_intent s =
     (set_setting ''proxiware_auto_swap'' (if auto_swap_intent s then ''1'' else ''0'') s, auto_swap_intent s)"

subsection \<open>Renewing the session\<close>

text \<open>An exception of an adapter: its code (of \<open>error_code\<close> or \<open>code\<close>) and its text. The answer of the browser is \<open>None\<close> where it
  is no dictionary.\<close>

record raised =
  ra_code :: string
  ra_text :: string

record 'c browser_answer =
  ba_cookies :: "'c option"
  ba_fingerprint :: bool
  ba_expires :: "expiry option"

record 'c renewal_world =
  rw_discover :: "raised + string"
  rw_solve :: "string \<Rightarrow> raised + string"
  rw_renew :: "string \<Rightarrow> string \<Rightarrow> string \<Rightarrow> raised + 'c browser_answer option"

record renewal_result =
  rn_state :: string
  rn_error :: string
  rn_expires :: "expiry option"

definition plain_raised :: "string \<Rightarrow> raised" where
  "plain_raised m = \<lparr>ra_code = '''', ra_text = m\<rparr>"

definition renewal_code :: "raised \<Rightarrow> string" where
  "renewal_code e =
     (let m = lower (ra_text e); c = lower (strip (ra_code e)) in
      if c \<in> set safe_session_codes then c
      else if occurs ''captcha'' m then ''captcha_timeout''
      else if occurs ''fingerprint'' m \<or> occurs ''fp'' m then ''fingerprint_failed''
      else if occurs ''csrf'' m then ''csrf_failed''
      else ''login_failed'')"

text \<open>The cookies and the expiry of an answer that confirms them.\<close>

definition confirmed_cookies :: "('c, 'z) crypto_scheme \<Rightarrow> 'c browser_answer option \<Rightarrow> raised + ('c \<times> expiry option)" where
  "confirmed_cookies cy a =
     (case a of None \<Rightarrow> Inl (plain_raised ''login failed'')
      | Some b \<Rightarrow>
          (case ba_cookies b of None \<Rightarrow> Inl (plain_raised ''login failed'')
           | Some c \<Rightarrow> if \<not> cy_filled cy c then Inl (plain_raised ''login failed'')
               else if \<not> ba_fingerprint b then Inl (plain_raised ''fingerprint failed'')
               else Inr (c, ba_expires b)))"

definition confirmed_renewal ::
  "('c, 'z) crypto_scheme \<Rightarrow> 'c renewal_world \<Rightarrow> string \<Rightarrow> string \<Rightarrow> string \<Rightarrow> raised + ('c \<times> expiry option)" where
  "confirmed_renewal cy rw site_key email password =
     bindR (if strip site_key = '''' then bindR (rw_discover rw) (\<lambda>k. Inr (strip k)) else Inr (strip site_key)) (\<lambda>k.
     bindR (if k = '''' then Inl (plain_raised ''captcha site key missing'') else rw_solve rw k) (\<lambda>token.
     bindR (if token = '''' then Inl (plain_raised ''captcha timeout'') else rw_renew rw email password token) (confirmed_cookies cy)))"

definition not_renewed :: "string \<Rightarrow> renewal_result" where
  "not_renewed c = \<lparr>rn_state = ''manual_action_required'', rn_error = c, rn_expires = None\<rparr>"

definition renew_provider_session ::
  "('c, 'z) crypto_scheme \<Rightarrow> 'c renewal_world \<Rightarrow> string \<Rightarrow> time \<Rightarrow> vault \<times> store \<Rightarrow> ((vault \<times> store) \<times> renewal_result) result" where
  "renew_provider_session cy rw site_key now w =
     bindR (get_provider_secret cy ''login_email'' (fst w)) (\<lambda>email.
     bindR (get_provider_secret cy ''login_password'' (fst w)) (\<lambda>password.
       if or_empty email = '''' \<or> or_empty password = ''''
       then Inr (mark_manual_action_required now ''login_failed'' w, not_renewed ''login_failed'')
       else case confirmed_renewal cy rw site_key (or_empty email) (or_empty password) of
         Inl e \<Rightarrow>
           (case mark_manual_action_required now (renewal_code e) w of (vt, s) \<Rightarrow>
              Inr ((record_provider_audit now ''renew_session'' ''blocked'' None '''' (renewal_code e) vt, s), not_renewed (renewal_code e)))
       | Inr (c, expires) \<Rightarrow>
           Inr ((record_provider_audit now ''renew_session'' ''success'' None '''' '''' (store_provider_session cy now c expires (fst w)),
                 fst (restore_auto_swap_intent (snd w))),
                \<lparr>rn_state = ''active'', rn_error = '''', rn_expires = expires\<rparr>)))"

subsection \<open>The dependency check\<close>

text \<open>What the two services answer: whether the account is an object, and the balance; \<open>None\<close> where they raise.\<close>

record connection_check =
  cn_api :: bool
  cn_captcha :: bool
  cn_balance :: "rat option"
  cn_error :: string

definition test_provider_connections :: "bool option \<Rightarrow> rat option \<Rightarrow> connection_check" where
  "test_provider_connections account balance =
     (let err = (if account = None then ''provider_error'' else '''') in
      \<lparr>cn_api = (account = Some True), cn_captcha = (case balance of None \<Rightarrow> False | Some b \<Rightarrow> 0 \<le> b), cn_balance = balance,
       cn_error = (if balance = None \<and> err = '''' then ''captcha_timeout'' else err)\<rparr>)"

subsection \<open>The worker columns of old rows\<close>

text \<open>The credentials of an assignment under both keys.\<close>

record assignment_secrets =
  as_user :: string
  as_password :: string
  as_worker_user :: string
  as_worker_password :: string

definition readable :: "('c, 'z) crypto_scheme \<Rightarrow> string \<Rightarrow> bool" where
  "readable cy v \<longleftrightarrow> decrypt_worker_secret cy v \<noteq> None"

definition worker_copy :: "('c, 'z) crypto_scheme \<Rightarrow> string \<Rightarrow> string \<Rightarrow> string \<times> int" where
  "worker_copy cy source target =
     (if source = '''' \<or> readable cy target then (target, 0)
      else case cy_decrypt cy source of None \<Rightarrow> (target, 0) | Some t \<Rightarrow> (encrypt_worker_secret cy t, 1))"

text \<open>One column of an assignment: \<open>None\<close> is the failure that leaves the row alone, \<open>Some None\<close> a column that is readable.\<close>

definition column_update :: "('c, 'z) crypto_scheme \<Rightarrow> string \<Rightarrow> string \<Rightarrow> string option option" where
  "column_update cy source target =
     (if target \<noteq> '''' \<and> readable cy target then Some None
      else if source = '''' then Some (Some '''')
      else map_option (\<lambda>t. Some (encrypt_worker_secret cy t)) (cy_decrypt cy source))"

definition migrate_assignment :: "('c, 'z) crypto_scheme \<Rightarrow> assignment_secrets \<Rightarrow> assignment_secrets \<times> int" where
  "migrate_assignment cy a =
     (case (column_update cy (as_user a) (as_worker_user a), column_update cy (as_password a) (as_worker_password a)) of
        (Some u, Some p) \<Rightarrow>
          if u = None \<and> p = None then (a, 0)
          else (a\<lparr>as_worker_user := or_empty u, as_worker_password := or_empty p\<rparr>, 1)
      | _ \<Rightarrow> (a, 0))"

definition migrate_session :: "('c, 'z) crypto_scheme \<Rightarrow> vault \<Rightarrow> vault \<times> int" where
  "migrate_session cy vt =
     (case vt_session vt of None \<Rightarrow> (vt, 0)
      | Some r \<Rightarrow> (case worker_copy cy (sn_cookie r) (sn_worker r) of (v, n) \<Rightarrow> (vt\<lparr>vt_session := Some (r\<lparr>sn_worker := v\<rparr>)\<rparr>, n)))"

definition migrate_secret :: "('c, 'z) crypto_scheme \<Rightarrow> vault \<times> int \<Rightarrow> string \<Rightarrow> vault \<times> int" where
  "migrate_secret cy st name =
     (case st of (vt, n) \<Rightarrow>
       (case vt_secrets vt name of None \<Rightarrow> (vt, n)
        | Some r \<Rightarrow> (case worker_copy cy (sc_secret r) (sc_worker r) of
            (v, k) \<Rightarrow> (vt\<lparr>vt_secrets := (vt_secrets vt)(name \<mapsto> r\<lparr>sc_worker := v\<rparr>)\<rparr>, n + k))))"

definition migrate_provider_worker_secrets ::
  "('c, 'z) crypto_scheme \<Rightarrow> vault \<Rightarrow> assignment_secrets list \<Rightarrow> vault \<times> assignment_secrets list \<times> int" where
  "migrate_provider_worker_secrets cy vt as =
     (case foldl (migrate_secret cy) (migrate_session cy vt) secret_names of
        (vt1, n) \<Rightarrow> (vt1, map (fst \<circ> migrate_assignment cy) as, n + sum_list (map (snd \<circ> migrate_assignment cy) as)))"

subsection \<open>Lemmas\<close>

definition keys_work :: "('c, 'z) crypto_scheme \<Rightarrow> bool" where
  "keys_work cy \<longleftrightarrow> (\<forall>x. cy_decrypt cy (cy_encrypt cy x) = Some x \<and> cy_encrypt cy x \<noteq> ''''
     \<and> cy_worker_decrypt cy (cy_worker_encrypt cy x) = Some x)"

lemma starts_with_append [simp]: "starts_with p (p @ s)"
  by (induction p arbitrary: s) (simp_all add: starts_with_def)

lemma worker_roundtrip: "keys_work cy \<Longrightarrow> decrypt_worker_secret cy (encrypt_worker_secret cy x) = Some x"
  by (simp add: keys_work_def decrypt_worker_secret_def encrypt_worker_secret_def)

lemma worker_filled [simp]: "encrypt_worker_secret cy x \<noteq> ''''"
  by (simp add: encrypt_worker_secret_def worker_prefix_def)

text \<open>Whichever process reads a credential of an assignment, it reads what was stored under both keys.\<close>

lemma assignment_secret_roundtrip:
  assumes "keys_work cy" "assignment_secret_columns column = Inr (general, worker)"
  shows "decrypt_assignment_secret cy (row(general := fst (encrypt_assignment_secret cy v), worker := snd (encrypt_assignment_secret cy v))) column
    = Inr v"
proof -
  have "general \<noteq> worker" using assms(2) by (auto simp: assignment_secret_columns_def Let_def split: if_splits)
  then show ?thesis
    using assms by (simp add: decrypt_assignment_secret_def encrypt_assignment_secret_def worker_roundtrip decrypted_def keys_work_def)
qed

lemma gate_paused [simp]:
  "\<not> auto_swap_on (pause_auto_swap s)"
  "auto_swap_intent (pause_auto_swap s) \<longleftrightarrow>
     (if settings s ''proxiware_auto_swap_intent'' = None then auto_swap_on s else auto_swap_intent s)"
  by (auto simp: pause_auto_swap_def auto_swap_on_def auto_swap_intent_def get_setting_def set_setting_def Let_def split: option.splits)

lemma gate_restored [simp]:
  "auto_swap_on (fst (restore_auto_swap_intent s)) = auto_swap_intent s"
  "auto_swap_intent (fst (restore_auto_swap_intent s)) = auto_swap_intent s"
  by (auto simp: restore_auto_swap_intent_def auto_swap_on_def auto_swap_intent_def get_setting_def set_setting_def)

lemma safe_session_code_in: "safe_session_code e \<in> set safe_session_codes"
  by (simp add: safe_session_code_def Let_def, simp add: safe_session_codes_def)

lemma renewal_code_in: "renewal_code e \<in> set safe_session_codes"
  by (simp add: renewal_code_def Let_def, simp add: safe_session_codes_def)

lemma confirmed_cookiesD:
  "confirmed_cookies cy a = Inr (c, expires) \<Longrightarrow>
   \<exists>b. a = Some b \<and> ba_cookies b = Some c \<and> cy_filled cy c \<and> ba_fingerprint b \<and> expires = ba_expires b"
  by (auto simp: confirmed_cookies_def split: option.splits if_splits)

lemma confirmed_renewalD:
  "confirmed_renewal cy rw k email password = Inr (c, expires) \<Longrightarrow>
   \<exists>site token b. rw_solve rw site = Inr token \<and> token \<noteq> '''' \<and> rw_renew rw email password token = Inr (Some b)
     \<and> ba_cookies b = Some c \<and> cy_filled cy c \<and> ba_fingerprint b \<and> expires = ba_expires b"
  by (auto simp: confirmed_renewal_def bindR_Inr_iff split: if_splits dest!: confirmed_cookiesD)

lemma manual_action_facts:
  assumes "mark_manual_action_required now e (vt, s) = (vt', s')"
  shows "s' = pause_auto_swap s"
    and "\<exists>n. vt_session vt' = Some n \<and> sn_state n = ''manual_action_required'' \<and> sn_error n \<in> set safe_session_codes"
  using assms by (auto simp: mark_manual_action_required_def safe_session_code_in split: option.splits)

text \<open>The ways a renewal ends.\<close>

lemma renew_cases:
  assumes "renew_provider_session cy rw site_key now (vt, s) = Inr ((vt', s'), r)"
  obtains (refused) code where "r = not_renewed code" "code \<in> set safe_session_codes" "s' = pause_auto_swap s"
      "\<exists>n. vt_session vt' = Some n \<and> sn_state n = ''manual_action_required'' \<and> sn_error n \<in> set safe_session_codes"
  | (renewed) email password c expires where "get_provider_secret cy ''login_email'' vt = Inr (Some email)"
      "get_provider_secret cy ''login_password'' vt = Inr (Some password)" "email \<noteq> ''''" "password \<noteq> ''''"
      "confirmed_renewal cy rw site_key email password = Inr (c, expires)" "rn_state r = ''active''"
      "s' = fst (restore_auto_swap_intent s)"
proof -
  obtain email password where sec: "get_provider_secret cy ''login_email'' vt = Inr email" "get_provider_secret cy ''login_password'' vt = Inr password"
    using assms by (auto simp: renew_provider_session_def bindR_Inr_iff)
  have safe: "''login_failed'' \<in> set safe_session_codes" by (simp add: safe_session_codes_def)
  show thesis
  proof (cases "or_empty email = '''' \<or> or_empty password = ''''")
    case True
    then have "mark_manual_action_required now ''login_failed'' (vt, s) = (vt', s')" "r = not_renewed ''login_failed''"
      using assms by (simp_all add: renew_provider_session_def sec)
    then show thesis using that(1) [OF _ safe] manual_action_facts by metis
  next
    case False
    then have e: "email = Some (or_empty email)" "password = Some (or_empty password)"
      by (auto simp: or_empty_def split: option.splits)
    show thesis
    proof (cases "confirmed_renewal cy rw site_key (or_empty email) (or_empty password)")
      case (Inl x)
      obtain vt1 s1 where m: "mark_manual_action_required now (renewal_code x) (vt, s) = (vt1, s1)"
        by (cases "mark_manual_action_required now (renewal_code x) (vt, s)")
      have "r = not_renewed (renewal_code x)" "s' = s1" "vt_session vt' = vt_session vt1"
        using assms False by (auto simp: renew_provider_session_def sec Inl m record_provider_audit_def)
      then show thesis using that(1) [OF _ renewal_code_in] manual_action_facts [OF m] by metis
    next
      case (Inr y)
      obtain c expires where y: "y = (c, expires)" by (cases y)
      have "rn_state r = ''active''" "s' = fst (restore_auto_swap_intent s)"
        using assms False by (auto simp: renew_provider_session_def sec Inr y)
      then show thesis using that(2) sec e False Inr y by metis
    qed
  qed
qed

subsection \<open>Properties\<close>


text \<open>A secret of the provider is read back as it was saved, under the key of whichever process reads it; the other secrets
  are as before, and a blank field or a refused one changes nothing.\<close>

theorem secret_roundtrip:
  assumes "save_provider_secret cy now name v vt = Inr vt'" "keys_work cy" "v \<noteq> ''''"
  shows "get_provider_secret cy name vt' = Inr (Some v)
    \<and> (\<forall>other. lower (strip other) \<noteq> lower (strip name) \<longrightarrow> get_provider_secret cy other vt' = get_provider_secret cy other vt)"
  using assms by (auto simp: save_provider_secret_def get_provider_secret_def bindR_Inr_iff put_secret_def validate_secret_name_def Let_def
      decrypted_def worker_roundtrip keys_work_def split: if_splits)

text \<open>The leaves of a payload with the keys above them.\<close>

fun leaves :: "payload_value \<Rightarrow> (string list \<times> string) list" where
  "leaves (P_text t) = [([], t)]"
| "leaves (P_cut t) = [([], t)]"
| "leaves (P_other t) = [([], t)]"
| "leaves (P_list vs) = concat (map leaves vs)"
| "leaves (P_dict kvs) = concat (map (\<lambda>(k, v). map (\<lambda>(ks, t). (k # ks, t)) (leaves v)) kvs)"

lemma redact_sensitive: "sensitive key \<Longrightarrow> redact key v = P_text ''[redacted]''"
  by (cases v) simp_all

lemma redact_leaves:
  "(ks, t) \<in> set (leaves (redact key v)) \<Longrightarrow> k \<in> set (key # ks) \<Longrightarrow> sensitive k \<Longrightarrow> t = ''[redacted]''"
proof (induction key v arbitrary: ks t rule: redact.induct)
  case (4 key vs)
  then show ?case by (cases "sensitive key") auto
next
  case (5 key kvs)
  show ?case
  proof (cases "sensitive key")
    case False
    then obtain q u ks' where q: "(q, u) \<in> set kvs" "ks = q # ks'" "(ks', t) \<in> set (leaves (redact q u))"
      using 5(2) by auto
    have "k \<in> set (q # ks')" using 5(3,4) False q(2) by auto
    from 5(1) [OF False q(1) refl q(3) this 5(4)] show ?thesis .
  qed (use 5 in simp)
qed (auto split: if_splits)

text \<open>What is logged of a payload of the provider shows nothing under a sensitive key, however deep: every text below a
  password, key, cookie, token or fingerprint is replaced.\<close>

theorem redaction_hides_secrets:
  assumes "(ks, t) \<in> set (leaves (redact_provider_payload v))" "k \<in> set ks" "sensitive k"
  shows "t = ''[redacted]''"
  using redact_leaves [of ks t "''''" v k] assms by (simp add: redact_provider_payload_def)

text \<open>The audit takes only values of a narrow alphabet.\<close>

definition audit_ok :: "audit_row \<Rightarrow> bool" where
  "audit_ok a \<longleftrightarrow> safe_audit_value (au_action a) \<and> safe_audit_value (au_target a) \<and> safe_audit_value (au_result a)
     \<and> (au_error a = '''' \<or> safe_audit_value (au_error a))"

lemma audit_or_safe: "safe_audit_value dflt \<Longrightarrow> safe_audit_value (audit_or dflt v)"
  by (simp add: audit_or_def)

lemma audit_stays_safe:
  assumes "list_all audit_ok (rows (vt_audit vt))"
  shows "list_all audit_ok (rows (vt_audit (record_provider_audit now action result actor target error vt)))"
proof -
  have "safe_audit_value ''provider_action''" "safe_audit_value ''redacted''" "safe_audit_value ''recorded''" by code_simp+
  then show ?thesis using assms by (auto simp: record_provider_audit_def audit_ok_def audit_or_safe) (auto simp: audit_or_def)
qed

lemma renewal_delay_bounds: "60 \<le> renewal_delay cooldown count" "renewal_delay cooldown count \<le> 3600"
proof -
  have "(60::int) * 1 \<le> max 60 cooldown * 2 ^ nat (min (count - 1) 3)" by (rule mult_mono) simp_all
  then show "60 \<le> renewal_delay cooldown count" by (simp add: renewal_delay_def)
qed (simp add: renewal_delay_def)

text \<open>The migration of an assignment of which only one column is to be copied erases the other one: the update writes both
  columns, and takes the empty text for the one that was readable.\<close>

theorem migration_erases_the_readable_half:
  assumes "as_worker_user a \<noteq> ''''" "readable cy (as_worker_user a)" "\<not> readable cy (as_worker_password a)"
    and "as_password a = '''' \<or> cy_decrypt cy (as_password a) \<noteq> None"
  shows "as_worker_user (fst (migrate_assignment cy a)) = ''''"
  using assms by (auto simp: migrate_assignment_def column_update_def)

subsection \<open>A concrete renewal\<close>

definition sample_crypto :: "string crypto" where
  "sample_crypto = \<lparr>cy_worker = False, cy_encrypt = (\<lambda>x. CHR ''k'' # x), cy_decrypt = (\<lambda>x. Some (tl x)),
     cy_worker_encrypt = (\<lambda>x. x), cy_worker_decrypt = Some, cy_dumps = (\<lambda>c. c), cy_loads = Some, cy_filled = (\<lambda>c. c \<noteq> '''')\<rparr>"

definition sample_vault :: vault where
  "sample_vault = put_secret sample_crypto 1 ''login_email'' ''me'' (put_secret sample_crypto 1 ''login_password'' ''pw''
     (put_secret sample_crypto 1 ''captcha_api_key'' ''ck''
     \<lparr>vt_secrets = (\<lambda>k. None), vt_session = None, vt_audit = \<lparr>rows = [], seq = 0\<rparr>\<rparr>))"

definition sample_renewal :: "bool \<Rightarrow> string renewal_world" where
  "sample_renewal fp = \<lparr>rw_discover = Inr ''site'', rw_solve = (\<lambda>k. Inr ''solved''),
     rw_renew = (\<lambda>e p t. Inr (Some \<lparr>ba_cookies = Some ''cookie'', ba_fingerprint = fp, ba_expires = None\<rparr>))\<rparr>"

definition gated_store :: store where
  "gated_store = set_auto_swap_preference True empty_store"

definition renewed :: "bool \<Rightarrow> ((vault \<times> store) \<times> renewal_result) result" where
  "renewed fp = renew_provider_session sample_crypto (sample_renewal fp) '''' 5 (sample_vault, gated_store)"


end
