(* ===== verification/Swap_Service.thy ===== *)
theory Swap_Service
  imports Credentials Sync_Service Swap_Outcomes
begin

text \<open>
  \<open>app/proxiware_swap_service.py\<close>: one cycle of the worker that executes approved swaps, up to the call of the provider and
  the record of its outcome. Parameters: what the configuration says, the adapter (its construction, the restored session, its
  call of the provider), the renewal of the session, the clocks, and what other processes do to the database during the call.
  The adapter gives up at its own deadline; a timeout is one of its exceptions. The gate of the worker is in the settings, the
  session in the vault.
\<close>

subsection \<open>Errors\<close>

definition provider_response_codes :: "string list" where
  "provider_response_codes = [''provider_mutation_rejected'', ''provider_response_unconfirmed'']"

text \<open>Of several codes in one text the first of the list is taken; the code keeps them in a set.\<close>

definition safe_swap_error :: "raised \<Rightarrow> string" where
  "safe_swap_error e =
     (let c = lower (strip (ra_code e)); m = lower (ra_text e) in
      if c \<in> set manual_action_codes \<or> c \<in> set provider_response_codes then c
      else case filter (\<lambda>k. occurs k m) manual_action_codes of
        k # _ \<Rightarrow> k
      | [] \<Rightarrow> if occurs ''quota'' m then ''quota_exhausted''
              else if occurs ''stock'' m then ''stock_unavailable''
              else if occurs ''timeout'' m then ''provider_timeout''
              else if occurs ''conflict'' m \<or> occurs ''409'' m then ''provider_conflict''
              else ''provider_error'')"

text \<open>The text of an exception of the state machine.\<close>

fun exn_raised :: "exn \<Rightarrow> raised" where
  "exn_raised (ValueError m) = plain_raised m"
| "exn_raised (LookupError m) = plain_raised m"
| "exn_raised (RuntimeError m) = plain_raised m"
| "exn_raised (TypeError m) = plain_raised m"
| "exn_raised (IntegrityError m) = plain_raised m"
| "exn_raised (SwapReconciliationPending m) = plain_raised m"
| "exn_raised e = plain_raised ''''"

subsection \<open>The surroundings of a cycle\<close>

text \<open>\<open>sv_adapter\<close>: the adapter for a job, \<open>Inr False\<close> where it cannot or may not swap. \<open>sv_call\<close>: the identities the
  provider confirmed (old, new, new address), \<open>None\<close> where the answer is no dictionary.\<close>

record 'c swap_world =
  sv_stopped :: bool
  sv_configured :: bool
  sv_ready :: bool
  sv_build :: "raised option"
  sv_crypto :: "'c crypto"
  sv_renewal :: "'c renewal_world"
  sv_site_key :: string
  sv_cooldown :: int
  sv_restore :: "'c \<Rightarrow> raised option"
  sv_adapter :: "job_row \<Rightarrow> raised + bool"
  sv_call :: "job_row \<Rightarrow> raised + (string \<times> string \<times> string) option"
  sv_meanwhile :: "store \<Rightarrow> store"
  sv_token :: string
  sv_claim_seconds :: int
  sv_now :: time
  sv_at :: "nat \<Rightarrow> time"
  sv_stamp :: "time \<Rightarrow> string"

record swap_report =
  sr_status :: string
  sr_job :: "int option"
  sr_error :: string

text \<open>The end of a cycle: the database, the call of the provider with the database it was made on, and the report or the
  exception that leaves the cycle.\<close>

record cycle_end =
  ce_state :: "vault \<times> store"
  ce_call :: "(job_row \<times> store) option"
  ce_result :: "exn + swap_report"

definition cycle_ended :: "vault \<times> store \<Rightarrow> exn + swap_report \<Rightarrow> cycle_end" where
  "cycle_ended w r = \<lparr>ce_state = w, ce_call = None, ce_result = r\<rparr>"

definition report :: "string \<Rightarrow> int option \<Rightarrow> string \<Rightarrow> exn + swap_report" where
  "report status job error = Inr \<lparr>sr_status = status, sr_job = job, sr_error = error\<rparr>"

definition swap_beat :: "('c, 'z) swap_world_scheme \<Rightarrow> string \<Rightarrow> string \<Rightarrow> vault \<times> store \<Rightarrow> vault \<times> store" where
  "swap_beat env status error w =
     (fst w, case record_worker_heartbeat (sv_stamp env) ''swap_worker'' status (sv_now env) False error None (snd w) of
        Inl e \<Rightarrow> snd w | Inr s \<Rightarrow> s)"

subsection \<open>The session\<close>

text \<open>The cookies, or why there are none.\<close>

definition configured_session :: "('c, 'z) swap_world_scheme \<Rightarrow> vault \<Rightarrow> string + 'c" where
  "configured_session env vt =
     (case vt_session vt of
        None \<Rightarrow> Inl ''session_expired''
      | Some r \<Rightarrow>
          if lower (strip (sn_state r)) \<noteq> ''active'' then Inl ''session_expired''
          else if (case sn_expires r of Some (No_instant t) \<Rightarrow> strip t \<noteq> '''' | _ \<Rightarrow> False) then Inl ''invalid_session''
          else if (case sn_expires r of Some (Expires t) \<Rightarrow> t \<le> sv_now env | _ \<Rightarrow> False) then Inl ''session_expired''
          else case load_provider_session (sv_crypto env) vt of
            Inl e \<Rightarrow> Inl ''invalid_session''
          | Inr None \<Rightarrow> Inl ''session_expired''
          | Inr (Some c) \<Rightarrow> if cy_filled (sv_crypto env) c then Inr c else Inl ''session_expired'')"

definition renew_now ::
  "('c, 'z) swap_world_scheme \<Rightarrow> vault \<times> store \<Rightarrow> (vault \<times> store) \<times> (exn + string + 'c)" where
  "renew_now env w =
     (case renew_provider_session (sv_crypto env) (sv_renewal env) (sv_site_key env) (sv_now env) w of
        Inl x \<Rightarrow> (w, Inl x)
      | Inr (w1, r) \<Rightarrow>
          if rn_state r \<noteq> ''active''
          then (let cause = (if rn_error r = '''' then ''manual_action_required'' else rn_error r) in
                (record_session_renewal_failure (sv_now env) cause (sv_cooldown env) w1, Inr (Inl cause)))
          else (w1, Inr (configured_session env (fst w1))))"

text \<open>The three secrets may fail to be decrypted, which leaves the cycle; a renewal that failed is not tried again too early.\<close>

definition renew_configured_session ::
  "('c, 'z) swap_world_scheme \<Rightarrow> vault \<times> store \<Rightarrow> (vault \<times> store) \<times> (exn + string + 'c)" where
  "renew_configured_session env w =
     (let secret = (\<lambda>n. get_provider_secret (sv_crypto env) n (fst w)) in
      case bindR (secret ''login_email'') (\<lambda>e. bindR (secret ''login_password'') (\<lambda>p. bindR (secret ''captcha_api_key'') (\<lambda>k.
             Inr (or_empty e \<noteq> '''' \<and> or_empty p \<noteq> '''' \<and> or_empty k \<noteq> '''')))) of
        Inl x \<Rightarrow> (w, Inl x)
      | Inr present \<Rightarrow>
          if \<not> present then (w, Inr (Inl ''session_expired''))
          else (case vt_session (fst w) of
             None \<Rightarrow> renew_now env w
           | Some r \<Rightarrow>
               if (case sn_next r of Some t \<Rightarrow> sv_now env < t | None \<Rightarrow> False)
               then (w, Inr (Inl (if sn_error r = '''' then ''session_expired'' else sn_error r)))
               else renew_now env w))"

definition manual_action :: "('c, 'z) swap_world_scheme \<Rightarrow> string \<Rightarrow> vault \<times> store \<Rightarrow> cycle_end" where
  "manual_action env cause w =
     cycle_ended (swap_beat env ''manual_action_required'' cause (mark_manual_action_required (sv_now env) cause w))
       (report ''manual_action_required'' None cause)"

definition disabled :: "('c, 'z) swap_world_scheme \<Rightarrow> vault \<times> store \<Rightarrow> cycle_end" where
  "disabled env w = cycle_ended (swap_beat env ''disabled'' '''' w) (report ''disabled'' None '''')"

text \<open>The adapter of the configuration with its session: the database to go on with, or the end of the cycle. \<open>auto\<close> and
  \<open>intent\<close> are the settings as the cycle read them.\<close>

definition open_session ::
  "('c, 'z) swap_world_scheme \<Rightarrow> bool \<Rightarrow> bool \<Rightarrow> 'c \<Rightarrow> vault \<times> store \<Rightarrow> cycle_end + (vault \<times> store)" where
  "open_session env manual intent cookies w =
     (let w2 = (if \<not> manual \<and> intent then (fst w, fst (restore_auto_swap_intent (snd w))) else w) in
      if \<not> manual \<and> \<not> auto_swap_on (snd w2) then Inl (disabled env w2)
      else case sv_restore env cookies of
        None \<Rightarrow> Inr w2
      | Some e \<Rightarrow>
          (let cause = safe_swap_error e in
           Inl (manual_action env (if cause = ''provider_error'' then ''manual_action_required'' else cause) w2)))"

definition prepare_adapter ::
  "('c, 'z) swap_world_scheme \<Rightarrow> bool \<Rightarrow> bool \<Rightarrow> bool \<Rightarrow> vault \<times> store \<Rightarrow> cycle_end + (vault \<times> store)" where
  "prepare_adapter env manual auto intent w =
     (if \<not> sv_ready env
      then Inl (cycle_ended (swap_beat env ''manual_action_required'' ''adapter_missing'' w)
                  (report ''manual_action_required'' None ''adapter_missing''))
      else case sv_build env of
        Some e \<Rightarrow> Inl (manual_action env (safe_swap_error e) w)
      | None \<Rightarrow>
          (let session = configured_session env (fst w) in
           if \<not> manual \<and> \<not> auto \<and> \<not> isl session then Inl (disabled env w)
           else (case (if isl session then renew_configured_session env w else (w, Inr session)) of
             (w1, Inl x) \<Rightarrow> Inl (cycle_ended w1 (Inl x))
           | (w1, Inr (Inl cause)) \<Rightarrow> Inl (manual_action env cause w1)
           | (w1, Inr (Inr cookies)) \<Rightarrow> open_session env manual intent cookies w1)))"

subsection \<open>A claimed job\<close>

text \<open>The outcome of an exception, before or behind the fence.\<close>

definition swap_state_text :: "swap_state \<Rightarrow> string" where
  "swap_state_text st = (if st = Sw_blocked then ''blocked'' else ''pending'')"

definition job_failed ::
  "('c, 'z) swap_world_scheme \<Rightarrow> bool \<Rightarrow> job_row \<Rightarrow> raised \<Rightarrow> vault \<times> store \<Rightarrow> (vault \<times> store) \<times> (exn + swap_report)" where
  "job_failed env mutated j e w =
     (let cause = safe_swap_error e; i = j_id j; now = sv_at env 5;
          done = (\<lambda>state s. (swap_beat env state cause (fst w, s), report state (Some i) cause)) in
      if mutated
      then (case mark_reconciliation_required now i cause (j_token j) (snd w) of
              Inl x \<Rightarrow> (w, Inl x) | Inr s \<Rightarrow> done ''reconciliation_required'' s)
      else if cause \<in> set manual_action_codes
      then (case mark_swap_blocked now i cause (j_token j) (snd w) of
              Inl x \<Rightarrow> (w, Inl x) | Inr s \<Rightarrow> done ''blocked'' s)
      else (case mark_swap_failed now i cause True None (j_token j) (snd w) of
              Inl x \<Rightarrow> (w, Inl x) | Inr (s, st) \<Rightarrow> done (swap_state_text st) s))"

definition job_refused :: "('c, 'z) swap_world_scheme \<Rightarrow> bool \<Rightarrow> job_row \<Rightarrow> swap_decision \<Rightarrow> vault \<times> store \<Rightarrow> cycle_end" where
  "job_refused env manual j d w =
     (let status = (if d_reason d = ''dashboard_stale'' \<and> \<not> manual then ''deferred'' else ''rejected'') in
      cycle_ended (swap_beat env status (d_reason d) w) (report status (Some (j_id j)) (d_reason d)))"

text \<open>\<open>_validate_execution_result\<close>.\<close>

definition validated_answer :: "(string \<times> string \<times> string) option \<Rightarrow> raised + (string \<times> string \<times> string)" where
  "validated_answer a =
     (case a of None \<Rightarrow> Inl (plain_raised ''manual_action_required'')
      | Some (old, new, address) \<Rightarrow>
          if strip old = '''' \<or> (strip new = '''' \<and> strip address = '''') then Inl (plain_raised ''manual_action_required'')
          else Inr (old, new, address))"

text \<open>Behind the fence: the call of the provider for the row as it was fenced, and the record of what it said.\<close>

definition call_provider ::
  "('c, 'z) swap_world_scheme \<Rightarrow> job_row \<Rightarrow> vault \<times> store \<Rightarrow> cycle_end" where
  "call_provider env j w =
     (case select_one (\<lambda>k. j_id k = j_id j \<and> j_state k = Sw_mutating \<and> j_token k = j_token j) (jobs (snd w)) of
        None \<Rightarrow> (case job_failed env True j (plain_raised ''manual_action_required'') w of (w1, r) \<Rightarrow> cycle_ended w1 r)
      | Some k \<Rightarrow>
          (let s = sv_meanwhile env (snd w) in
           case bindR (sv_call env k) validated_answer of
             Inl e \<Rightarrow> (case job_failed env True k e (fst w, s) of
                (w1, r) \<Rightarrow> \<lparr>ce_state = w1, ce_call = Some (k, snd w), ce_result = r\<rparr>)
           | Inr (old, new, address) \<Rightarrow>
               (case mark_provider_applied (sv_at env 4) (j_id k) old (Some new) (Some address) (j_token k) s of
                  Inl x \<Rightarrow> (case job_failed env True k (exn_raised x) (fst w, s) of
                     (w1, r) \<Rightarrow> \<lparr>ce_state = w1, ce_call = Some (k, snd w), ce_result = r\<rparr>)
                | Inr s1 \<Rightarrow> \<lparr>ce_state = swap_beat env ''provider_applied'' '''' (fst w, s1), ce_call = Some (k, snd w),
                               ce_result = report ''reconciliation_required'' (Some (j_id k)) ''''\<rparr>)))"

definition execute_job :: "('c, 'z) swap_world_scheme \<Rightarrow> bool \<Rightarrow> job_row \<Rightarrow> vault \<times> store \<Rightarrow> cycle_end" where
  "execute_job env manual j w =
     (let failed = (\<lambda>e w. case job_failed env False j e w of (w1, r) \<Rightarrow> cycle_ended w1 r) in
      case revalidate_swap_job (sv_at env 2) (j_id j) manual (j_token j) False (snd w) of
        Inl x \<Rightarrow> failed (exn_raised x) w
      | Inr (s1, d) \<Rightarrow>
          (let w1 = (fst w, s1) in
           if \<not> d_allowed d then job_refused env manual j d w1
           else case sv_adapter env j of
             Inl e \<Rightarrow> failed e w1
           | Inr usable \<Rightarrow>
               if \<not> usable then failed (plain_raised ''manual_action_required'') w1
               else case revalidate_swap_job (sv_at env 3) (j_id j) manual (j_token j) True s1 of
                 Inl x \<Rightarrow> failed (exn_raised x) w1
               | Inr (s2, d2) \<Rightarrow>
                   if \<not> d_allowed d2 then job_refused env manual j d2 (fst w, s2)
                   else call_provider env j (fst w, s2)))"

subsection \<open>The cycle\<close>

text \<open>The join with the assignment and the subscription.\<close>

definition job_context :: "job_row \<Rightarrow> store \<Rightarrow> bool" where
  "job_context j s \<longleftrightarrow> (case j_old j of None \<Rightarrow> False | Some a \<Rightarrow> find_asg s a \<noteq> None) \<and> find_sub s (j_sub j) \<noteq> None"

definition claim_and_execute :: "('c, 'z) swap_world_scheme \<Rightarrow> bool \<Rightarrow> int option \<Rightarrow> vault \<times> store \<Rightarrow> cycle_end" where
  "claim_and_execute env manual job w =
     (let s = (if \<not> manual \<and> job = None then fst (queue_eligible_swaps (sv_at env 0) 20 None (snd w)) else snd w) in
      case claim_next_swap (sv_at env 1) (sv_token env) (max 30 (sv_claim_seconds env)) job s of
        (s1, None) \<Rightarrow> cycle_ended (swap_beat env ''idle'' '''' (fst w, s1)) (report ''idle'' None '''')
      | (s1, Some j) \<Rightarrow>
          if job_context j s1 then execute_job env manual j (fst w, s1)
          else (case mark_swap_blocked (sv_at env 5) (j_id j) ''manual_action_required'' (j_token j) s1 of
             Inl x \<Rightarrow> cycle_ended (fst w, s1) (Inl x)
           | Inr s2 \<Rightarrow> cycle_ended (swap_beat env ''blocked'' ''manual_action_required'' (fst w, s2))
                         (report ''blocked'' (Some (j_id j)) ''manual_action_required'')))"

definition run_swap_cycle :: "('c, 'z) swap_world_scheme \<Rightarrow> int option \<Rightarrow> bool \<Rightarrow> vault \<times> store \<Rightarrow> cycle_end" where
  "run_swap_cycle env job manual w =
     (if sv_stopped env then cycle_ended w (report ''stopped'' None '''')
      else
        (let w1 = swap_beat env ''starting'' '''' w; auto = auto_swap_on (snd w1); intent = auto_swap_intent (snd w1) in
         if (automation_paused (snd w1) \<and> \<not> manual) \<or> swap_worker_paused (snd w1)
         then cycle_ended (swap_beat env ''paused'' '''' w1) (report ''paused'' None '''')
         else if \<not> manual \<and> \<not> auto \<and> \<not> intent then disabled env w1
         else case (if sv_configured env then prepare_adapter env manual auto intent w1 else Inr w1) of
           Inl e \<Rightarrow> e
         | Inr w2 \<Rightarrow> claim_and_execute env manual job w2))"

text \<open>\<open>run_once\<close> and \<open>run_job\<close>.\<close>

definition run_swap_once :: "('c, 'z) swap_world_scheme \<Rightarrow> vault \<times> store \<Rightarrow> cycle_end" where
  "run_swap_once env w = run_swap_cycle env None False w"

definition run_swap_job :: "('c, 'z) swap_world_scheme \<Rightarrow> int \<Rightarrow> vault \<times> store \<Rightarrow> cycle_end" where
  "run_swap_job env i w = run_swap_cycle env (Some i) True w"

subsection \<open>A cycle is a run of the swap operations\<close>

definition swaps_to :: "(asg_row \<Rightarrow> string \<Rightarrow> string option) \<Rightarrow> store \<Rightarrow> store \<Rightarrow> bool" where
  "swaps_to reveal s s' \<longleftrightarrow> (\<exists>es. steps (swap_step reveal) s es s')"

lemma swaps_to_refl [simp]: "swaps_to reveal s s"
  unfolding swaps_to_def by (rule exI [of _ "[]"]) simp

lemma swaps_to_trans: "swaps_to reveal a b \<Longrightarrow> swaps_to reveal b c \<Longrightarrow> swaps_to reveal a c"
  unfolding swaps_to_def by (metis steps_append)

lemma swaps_to_step: "swap_run reveal e t s = Inr s' \<Longrightarrow> fresh_token e \<Longrightarrow> swaps_to reveal s s'"
  unfolding swaps_to_def by (rule exI [of _ "[Some e]"]) (simp add: steps_Cons swap_step.swap)

text \<open>What the swap operations do not see.\<close>

definition same_swaps :: "store \<Rightarrow> store \<Rightarrow> bool" where
  "same_swaps s s' \<longleftrightarrow> jobs s' = jobs s \<and> mappings s' = mappings s \<and> subs s' = subs s"

lemma same_swaps_refl [simp]: "same_swaps s s"
  by (simp add: same_swaps_def)

lemma same_swaps_trans: "same_swaps a b \<Longrightarrow> same_swaps b c \<Longrightarrow> same_swaps a c"
  by (simp add: same_swaps_def)

lemma same_swaps_to: "same_swaps s s' \<Longrightarrow> swaps_to reveal s s'"
  unfolding swaps_to_def same_swaps_def
  by (rule exI [of _ "[None]"]) (simp add: steps_Cons swap_step.other quotas_kept_def quota_of_def find_sub_def)

lemma put_settings_same [simp]: "same_swaps s (put_settings kvs s)"
  by (induction kvs arbitrary: s) (auto simp: put_settings_def set_setting_def same_swaps_def)

lemma beat_same [simp]: "same_swaps (snd w) (snd (swap_beat env st err w))"
  by (auto simp: swap_beat_def split: sum.splits dest!: heartbeat_puts)

lemma beat_jobs [simp]: "jobs (snd (swap_beat env st err w)) = jobs (snd w)"
  by (metis beat_same same_swaps_def)

lemma pause_same [simp]: "same_swaps s (pause_auto_swap s)"
  by (simp add: same_swaps_def)

lemma manual_same [simp]: "same_swaps (snd w) (snd (mark_manual_action_required now e w))"
  by (cases w) (simp add: mark_manual_action_required_def)

lemma failure_same [simp]: "same_swaps (snd w) (snd (record_session_renewal_failure now e n w))"
  by (cases w) (simp add: record_session_renewal_failure_def mark_manual_action_required_def Let_def)

lemma restore_same [simp]: "same_swaps s (fst (restore_auto_swap_intent s))"
  by (simp add: restore_auto_swap_intent_def set_setting_def same_swaps_def)

lemma renew_same:
  assumes "renew_provider_session cy rw k now w = Inr (w1, r)"
  shows "same_swaps (snd w) (snd w1)"
proof -
  obtain vt s vt' s' where w: "w = (vt, s)" "w1 = (vt', s')" by (cases w; cases w1)
  have "s' = pause_auto_swap s \<or> s' = fst (restore_auto_swap_intent s)"
    using assms [unfolded w] by (cases rule: renew_cases) auto
  then show ?thesis by (auto simp: w)
qed

lemma renew_now_same: "renew_now env w = (w1, r) \<Longrightarrow> same_swaps (snd w) (snd w1)"
  by (auto simp: renew_now_def Let_def split: sum.splits if_splits prod.splits
      dest!: renew_same intro: same_swaps_trans [OF _ failure_same])

lemma session_same: "renew_configured_session env w = (w1, r) \<Longrightarrow> same_swaps (snd w) (snd w1)"
  by (auto simp: renew_configured_session_def Let_def split: sum.splits if_splits option.splits dest: renew_now_same)

lemma ended_simps [simp]: "ce_state (cycle_ended w r) = w" "ce_call (cycle_ended w r) = None" "ce_result (cycle_ended w r) = r"
  by (simp_all add: cycle_ended_def)

lemma manual_action_same [simp]:
  "same_swaps (snd w) (snd (ce_state (manual_action env c w)))" "ce_call (manual_action env c w) = None"
  by (simp_all add: manual_action_def same_swaps_trans [OF manual_same beat_same])

lemma disabled_same [simp]: "same_swaps (snd w) (snd (ce_state (disabled env w)))" "ce_call (disabled env w) = None"
  by (simp_all add: disabled_def)

lemma open_session_same:
  assumes "same_swaps s (snd w)"
  shows "case open_session env manual intent cookies w of
     Inl e \<Rightarrow> same_swaps s (snd (ce_state e)) \<and> ce_call e = None | Inr w1 \<Rightarrow> same_swaps s (snd w1)"
proof -
  define w2 where "w2 = (if \<not> manual \<and> intent then (fst w, fst (restore_auto_swap_intent (snd w))) else w)"
  have s2: "same_swaps s (snd w2)" using assms by (auto simp: w2_def intro: same_swaps_trans [OF _ restore_same])
  have m2: "same_swaps s (snd (ce_state (manual_action env c w2)))" for c
    by (rule same_swaps_trans [OF s2 manual_action_same(1)])
  have d2: "same_swaps s (snd (ce_state (disabled env w2)))"
    by (rule same_swaps_trans [OF s2 disabled_same(1)])
  show ?thesis
    unfolding open_session_def Let_def w2_def [symmetric] by (simp add: s2 m2 d2 split: option.split)
qed

lemma prepare_same:
  "case prepare_adapter env manual auto intent w of
     Inl e \<Rightarrow> same_swaps (snd w) (snd (ce_state e)) \<and> ce_call e = None | Inr w1 \<Rightarrow> same_swaps (snd w) (snd w1)"
proof -
  obtain w1 q where q: "(if isl (configured_session env (fst w)) then renew_configured_session env w
      else (w, Inr (configured_session env (fst w)))) = (w1, q)" by (rule prod.exhaust)
  then have s1: "same_swaps (snd w) (snd w1)" by (auto split: if_splits dest: session_same)
  have m1: "same_swaps (snd w) (snd (ce_state (manual_action env c w1)))" for c
    by (rule same_swaps_trans [OF s1 manual_action_same(1)])
  show ?thesis
  proof (cases "\<exists>c. q = Inr (Inr c)")
    case True
    then obtain c where c: "q = Inr (Inr c)" by blast
    show ?thesis
      unfolding prepare_adapter_def Let_def q c
      using open_session_same [OF s1, where env = env and manual = manual and intent = intent and cookies = c]
      by (auto split: option.splits sum.splits)
  next
    case False
    then show ?thesis
      unfolding prepare_adapter_def Let_def q
      by (auto simp: s1 m1 split: option.splits sum.splits)
  qed
qed

lemma job_failed_to: "swaps_to reveal (snd w) (snd (fst (job_failed env m j e w)))"
proof -
  have beat: "swaps_to reveal (snd w) s \<Longrightarrow> swaps_to reveal (snd w) (snd (swap_beat env st c (fst w, s)))" for s st c
    by (rule swaps_to_trans [OF _ same_swaps_to]) (use beat_same [of "(fst w, s)"] in simp_all)
  have uncertain: "mark_reconciliation_required t i c tok (snd w) = Inr s \<Longrightarrow> swaps_to reveal (snd w) s" for t i c tok s
    by (rule swaps_to_step [where e = "Sw_uncertain i c tok" and t = t]) (simp_all add: fresh_token_def)
  have blocked: "mark_swap_blocked t i c tok (snd w) = Inr s \<Longrightarrow> swaps_to reveal (snd w) s" for t i c tok s
    by (rule swaps_to_step [where e = "Sw_block i c tok" and t = t]) (simp_all add: fresh_token_def)
  have failed: "mark_swap_failed t i c b lim tok (snd w) = Inr (s, st) \<Longrightarrow> swaps_to reveal (snd w) s" for t i c b lim tok s st
    by (rule swaps_to_step [where e = "Sw_fail i c b lim tok" and t = t]) (simp_all add: fresh_token_def)
  show ?thesis
    unfolding job_failed_def Let_def
    by (auto split: sum.splits intro!: beat intro: uncertain blocked failed)
qed

text \<open>What other processes do during the call are swap operations, too.\<close>

definition others_swap :: "(asg_row \<Rightarrow> string \<Rightarrow> string option) \<Rightarrow> ('c, 'z) swap_world_scheme \<Rightarrow> bool" where
  "others_swap reveal env \<longleftrightarrow> (\<forall>s. swaps_to reveal s (sv_meanwhile env s))"

lemma call_provider_to:
  assumes "others_swap reveal env"
  shows "swaps_to reveal (snd w) (snd (ce_state (call_provider env j w)))"
proof -
  let ?s = "sv_meanwhile env (snd w)"
  have o: "swaps_to reveal (snd w) ?s" using assms by (simp add: others_swap_def)
  have applied: "mark_provider_applied t i old new a tok ?s = Inr s1 \<Longrightarrow> swaps_to reveal (snd w) (snd (swap_beat env st c (fst w, s1)))"
    for t i old new a tok s1 st c
    by (rule swaps_to_trans [OF swaps_to_trans [OF o swaps_to_step [where e = "Sw_applied i old new a tok"]] same_swaps_to])
      (use beat_same [of "(fst w, s1)"] in \<open>simp_all add: fresh_token_def\<close>)
  have failed: "swaps_to reveal (snd w) (snd (fst (job_failed env m k e (fst w, ?s))))" for m k e
    using swaps_to_trans [OF o] job_failed_to [of reveal "(fst w, ?s)" env m k e] by simp
  show ?thesis
    unfolding call_provider_def Let_def case_prod_beta
    by (simp add: failed job_failed_to split: option.split sum.split) (blast intro: applied)
qed

lemma revalidate_to:
  "revalidate_swap_job t i manual tok enter s = Inr (s1, d) \<Longrightarrow> swaps_to reveal s s1"
  by (rule swaps_to_step [where e = "Sw_revalidate i manual tok enter" and t = t]) (simp_all add: fresh_token_def)

lemma refused_same [simp]:
  "same_swaps (snd w) (snd (ce_state (job_refused env manual j d w)))" "ce_call (job_refused env manual j d w) = None"
  by (simp_all add: job_refused_def Let_def)

lemma execute_job_to:
  assumes "others_swap reveal env"
  shows "swaps_to reveal (snd w) (snd (ce_state (execute_job env manual j w)))"
proof -
  have refused: "swaps_to reveal (snd w) s \<Longrightarrow> swaps_to reveal (snd w) (snd (ce_state (job_refused env manual j d (fst w, s))))" for s d
    by (rule swaps_to_trans [OF _ same_swaps_to]) (use refused_same(1) [of "(fst w, s)"] in simp_all)
  have failed: "swaps_to reveal (snd w) s \<Longrightarrow> swaps_to reveal (snd w) (snd (fst (job_failed env m k e (fst w, s))))" for s m k e
    using swaps_to_trans [of reveal "snd w" s] job_failed_to [of reveal "(fst w, s)" env m k e] by simp
  have call: "swaps_to reveal (snd w) s \<Longrightarrow> swaps_to reveal (snd w) (snd (ce_state (call_provider env j (fst w, s))))" for s
    using swaps_to_trans [OF _ call_provider_to [OF assms, of "(fst w, s)" j], of "snd w"] by simp
  show ?thesis
  proof (cases "revalidate_swap_job (sv_at env 2) (j_id j) manual (j_token j) False (snd w)")
    case (Inl x)
    then show ?thesis by (simp add: execute_job_def Let_def case_prod_beta job_failed_to)
  next
    case (Inr y)
    obtain s1 d where y: "y = (s1, d)" by (cases y)
    have s1: "swaps_to reveal (snd w) s1" using revalidate_to Inr y by blast
    show ?thesis
    proof (cases "revalidate_swap_job (sv_at env 3) (j_id j) manual (j_token j) True s1")
      case inner: (Inl x)
      show ?thesis using failed [OF s1] refused [OF s1]
        by (simp add: execute_job_def Let_def case_prod_beta Inr y inner split: sum.split)
    next
      case inner: (Inr z)
      obtain s2 d2 where z: "z = (s2, d2)" by (cases z)
      have s2: "swaps_to reveal (snd w) s2" using swaps_to_trans [OF s1 revalidate_to] inner z by blast
      show ?thesis using failed [OF s1] refused [OF s1] refused [OF s2] call [OF s2]
        by (simp add: execute_job_def Let_def case_prod_beta Inr y inner z split: sum.split)
    qed
  qed
qed

lemma claim_and_execute_to:
  assumes "others_swap reveal env" "strip (sv_token env) \<noteq> ''''"
  shows "swaps_to reveal (snd w) (snd (ce_state (claim_and_execute env manual job w)))"
proof -
  let ?s = "if \<not> manual \<and> job = None then fst (queue_eligible_swaps (sv_at env 0) 20 None (snd w)) else snd w"
  have q: "swaps_to reveal (snd w) ?s"
    using swaps_to_step [of reveal "Sw_queue 20 None" "sv_at env 0" "snd w"] by (simp add: fresh_token_def)
  obtain s1 r where c: "claim_next_swap (sv_at env 1) (sv_token env) (max 30 (sv_claim_seconds env)) job ?s = (s1, r)"
    by (cases "claim_next_swap (sv_at env 1) (sv_token env) (max 30 (sv_claim_seconds env)) job ?s")
  have s1: "swaps_to reveal (snd w) s1"
    by (rule swaps_to_trans [OF q swaps_to_step [where e = "Sw_claim (sv_token env) (max 30 (sv_claim_seconds env)) job" and t = "sv_at env 1"]])
      (simp_all only: swap_run.simps c fst_conv, simp add: fresh_token_def assms(2))
  have beat: "swaps_to reveal (snd w) s \<Longrightarrow> swaps_to reveal (snd w) (snd (swap_beat env st e (fst w, s)))" for s st e
    by (rule swaps_to_trans [OF _ same_swaps_to]) (use beat_same [of "(fst w, s)"] in simp_all)
  have blocked: "mark_swap_blocked t i e tok s1 = Inr s2 \<Longrightarrow> swaps_to reveal (snd w) s2" for t i e tok s2
    by (rule swaps_to_trans [OF s1 swaps_to_step [where e = "Sw_block i e tok" and t = t]]) (simp_all add: fresh_token_def)
  have run: "swaps_to reveal (snd w) (snd (ce_state (execute_job env manual j (fst w, s1))))" for j
    using swaps_to_trans [OF s1] execute_job_to [OF assms(1), of "(fst w, s1)" manual j] by simp
  show ?thesis
    unfolding claim_and_execute_def Let_def c
    using s1 run by (auto split: option.split sum.split intro!: beat intro: blocked)
qed

text \<open>C19. A cycle of the swap worker, with whatever its adapter and the provider do, is a run of the swap operations - so what holds
  of every run of them holds across cycles, also when the cycle ends in an exception: one swap at a time, the quota, and that
  an uncertain mutation is not retried.\<close>

theorem swap_cycle_is_run:
  assumes "others_swap reveal env" "strip (sv_token env) \<noteq> ''''"
  shows "\<exists>es. steps (swap_step reveal) (snd w) es (snd (ce_state (run_swap_cycle env job manual w)))"
proof -
  let ?w1 = "swap_beat env ''starting'' '''' w"
  define auto intent where "auto = auto_swap_on (snd ?w1)" and "intent = auto_swap_intent (snd ?w1)"
  define prep where "prep = (if sv_configured env then prepare_adapter env manual auto intent ?w1 else Inr ?w1)"
  have s: "swaps_to reveal (snd w) (snd ?w1)" by (rule same_swaps_to) simp
  have p: "case prep of Inl e \<Rightarrow> same_swaps (snd ?w1) (snd (ce_state e)) | Inr w2 \<Rightarrow> same_swaps (snd ?w1) (snd w2)"
    using prepare_same [where env = env and manual = manual and auto = auto and intent = intent and w = ?w1] by (auto simp: prep_def split: sum.splits)
  have after: "same_swaps (snd ?w1) s2 \<Longrightarrow> swaps_to reveal (snd w) s2" for s2
    by (rule swaps_to_trans [OF s same_swaps_to])
  have go: "same_swaps (snd ?w1) (snd w2) \<Longrightarrow> swaps_to reveal (snd w) (snd (ce_state (claim_and_execute env manual job w2)))" for w2
    by (rule swaps_to_trans [OF after claim_and_execute_to [OF assms]])
  have run: "run_swap_cycle env job manual w =
     (if sv_stopped env then cycle_ended w (report ''stopped'' None '''')
      else if (automation_paused (snd ?w1) \<and> \<not> manual) \<or> swap_worker_paused (snd ?w1)
      then cycle_ended (swap_beat env ''paused'' '''' ?w1) (report ''paused'' None '''')
      else if \<not> manual \<and> \<not> auto \<and> \<not> intent then disabled env ?w1
      else case prep of Inl e \<Rightarrow> e | Inr w2 \<Rightarrow> claim_and_execute env manual job w2)"
    by (simp only: run_swap_cycle_def Let_def auto_def intent_def prep_def)
  have "swaps_to reveal (snd w) (snd (ce_state (run_swap_cycle env job manual w)))"
    using p by (cases prep) (simp_all add: run s after go)
  then show ?thesis by (simp add: swaps_to_def)
qed

subsection \<open>The call of the provider\<close>

lemma uncertain_recorded:
  assumes "mark_reconciliation_required t i c tok s = Inr s1"
  shows "\<exists>k \<in> set (rows (jobs s1)). j_id k = i \<and> mutation_swap (j_state k)"
proof -
  obtain j where j: "find_job s i = Some j" "mutation_swap (j_state j)"
    using assms by (auto simp: mark_reconciliation_required_def bindR_Inr_iff guardR_Inr_iff split: option.splits)
  let ?f = "uncertain_row t (safe_code c ''provider_timeout'')"
  have "s1 = pause_auto_swap (update_job i ?f s)"
    using assms unfolding mark_reconciliation_required_def by (auto simp: bindR_Inr_iff split: option.splits)
  then have "?f j \<in> set (rows (jobs s1))" using find_jobD [OF j(1)] by (auto simp: image_iff)
  then show ?thesis using find_jobD [OF j(1)] j(2) by (intro bexI [of _ "?f j"]) (auto simp: uncertain_row_def swap_states)
qed

lemma applied_recorded:
  assumes "mark_provider_applied t i old new addr tok s = Inr s1"
  shows "\<exists>k \<in> set (rows (jobs s1)). j_id k = i \<and> mutation_swap (j_state k)"
  using assms
proof (rule mark_provider_appliedD)
  fix n s2 j
  let ?f = "applied_row t (strip old) (strip (or_empty new)) n"
  assume s1: "s1 = fst (enqueue_sync_run t True (update_job i ?f s2))"
    and s2: "settle_assignments t j (strip old) (strip (or_empty new)) s = Inr s2"
    and j: "find_job s i = Some j" "j_state j = Sw_mutating"
  have "jobs s1 = jobs (update_job i ?f s2)" "jobs s2 = jobs s" using s1 settle_frame [OF s2] by simp_all
  then have "?f j \<in> set (rows (jobs s1))" using find_jobD [OF j(1)] by (auto simp: image_iff)
  then show ?thesis using find_jobD [OF j(1)] j(2) by (intro bexI [of _ "?f j"]) (auto simp: applied_row_def swap_states)
qed

definition outcome_recorded :: "('c, 'z) swap_world_scheme \<Rightarrow> job_row \<Rightarrow> store \<Rightarrow> cycle_end \<Rightarrow> bool" where
  "outcome_recorded env k s e \<longleftrightarrow>
     (\<exists>r. ce_result e = Inr r \<and> sr_status r = ''reconciliation_required''
        \<and> (\<exists>j \<in> set (rows (jobs (snd (ce_state e)))). j_id j = j_id k \<and> mutation_swap (j_state j)))
     \<or> ((\<exists>x. ce_result e = Inl x) \<and> snd (ce_state e) = sv_meanwhile env s)"

lemma failed_recorded:
  assumes "job_failed env True k c (v, sv_meanwhile env s) = (w1, r)"
  shows "outcome_recorded env k s \<lparr>ce_state = w1, ce_call = x, ce_result = r\<rparr>"
  using assms
  by (auto simp: job_failed_def Let_def outcome_recorded_def report_def split: sum.splits dest!: uncertain_recorded)

lemma call_provider_call:
  assumes "ce_call (call_provider env j w) = Some (k, s)"
  shows "s = snd w" "k \<in> set (rows (jobs s))" "j_id k = j_id j" "j_state k = Sw_mutating" "j_token k = j_token j"
    and "outcome_recorded env k s (call_provider env j w)"
proof -
  obtain k' where k': "select_one (\<lambda>k. j_id k = j_id j \<and> j_state k = Sw_mutating \<and> j_token k = j_token j) (jobs (snd w)) = Some k'"
    using assms by (auto simp: call_provider_def split: option.splits prod.splits)
  have ks: "k = k'" "s = snd w"
    using assms by (auto simp: call_provider_def k' Let_def split: sum.splits prod.splits)
  from select_one_SomeD [OF k'] show "s = snd w" "k \<in> set (rows (jobs s))" "j_id k = j_id j" "j_state k = Sw_mutating" "j_token k = j_token j"
    by (simp_all add: ks)
  show "outcome_recorded env k s (call_provider env j w)"
  proof (cases "bindR (sv_call env k) validated_answer")
    case (Inl e)
    then show ?thesis using failed_recorded [of env k e "fst w" s]
      by (simp add: call_provider_def k' ks Let_def split: prod.split)
  next
    case (Inr y)
    obtain old new address where y: "y = (old, new, address)" by (rule prod_cases3)
    show ?thesis
    proof (cases "mark_provider_applied (sv_at env 4) (j_id k) old (Some new) (Some address) (j_token k) (sv_meanwhile env s)")
      case inner: (Inl x)
      then show ?thesis using failed_recorded [of env k "exn_raised x" "fst w" s] Inr
        by (simp add: call_provider_def k' ks Let_def y split: prod.split)
    next
      case inner: (Inr s1)
      show ?thesis using applied_recorded [OF inner] inner Inr
        by (simp add: call_provider_def k' ks Let_def y outcome_recorded_def report_def)
    qed
  qed
qed

text \<open>Only a job that was let through the fence gets to the call.\<close>

lemma execute_job_call:
  assumes "ce_call (execute_job env manual j w) = Some (k, s)"
  obtains s1 d where "swaps_to reveal (snd w) s1"
    "revalidate_swap_job (sv_at env 3) (j_id j) manual (j_token j) True s1 = Inr (s, d)" "d_allowed d"
    "k \<in> set (rows (jobs s))" "j_id k = j_id j" "outcome_recorded env k s (execute_job env manual j w)"
proof -
  obtain s1 d1 where r1: "revalidate_swap_job (sv_at env 2) (j_id j) manual (j_token j) False (snd w) = Inr (s1, d1)" "d_allowed d1"
    using assms by (auto simp: execute_job_def Let_def split: sum.splits prod.splits if_splits)
  have ad: "sv_adapter env j = Inr True"
    using assms r1 by (auto simp: execute_job_def Let_def split: sum.splits prod.splits if_splits)
  obtain s2 d where r2: "revalidate_swap_job (sv_at env 3) (j_id j) manual (j_token j) True s1 = Inr (s2, d)" "d_allowed d"
    using assms r1 ad by (auto simp: execute_job_def Let_def split: sum.splits prod.splits if_splits)
  have run: "execute_job env manual j w = call_provider env j (fst w, s2)"
    using r1 r2 ad by (simp add: execute_job_def Let_def)
  note call = call_provider_call [OF assms [unfolded run]]
  have "swaps_to reveal (snd w) s1" by (rule revalidate_to [OF r1(1)])
  then show thesis using that r2 call run by auto
qed

lemma claim_and_execute_call:
  assumes "ce_call (claim_and_execute env manual job w) = Some c" "strip (sv_token env) \<noteq> ''''"
  obtains j s1 where "swaps_to reveal (snd w) s1" "claim_and_execute env manual job w = execute_job env manual j (fst w, s1)"
proof -
  let ?s = "if \<not> manual \<and> job = None then fst (queue_eligible_swaps (sv_at env 0) 20 None (snd w)) else snd w"
  have q: "swaps_to reveal (snd w) ?s"
    using swaps_to_step [of reveal "Sw_queue 20 None" "sv_at env 0" "snd w"] by (simp add: fresh_token_def)
  obtain s1 r where c: "claim_next_swap (sv_at env 1) (sv_token env) (max 30 (sv_claim_seconds env)) job ?s = (s1, r)"
    by (cases "claim_next_swap (sv_at env 1) (sv_token env) (max 30 (sv_claim_seconds env)) job ?s")
  have s1: "swaps_to reveal (snd w) s1"
    by (rule swaps_to_trans [OF q swaps_to_step [where e = "Sw_claim (sv_token env) (max 30 (sv_claim_seconds env)) job" and t = "sv_at env 1"]])
      (simp_all only: swap_run.simps c fst_conv, simp add: fresh_token_def assms(2))
  obtain j where "claim_and_execute env manual job w = execute_job env manual j (fst w, s1)"
    using assms(1) unfolding claim_and_execute_def Let_def c by (auto split: option.splits sum.splits if_splits)
  then show thesis by (rule that [OF s1])
qed

lemma cycle_call:
  assumes "ce_call (run_swap_cycle env job manual w) = Some c" "strip (sv_token env) \<noteq> ''''"
  obtains j v s1 where "swaps_to reveal (snd w) s1" "run_swap_cycle env job manual w = execute_job env manual j (v, s1)"
proof -
  let ?w1 = "swap_beat env ''starting'' '''' w"
  define auto intent where "auto = auto_swap_on (snd ?w1)" and "intent = auto_swap_intent (snd ?w1)"
  define prep where "prep = (if sv_configured env then prepare_adapter env manual auto intent ?w1 else Inr ?w1)"
  have p: "case prep of Inl e \<Rightarrow> ce_call e = None | Inr w2 \<Rightarrow> same_swaps (snd ?w1) (snd w2)"
    using prepare_same [where env = env and manual = manual and auto = auto and intent = intent and w = ?w1]
    by (auto simp: prep_def split: sum.splits)
  obtain w2 where w2: "prep = Inr w2" "run_swap_cycle env job manual w = claim_and_execute env manual job w2"
    using assms(1) p unfolding run_swap_cycle_def Let_def auto_def [symmetric] intent_def [symmetric] prep_def [symmetric]
    by (cases prep) (auto split: if_splits)
  have "same_swaps (snd w) (snd w2)"
    by (rule same_swaps_trans [OF beat_same]) (use p w2(1) in simp)
  moreover obtain j s1 where "swaps_to reveal (snd w2) s1" "claim_and_execute env manual job w2 = execute_job env manual j (fst w2, s1)"
    using claim_and_execute_call assms w2(2) by metis
  ultimately show thesis using that swaps_to_trans [OF same_swaps_to] w2(2) by metis
qed

lemma swaps_to_ok: "swaps_to reveal s s' \<Longrightarrow> swaps_ok s \<Longrightarrow> swaps_ok s'"
  unfolding swaps_to_def using swaps.steps_inv by blast

text \<open>C18. The provider is called only behind the fence. When a cycle calls it, the database was just before in a state reached by swap
  operations in which the worker was not paused, automatic swaps were allowed (or an operator asked for this job), no other job
  of the subscription was busy and every guard held for the assignment; the job that is handed over is the row as it was fenced,
  in the state 'mutating', with the identities of that assignment and subscription. And the call leaves its trace: the cycle
  reports that a reconciliation is due, with the job in a mutation state, or it ends in an exception and leaves the row as it is.\<close>

theorem provider_called_behind_fence:
  assumes "ce_call (run_swap_cycle env job manual w) = Some (k, s)" "strip (sv_token env) \<noteq> ''''" "swaps_ok (snd w)"
  shows "(\<exists>s1 es x a b. steps (swap_step reveal) (snd w) es s1
      \<and> \<not> swap_worker_paused s1 \<and> (manual \<or> auto_swap_on s1 \<and> \<not> automation_paused s1) \<and> \<not> other_busy s1 (j_sub k) (j_id k)
      \<and> may_swap s1 (sv_at env 3) (max 1 (eligible_threshold s1)) (Some (j_id k)) x a
      \<and> j_old k = Some (a_id a) \<and> find_asg s1 (a_id a) = Some b
      \<and> find_job s (j_id k) = Some k \<and> j_state k = Sw_mutating \<and> j_claimed_until k = None
      \<and> j_mut_old_external k = Some (a_external b) \<and> j_mut_sub_external k = Some (s_external x))
    \<and> outcome_recorded env k s (run_swap_cycle env job manual w)"
proof -
  obtain j v s0 where s0: "swaps_to reveal (snd w) s0" "run_swap_cycle env job manual w = execute_job env manual j (v, s0)"
    using cycle_call [OF assms(1,2)] by metis
  obtain s1 d where s1: "swaps_to reveal s0 s1" "revalidate_swap_job (sv_at env 3) (j_id j) manual (j_token j) True s1 = Inr (s, d)"
      "d_allowed d" and k: "k \<in> set (rows (jobs s))" "j_id k = j_id j" "outcome_recorded env k s (execute_job env manual j (v, s0))"
    using execute_job_call [OF assms(1) [unfolded s0(2)], of reveal] by auto
  have run: "swaps_to reveal (snd w) s1" by (rule swaps_to_trans [OF s0(1) s1(1)])
  have ok: "swaps_ok s1" "swaps_ok s"
    using swaps_to_ok [OF run assms(3)] swaps_to_ok [OF swaps_to_trans [OF run revalidate_to [OF s1(2)]] assms(3)] by auto
  from s1(2,3) show ?thesis
  proof (rule revalidate_enterD)
    fix i x a
    assume i: "find_job s1 (j_id j) = Some i" "j_state i = Sw_running" and g: "\<not> swap_stopped manual s1" "\<not> other_busy s1 (j_sub i) (j_id i)"
      and a: "j_old i = Some (a_id a)" and x: "find_sub s1 (j_sub i) = Some x" "swap_target s1 (j_sub i) (j_old i) = Some a"
      and may: "may_swap s1 (sv_at env 3) (max 1 (eligible_threshold s1)) (Some (j_id j)) x a"
      and enter: "enter_mutation (sv_at env 3) (j_token j) i s1 = Inr s"
    have "\<exists>b. s = s1\<lparr>jobs := update_where (\<lambda>k. j_id k = j_id i \<and> j_state k = Sw_running \<and> j_token k = j_token i)
              (fence_row (sv_at env 3) b x) (jobs s1),
            asgs := update_where (\<lambda>c. a_id c = a_id b \<and> a_sub c = j_sub i) (withdraw_evidence (sv_at env 3)) (asgs s1)\<rparr>
          \<and> find_asg s1 (a_id a) = Some b"
      using enter by (rule enter_mutationD) (use a x(1) in auto)
    then obtain b where b: "jobs s = update_where (\<lambda>k. j_id k = j_id i \<and> j_state k = Sw_running \<and> j_token k = j_token i)
              (fence_row (sv_at env 3) b x) (jobs s1)" "find_asg s1 (a_id a) = Some b" by auto
    have f: "find_job s (j_id j) = Some (fence_row (sv_at env 3) b x i)"
      by (rule fence_result [OF ok(1) i b(1) enter_mutation_moved [OF enter]])
    moreover have fk: "find_job s (j_id j) = Some k" using find_jobI [OF ok(2) k(1)] k(2) by simp
    ultimately have kf: "k = fence_row (sv_at env 3) b x i" by simp
    have fields: "j_id k = j_id j" "j_sub k = j_sub i" "j_old k = j_old i" "j_state k = Sw_mutating" "j_claimed_until k = None"
        "j_mut_old_external k = Some (a_external b)" "j_mut_sub_external k = Some (s_external x)"
      using k(2) by (simp_all add: kf fence_row_def)
    obtain es where es: "steps (swap_step reveal) (snd w) es s1" using run by (auto simp: swaps_to_def)
    have "steps (swap_step reveal) (snd w) es s1 \<and> \<not> swap_worker_paused s1 \<and> (manual \<or> auto_swap_on s1 \<and> \<not> automation_paused s1)
        \<and> \<not> other_busy s1 (j_sub k) (j_id k) \<and> may_swap s1 (sv_at env 3) (max 1 (eligible_threshold s1)) (Some (j_id k)) x a
        \<and> j_old k = Some (a_id a) \<and> find_asg s1 (a_id a) = Some b \<and> find_job s (j_id k) = Some k \<and> j_state k = Sw_mutating
        \<and> j_claimed_until k = None \<and> j_mut_old_external k = Some (a_external b) \<and> j_mut_sub_external k = Some (s_external x)"
      using es g may a b(2) fk fields find_jobD [OF i(1)] by (auto simp: swap_stopped_def)
    then show ?thesis unfolding s0(2) using k(3) by blast
  qed
qed

subsection \<open>A concrete cycle\<close>

definition sample_swap_world :: "string swap_world" where
  "sample_swap_world = \<lparr>sv_stopped = False, sv_configured = False, sv_ready = True, sv_build = None, sv_crypto = sample_crypto,
     sv_renewal = sample_renewal True, sv_site_key = '''', sv_cooldown = 60, sv_restore = (\<lambda>c. None), sv_adapter = (\<lambda>j. Inr True),
     sv_call = (\<lambda>j. Inr (Some (''e1'', ''e3'', ''9.9.9.9:8080''))), sv_meanwhile = (\<lambda>s. s), sv_token = ''w'', sv_claim_seconds = 60,
     sv_now = 10, sv_at = (\<lambda>n. 12), sv_stamp = (\<lambda>t. ''now'')\<rparr>"

text \<open>One open job, asked for by an operator.\<close>

definition open_job :: job_row where
  "open_job = new_swap_job 10 1 (Some 2) 2"

definition pending_sample :: store where
  "pending_sample = swap_sample\<lparr>jobs := \<lparr>rows = [open_job], seq = 2\<rparr>\<rparr>"

definition started_sample :: store where
  "started_sample = snd (swap_beat sample_swap_world ''starting'' '''' (sample_vault, pending_sample))"

definition claimed_job :: job_row where
  "claimed_job = running_row 12 ''w'' 60 open_job"

definition claimed_sample :: store where
  "claimed_sample = started_sample\<lparr>jobs := \<lparr>rows = [claimed_job], seq = 2\<rparr>\<rparr>"

definition sample_cycle :: cycle_end where
  "sample_cycle = run_swap_job sample_swap_world 2 (sample_vault, pending_sample)"

lemma put_settings_only: "\<exists>f. put_settings kvs s = s\<lparr>settings := f\<rparr>"
proof (induction kvs arbitrary: s)
  case (Cons kv kvs)
  obtain f where "put_settings kvs (set_setting (fst kv) (snd kv) s) = (set_setting (fst kv) (snd kv) s)\<lparr>settings := f\<rparr>"
    using Cons.IH by blast
  then show ?case by (cases kv) (auto simp: put_settings_def set_setting_def)
qed (simp add: put_settings_def, metis store.surjective store.update_convs(1))

lemma started_frame: "asgs started_sample = asgs pending_sample" "subs started_sample = subs pending_sample" "jobs started_sample = jobs pending_sample"
proof -
  obtain f where f: "started_sample = pending_sample\<lparr>settings := f\<rparr>"
  proof (cases "record_worker_heartbeat (sv_stamp sample_swap_world) ''swap_worker'' ''starting'' (sv_now sample_swap_world) False '''' None pending_sample")
    case (Inr s)
    obtain kvs where "s = put_settings kvs pending_sample" using heartbeat_puts [OF Inr] by blast
    then show thesis using that put_settings_only [of kvs pending_sample] Inr by (auto simp: started_sample_def swap_beat_def)
  qed (use that [of "settings pending_sample"] in \<open>simp add: started_sample_def swap_beat_def\<close>)
  show "asgs started_sample = asgs pending_sample" "subs started_sample = subs pending_sample" "jobs started_sample = jobs pending_sample"
    unfolding f by simp_all
qed

lemma claimed_fields: "j_id claimed_job = 2" "j_sub claimed_job = 1" "j_old claimed_job = Some 2" "j_state claimed_job = Sw_running"
    "j_token claimed_job = Some ''w''" "j_claimed_until claimed_job = Some (12 + seconds 60)"
  by (simp_all add: claimed_job_def open_job_def running_row_def new_swap_job_def)

lemma sample_swap_claim: "claim_next_swap 12 ''w'' 60 (Some 2) started_sample = (claimed_sample, Some claimed_job)"
  by (simp add: claim_next_swap_def recover_leases_def started_frame pending_sample_def open_job_def new_swap_job_def next_job_def
      claimable_def other_busy_def exists_where_def select_one_def update_job_def find_job_def update_where_def
      claimed_sample_def claimed_job_def running_row_def swap_states)

lemma sample_decision: "d_allowed (revalidated_decision True 12 claimed_job claimed_sample)"
    "d_asg (revalidated_decision True 12 claimed_job claimed_sample) = Some 2"
  by code_simp+

lemma sample_find: "find_job claimed_sample 2 = Some claimed_job" "find_asg claimed_sample 2 = Some (risky_asg 2 ''e2'' 5)"
    "find_sub claimed_sample 1 = Some (swap_sub 1)"
  by (simp_all add: find_job_def find_asg_def find_sub_def select_one_def claimed_sample_def claimed_fields started_frame
      pending_sample_def swap_sample_def empty_store_def risky_asg_def swap_sub_def)

lemma claimed_jobs: "jobs claimed_sample = \<lparr>rows = [claimed_job], seq = 2\<rparr>"
  by (simp add: claimed_sample_def)

lemma sample_enter:
  obtains s d where "revalidate_swap_job 12 2 True (Some ''w'') True claimed_sample = Inr (s, d)" "d_allowed d"
    "jobs s = \<lparr>rows = [fence_row 12 (risky_asg 2 ''e2'' 5) (swap_sub 1) claimed_job], seq = 2\<rparr>"
proof -
  have t: "strip ''d'' = ''d''" "strip ''sub'' = ''sub''" "strip ''e2'' = ''e2''" by code_simp+
  obtain s where e: "enter_mutation 12 (Some ''w'') claimed_job claimed_sample = Inr s"
      "jobs s = \<lparr>rows = [fence_row 12 (risky_asg 2 ''e2'' 5) (swap_sub 1) claimed_job], seq = 2\<rparr>"
    by (simp add: enter_mutation_def Let_def strip_samples t claimed_fields sample_find put_jobs_def claimed_jobs update_where_def
        index_keys_def mutation_keys_def swap_states swap_sub_def risky_asg_def fence_row_def bindR_guardR)
  have "revalidate_swap_job 12 2 True (Some ''w'') True claimed_sample = Inr (s, revalidated_decision True 12 claimed_job claimed_sample)"
    using sample_decision by (simp add: revalidate_swap_job_def sample_find e(1) Let_def strip_samples claim_current_def claimed_fields seconds_def)
  from that [OF this sample_decision(1) e(2)] show thesis .
qed

lemma sample_first: "revalidate_swap_job 12 2 True (Some ''w'') False claimed_sample
    = Inr (claimed_sample, revalidated_decision True 12 claimed_job claimed_sample)"
  using sample_decision by (simp add: revalidate_swap_job_def sample_find Let_def claimed_fields)

lemma call_provider_calls:
  "select_one (\<lambda>k. j_id k = j_id j \<and> j_state k = Sw_mutating \<and> j_token k = j_token j) (jobs (snd w)) = Some k
   \<Longrightarrow> ce_call (call_provider env j w) = Some (k, snd w)"
  by (simp add: call_provider_def Let_def split: sum.split prod.split)

lemma sample_world: "sv_stopped sample_swap_world = False" "sv_configured sample_swap_world = False" "sv_at sample_swap_world n = 12"
    "sv_token sample_swap_world = ''w''" "sv_claim_seconds sample_swap_world = 60" "sv_adapter sample_swap_world j = Inr True"
    "sv_meanwhile sample_swap_world s = s"
  by (simp_all add: sample_swap_world_def)

lemma sample_cycle_call:
  "\<exists>s. ce_call sample_cycle = Some (fence_row 12 (risky_asg 2 ''e2'' 5) (swap_sub 1) claimed_job, s)"
proof -
  have w1: "swap_beat sample_swap_world ''starting'' '''' (sample_vault, pending_sample) = (sample_vault, started_sample)"
    by (rule prod_eqI) (simp_all add: started_sample_def swap_beat_def)
  have open_: "\<not> swap_worker_paused started_sample" by code_simp
  have ctx: "job_context claimed_job claimed_sample" by (simp add: job_context_def claimed_fields sample_find)
  obtain s d where s: "revalidate_swap_job 12 2 True (Some ''w'') True claimed_sample = Inr (s, d)" "d_allowed d"
    "jobs s = \<lparr>rows = [fence_row 12 (risky_asg 2 ''e2'' 5) (swap_sub 1) claimed_job], seq = 2\<rparr>" by (rule sample_enter)
  have "sample_cycle = call_provider sample_swap_world claimed_job (sample_vault, s)"
    by (simp add: sample_cycle_def run_swap_job_def run_swap_cycle_def sample_world w1 Let_def open_ claim_and_execute_def sample_swap_claim ctx
        execute_job_def claimed_fields sample_first sample_decision s)
  moreover have "select_one (\<lambda>k. j_id k = j_id claimed_job \<and> j_state k = Sw_mutating \<and> j_token k = j_token claimed_job) (jobs s)
      = Some (fence_row 12 (risky_asg 2 ''e2'' 5) (swap_sub 1) claimed_job)"
    by (simp add: s(3) select_one_def fence_row_def)
  then have "ce_call (call_provider sample_swap_world claimed_job (sample_vault, s))
      = Some (fence_row 12 (risky_asg 2 ''e2'' 5) (swap_sub 1) claimed_job, s)"
    using call_provider_calls [where env = sample_swap_world and w = "(sample_vault, s)" and j = claimed_job] by simp
  ultimately show ?thesis by metis
qed

lemma sample_token: "strip (sv_token sample_swap_world) \<noteq> ''''"
  by (simp add: sample_world strip_samples)

lemma sample_others: "others_swap open_secret sample_swap_world"
  by (simp add: others_swap_def sample_world)

theorem swap_cycle_is_run_witness:
  "\<exists>es. steps (swap_step open_secret) pending_sample es (snd (ce_state sample_cycle))"
  using swap_cycle_is_run [OF sample_others sample_token, of "(sample_vault, pending_sample)" "Some 2" True]
  by (simp add: sample_cycle_def run_swap_job_def)

theorem provider_called_behind_fence_witness:
  "\<exists>k s. ce_call sample_cycle = Some (k, s) \<and> j_mut_old_external k = Some ''e2'' \<and> find_job s 2 = Some k
     \<and> j_state k = Sw_mutating \<and> outcome_recorded sample_swap_world k s sample_cycle"
proof -
  obtain s where c: "ce_call sample_cycle = Some (fence_row 12 (risky_asg 2 ''e2'' 5) (swap_sub 1) claimed_job, s)"
    using sample_cycle_call by blast
  have "swaps_ok (snd (sample_vault, pending_sample))"
    by (simp add: swaps_ok_def index_keys_def busy_keys_def lineage_ok_def wf_table_def job_ok_def pending_sample_def open_job_def new_swap_job_def
        swap_sample_def empty_store_def swap_states)
  from provider_called_behind_fence [OF c [unfolded sample_cycle_def run_swap_job_def] sample_token this, of open_secret]
  have "find_job s 2 = Some (fence_row 12 (risky_asg 2 ''e2'' 5) (swap_sub 1) claimed_job)"
    "outcome_recorded sample_swap_world (fence_row 12 (risky_asg 2 ''e2'' 5) (swap_sub 1) claimed_job) s sample_cycle"
    by (auto simp: fence_row_def claimed_fields sample_cycle_def run_swap_job_def)
  then show ?thesis using c by (intro exI conjI) (auto simp: fence_row_def risky_asg_def)
qed

end
